(* ===== verification/Prelude.thy ===== *)
theory Prelude
  imports Main "HOL-Library.Word" "HOL-Library.Char_ord" "HOL-Library.List_Lexorder"
    "HOL-Library.Product_Lexorder" "HOL-Library.AList"
begin

text \<open>
  Shared vocabulary of the development: the machine integers of the Rust code, \<open>Result\<close>
  values as sums, the byte-string functions of the Rust standard library the crates call
  (\<open>str\<close> is its UTF-8 byte sequence, so \<open>length\<close> is \<open>str::len\<close> and the order
  of \<open>string\<close> is Rust's byte-wise \<open>Ord\<close>), and generic lemmas on lists and words.
\<close>

named_theorems effect_simps \<open>what an operation does to each observable part of a state\<close>

section \<open>Machine integers\<close>

type_synonym i64 = "64 word"
type_synonym u64 = "64 word"
type_synonym u32 = "32 word"

text \<open>Signed comparison, as Rust compares \<open>i64\<close>.\<close>

definition i64_le :: "i64 \<Rightarrow> i64 \<Rightarrow> bool" where
  "i64_le a b \<longleftrightarrow> sint a \<le> sint b"

definition i64_less :: "i64 \<Rightarrow> i64 \<Rightarrow> bool" where
  "i64_less a b \<longleftrightarrow> sint a < sint b"

text \<open>\<open>saturating_add(1)\<close> on \<open>u32\<close>.\<close>

definition u32_saturating_inc :: "u32 \<Rightarrow> u32" where
  "u32_saturating_inc x = (if x = - 1 then x else x + 1)"

lemma unat_u32_saturating_inc:
  "unat (u32_saturating_inc x) = min (unat x + 1) (2 ^ 32 - 1)"
proof (cases "x = - 1")
  case True
  then show ?thesis
    by (simp add: u32_saturating_inc_def unsigned_minus_1_eq_mask mask_eq_exp_minus_1)
next
  case False
  then have ne: "unat x \<noteq> unat (- 1 :: u32)"
    by (simp only: word_unat_eq_iff [symmetric] not_False_eq_True)
  have "unat x < 2 ^ 32"
    using unsigned_less [of x] by simp
  with ne have lt: "unat x + 1 < 2 ^ 32"
    by (simp add: unsigned_minus_1_eq_mask mask_eq_exp_minus_1)
  then have "unat (x + 1) = unat x + 1"
    using unat_add_lem [of x 1] by simp
  with False lt show ?thesis by (simp add: u32_saturating_inc_def)
qed

lemma unat_u32_inc:
  assumes "x \<noteq> - 1"
  shows "unat (u32_saturating_inc x) = unat x + 1"
proof -
  have "unat x \<noteq> unat (- 1 :: u32)"
    using assms by (simp only: word_unat_eq_iff [symmetric] not_False_eq_True)
  moreover have "unat x < 2 ^ 32" using unsigned_less [of x] by simp
  ultimately show ?thesis
    by (simp add: unat_u32_saturating_inc unsigned_minus_1_eq_mask mask_eq_exp_minus_1)
qed

text \<open>
  An \<open>i64\<close> addition that does not leave the signed range is the addition of the values;
  the release profile of the workspace wraps otherwise.
\<close>

lemma sint_i64_add:
  fixes a b :: i64
  assumes "- (2 ^ 63) \<le> sint a + sint b" and "sint a + sint b < 2 ^ 63"
  shows "sint (a + b) = sint a + sint b"
proof -
  have "sint (a + b) = signed_take_bit 63 (sint a + sint b)"
    by (simp add: sint_word_ariths)
  also have "\<dots> = sint a + sint b"
    using assms by (simp add: signed_take_bit_int_eq_self)
  finally show ?thesis .
qed

lemma sint_of_int_i64: "- (2 ^ 63) \<le> n \<Longrightarrow> n < 2 ^ 63 \<Longrightarrow> sint (word_of_int n :: i64) = n"
  by (simp add: sint_sbintrunc' signed_take_bit_int_eq_self)

lemma sint_i64_bounds:
  fixes a :: i64
  shows "- (2 ^ 63) \<le> sint a" and "sint a < 2 ^ 63"
  using sint_ge [of a] sint_lt [of a] by simp_all

section \<open>Results\<close>

text \<open>\<open>Result<T, E>\<close> is \<open>'e + 'a\<close>: \<open>Inl\<close> is \<open>Err\<close>, \<open>Inr\<close> is \<open>Ok\<close>.\<close>

definition is_ok :: "'e + 'a \<Rightarrow> bool" where
  "is_ok r = (case r of Inl _ \<Rightarrow> False | Inr _ \<Rightarrow> True)"

lemma is_ok_simps [simp]: "\<not> is_ok (Inl e)" "is_ok (Inr a)"
  by (simp_all add: is_ok_def)

definition map_err :: "('e \<Rightarrow> 'f) \<Rightarrow> 'e + 'a \<Rightarrow> 'f + 'a" where
  "map_err f r = (case r of Inl e \<Rightarrow> Inl (f e) | Inr a \<Rightarrow> Inr a)"

lemma map_err_simps [simp]: "map_err f (Inl e) = Inl (f e)" "map_err f (Inr a) = Inr a"
  by (simp_all add: map_err_def)

definition ok_or :: "'e \<Rightarrow> 'a option \<Rightarrow> 'e + 'a" where
  "ok_or e x = (case x of None \<Rightarrow> Inl e | Some a \<Rightarrow> Inr a)"

lemma ok_or_simps [simp]: "ok_or e None = Inl e" "ok_or e (Some a) = Inr a"
  by (simp_all add: ok_or_def)

text \<open>\<open>collect::<Result<Vec<_>, _>>()\<close>: the first error stops the traversal.\<close>

fun collect_results :: "('e + 'a) list \<Rightarrow> 'e + 'a list" where
  "collect_results [] = Inr []"
| "collect_results (Inl e # rs) = Inl e"
| "collect_results (Inr a # rs) =
     (case collect_results rs of Inl e \<Rightarrow> Inl e | Inr as \<Rightarrow> Inr (a # as))"

lemma collect_results_map_Inr [simp]: "collect_results (map (\<lambda>x. Inr (f x)) xs) = Inr (map f xs)"
  by (induction xs) auto

definition unwrap_or :: "'a \<Rightarrow> 'a option \<Rightarrow> 'a" where
  "unwrap_or d x = (case x of None \<Rightarrow> d | Some a \<Rightarrow> a)"

lemma unwrap_or_simps [simp]: "unwrap_or d None = d" "unwrap_or d (Some a) = a"
  by (simp_all add: unwrap_or_def)

definition or_else :: "'a option \<Rightarrow> 'a option \<Rightarrow> 'a option" where
  "or_else x y = (case x of None \<Rightarrow> y | Some a \<Rightarrow> Some a)"

lemma or_else_simps [simp]: "or_else None y = y" "or_else (Some a) y = Some a"
  by (simp_all add: or_else_def)

text \<open>
  What can fail in its surroundings reads the next fault to come: \<open>None\<close>, or no fault left, means
  that it goes well.
\<close>

definition take_fault :: "'f option list \<Rightarrow> 'f option \<times> 'f option list" where
  "take_fault fs = (case fs of [] \<Rightarrow> (None, []) | f # fs' \<Rightarrow> (f, fs'))"

lemma take_fault_simps [simp]: "take_fault [] = (None, [])" "take_fault (f # fs) = (f, fs)"
  by (simp_all add: take_fault_def)

end
