(* ===== verification/Strings.thy ===== *)
theory Strings
  imports Prelude
begin

text \<open>
  The functions of Rust's \<open>str\<close> that the crates use, on UTF-8 byte strings, and the
  facts about them that the components share: substring search, splitting at a separator,
  trimming, ASCII case folding and decimal numbers.
\<close>

text \<open>The double quote.\<close>

abbreviation dquote :: char where "dquote \<equiv> CHR 0x22"

section \<open>Prefixes, suffixes and substrings\<close>

definition starts_with :: "string \<Rightarrow> string \<Rightarrow> bool" where
  "starts_with s pat \<longleftrightarrow> take (length pat) s = pat"

definition strip_prefix :: "string \<Rightarrow> string \<Rightarrow> string option" where
  "strip_prefix s pat = (if starts_with s pat then Some (drop (length pat) s) else None)"

definition ends_with :: "string \<Rightarrow> string \<Rightarrow> bool" where
  "ends_with s pat \<longleftrightarrow> starts_with (rev s) (rev pat)"

definition strip_suffix :: "string \<Rightarrow> string \<Rightarrow> string option" where
  "strip_suffix s pat = (if ends_with s pat then Some (take (length s - length pat) s) else None)"

lemma starts_with_iff: "starts_with s pat \<longleftrightarrow> (\<exists>rest. s = pat @ rest)"
  by (metis append_eq_conv_conj append_take_drop_id starts_with_def)

lemma starts_with_append [simp]: "starts_with (pat @ rest) pat"
  by (simp add: starts_with_def)

lemma starts_with_Nil [simp]: "starts_with s []"
  by (simp add: starts_with_def)

lemma starts_with_Cons [simp]:
  "starts_with (c # s) (p # pat) \<longleftrightarrow> c = p \<and> starts_with s pat"
  "\<not> starts_with [] (p # pat)"
  by (auto simp: starts_with_def)

lemma strip_prefix_eq_Some [simp]: "strip_prefix s pat = Some rest \<longleftrightarrow> s = pat @ rest"
  by (auto simp: strip_prefix_def starts_with_iff)

lemma strip_prefix_append [simp]: "strip_prefix (pat @ rest) pat = Some rest"
  by simp

lemma strip_suffix_eq_Some: "strip_suffix s pat = Some rest \<longleftrightarrow> s = rest @ pat"
proof
  assume "strip_suffix s pat = Some rest"
  then have e: "ends_with s pat" and r: "rest = take (length s - length pat) s"
    by (auto simp: strip_suffix_def split: if_splits)
  from e obtain u where "rev s = rev pat @ u"
    by (auto simp: ends_with_def starts_with_iff)
  then have "s = rev u @ pat"
    by (metis rev_append rev_rev_ident)
  with r show "s = rest @ pat" by simp
next
  assume "s = rest @ pat"
  then show "strip_suffix s pat = Some rest"
    by (simp add: strip_suffix_def ends_with_def starts_with_def)
qed

text \<open>\<open>str::contains\<close>.\<close>

fun contains_sub :: "string \<Rightarrow> string \<Rightarrow> bool" where
  "contains_sub [] pat = (pat = [])"
| "contains_sub (c # s) pat = (starts_with (c # s) pat \<or> contains_sub s pat)"

lemma contains_sub_iff: "contains_sub s pat \<longleftrightarrow> (\<exists>u v. s = u @ pat @ v)"
proof (induction s)
  case Nil
  show ?case by auto
next
  case (Cons c s)
  have "(\<exists>u v. c # s = u @ pat @ v) \<longleftrightarrow>
      (\<exists>v. c # s = pat @ v) \<or> (\<exists>u v. s = u @ pat @ v)"
    by (metis Cons_eq_append_conv append_Cons append_Nil)
  then show ?case
    using Cons by (simp add: starts_with_iff)
qed

lemma contains_sub_mid [intro, simp]: "contains_sub (u @ pat @ v) pat"
  by (auto simp: contains_sub_iff)

lemma contains_sub_appendL: "contains_sub s pat \<Longrightarrow> contains_sub (u @ s) pat"
  by (metis append.assoc contains_sub_iff)

text \<open>\<open>str::split_once\<close> splits at the first occurrence of a non-empty separator.\<close>

fun split_once :: "string \<Rightarrow> string \<Rightarrow> (string \<times> string) option" where
  "split_once [] pat = None"
| "split_once (c # s) pat =
     (if starts_with (c # s) pat then Some ([], drop (length pat) (c # s))
      else map_option (\<lambda>(u, v). (c # u, v)) (split_once s pat))"

lemma split_once_SomeD: "split_once s pat = Some (u, v) \<Longrightarrow> s = u @ pat @ v"
proof (induction s arbitrary: u v)
  case Nil
  then show ?case by simp
next
  case (Cons c s)
  show ?case
  proof (cases "starts_with (c # s) pat")
    case True
    with Cons.prems have "u = []" "v = drop (length pat) (c # s)" by auto
    with True show ?thesis
      by (metis append_Nil append_eq_conv_conj append_take_drop_id starts_with_def)
  next
    case False
    with Cons.prems obtain u' where "split_once s pat = Some (u', v)" "u = c # u'"
      by auto
    with Cons.IH show ?thesis by simp
  qed
qed

lemma split_once_first:
  assumes "\<And>i. i < length u \<Longrightarrow> \<not> starts_with (drop i (u @ pat @ v)) pat" and "pat \<noteq> []"
  shows "split_once (u @ pat @ v) pat = Some (u, v)"
  using assms
proof (induction u)
  case Nil
  from \<open>pat \<noteq> []\<close> obtain p ps where p: "pat = p # ps" by (cases pat) auto
  have "starts_with (p # ps @ v) (p # ps)"
    by (metis append_Cons starts_with_append)
  with p show ?case by simp
next
  case (Cons c u)
  from Cons.prems(1) [of 0] have "\<not> starts_with ((c # u) @ pat @ v) pat" by simp
  moreover have "split_once (u @ pat @ v) pat = Some (u, v)"
  proof (rule Cons.IH)
    fix i
    assume "i < length u"
    with Cons.prems(1) [of "Suc i"] show "\<not> starts_with (drop i (u @ pat @ v)) pat" by simp
  qed (rule Cons.prems)
  ultimately show ?case by simp
qed

section \<open>Trimming\<close>

definition trim_end_slash :: "string \<Rightarrow> string" where
  "trim_end_slash s = rev (dropWhile (\<lambda>c. c = CHR ''/'') (rev s))"

definition trim_start_slash :: "string \<Rightarrow> string" where
  "trim_start_slash s = dropWhile (\<lambda>c. c = CHR ''/'') s"

lemma trim_end_slash_idem [simp]: "trim_end_slash (trim_end_slash s) = trim_end_slash s"
  by (simp add: trim_end_slash_def dropWhile_idem)

lemma trim_end_slash_append [simp]: "trim_end_slash (s @ ''/'') = trim_end_slash s"
  by (simp add: trim_end_slash_def)

lemma trim_start_slash_Cons [simp]: "trim_start_slash (CHR ''/'' # s) = trim_start_slash s"
  by (simp add: trim_start_slash_def)

lemma trim_end_slash_no_slash: "\<not> ends_with (trim_end_slash s) ''/''"
proof -
  have "\<not> starts_with (dropWhile (\<lambda>c. c = CHR ''/'') t) ''/''" for t
    by (induction t) auto
  then show ?thesis by (simp add: ends_with_def trim_end_slash_def)
qed

text \<open>
  \<open>str::trim\<close> removes the code points with the Unicode property White_Space. On the byte
  string, the encodings of these code points are the following; \<open>ws_start\<close> drops one of
  them from the front.
\<close>

definition ascii_ws :: "char \<Rightarrow> bool" where
  "ascii_ws c \<longleftrightarrow> (let n = (of_char c :: nat) in n = 32 \<or> 9 \<le> n \<and> n \<le> 13)"

definition ws2 :: "nat \<Rightarrow> nat \<Rightarrow> bool" where
  "ws2 a b \<longleftrightarrow> a = 194 \<and> (b = 133 \<or> b = 160)"

definition ws3 :: "nat \<Rightarrow> nat \<Rightarrow> nat \<Rightarrow> bool" where
  "ws3 a b c \<longleftrightarrow>
     a = 225 \<and> b = 154 \<and> c = 128
   \<or> a = 226 \<and> b = 128 \<and> (128 \<le> c \<and> c \<le> 138 \<or> c = 168 \<or> c = 169 \<or> c = 175)
   \<or> a = 226 \<and> b = 129 \<and> c = 159
   \<or> a = 227 \<and> b = 128 \<and> c = 128"

fun trim_start :: "string \<Rightarrow> string" where
  "trim_start [] = []"
| "trim_start [a] = (if ascii_ws a then [] else [a])"
| "trim_start [a, b] =
     (if ascii_ws a then trim_start [b]
      else if ws2 (of_char a) (of_char b) then [] else [a, b])"
| "trim_start (a # b # c # s) =
     (if ascii_ws a then trim_start (b # c # s)
      else if ws2 (of_char a) (of_char b) then trim_start (c # s)
      else if ws3 (of_char a) (of_char b) (of_char c) then trim_start s
      else a # b # c # s)"

text \<open>The same from the end, on the reversed string.\<close>

fun trim_end_rev :: "string \<Rightarrow> string" where
  "trim_end_rev [] = []"
| "trim_end_rev [a] = (if ascii_ws a then [] else [a])"
| "trim_end_rev [b, a] =
     (if ascii_ws b then trim_end_rev [a]
      else if ws2 (of_char a) (of_char b) then [] else [b, a])"
| "trim_end_rev (c # b # a # s) =
     (if ascii_ws c then trim_end_rev (b # a # s)
      else if ws2 (of_char b) (of_char c) then trim_end_rev (a # s)
      else if ws3 (of_char a) (of_char b) (of_char c) then trim_end_rev s
      else c # b # a # s)"

definition trim :: "string \<Rightarrow> string" where
  "trim s = rev (trim_end_rev (rev (trim_start s)))"

lemma trim_Nil [simp]: "trim [] = []"
  by (simp add: trim_def)

section \<open>ASCII case\<close>

definition ascii_lower :: "char \<Rightarrow> char" where
  "ascii_lower c = (let n = (of_char c :: nat) in if 65 \<le> n \<and> n \<le> 90 then char_of (n + 32) else c)"

definition ascii_upper :: "char \<Rightarrow> char" where
  "ascii_upper c = (let n = (of_char c :: nat) in if 97 \<le> n \<and> n \<le> 122 then char_of (n - 32) else c)"

definition to_ascii_lowercase :: "string \<Rightarrow> string" where
  "to_ascii_lowercase s = map ascii_lower s"

definition to_ascii_uppercase :: "string \<Rightarrow> string" where
  "to_ascii_uppercase s = map ascii_upper s"

definition eq_ignore_ascii_case :: "string \<Rightarrow> string \<Rightarrow> bool" where
  "eq_ignore_ascii_case s t \<longleftrightarrow> to_ascii_lowercase s = to_ascii_lowercase t"

lemma ascii_lower_idem [simp]: "ascii_lower (ascii_lower c) = ascii_lower c"
  by (simp add: ascii_lower_def Let_def of_char_of [where ?'a = nat])

lemma to_ascii_lowercase_idem [simp]: "to_ascii_lowercase (to_ascii_lowercase s) = to_ascii_lowercase s"
  by (simp add: to_ascii_lowercase_def)

lemma to_ascii_lowercase_append [simp]:
  "to_ascii_lowercase (s @ t) = to_ascii_lowercase s @ to_ascii_lowercase t"
  by (simp add: to_ascii_lowercase_def)

text \<open>A lower-case pattern found in a string is found whatever surrounds it.\<close>

lemma contains_lower_context:
  "contains_sub (to_ascii_lowercase s) pat \<Longrightarrow> contains_sub (to_ascii_lowercase (u @ s @ v)) pat"
  by (auto simp: contains_sub_iff) (metis append.assoc)

section \<open>Decimal numbers\<close>

definition digit :: "nat \<Rightarrow> char" where
  "digit n = char_of (48 + n)"

fun dec :: "nat \<Rightarrow> string" where
  "dec n = (if n < 10 then [digit n] else dec (n div 10) @ [digit (n mod 10)])"

declare dec.simps [simp del]

definition dec_int :: "int \<Rightarrow> string" where
  "dec_int i = (if i < 0 then CHR ''-'' # dec (nat (- i)) else dec (nat i))"

definition digit_value :: "char \<Rightarrow> nat option" where
  "digit_value c = (let n = (of_char c :: nat) in if 48 \<le> n \<and> n \<le> 57 then Some (n - 48) else None)"

fun parse_digits :: "nat \<Rightarrow> string \<Rightarrow> nat option" where
  "parse_digits acc [] = Some acc"
| "parse_digits acc (c # s) =
     (case digit_value c of None \<Rightarrow> None | Some d \<Rightarrow> parse_digits (10 * acc + d) s)"

definition parse_nat :: "string \<Rightarrow> nat option" where
  "parse_nat s = (if s = [] then None else parse_digits 0 s)"

text \<open>
  \<open>str::parse::<i64>\<close>: an optional sign, at least one digit, in range; \<open>str::parse::<u32>\<close>
  accepts a leading \<open>+\<close> only.
\<close>

definition parse_i64 :: "string \<Rightarrow> i64 option" where
  "parse_i64 s =
     (case s of
        [] \<Rightarrow> None
      | c # cs \<Rightarrow>
          (if c = CHR ''-'' then
             (case parse_nat cs of
                None \<Rightarrow> None
              | Some n \<Rightarrow> if int n \<le> 2 ^ 63 then Some (word_of_int (- int n)) else None)
           else
             (case parse_nat (if c = CHR ''+'' then cs else s) of
                None \<Rightarrow> None
              | Some n \<Rightarrow> if int n < 2 ^ 63 then Some (word_of_int (int n)) else None)))"

definition parse_u32 :: "string \<Rightarrow> u32 option" where
  "parse_u32 s =
     (case s of
        [] \<Rightarrow> None
      | c # cs \<Rightarrow>
          (case parse_nat (if c = CHR ''+'' then cs else s) of
             None \<Rightarrow> None
           | Some n \<Rightarrow> if n < 2 ^ 32 then Some (word_of_nat n) else None))"

lemma digit_value_digit [simp]: "n < 10 \<Longrightarrow> digit_value (digit n) = Some n"
  by (simp add: digit_value_def digit_def Let_def of_char_of [where ?'a = nat])

lemma parse_digits_append:
  "parse_digits acc (s @ t) =
     (case parse_digits acc s of None \<Rightarrow> None | Some a \<Rightarrow> parse_digits a t)"
  by (induction s arbitrary: acc) (auto split: option.splits)

lemma parse_digits_dec: "parse_digits 0 (dec n) = Some n"
proof (induction n rule: dec.induct)
  case (1 n)
  show ?case
  proof (cases "n < 10")
    case True
    then show ?thesis by (subst dec.simps) simp
  next
    case False
    with 1 have "parse_digits 0 (dec (n div 10)) = Some (n div 10)" by simp
    with False show ?thesis
      by (subst dec.simps) (simp add: parse_digits_append)
  qed
qed

lemma dec_not_Nil [simp]: "dec n \<noteq> []"
  by (subst dec.simps) simp

lemma parse_nat_dec [simp]: "parse_nat (dec n) = Some n"
  by (simp add: parse_nat_def parse_digits_dec)

lemma inj_dec: "dec m = dec n \<longleftrightarrow> m = n"
  by (metis option.inject parse_nat_dec)

text \<open>\<open>[String]::join\<close>.\<close>

fun join :: "string \<Rightarrow> string list \<Rightarrow> string" where
  "join sep [] = []"
| "join sep [x] = x"
| "join sep (x # y # xs) = x @ sep @ join sep (y # xs)"

end
