(* ===== verification/Contract.thy ===== *)
theory Contract
  imports Strings
begin

text \<open>
  \<open>crates/polybase/src/contract.rs\<close>: the frozen constants and pure helpers of the sync
  contract. Versions and timestamps are \<open>i64\<close>; additions wrap, as in the release profile.
\<close>

section \<open>Constants\<close>

definition INITIAL_VERSION :: i64 where "INITIAL_VERSION = 1"
definition STANDARD_MUTATION_VERSION_STEP :: i64 where "STANDARD_MUTATION_VERSION_STEP = 1"
definition UNDELETE_VERSION_DELTA :: i64 where "UNDELETE_VERSION_DELTA = 1000"
definition MONOTONIC_QUEUE_TIMESTAMP_BUMP_MICROS :: i64 where
  "MONOTONIC_QUEUE_TIMESTAMP_BUMP_MICROS = 1"

definition RECONNECT_DEBOUNCE_SECS :: nat where "RECONNECT_DEBOUNCE_SECS = 2"
definition ENQUEUE_COALESCE_MS :: nat where "ENQUEUE_COALESCE_MS = 250"
definition FORWARD_PROGRESS_RETRY_MS :: nat where "FORWARD_PROGRESS_RETRY_MS = 100"
definition RECONNECT_BACKOFF_LADDER_SECS :: "nat list" where
  "RECONNECT_BACKOFF_LADDER_SECS = [2, 5, 10, 30, 60, 120]"
definition ECHO_EXPIRY_WINDOW_SECS :: nat where "ECHO_EXPIRY_WINDOW_SECS = 5"

definition STRING_ENCRYPTION_PREFIX :: string where "STRING_ENCRYPTION_PREFIX = ''enc:''"
definition BINARY_ENCRYPTION_HEADER :: "8 word list" where
  "BINARY_ENCRYPTION_HEADER = [0x45, 0x4E, 0x43, 0x00]"

definition HKDF_INFO :: string where "HKDF_INFO = ''supabase-encryption''"

definition SAME_VERSION_MUTATION_MARKER :: string where
  "SAME_VERSION_MUTATION_MARKER = ''same-version mutation''"
definition VERSION_REGRESSION_MARKER :: string where
  "VERSION_REGRESSION_MARKER = ''version regression''"

section \<open>Pure helpers\<close>

definition undelete_minimum_version :: "i64 \<Rightarrow> i64" where
  "undelete_minimum_version remote_version = remote_version + UNDELETE_VERSION_DELTA"

definition local_winner_merged_version :: "i64 \<Rightarrow> i64 \<Rightarrow> i64" where
  "local_winner_merged_version local_version remote_version =
     (if i64_le remote_version local_version then local_version + STANDARD_MUTATION_VERSION_STEP
      else remote_version + STANDARD_MUTATION_VERSION_STEP)"

definition next_queued_at_micros :: "i64 option \<Rightarrow> i64 \<Rightarrow> i64" where
  "next_queued_at_micros last_queued_at candidate =
     (case last_queued_at of
        Some l \<Rightarrow>
          (if i64_le candidate l then l + MONOTONIC_QUEUE_TIMESTAMP_BUMP_MICROS else candidate)
      | None \<Rightarrow> candidate)"

definition reconnect_backoff_seconds :: "u32 \<Rightarrow> nat" where
  "reconnect_backoff_seconds consecutive_failures =
     (let index = unat consecutive_failures - 1;
          lst = length RECONNECT_BACKOFF_LADDER_SECS - 1;
          clamped = (if index \<ge> length RECONNECT_BACKOFF_LADDER_SECS then lst else index)
      in RECONNECT_BACKOFF_LADDER_SECS ! clamped)"

definition echo_tracker_key :: "string \<Rightarrow> string \<Rightarrow> string" where
  "echo_tracker_key table entity_id = table @ '':'' @ entity_id"

definition is_same_version_mutation_message :: "string \<Rightarrow> bool" where
  "is_same_version_mutation_message message =
     contains_sub (to_ascii_lowercase message) SAME_VERSION_MUTATION_MARKER"

definition is_version_regression_message :: "string \<Rightarrow> bool" where
  "is_version_regression_message message =
     contains_sub (to_ascii_lowercase message) VERSION_REGRESSION_MARKER"

definition queue_dedupe_key :: "string \<Rightarrow> string \<Rightarrow> string \<times> string" where
  "queue_dedupe_key table entity_id = (table, entity_id)"

definition attachment_storage_path :: "string \<Rightarrow> string \<Rightarrow> string \<Rightarrow> string \<Rightarrow> string" where
  "attachment_storage_path user_id conversation_id attachment_id extension =
     user_id @ ''/'' @ conversation_id @ ''/'' @ attachment_id @ ''.'' @ extension"

datatype ReconcileAction = AdoptTombstone | Pull | Push | Skip

definition determine_reconcile_action :: "i64 \<Rightarrow> bool \<Rightarrow> i64 \<Rightarrow> bool \<Rightarrow> ReconcileAction" where
  "determine_reconcile_action local_version local_deleted remote_version remote_deleted =
     (if remote_deleted \<and> \<not> local_deleted then
        (if i64_le (undelete_minimum_version remote_version) local_version then Push
         else AdoptTombstone)
      else if local_deleted \<and> \<not> remote_deleted then Push
      else if i64_less local_version remote_version then Pull
      else if i64_less remote_version local_version then Push
      else Skip)"

section \<open>Queue finalisation\<close>

record ContractOperation =
  co_table :: string
  co_entity_id :: string
  co_queued_at_micros :: i64

definition co_key :: "ContractOperation \<Rightarrow> string \<times> string" where
  "co_key op = (co_table op, co_entity_id op)"

text \<open>\<open>HashMap\<close> collected from an iterator: a later pair replaces an earlier one.\<close>

definition collect_map :: "('k \<times> 'v) list \<Rightarrow> ('k \<rightharpoonup> 'v)" where
  "collect_map kvs = map_of (rev kvs)"

text \<open>The loop over \<open>failed\<close>: \<open>HashSet::insert\<close> answers whether the key was new.\<close>

fun readd_failed ::
  "(string \<times> string) set \<Rightarrow> ContractOperation list \<Rightarrow> ContractOperation list" where
  "readd_failed retained_keys [] = []"
| "readd_failed retained_keys (op # failed) =
     (if co_key op \<in> retained_keys then readd_failed retained_keys failed
      else op # readd_failed (insert (co_key op) retained_keys) failed)"

definition finalize_queue_after_processing ::
  "ContractOperation list \<Rightarrow> ContractOperation list \<Rightarrow> ContractOperation list
   \<Rightarrow> ContractOperation list" where
  "finalize_queue_after_processing current snapshot failed =
     (let snapshot_queued_at_by_key =
            collect_map (map (\<lambda>op. (co_key op, co_queued_at_micros op)) snapshot);
          retained = filter (\<lambda>op. case snapshot_queued_at_by_key (co_key op) of
                        None \<Rightarrow> True
                      | Some at \<Rightarrow> at \<noteq> co_queued_at_micros op) current
      in retained @ readd_failed (co_key ` set retained) failed)"

section \<open>Versions\<close>

text \<open>Away from the top of the range the threshold is the remote version plus 1000.\<close>

lemma sint_undelete_minimum_version:
  "sint v + 1000 < 2 ^ 63 \<Longrightarrow> sint (undelete_minimum_version v) = sint v + 1000"
  using sint_i64_bounds [of v]
  by (simp add: undelete_minimum_version_def UNDELETE_VERSION_DELTA_def sint_i64_add)

lemma sint_local_winner_merged_version:
  assumes "sint l < 2 ^ 63 - 1" and "sint r < 2 ^ 63 - 1"
  shows "sint (local_winner_merged_version l r) = max (sint l) (sint r) + 1"
  using assms sint_i64_bounds [of l] sint_i64_bounds [of r]
  by (simp add: local_winner_merged_version_def STANDARD_MUTATION_VERSION_STEP_def i64_le_def
      sint_i64_add max_def)

lemma sint_next_queued_at:
  assumes "sint l < 2 ^ 63 - 1"
  shows "sint (next_queued_at_micros (Some l) c) = max (sint c) (sint l + 1)"
  using assms sint_i64_bounds [of l]
  by (auto simp: next_queued_at_micros_def MONOTONIC_QUEUE_TIMESTAMP_BUMP_MICROS_def i64_le_def
      sint_i64_add)

section \<open>Backoff\<close>

lemma backoff_index:
  "reconnect_backoff_seconds n = RECONNECT_BACKOFF_LADDER_SECS ! min (unat n - 1) 5"
  by (simp add: reconnect_backoff_seconds_def RECONNECT_BACKOFF_LADDER_SECS_def Let_def min_def)

lemma ladder_sorted: "sorted RECONNECT_BACKOFF_LADDER_SECS"
  by (simp add: RECONNECT_BACKOFF_LADDER_SECS_def)

lemma backoff_mono:
  assumes "unat m \<le> unat n"
  shows "reconnect_backoff_seconds m \<le> reconnect_backoff_seconds n"
proof -
  have "min (unat m - 1) 5 \<le> min (unat n - 1) 5" using assms by simp
  then show ?thesis
    unfolding backoff_index
    by (rule sorted_nth_mono [OF ladder_sorted]) (simp add: RECONNECT_BACKOFF_LADDER_SECS_def)
qed

lemma backoff_in_ladder: "reconnect_backoff_seconds n \<in> set RECONNECT_BACKOFF_LADDER_SECS"
  unfolding backoff_index
  by (rule nth_mem) (simp add: RECONNECT_BACKOFF_LADDER_SECS_def)

section \<open>Classifiers\<close>

lemma message_markers_context:
  "is_same_version_mutation_message m \<Longrightarrow> is_same_version_mutation_message (u @ m @ v)"
  "is_version_regression_message m \<Longrightarrow> is_version_regression_message (u @ m @ v)"
  unfolding is_same_version_mutation_message_def is_version_regression_message_def
  by (rule contains_lower_context; assumption)+

section \<open>Finalisation\<close>

lemma collect_map_distinct:
  assumes "distinct (map fst kvs)"
  shows "collect_map kvs = map_of kvs"
proof -
  have "distinct (map fst (rev kvs))" using assms by (simp add: rev_map [symmetric])
  then show ?thesis
    using assms map_of_inject_set [of "rev kvs" kvs] by (simp add: collect_map_def)
qed

lemma collect_map_SomeD: "collect_map kvs k = Some v \<Longrightarrow> (k, v) \<in> set kvs"
  by (auto simp: collect_map_def dest: map_of_SomeD)

lemma collect_map_None: "collect_map kvs k = None \<longleftrightarrow> k \<notin> fst ` set kvs"
  by (simp add: collect_map_def map_of_eq_None_iff)

lemma set_readd_failed: "set (readd_failed K f) \<subseteq> set f"
  by (induction K f rule: readd_failed.induct) auto

lemma keys_readd_failed: "co_key ` set (readd_failed K f) = co_key ` set f - K"
  by (induction K f rule: readd_failed.induct) auto

lemma distinct_readd_failed: "distinct (map co_key (readd_failed K f))"
proof (induction K f rule: readd_failed.induct)
  case (1 K)
  show ?case by simp
next
  case (2 K op f)
  then show ?case
    using keys_readd_failed [of "insert (co_key op) K" f] by (auto simp: image_iff)
qed

lemma readd_failed_distinct:
  "distinct (map co_key f) \<Longrightarrow> readd_failed K f = filter (\<lambda>op. co_key op \<notin> K) f"
proof (induction f arbitrary: K)
  case Nil
  show ?case by simp
next
  case (Cons op f)
  then have "filter (\<lambda>x. co_key x \<noteq> co_key op \<and> co_key x \<notin> K) f = filter (\<lambda>x. co_key x \<notin> K) f"
    by (intro filter_cong) (auto simp: image_iff)
  with Cons show ?case by (auto simp: conj_commute)
qed

text \<open>An operation is covered by a snapshot when the snapshot holds its key and timestamp.\<close>

definition stamp :: "ContractOperation \<Rightarrow> (string \<times> string) \<times> i64" where
  "stamp op = (co_key op, co_queued_at_micros op)"

definition snapshot_map :: "ContractOperation list \<Rightarrow> (string \<times> string) \<rightharpoonup> i64" where
  "snapshot_map snapshot = collect_map (map stamp snapshot)"

definition superseding :: "ContractOperation list \<Rightarrow> ContractOperation list \<Rightarrow> ContractOperation list" where
  "superseding current snapshot =
     filter (\<lambda>op. snapshot_map snapshot (co_key op) \<noteq> Some (co_queued_at_micros op)) current"

lemma finalize_alt:
  "finalize_queue_after_processing current snapshot failed =
     superseding current snapshot
     @ readd_failed (co_key ` set (superseding current snapshot)) failed"
proof -
  have "(case m k of None \<Rightarrow> True | Some at \<Rightarrow> at \<noteq> a) \<longleftrightarrow> m k \<noteq> Some a"
    for m :: "(string \<times> string) \<rightharpoonup> i64" and k a
    by (auto split: option.splits)
  then show ?thesis
    by (simp add: finalize_queue_after_processing_def superseding_def snapshot_map_def
        stamp_def [abs_def] Let_def)
qed

lemma snapshot_map_distinct:
  assumes "distinct (map co_key snapshot)"
  shows "snapshot_map snapshot k = Some a \<longleftrightarrow> (k, a) \<in> stamp ` set snapshot"
proof -
  have d: "distinct (map fst (map stamp snapshot))"
    using assms by (simp add: stamp_def comp_def)
  show ?thesis
    using d by (simp add: snapshot_map_def collect_map_distinct)
qed

lemma set_superseding:
  assumes "distinct (map co_key snapshot)"
  shows "set (superseding current snapshot) = {op \<in> set current. stamp op \<notin> stamp ` set snapshot}"
  using snapshot_map_distinct [OF assms] by (auto simp: superseding_def stamp_def)

lemma distinct_finalize:
  assumes "distinct (map co_key current)"
  shows "distinct (map co_key (finalize_queue_after_processing current snapshot failed))"
proof -
  have "distinct (map co_key (superseding current snapshot))"
    using assms by (simp add: superseding_def distinct_map_filter)
  then show ?thesis
    using distinct_readd_failed keys_readd_failed by (auto simp: finalize_alt)
qed

lemma set_finalize:
  assumes "distinct (map co_key snapshot)" and "distinct (map co_key failed)"
  shows "set (finalize_queue_after_processing current snapshot failed) =
     {op \<in> set current. stamp op \<notin> stamp ` set snapshot}
     \<union> {op \<in> set failed. co_key op \<notin> co_key ` {op \<in> set current. stamp op \<notin> stamp ` set snapshot}}"
  using assms by (auto simp: finalize_alt readd_failed_distinct set_superseding)

section \<open>Properties\<close>

text \<open>
  C27: queue finalisation keeps what must be kept. With one entry per key in the queue, the
  snapshot and the failures: an operation that arrived while the batch was processed (its key or
  its timestamp is not in the snapshot) stays; a completed snapshot operation goes; a failed one
  stays unless a newer operation for its key arrived; and keys stay unique.
\<close>

theorem finalize_queue_spec:
  assumes "distinct (map co_key current)" and "distinct (map co_key snapshot)"
    and "distinct (map co_key failed)"
  shows "set (finalize_queue_after_processing current snapshot failed) =
       {op \<in> set current. stamp op \<notin> stamp ` set snapshot}
       \<union> {op \<in> set failed. co_key op \<notin> co_key ` {op \<in> set current. stamp op \<notin> stamp ` set snapshot}}
     \<and> distinct (map co_key (finalize_queue_after_processing current snapshot failed))"
  using set_finalize [OF assms(2,3)] distinct_finalize [OF assms(1)] by simp

definition sample_co :: "string \<Rightarrow> string \<Rightarrow> i64 \<Rightarrow> ContractOperation" where
  "sample_co table i at = \<lparr>co_table = table, co_entity_id = i, co_queued_at_micros = at\<rparr>"

theorem finalize_queue_spec_witness:
  "set (finalize_queue_after_processing
       [sample_co ''m'' ''1'' 1, sample_co ''m'' ''2'' 9, sample_co ''m'' ''3'' 3]
       [sample_co ''m'' ''1'' 1, sample_co ''m'' ''2'' 2, sample_co ''m'' ''3'' 3]
       [sample_co ''m'' ''2'' 2, sample_co ''m'' ''3'' 3])
   = {sample_co ''m'' ''2'' 9, sample_co ''m'' ''3'' 3}"
proof -
  let ?cur = "[sample_co ''m'' ''1'' 1, sample_co ''m'' ''2'' 9, sample_co ''m'' ''3'' 3]"
  let ?snap = "[sample_co ''m'' ''1'' 1, sample_co ''m'' ''2'' 2, sample_co ''m'' ''3'' 3]"
  let ?failed = "[sample_co ''m'' ''2'' 2, sample_co ''m'' ''3'' 3]"
  have d: "distinct (map co_key ?cur)" "distinct (map co_key ?snap)" "distinct (map co_key ?failed)"
    by (simp_all add: co_key_def sample_co_def)
  have new: "{op \<in> set ?cur. stamp op \<notin> stamp ` set ?snap} = {sample_co ''m'' ''2'' 9}"
    unfolding set_filter [symmetric] by (simp add: stamp_def co_key_def sample_co_def)
  have old: "{op \<in> set ?failed. co_key op \<notin> co_key ` {sample_co ''m'' ''2'' 9}} = {sample_co ''m'' ''3'' 3}"
    unfolding set_filter [symmetric] by (simp add: co_key_def sample_co_def)
  from finalize_queue_spec [OF d] show ?thesis unfolding new old by (simp only: insert_is_Un [symmetric])
qed

text \<open>The timestamps a client hands out when it reads the clock several times.\<close>

fun queued_at_run :: "i64 option \<Rightarrow> i64 list \<Rightarrow> i64 list" where
  "queued_at_run lst [] = []"
| "queued_at_run lst (c # cs) =
     (let at = next_queued_at_micros lst c in at # queued_at_run (Some at) cs)"

lemma queued_at_run_mono:
  assumes "sint l + int (length cs) < 2 ^ 63 - 1" and "\<And>c. c \<in> set cs \<Longrightarrow> sint c + int (length cs) < 2 ^ 63 - 1"
  shows "sorted_wrt (\<lambda>a b. sint a < sint b) (l # queued_at_run (Some l) cs)"
  using assms
proof (induction cs arbitrary: l)
  case Nil
  then show ?case by simp
next
  case (Cons c cs)
  let ?at = "next_queued_at_micros (Some l) c"
  have at: "sint ?at = max (sint c) (sint l + 1)"
    by (rule sint_next_queued_at) (use Cons.prems(1) in simp)
  have c: "sint c + int (length cs) + 1 < 2 ^ 63 - 1" using Cons.prems(2) [of c] by simp
  have "sorted_wrt (\<lambda>a b. sint a < sint b) (?at # queued_at_run (Some ?at) cs)"
  proof (rule Cons.IH)
    show "sint ?at + int (length cs) < 2 ^ 63 - 1"
      using Cons.prems(1) c unfolding at by (simp add: max_def)
    show "sint c' + int (length cs) < 2 ^ 63 - 1" if "c' \<in> set cs" for c'
      using Cons.prems(2) [of c'] that by simp
  qed
  moreover have "sint l < sint ?at" unfolding at by simp
  ultimately show ?case by (auto simp: Let_def intro: less_trans)
qed

text \<open>
  Queue timestamps are strictly monotone. Whatever the wall clock answers (standing still or
  going back), the timestamps handed out by \<open>next_queued_at_micros\<close> increase strictly, as
  long as the readings stay away from the top of the \<open>i64\<close> range.
\<close>

theorem queued_at_strictly_monotone:
  assumes "\<And>c. c \<in> set (c0 # cs) \<Longrightarrow> sint c + int (length cs) < 2 ^ 63 - 1"
  shows "sorted_wrt (\<lambda>a b. sint a < sint b) (queued_at_run None (c0 # cs))"
proof -
  have "queued_at_run None (c0 # cs) = c0 # queued_at_run (Some c0) cs"
    by (simp add: next_queued_at_micros_def Let_def)
  then show ?thesis using queued_at_run_mono [of c0 cs] assms by simp
qed

theorem queued_at_strictly_monotone_witness:
  "sorted_wrt (\<lambda>a b. sint a < sint b) (queued_at_run None [100, 100, 50, 102])"
proof -
  have "sint c + int (length [100, 50, 102 :: i64]) < 2 ^ 63 - 1"
    if "c \<in> set (100 # [100, 50, 102 :: i64])" for c :: i64
    using that by auto
  then show ?thesis by (rule queued_at_strictly_monotone)
qed

text \<open>
  Why the timestamps must differ. An operation enqueued while the batch runs with the
  timestamp of the snapshot entry of its key is taken for that entry: when the batch succeeds it
  is dropped.
\<close>

theorem finalize_same_timestamp_dropped:
  assumes "distinct (map co_key snapshot)" and "op \<in> set snapshot"
    and "new \<in> set current" and "stamp new = stamp op" and "distinct (map co_key current)"
  shows "co_key new \<notin> co_key ` set (finalize_queue_after_processing current snapshot [])"
proof -
  have "set (finalize_queue_after_processing current snapshot []) =
      {x \<in> set current. stamp x \<notin> stamp ` set snapshot}"
    using set_finalize [OF assms(1), of "[]"] by simp
  moreover have "x = new" if "x \<in> set current" "co_key x = co_key new" for x
    using that assms(3,5) by (metis distinct_map inj_onD)
  moreover have "stamp new \<in> stamp ` set snapshot" using assms(2,4) by (metis imageI)
  ultimately show ?thesis by auto
qed

theorem finalize_same_timestamp_dropped_witness:
  "(''m'', ''1'') \<notin> co_key ` set (finalize_queue_after_processing [sample_co ''m'' ''1'' 5] [sample_co ''m'' ''1'' 5] [])"
  using finalize_same_timestamp_dropped
    [of "[sample_co ''m'' ''1'' 5]" "sample_co ''m'' ''1'' 5" "sample_co ''m'' ''1'' 5" "[sample_co ''m'' ''1'' 5]"]
  by (simp add: co_key_def sample_co_def)

end
