(* ===== verification/Reducer.thy ===== *)
theory Reducer
  imports Contract
begin

text \<open>
  \<open>crates/polybase/src/sync/reducer.rs\<close>: the pure scheduling state machine of the offline
  queue. A \<open>Duration\<close> is a number of milliseconds; \<open>consecutive_failures\<close> is a
  saturating \<open>u32\<close>. The properties are the gate (no replay is scheduled while one of the
  four gates is closed), the absence of lost wake-ups over every run, and the backoff ladder.
\<close>

record ReducerState =
  is_connected :: bool
  is_signed_in :: bool
  is_processing :: bool
  has_pending :: bool
  consecutive_failures :: u32

definition reducer_default :: ReducerState where
  "reducer_default =
     \<lparr>is_connected = True, is_signed_in = True, is_processing = False, has_pending = False,
      consecutive_failures = 0\<rparr>"

datatype ReducerEvent =
    AppLaunched bool
  | ConnectivityChanged bool
  | AuthStateChanged bool
  | OfflineOperationEnqueued
  | OfflineQueueProcessingStarted
  | OfflineQueueProcessed nat bool

datatype ReducerEffect = Schedule nat | ProcessNow

definition from_secs :: "nat \<Rightarrow> nat" where "from_secs s = 1000 * s"
definition from_millis :: "nat \<Rightarrow> nat" where "from_millis ms = ms"

fun reducer_step :: "ReducerState \<Rightarrow> ReducerEvent \<Rightarrow> ReducerState \<times> ReducerEffect list" where
  "reducer_step s (AppLaunched pending) =
     (let next = s\<lparr>has_pending := pending\<rparr>
      in if \<not> pending \<or> \<not> is_connected next \<or> \<not> is_signed_in next \<or> is_processing next
         then (next, [])
         else (next, [Schedule 0]))"
| "reducer_step s (ConnectivityChanged connected) =
     (let was_connected = is_connected s;
          next = s\<lparr>is_connected := connected\<rparr>
      in if \<not> connected \<or> was_connected then (next, [])
         else if \<not> has_pending next \<or> \<not> is_signed_in next \<or> is_processing next then (next, [])
         else (next, [Schedule (from_secs RECONNECT_DEBOUNCE_SECS)]))"
| "reducer_step s (AuthStateChanged signed_in) =
     (let was_signed_in = is_signed_in s;
          next = s\<lparr>is_signed_in := signed_in\<rparr>
      in if \<not> signed_in \<or> was_signed_in then (next, [])
         else if \<not> has_pending next \<or> \<not> is_connected next \<or> is_processing next then (next, [])
         else (next, [Schedule 0]))"
| "reducer_step s OfflineOperationEnqueued =
     (let next = s\<lparr>has_pending := True\<rparr>
      in if \<not> is_connected next \<or> \<not> is_signed_in next \<or> is_processing next then (next, [])
         else (next, [Schedule (from_millis ENQUEUE_COALESCE_MS)]))"
| "reducer_step s OfflineQueueProcessingStarted = (s\<lparr>is_processing := True\<rparr>, [])"
| "reducer_step s (OfflineQueueProcessed processed_count still_has_pending) =
     (let next = s\<lparr>is_processing := False, has_pending := still_has_pending\<rparr>
      in if \<not> still_has_pending then (next\<lparr>consecutive_failures := 0\<rparr>, [])
         else
           (let next =
                  (if processed_count > 0 then next\<lparr>consecutive_failures := 0\<rparr>
                   else next\<lparr>consecutive_failures :=
                               u32_saturating_inc (consecutive_failures next)\<rparr>)
            in if \<not> is_connected next \<or> \<not> is_signed_in next then (next, [])
               else if processed_count > 0
               then (next, [Schedule (from_millis FORWARD_PROGRESS_RETRY_MS)])
               else (next, [Schedule (from_secs
                              (reconnect_backoff_seconds (consecutive_failures next)))])))"

section \<open>The gate\<close>

definition gate_open :: "ReducerState \<Rightarrow> bool" where
  "gate_open s \<longleftrightarrow> has_pending s \<and> is_connected s \<and> is_signed_in s \<and> \<not> is_processing s"

text \<open>The events that can open a gate, and the delay each asks for.\<close>

fun opening_delay :: "ReducerState \<Rightarrow> ReducerEvent \<Rightarrow> nat option" where
  "opening_delay s (AppLaunched p) = (if p then Some 0 else None)"
| "opening_delay s (ConnectivityChanged c) =
     (if c \<and> \<not> is_connected s then Some 2000 else None)"
| "opening_delay s (AuthStateChanged a) = (if a \<and> \<not> is_signed_in s then Some 0 else None)"
| "opening_delay s OfflineOperationEnqueued = Some 250"
| "opening_delay s OfflineQueueProcessingStarted = None"
| "opening_delay s (OfflineQueueProcessed n p) =
     (if \<not> p then None
      else if n > 0 then Some 100
      else Some (1000 * reconnect_backoff_seconds (u32_saturating_inc (consecutive_failures s))))"

lemmas reducer_consts =
  from_secs_def from_millis_def RECONNECT_DEBOUNCE_SECS_def ENQUEUE_COALESCE_MS_def
  FORWARD_PROGRESS_RETRY_MS_def

lemma step_effects:
  "snd (reducer_step s e) =
     (case opening_delay s e of
        None \<Rightarrow> []
      | Some d \<Rightarrow> if gate_open (fst (reducer_step s e)) then [Schedule d] else [])"
  by (cases e) (auto simp: Let_def gate_open_def reducer_consts)

lemma step_opens_gate:
  "gate_open (fst (reducer_step s e)) \<Longrightarrow> \<not> gate_open s \<Longrightarrow> snd (reducer_step s e) \<noteq> []"
  by (cases e) (auto simp: Let_def gate_open_def split: if_splits)

text \<open>
  C11: the gate cascade, exactly. A step emits an effect precisely when its event is one that
  asks for a replay (launch with work, regained connectivity or sign-in, an enqueue, a drain
  that left work behind) and all four gates of the new state are open; the effect is then one
  \<open>Schedule\<close> with the delay of that event (0, 2 s, 0, 250 ms, 100 ms or the backoff
  ladder), and \<open>ProcessNow\<close> is never emitted.
\<close>

theorem reducer_gate_exact:
  "snd (reducer_step s e) =
     (case opening_delay s e of
        None \<Rightarrow> []
      | Some d \<Rightarrow>
          if has_pending (fst (reducer_step s e)) \<and> is_connected (fst (reducer_step s e))
             \<and> is_signed_in (fst (reducer_step s e)) \<and> \<not> is_processing (fst (reducer_step s e))
          then [Schedule d] else [])"
  by (simp only: step_effects gate_open_def)

section \<open>No lost wake-up\<close>

text \<open>
  A run of the runtime that honours the effects: \<open>armed\<close> says that a scheduled replay is
  outstanding. Any event may arrive; starting a replay consumes the timer; a timer that fires
  while a gate is closed is dropped.
\<close>

inductive sync_run :: "ReducerState \<Rightarrow> bool \<Rightarrow> bool" where
  run_init: "sync_run reducer_default False"
| run_event: "sync_run s armed \<Longrightarrow> e \<noteq> OfflineQueueProcessingStarted \<Longrightarrow>
     sync_run (fst (reducer_step s e)) (armed \<or> snd (reducer_step s e) \<noteq> [])"
| run_start: "sync_run s armed \<Longrightarrow>
     sync_run (fst (reducer_step s OfflineQueueProcessingStarted)) False"
| run_dropped: "sync_run s True \<Longrightarrow> \<not> gate_open s \<Longrightarrow> sync_run s False"

lemma sync_run_armed: "sync_run s armed \<Longrightarrow> gate_open s \<Longrightarrow> armed"
proof (induction rule: sync_run.induct)
  case run_init
  then show ?case by (simp add: gate_open_def reducer_default_def)
next
  case (run_event s armed e)
  then show ?case using step_opens_gate by blast
next
  case (run_start s armed)
  then show ?case by (simp add: gate_open_def)
next
  case (run_dropped s)
  then show ?case by simp
qed

text \<open>
  C10: no lost wake-up. In every state a run can reach from the default state, pending work
  that could be replayed now (connected, signed in, nothing in flight) has a replay scheduled.
\<close>

theorem reducer_no_lost_wakeup:
  assumes "sync_run s armed" and "has_pending s" and "is_connected s" and "is_signed_in s"
    and "\<not> is_processing s"
  shows "armed"
  using sync_run_armed [OF assms(1)] assms(2-) by (simp add: gate_open_def)

theorem reducer_no_lost_wakeup_witness:
  "\<exists>s armed. sync_run s armed \<and> gate_open s \<and> armed"
proof -
  let ?s = "fst (reducer_step reducer_default OfflineOperationEnqueued)"
  have run: "sync_run ?s (False \<or> snd (reducer_step reducer_default OfflineOperationEnqueued) \<noteq> [])"
    by (rule run_event [OF run_init]) simp
  have g: "has_pending ?s" "is_connected ?s" "is_signed_in ?s" "\<not> is_processing ?s"
    by (simp_all add: reducer_default_def Let_def)
  from run g reducer_no_lost_wakeup [OF run g] show ?thesis
    unfolding gate_open_def by blast
qed

section \<open>Backoff over failed replays\<close>

text \<open>\<open>n\<close> replays in a row that drain nothing while work remains.\<close>

definition fruitless :: "nat \<Rightarrow> ReducerEvent list" where
  "fruitless n =
     concat (replicate n [OfflineQueueProcessingStarted, OfflineQueueProcessed 0 True])"

definition reducer_run :: "ReducerState \<Rightarrow> ReducerEvent list \<Rightarrow> ReducerState" where
  "reducer_run s es = fold (\<lambda>e s. fst (reducer_step s e)) es s"

lemma fruitless_run:
  "unat (consecutive_failures (reducer_run s (fruitless n))) =
     min (unat (consecutive_failures s) + n) (2 ^ 32 - 1)
   \<and> is_connected (reducer_run s (fruitless n)) = is_connected s
   \<and> is_signed_in (reducer_run s (fruitless n)) = is_signed_in s"
proof (induction n arbitrary: s)
  case 0
  have "unat (consecutive_failures s) < 2 ^ 32" using unsigned_less [of "consecutive_failures s"] by simp
  then show ?case by (simp add: reducer_run_def fruitless_def)
next
  case (Suc n)
  let ?t = "fst (reducer_step (fst (reducer_step s OfflineQueueProcessingStarted))
              (OfflineQueueProcessed 0 True))"
  have "reducer_run s (fruitless (Suc n)) = reducer_run ?t (fruitless n)"
    by (simp add: reducer_run_def fruitless_def)
  moreover have "unat (consecutive_failures ?t) = min (unat (consecutive_failures s) + 1) (2 ^ 32 - 1)"
    and "is_connected ?t = is_connected s" and "is_signed_in ?t = is_signed_in s"
    by (simp_all add: Let_def unat_u32_saturating_inc)
  ultimately show ?case using Suc.IH [of ?t] by auto
qed

text \<open>
  The backoff ladder over a run. After \<open>n\<close> consecutive replays that made no progress,
  starting without failures, the next fruitless replay schedules the retry after the
  \<open>(n+1)\<close>-th rung of 2, 5, 10, 30, 60, 120 seconds, and stays at 120 seconds from the sixth
  on, however long the run (the counter saturates, it never wraps to 0).
\<close>

theorem reducer_backoff_ladder:
  assumes "is_connected s" and "is_signed_in s" and "consecutive_failures s = 0"
  shows "snd (reducer_step (reducer_run s (fruitless n)) (OfflineQueueProcessed 0 True))
         = [Schedule (1000 * [2, 5, 10, 30, 60, 120] ! min n 5)]"
proof -
  let ?s = "reducer_run s (fruitless n)"
  have "min (unat (u32_saturating_inc (consecutive_failures ?s)) - 1) 5 = min n 5"
    using fruitless_run [of s n] assms(3) by (auto simp: unat_u32_saturating_inc)
  then show ?thesis
    using fruitless_run [of s n] assms(1,2)
    by (simp add: step_effects gate_open_def Let_def backoff_index
        RECONNECT_BACKOFF_LADDER_SECS_def from_secs_def)
qed

theorem reducer_backoff_ladder_witness:
  "snd (reducer_step (reducer_run reducer_default (fruitless 2)) (OfflineQueueProcessed 0 True))
   = [Schedule 10000]"
  using reducer_backoff_ladder [of reducer_default 2] by (simp add: reducer_default_def)

end
