(* ===== verification/Reconcile.thy ===== *)
theory Reconcile
  imports Contract
begin

text \<open>
  \<open>crates/polybase/src/sync/reconcile.rs\<close>: the pure reconcile planner. The hash maps are
  lookups in which a later triple replaces an earlier one with the same id; the hash sets only
  feed sorted lists, so the plan does not depend on their iteration order. The bucket counts are
  \<open>ReconcileActionCounts\<close> of \<open>crates/polybase/src/events.rs\<close>.
\<close>

record VersionTriple =
  vt_id :: string
  vt_version :: i64
  vt_deleted :: bool

record ReconcilePlan =
  adopt_tombstone :: "string list"
  pull :: "string list"
  push :: "string list"
  skip :: "string list"
  create_local :: "string list"
  create_remote :: "string list"

definition plan_default :: ReconcilePlan where
  "plan_default =
     \<lparr>adopt_tombstone = [], pull = [], push = [], skip = [], create_local = [], create_remote = []\<rparr>"

record ReconcileActionCounts =
  n_adopt_tombstone :: nat
  n_pull :: nat
  n_push :: nat
  n_skip :: nat

text \<open>\<open>u32::try_from(len).unwrap_or(u32::MAX)\<close>.\<close>

definition u32_clamp :: "nat \<Rightarrow> nat" where
  "u32_clamp n = (if n < 2 ^ 32 then n else 2 ^ 32 - 1)"

definition plan_counts :: "ReconcilePlan \<Rightarrow> ReconcileActionCounts" where
  "plan_counts p =
     \<lparr>n_adopt_tombstone = u32_clamp (length (adopt_tombstone p)),
      n_pull = u32_clamp (length (pull p) + length (create_local p)),
      n_push = u32_clamp (length (push p) + length (create_remote p)),
      n_skip = u32_clamp (length (skip p))\<rparr>"

definition version_index :: "VersionTriple list \<Rightarrow> (string \<rightharpoonup> VersionTriple)" where
  "version_index ts = collect_map (map (\<lambda>t. (vt_id t, t)) ts)"

definition triple_ids :: "VersionTriple list \<Rightarrow> string list" where
  "triple_ids ts = remdups (map vt_id ts)"

definition plan_add :: "ReconcileAction \<Rightarrow> string \<Rightarrow> ReconcilePlan \<Rightarrow> ReconcilePlan" where
  "plan_add a i p =
     (case a of
        AdoptTombstone \<Rightarrow> p\<lparr>adopt_tombstone := adopt_tombstone p @ [i]\<rparr>
      | Pull \<Rightarrow> p\<lparr>pull := pull p @ [i]\<rparr>
      | Push \<Rightarrow> p\<lparr>push := push p @ [i]\<rparr>
      | Skip \<Rightarrow> p\<lparr>skip := skip p @ [i]\<rparr>)"

definition triple_action :: "VersionTriple \<Rightarrow> VersionTriple \<Rightarrow> ReconcileAction" where
  "triple_action l r =
     determine_reconcile_action (vt_version l) (vt_deleted l) (vt_version r) (vt_deleted r)"

text \<open>The body of the loop over the common ids.\<close>

definition plan_visit ::
  "(string \<rightharpoonup> VersionTriple) \<Rightarrow> (string \<rightharpoonup> VersionTriple) \<Rightarrow> string \<Rightarrow> ReconcilePlan
   \<Rightarrow> ReconcilePlan" where
  "plan_visit local_index remote_index i p =
     (case (local_index i, remote_index i) of
        (Some l, Some r) \<Rightarrow> plan_add (triple_action l r) i p
      | _ \<Rightarrow> p)"

definition make_plan :: "VersionTriple list \<Rightarrow> VersionTriple list \<Rightarrow> ReconcilePlan" where
  "make_plan local remote =
     (let local_index = version_index local;
          remote_index = version_index remote;
          local_ids = triple_ids local;
          remote_ids = triple_ids remote;
          sorted_common = sort (filter (\<lambda>i. i \<in> set remote_ids) local_ids);
          plan = fold (plan_visit local_index remote_index) sorted_common plan_default;
          local_only = sort (filter (\<lambda>i. i \<notin> set remote_ids) local_ids);
          remote_only = sort (filter (\<lambda>i. i \<notin> set local_ids) remote_ids)
      in plan\<lparr>create_remote := create_remote plan @ local_only,
              create_local := create_local plan @ remote_only\<rparr>)"

section \<open>The plan, bucket by bucket\<close>

definition id_action ::
  "VersionTriple list \<Rightarrow> VersionTriple list \<Rightarrow> string \<Rightarrow> ReconcileAction option" where
  "id_action local remote i =
     (case (version_index local i, version_index remote i) of
        (Some l, Some r) \<Rightarrow> Some (triple_action l r)
      | _ \<Rightarrow> None)"

lemma dom_version_index: "version_index ts i \<noteq> None \<longleftrightarrow> i \<in> vt_id ` set ts"
proof -
  have "version_index ts i = None \<longleftrightarrow> i \<notin> vt_id ` set ts"
    unfolding version_index_def collect_map_None by (simp add: image_image)
  then show ?thesis by simp
qed

lemma set_triple_ids [simp]: "set (triple_ids ts) = vt_id ` set ts"
  by (simp add: triple_ids_def)

lemma distinct_triple_ids [simp]: "distinct (triple_ids ts)"
  by (simp add: triple_ids_def)

lemma plan_fold:
  "fold (plan_visit (version_index local) (version_index remote)) is p =
     p\<lparr>adopt_tombstone := adopt_tombstone p
          @ filter (\<lambda>i. id_action local remote i = Some AdoptTombstone) is,
       pull := pull p @ filter (\<lambda>i. id_action local remote i = Some Pull) is,
       push := push p @ filter (\<lambda>i. id_action local remote i = Some Push) is,
       skip := skip p @ filter (\<lambda>i. id_action local remote i = Some Skip) is\<rparr>"
proof (induction "is" arbitrary: p)
  case Nil
  then show ?case by simp
next
  case (Cons i "is")
  have "plan_visit (version_index local) (version_index remote) i p =
      (case id_action local remote i of None \<Rightarrow> p | Some a \<Rightarrow> plan_add a i p)"
    by (simp add: plan_visit_def id_action_def split: option.splits)
  then show ?case
    by (simp add: Cons.IH plan_add_def split: option.splits ReconcileAction.splits)
qed

definition common_ids :: "VersionTriple list \<Rightarrow> VersionTriple list \<Rightarrow> string list" where
  "common_ids local remote = sort (filter (\<lambda>i. i \<in> set (triple_ids remote)) (triple_ids local))"

lemma make_plan_buckets:
  "adopt_tombstone (make_plan local remote)
     = filter (\<lambda>i. id_action local remote i = Some AdoptTombstone) (common_ids local remote)"
  "pull (make_plan local remote)
     = filter (\<lambda>i. id_action local remote i = Some Pull) (common_ids local remote)"
  "push (make_plan local remote)
     = filter (\<lambda>i. id_action local remote i = Some Push) (common_ids local remote)"
  "skip (make_plan local remote)
     = filter (\<lambda>i. id_action local remote i = Some Skip) (common_ids local remote)"
  "create_remote (make_plan local remote)
     = sort (filter (\<lambda>i. i \<notin> set (triple_ids remote)) (triple_ids local))"
  "create_local (make_plan local remote)
     = sort (filter (\<lambda>i. i \<notin> set (triple_ids local)) (triple_ids remote))"
  by (simp_all add: make_plan_def Let_def plan_fold plan_default_def common_ids_def)

lemma id_action_None: "id_action local remote i = None \<longleftrightarrow>
    i \<notin> vt_id ` set local \<or> i \<notin> vt_id ` set remote"
  using dom_version_index [of local i] dom_version_index [of remote i]
  by (auto simp: id_action_def split: option.splits)

lemma set_common_ids: "set (common_ids local remote) = vt_id ` set local \<inter> vt_id ` set remote"
  by (auto simp: common_ids_def)

definition plan_ids :: "ReconcilePlan \<Rightarrow> string list" where
  "plan_ids p = adopt_tombstone p @ pull p @ push p @ skip p @ create_local p @ create_remote p"

lemma distinct_common_ids: "distinct (common_ids local remote)" "sorted (common_ids local remote)"
  by (simp_all add: common_ids_def)

text \<open>Splitting a list by a partial function into the four actions.\<close>

lemma distinct_buckets:
  assumes "distinct c" "distinct l" "distinct r" "set c \<inter> set l = {}" "set c \<inter> set r = {}"
    and "set l \<inter> set r = {}"
  shows "distinct (filter (\<lambda>i. f i = Some AdoptTombstone) c @ filter (\<lambda>i. f i = Some Pull) c
     @ filter (\<lambda>i. f i = Some Push) c @ filter (\<lambda>i. f i = Some Skip) c @ r @ l)"
  using assms by (simp add: disjoint_iff) metis

lemma set_buckets:
  assumes "\<And>i. i \<in> set c \<Longrightarrow> f i \<noteq> None"
  shows "set (filter (\<lambda>i. f i = Some AdoptTombstone) c @ filter (\<lambda>i. f i = Some Pull) c
     @ filter (\<lambda>i. f i = Some Push) c @ filter (\<lambda>i. f i = Some Skip) c @ r @ l)
     = set c \<union> set r \<union> set l"
proof -
  have "f i = Some AdoptTombstone \<or> f i = Some Pull \<or> f i = Some Push \<or> f i = Some Skip"
    if "i \<in> set c" for i
    using assms [OF that] by (metis ReconcileAction.exhaust option.exhaust)
  then show ?thesis by auto
qed

definition sorted_buckets :: "ReconcilePlan \<Rightarrow> bool" where
  "sorted_buckets p \<longleftrightarrow> sorted (adopt_tombstone p) \<and> sorted (pull p) \<and> sorted (push p)
     \<and> sorted (skip p) \<and> sorted (create_local p) \<and> sorted (create_remote p)"

text \<open>
  The plan partitions the ids. Every id known to either side lies in exactly one of the six
  buckets, exactly once, no other id does, and each bucket is in increasing order, so the plan
  is deterministic although it is built from hash sets.
\<close>

lemma plan_partition:
  "distinct (plan_ids (make_plan local remote))
   \<and> set (plan_ids (make_plan local remote)) = vt_id ` set local \<union> vt_id ` set remote
   \<and> sorted_buckets (make_plan local remote)"
proof (intro conjI)
  show "distinct (plan_ids (make_plan local remote))"
    unfolding plan_ids_def make_plan_buckets
    by (rule distinct_buckets) (auto simp: set_common_ids distinct_common_ids)
  have "set (plan_ids (make_plan local remote)) = set (common_ids local remote)
      \<union> set (create_local (make_plan local remote)) \<union> set (create_remote (make_plan local remote))"
    unfolding plan_ids_def make_plan_buckets
    by (rule set_buckets) (auto simp: set_common_ids id_action_None)
  then show "set (plan_ids (make_plan local remote)) = vt_id ` set local \<union> vt_id ` set remote"
    by (auto simp: set_common_ids make_plan_buckets)
  show "sorted_buckets (make_plan local remote)"
    using distinct_common_ids by (simp add: sorted_buckets_def make_plan_buckets sorted_wrt_filter)
qed

text \<open>What a bucket says of an id: the action of the contract on the two rows.\<close>

lemma in_pull [simp]:
  "i \<in> set (pull (make_plan local remote)) \<longleftrightarrow> id_action local remote i = Some Pull"
  "i \<in> set (push (make_plan local remote)) \<longleftrightarrow> id_action local remote i = Some Push"
  "i \<in> set (skip (make_plan local remote)) \<longleftrightarrow> id_action local remote i = Some Skip"
  "i \<in> set (adopt_tombstone (make_plan local remote)) \<longleftrightarrow>
     id_action local remote i = Some AdoptTombstone"
  using id_action_None [of local remote i] by (auto simp: make_plan_buckets set_common_ids)

lemma in_create:
  "i \<in> set (create_local (make_plan local remote)) \<longleftrightarrow>
     version_index local i = None \<and> version_index remote i \<noteq> None"
  "i \<in> set (create_remote (make_plan local remote)) \<longleftrightarrow>
     version_index local i \<noteq> None \<and> version_index remote i = None"
  using dom_version_index [of local i] dom_version_index [of remote i]
  by (auto simp: make_plan_buckets)

section \<open>Which bucket\<close>

lemma reconcile_action_iff:
  "determine_reconcile_action lv ld rv rd = Pull \<longleftrightarrow> ld = rd \<and> sint lv < sint rv"
  "determine_reconcile_action lv ld rv rd = Push \<longleftrightarrow>
     ld \<and> \<not> rd \<or> ld = rd \<and> sint rv < sint lv \<or> \<not> ld \<and> rd \<and> sint (rv + 1000) \<le> sint lv"
  "determine_reconcile_action lv ld rv rd = AdoptTombstone \<longleftrightarrow> \<not> ld \<and> rd \<and> sint lv < sint (rv + 1000)"
  "determine_reconcile_action lv ld rv rd = Skip \<longleftrightarrow> ld = rd \<and> lv = rv"
  by (auto simp: determine_reconcile_action_def i64_less_def i64_le_def undelete_minimum_version_def
      UNDELETE_VERSION_DELTA_def signed_word_eqI split: if_splits)

lemma id_action_iff:
  "id_action local remote i = Some a \<longleftrightarrow>
     (\<exists>l r. version_index local i = Some l \<and> version_index remote i = Some r
        \<and> determine_reconcile_action (vt_version l) (vt_deleted l) (vt_version r) (vt_deleted r) = a)"
  by (auto simp: id_action_def triple_action_def split: option.splits)

definition row_state :: "VersionTriple option \<Rightarrow> (i64 \<times> bool) option" where
  "row_state = map_option (\<lambda>t. (vt_version t, vt_deleted t))"

text \<open>
  C6: the plan, exactly. Every id of either side is in one bucket, once, and every bucket is in
  increasing order. An id both sides have is pulled where the tombstone flags agree and the remote version is
  higher; pushed where they agree and the local version is higher, where only the local row is a tombstone
  (whatever the versions), and where only the remote row is one and the local version has reached the
  undelete threshold, 1000 above it in the wrapping arithmetic of an \<open>i64\<close>; it adopts the
  tombstone below that threshold, and is skipped where flag and version agree. An id of one side only is
  created on the other.
\<close>

theorem make_plan_exact:
  "(i \<in> set (pull (make_plan local remote)) \<longleftrightarrow>
      (\<exists>l r. version_index local i = Some l \<and> version_index remote i = Some r
         \<and> vt_deleted l = vt_deleted r \<and> sint (vt_version l) < sint (vt_version r)))
   \<and> (i \<in> set (push (make_plan local remote)) \<longleftrightarrow>
      (\<exists>l r. version_index local i = Some l \<and> version_index remote i = Some r
         \<and> (vt_deleted l \<and> \<not> vt_deleted r
            \<or> vt_deleted l = vt_deleted r \<and> sint (vt_version r) < sint (vt_version l)
            \<or> \<not> vt_deleted l \<and> vt_deleted r \<and> sint (vt_version r + 1000) \<le> sint (vt_version l))))
   \<and> (i \<in> set (adopt_tombstone (make_plan local remote)) \<longleftrightarrow>
      (\<exists>l r. version_index local i = Some l \<and> version_index remote i = Some r
         \<and> \<not> vt_deleted l \<and> vt_deleted r \<and> sint (vt_version l) < sint (vt_version r + 1000)))
   \<and> (i \<in> set (skip (make_plan local remote)) \<longleftrightarrow>
      (\<exists>l r. version_index local i = Some l \<and> version_index remote i = Some r
         \<and> vt_deleted l = vt_deleted r \<and> vt_version l = vt_version r))
   \<and> (i \<in> set (create_local (make_plan local remote)) \<longleftrightarrow> i \<in> vt_id ` set remote - vt_id ` set local)
   \<and> (i \<in> set (create_remote (make_plan local remote)) \<longleftrightarrow> i \<in> vt_id ` set local - vt_id ` set remote)
   \<and> set (plan_ids (make_plan local remote)) = vt_id ` set local \<union> vt_id ` set remote
   \<and> distinct (plan_ids (make_plan local remote)) \<and> sorted_buckets (make_plan local remote)"
  unfolding in_pull id_action_iff reconcile_action_iff
  using plan_partition [of local remote] by (auto simp: make_plan_buckets)

text \<open>
  A pushed row is never stale. The planner sends the local row to the remote only where the
  local version is strictly newer, or where the local row is a tombstone and the remote one is
  live; a remote tombstone is overwritten only from 1000 versions above it (the range of the
  versions being away from the top of \<open>i64\<close>, where the threshold would wrap).
\<close>

theorem push_never_stale:
  assumes "version_index local i = Some l" and "version_index remote i = Some r"
    and "i \<in> set (push (make_plan local remote))" and "sint (vt_version r) + 1000 < 2 ^ 63"
  shows "(vt_deleted l \<and> \<not> vt_deleted r \<or> sint (vt_version r) < sint (vt_version l))
    \<and> (vt_deleted r \<and> \<not> vt_deleted l \<longrightarrow> sint (vt_version r) + 1000 \<le> sint (vt_version l))"
  using assms sint_undelete_minimum_version [OF assms(4)]
  by (auto simp: id_action_def triple_action_def determine_reconcile_action_def i64_le_def
      i64_less_def split: if_splits)

theorem push_never_stale_witness:
  "sint (2000 :: i64) > sint (5 :: i64) \<and>
   sint (5 :: i64) + 1000 \<le> sint (2000 :: i64)"
proof -
  let ?l = "\<lparr>vt_id = ''a'', vt_version = 2000, vt_deleted = False\<rparr>"
  let ?r = "\<lparr>vt_id = ''a'', vt_version = 5, vt_deleted = True\<rparr>"
  have l: "version_index [?l] ''a'' = Some ?l" and r: "version_index [?r] ''a'' = Some ?r"
    by (simp_all add: version_index_def collect_map_def)
  have p: "''a'' \<in> set (push (make_plan [?l] [?r]))"
    by (simp add: id_action_def l r triple_action_def determine_reconcile_action_def i64_le_def
        undelete_minimum_version_def UNDELETE_VERSION_DELTA_def)
  show ?thesis
    using push_never_stale [OF l r p] by simp
qed

end
