(* ===== verification/Echo.thy ===== *)
theory Echo
  imports Contract
begin

text \<open>
  \<open>crates/polybase/src/sync/echo.rs\<close>: the echo tracker. \<open>Instant\<close>s and
  \<open>Duration\<close>s are nanoseconds on one monotonic clock, so the truncated subtraction of
  \<open>nat\<close> is the saturating \<open>Instant\<close> subtraction of Rust. The time of a call is an
  argument; the mutex makes each operation one atomic step.
\<close>

record EchoTracker =
  et_inner :: "string \<rightharpoonup> nat"
  et_window :: nat

definition echo_with_window :: "nat \<Rightarrow> EchoTracker" where
  "echo_with_window window = \<lparr>et_inner = Map.empty, et_window = window\<rparr>"

definition echo_default_window :: EchoTracker where
  "echo_default_window = echo_with_window (ECHO_EXPIRY_WINDOW_SECS * 1000000000)"

definition mark_pushed :: "string \<Rightarrow> string \<Rightarrow> nat \<Rightarrow> EchoTracker \<Rightarrow> EchoTracker" where
  "mark_pushed table entity_id now t =
     t\<lparr>et_inner := (et_inner t)(echo_tracker_key table entity_id \<mapsto> now)\<rparr>"

definition was_recently_pushed ::
  "string \<Rightarrow> string \<Rightarrow> nat \<Rightarrow> EchoTracker \<Rightarrow> bool \<times> EchoTracker" where
  "was_recently_pushed table entity_id now t =
     (let key = echo_tracker_key table entity_id
      in case et_inner t key of
           Some when \<Rightarrow>
             (if now - when < et_window t then (True, t)
              else (False, t\<lparr>et_inner := (et_inner t)(key := None)\<rparr>))
         | None \<Rightarrow> (False, t))"

definition echo_clear :: "EchoTracker \<Rightarrow> EchoTracker" where
  "echo_clear t = t\<lparr>et_inner := Map.empty\<rparr>"

definition echo_vacuum :: "nat \<Rightarrow> EchoTracker \<Rightarrow> EchoTracker" where
  "echo_vacuum now t =
     t\<lparr>et_inner := (\<lambda>k. case et_inner t k of
           Some when \<Rightarrow> if now - when < et_window t then Some when else None
         | None \<Rightarrow> None)\<rparr>"

text \<open>The answer a tracker gives for a key at a time.\<close>

definition suppressed :: "EchoTracker \<Rightarrow> nat \<Rightarrow> string \<Rightarrow> bool" where
  "suppressed t now key = (case et_inner t key of None \<Rightarrow> False | Some when \<Rightarrow> now - when < et_window t)"

lemma was_recently_pushed_fst [simp]:
  "fst (was_recently_pushed table i now t) = suppressed t now (echo_tracker_key table i)"
  by (simp add: was_recently_pushed_def suppressed_def Let_def split: option.splits)

lemma mark_pushed_sel [simp]:
  "et_window (mark_pushed table i now t) = et_window t"
  "et_inner (mark_pushed table i now t) = (et_inner t)(echo_tracker_key table i \<mapsto> now)"
  by (simp_all add: mark_pushed_def)

lemma suppressed_mark [simp]:
  "suppressed (mark_pushed table i now t) later k =
     (if k = echo_tracker_key table i then later - now < et_window t else suppressed t later k)"
  by (auto simp: suppressed_def mark_pushed_def split: option.splits)

section \<open>Calls over time\<close>

datatype tracker_call =
    Mark string string
  | Check string string
  | Vacuum
  | Clear

fun echo_call :: "tracker_call \<Rightarrow> nat \<Rightarrow> EchoTracker \<Rightarrow> EchoTracker" where
  "echo_call (Mark table i) now t = mark_pushed table i now t"
| "echo_call (Check table i) now t = snd (was_recently_pushed table i now t)"
| "echo_call Vacuum now t = echo_vacuum now t"
| "echo_call Clear now t = echo_clear t"

definition echo_run :: "(tracker_call \<times> nat) list \<Rightarrow> EchoTracker \<Rightarrow> EchoTracker" where
  "echo_run cs t = fold (\<lambda>(c, now). echo_call c now) cs t"

lemma echo_run_simps [simp]:
  "echo_run [] t = t"
  "echo_run ((c, now) # cs) t = echo_run cs (echo_call c now t)"
  by (simp_all add: echo_run_def)

lemma echo_call_window [simp]: "et_window (echo_call c now t) = et_window t"
  by (cases c) (auto simp: was_recently_pushed_def echo_vacuum_def echo_clear_def Let_def
      split: option.splits)

lemma expired_stays_expired:
  "now \<le> (later :: nat) \<Longrightarrow> later - when < w \<Longrightarrow> now - when < w"
  by simp

lemma suppressed_check:
  "now \<le> later \<Longrightarrow> suppressed (snd (was_recently_pushed table i now t)) later k = suppressed t later k"
  by (auto simp: was_recently_pushed_def suppressed_def Let_def split: option.splits)

lemma suppressed_vacuum: "now \<le> later \<Longrightarrow> suppressed (echo_vacuum now t) later k = suppressed t later k"
  by (auto simp: echo_vacuum_def suppressed_def split: option.splits)

text \<open>
  Removing expired entries is only housekeeping. A lookup (which drops the entry it finds
  expired) and \<open>vacuum\<close> never change the answer the tracker gives for any key at any
  later time.
\<close>

theorem echo_cleanup_invisible:
  assumes "now \<le> later"
  shows "fst (was_recently_pushed table i later (snd (was_recently_pushed table' j now t)))
           = fst (was_recently_pushed table i later t)
         \<and> fst (was_recently_pushed table i later (echo_vacuum now t))
           = fst (was_recently_pushed table i later t)"
  using assms by (simp add: suppressed_check suppressed_vacuum)

theorem echo_cleanup_invisible_witness:
  "fst (was_recently_pushed ''t'' ''1'' 9
     (snd (was_recently_pushed ''t'' ''1'' 8 (mark_pushed ''t'' ''1'' 2 (echo_with_window 5))))) = False"
proof -
  let ?t = "mark_pushed ''t'' ''1'' 2 (echo_with_window 5)"
  have "fst (was_recently_pushed ''t'' ''1'' 9 (snd (was_recently_pushed ''t'' ''1'' 8 ?t)))
      = fst (was_recently_pushed ''t'' ''1'' 9 ?t)"
    using echo_cleanup_invisible [of 8 9 "''t''" "''1''" "''t''" "''1''" ?t] by simp
  then show ?thesis by (simp add: suppressed_def echo_with_window_def)
qed

lemma suppressed_other_call:
  assumes "now \<le> later" and "c \<noteq> Clear"
    and "\<And>table i. c = Mark table i \<Longrightarrow> echo_tracker_key table i \<noteq> k"
  shows "suppressed (echo_call c now t) later k = suppressed t later k"
  using assms
  by (cases c) (simp_all add: suppressed_check suppressed_vacuum)

lemma echo_run_snoc [simp]: "echo_run (cs @ [(c, now)]) t = echo_call c now (echo_run cs t)"
  by (simp add: echo_run_def)

lemma echo_run_window [simp]: "et_window (echo_run cs t) = et_window t"
  by (induction cs arbitrary: t) auto

text \<open>The calls that mark a key, and the time of its last mark since the tracker was last cleared.\<close>

fun marks :: "string \<Rightarrow> tracker_call \<Rightarrow> bool" where
  "marks k (Mark table i) \<longleftrightarrow> echo_tracker_key table i = k"
| "marks k _ \<longleftrightarrow> False"

definition untouched :: "string \<Rightarrow> (tracker_call \<times> nat) list \<Rightarrow> bool" where
  "untouched k cs \<longleftrightarrow> (\<forall>c \<in> fst ` set cs. c \<noteq> Clear \<and> \<not> marks k c)"

definition last_marked :: "string \<Rightarrow> (tracker_call \<times> nat) list \<Rightarrow> nat \<Rightarrow> bool" where
  "last_marked k cs now \<longleftrightarrow> (\<exists>before c after. cs = before @ (c, now) # after \<and> marks k c \<and> untouched k after)"

lemma untouched_simps [simp]: "untouched k []"
  "untouched k (cs @ [(c, at)]) \<longleftrightarrow> untouched k cs \<and> c \<noteq> Clear \<and> \<not> marks k c"
  by (auto simp: untouched_def)

lemma last_marked_Nil [simp]: "\<not> last_marked k [] now"
  by (simp add: last_marked_def)

lemma last_marked_snoc:
  "last_marked k (cs @ [(c, at)]) now \<longleftrightarrow> (if marks k c then now = at else c \<noteq> Clear \<and> last_marked k cs now)"
proof
  assume "last_marked k (cs @ [(c, at)]) now"
  then obtain before d after where d: "cs @ [(c, at)] = before @ (d, now) # after" "marks k d" "untouched k after"
    unfolding last_marked_def by blast
  show "if marks k c then now = at else c \<noteq> Clear \<and> last_marked k cs now"
  proof (cases after rule: rev_cases)
    case Nil
    then show ?thesis using d(1,2) by simp
  next
    case (snoc rest x)
    then have "x = (c, at)" "cs = before @ (d, now) # rest" using d(1) by simp_all
    then show ?thesis using d(2,3) snoc unfolding last_marked_def by auto
  qed
next
  assume r: "if marks k c then now = at else c \<noteq> Clear \<and> last_marked k cs now"
  show "last_marked k (cs @ [(c, at)]) now"
  proof (cases "marks k c")
    case True
    then have "cs @ [(c, at)] = cs @ (c, now) # []" using r by simp
    then show ?thesis unfolding last_marked_def using True untouched_simps(1) by metis
  next
    case False
    then obtain before d after where d: "cs = before @ (d, now) # after" "marks k d" "untouched k after"
      using r by (auto simp: last_marked_def)
    then have "cs @ [(c, at)] = before @ (d, now) # (after @ [(c, at)])" "untouched k (after @ [(c, at)])" using False r by simp_all
    then show ?thesis unfolding last_marked_def using d(2) by blast
  qed
qed

lemma suppressed_run:
  assumes "\<And>c at. (c, at) \<in> set cs \<Longrightarrow> at \<le> later"
  shows "suppressed (echo_run cs (echo_with_window w)) later k \<longleftrightarrow> (\<exists>now. last_marked k cs now \<and> later - now < w)"
  using assms
proof (induction cs rule: rev_induct)
  case Nil
  then show ?case by (simp add: suppressed_def echo_with_window_def)
next
  case (snoc x cs)
  obtain c at where x: "x = (c, at)" by (cases x)
  have le: "at \<le> later" using snoc.prems [of c at] x by simp
  have ih: "suppressed (echo_run cs (echo_with_window w)) later k \<longleftrightarrow> (\<exists>now. last_marked k cs now \<and> later - now < w)"
    by (rule snoc.IH) (use snoc.prems in auto)
  let ?t = "echo_run cs (echo_with_window w)"
  consider (mark) "marks k c" | (clear) "c = Clear" | (other) "\<not> marks k c" "c \<noteq> Clear" by blast
  then have "suppressed (echo_call c at ?t) later k \<longleftrightarrow> (\<exists>now. last_marked k (cs @ [(c, at)]) now \<and> later - now < w)"
  proof cases
    case mark
    then show ?thesis by (cases c) (auto simp: last_marked_snoc echo_with_window_def)
  next
    case clear
    then show ?thesis by (simp add: last_marked_snoc suppressed_def echo_clear_def)
  next
    case other
    have "suppressed (echo_call c at ?t) later k = suppressed ?t later k"
      using le other by (intro suppressed_other_call) auto
    then show ?thesis using ih other by (simp add: last_marked_snoc)
  qed
  then show ?case by (simp add: x)
qed

text \<open>
  C28: the suppression window, over any history. Whatever marks, lookups, vacuums and clears a tracker has
  seen up to \<open>later\<close>, it then reports \<open>(table, id)\<close> as recently pushed exactly when the key of the
  row was marked since the last clear and less than the window has passed since the last of these marks.
\<close>

theorem echo_window:
  assumes "\<And>c at. (c, at) \<in> set cs \<Longrightarrow> at \<le> later"
  shows "fst (was_recently_pushed table i later (echo_run cs (echo_with_window window)))
         \<longleftrightarrow> (\<exists>now. last_marked (echo_tracker_key table i) cs now \<and> later - now < window)"
  using suppressed_run [OF assms] by simp

theorem echo_window_witness:
  "\<not> fst (was_recently_pushed ''t'' ''1'' 9
     (echo_run [(Mark ''t'' ''1'', 2), (Clear, 3), (Mark ''t'' ''1'', 4), (Vacuum, 5), (Mark ''t'' ''2'', 8)] (echo_with_window 5)))
   \<and> fst (was_recently_pushed ''t'' ''1'' 8
     (echo_run [(Mark ''t'' ''1'', 2), (Clear, 3), (Mark ''t'' ''1'', 4), (Vacuum, 5), (Mark ''t'' ''2'', 8)] (echo_with_window 5)))"
proof -
  let ?cs = "[(Mark ''t'' ''1'', 2), (Clear, 3), (Mark ''t'' ''1'', 4), (Vacuum, 5), (Mark ''t'' ''2'', 8)] :: (tracker_call \<times> nat) list"
  have le: "at \<le> 8" if "(c, at) \<in> set ?cs" for c and at :: nat using that by auto
  have cs: "?cs = [] @ [(Mark ''t'' ''1'', 2)] @ [(Clear, 3)] @ [(Mark ''t'' ''1'', 4)] @ [(Vacuum, 5)] @ [(Mark ''t'' ''2'', 8)]" by simp
  have last: "last_marked (echo_tracker_key ''t'' ''1'') ?cs now \<longleftrightarrow> now = 4" for now
    unfolding cs append_assoc [symmetric] last_marked_snoc by (simp add: echo_tracker_key_def)
  have "fst (was_recently_pushed ''t'' ''1'' later (echo_run ?cs (echo_with_window 5))) \<longleftrightarrow> later - 4 < 5" if later: "8 \<le> later" for later
  proof -
    have "at \<le> later" if "(c, at) \<in> set ?cs" for c and at :: nat using le [OF that] later by simp
    from echo_window [of ?cs later "''t''" "''1''" 5, OF this] show ?thesis by (simp only: last simp_thms ex_simps)
  qed
  from this [of 9] this [of 8] show ?thesis by (simp del: echo_run_simps)
qed

text \<open>
  The key joins table and id with a colon, so two pairs share a key as soon as one of the parts
  holds a colon; for tables without a colon the key determines the pair.
\<close>

lemma echo_key_inj:
  assumes "CHR '':'' \<notin> set table" and "CHR '':'' \<notin> set table'"
  shows "echo_tracker_key table i = echo_tracker_key table' j \<longleftrightarrow> table = table' \<and> i = j"
proof
  assume eq: "echo_tracker_key table i = echo_tracker_key table' j"
  have tw: "takeWhile (\<lambda>c. c \<noteq> CHR '':'') (u @ CHR '':'' # v) = u" if "CHR '':'' \<notin> set u" for u v
    using that by (induction u) auto
  from eq have "table @ CHR '':'' # i = table' @ CHR '':'' # j"
    by (simp add: echo_tracker_key_def)
  with tw [OF assms(1), of i] tw [OF assms(2), of j] show "table = table' \<and> i = j"
    by simp
qed simp

text \<open>
  No cross-talk for table names without a colon: marking a row never makes the tracker
  suppress another row of any such table.
\<close>

theorem echo_no_crosstalk:
  assumes "CHR '':'' \<notin> set table" and "CHR '':'' \<notin> set table'" and "(table, i) \<noteq> (table', j)"
  shows "fst (was_recently_pushed table' j later (mark_pushed table i now t))
         = fst (was_recently_pushed table' j later t)"
  using assms echo_key_inj [OF assms(1,2), of i j] by auto

theorem echo_no_crosstalk_witness:
  "\<not> fst (was_recently_pushed ''b'' ''x'' 3 (mark_pushed ''a'' ''x'' 2 (echo_with_window 5)))
   \<and> fst (was_recently_pushed ''a'' ''b:x'' 3 (mark_pushed ''a:b'' ''x'' 2 (echo_with_window 5)))"
  using echo_no_crosstalk [of "''a''" "''b''" "''x''" "''x''" 3 2 "echo_with_window 5"]
  by (simp add: suppressed_def echo_with_window_def echo_tracker_key_def)

end
