(* ===== verification/Errors.thy ===== *)
theory Errors
  imports Contract
begin

text \<open>
  \<open>crates/polybase/src/errors.rs\<close> and the error type of \<open>encryption.rs\<close>: the error
  enums, their \<open>Display\<close> texts (the \<open>#[error(...)]\<close> attributes) and the
  classifiers that decide between retry, drop and no-op. Errors of \<open>reqwest\<close> and
  \<open>serde_json\<close> are known only by their text.
\<close>

section \<open>The enums\<close>

datatype EncryptionError =
    EmptySecret
  | OperationFailed string

datatype EdgeError =
    Edge_Validation (edge_function: string) (edge_code: string) (edge_message: string)
  | Edge_Conflict (edge_function: string) (edge_code: string) (edge_message: string)
  | Edge_Forbidden (edge_function: string) (edge_message: string)
  | Edge_Transient (edge_function: string) (edge_message: string)
  | Edge_Permanent (edge_function: string) (edge_message: string)
  | Edge_Decode (edge_function: string) (edge_message: string)

datatype PushError =
    Push_Transient string string
  | Push_Permanent string string
  | SameVersionMutationIgnored string

datatype PullError =
    Pull_Failed string string
  | Pull_Decode string string

datatype RegistryError =
    TableNotRegistered string
  | TypeNotRegistered string
  | EncryptionFailed string string
  | MissingField string string
  | MissingUserId string
  | FactoryFailed string string
  | InvalidRemoteSchema string

datatype StorageError =
    Storage_Failed string string string
  | Storage_NotFound string string

datatype OfflineQueueError =
    Queue_Io string
  | Queue_Decode string

datatype PolyError =
    NotConfigured string
  | NoSession
  | Poly_Http string
  | Poly_Json string
  | Poly_Edge EdgeError
  | Poly_Push PushError
  | Poly_Pull PullError
  | Poly_Registry RegistryError
  | Poly_Storage StorageError
  | Poly_OfflineQueue OfflineQueueError
  | Poly_Local string
  | Poly_Encryption EncryptionError
  | Poly_Other string

section \<open>Display\<close>

fun encryption_display :: "EncryptionError \<Rightarrow> string" where
  "encryption_display EmptySecret = ''encryption secret is empty''"
| "encryption_display (OperationFailed m) = ''encryption operation failed: '' @ m"

fun edge_display :: "EdgeError \<Rightarrow> string" where
  "edge_display (Edge_Validation f c m) = ''validation error from '' @ f @ '': '' @ c @ '': '' @ m"
| "edge_display (Edge_Conflict f c m) = ''conflict from '' @ f @ '': '' @ c @ '': '' @ m"
| "edge_display (Edge_Forbidden f m) = ''forbidden from '' @ f @ '': '' @ m"
| "edge_display (Edge_Transient f m) = ''transient error from '' @ f @ '': '' @ m"
| "edge_display (Edge_Permanent f m) = ''permanent error from '' @ f @ '': '' @ m"
| "edge_display (Edge_Decode f m) = ''decode failed for '' @ f @ '': '' @ m"

fun push_display :: "PushError \<Rightarrow> string" where
  "push_display (Push_Transient t m) = ''transient push failure on '' @ t @ '': '' @ m"
| "push_display (Push_Permanent t m) = ''permanent push failure on '' @ t @ '': '' @ m"
| "push_display (SameVersionMutationIgnored t) = ''same-version mutation ignored on '' @ t"

fun pull_display :: "PullError \<Rightarrow> string" where
  "pull_display (Pull_Failed t m) = ''pull failed on '' @ t @ '': '' @ m"
| "pull_display (Pull_Decode t m) = ''decode failed on '' @ t @ '': '' @ m"

fun registry_display :: "RegistryError \<Rightarrow> string" where
  "registry_display (TableNotRegistered t) = ''table not registered: '' @ t"
| "registry_display (TypeNotRegistered t) = ''entity type not registered: '' @ t"
| "registry_display (EncryptionFailed t c) = ''encryption failed for '' @ t @ ''.'' @ c"
| "registry_display (MissingField t f) = ''missing required field '' @ f @ '' on table '' @ t"
| "registry_display (MissingUserId t) = ''write payload missing active user id on table '' @ t"
| "registry_display (FactoryFailed t m) = ''factory failed for '' @ t @ '': '' @ m"
| "registry_display (InvalidRemoteSchema m) = ''invalid remote schema: '' @ m"

fun storage_display :: "StorageError \<Rightarrow> string" where
  "storage_display (Storage_Failed b p m) = ''storage error on '' @ b @ ''/'' @ p @ '': '' @ m"
| "storage_display (Storage_NotFound b p) = ''storage object not found at '' @ b @ ''/'' @ p"

fun queue_display :: "OfflineQueueError \<Rightarrow> string" where
  "queue_display (Queue_Io m) = ''queue io error: '' @ m"
| "queue_display (Queue_Decode m) = ''queue decode failed: '' @ m"

fun poly_display :: "PolyError \<Rightarrow> string" where
  "poly_display (NotConfigured m) = ''polybase not configured: '' @ m"
| "poly_display NoSession = ''no active session''"
| "poly_display (Poly_Http m) = m"
| "poly_display (Poly_Json m) = m"
| "poly_display (Poly_Edge e) = edge_display e"
| "poly_display (Poly_Push e) = push_display e"
| "poly_display (Poly_Pull e) = pull_display e"
| "poly_display (Poly_Registry e) = registry_display e"
| "poly_display (Poly_Storage e) = storage_display e"
| "poly_display (Poly_OfflineQueue e) = queue_display e"
| "poly_display (Poly_Local m) = ''local store error: '' @ m"
| "poly_display (Poly_Encryption e) = encryption_display e"
| "poly_display (Poly_Other m) = m"

section \<open>Classifiers\<close>

fun edge_is_transient :: "EdgeError \<Rightarrow> bool" where
  "edge_is_transient (Edge_Transient f m) = True"
| "edge_is_transient (Edge_Forbidden f m) = True"
| "edge_is_transient _ = False"

definition edge_is_benign_same_version_mutation :: "EdgeError \<Rightarrow> bool" where
  "edge_is_benign_same_version_mutation e = is_same_version_mutation_message (edge_message e)"

definition edge_is_version_regression :: "EdgeError \<Rightarrow> bool" where
  "edge_is_version_regression e = is_version_regression_message (edge_message e)"

fun push_is_transient :: "PushError \<Rightarrow> bool" where
  "push_is_transient (Push_Transient t m) = True"
| "push_is_transient _ = False"

fun push_is_permanent :: "PushError \<Rightarrow> bool" where
  "push_is_permanent (Push_Permanent t m) = True"
| "push_is_permanent _ = False"

fun push_is_version_regression :: "PushError \<Rightarrow> bool" where
  "push_is_version_regression (Push_Permanent t m) = is_version_regression_message m"
| "push_is_version_regression _ = False"

lemmas error_classifiers =
  edge_is_benign_same_version_mutation_def edge_is_version_regression_def

text \<open>Every push error falls in exactly one of the three classes.\<close>

lemma push_error_classes:
  "push_is_transient e \<longleftrightarrow> \<not> push_is_permanent e \<and> (\<forall>t. e \<noteq> SameVersionMutationIgnored t)"
  by (cases e) auto

lemma push_regression_permanent: "push_is_version_regression e \<Longrightarrow> push_is_permanent e"
  by (cases e) auto

text \<open>The display text of an Edge error carries the markers of its message.\<close>

lemma edge_display_suffix: "\<exists>u. edge_display e = u @ edge_message e"
  by (cases e) (auto simp: append_assoc [symmetric] simp del: append_assoc)

lemma edge_display_markers:
  "edge_is_benign_same_version_mutation e \<Longrightarrow> is_same_version_mutation_message (edge_display e)"
  "edge_is_version_regression e \<Longrightarrow> is_version_regression_message (edge_display e)"
  using edge_display_suffix [of e] message_markers_context [of "edge_message e" _ "[]"]
  by (auto simp: error_classifiers)

end
