(* ===== verification/Json.thy ===== *)
theory Json
  imports Strings
begin

text \<open>
  \<open>serde_json::Value\<close> and \<open>serde_json::Map\<close>. The workspace does not enable the
  \<open>preserve_order\<close> feature, so a \<open>Map\<close> is a \<open>BTreeMap\<close>: an association list
  in strictly increasing key order, which also makes equality of maps equality of lists.
  Integers are unbounded here and read through \<open>as_i64\<close>, which checks the range; a float
  is its IEEE 754 bit pattern and is only moved around. Parsing and printing JSON text belongs
  to the \<open>serde_json\<close> crate: components that do it take a \<open>json_codec\<close>.
\<close>

datatype json =
    JNull
  | JBool bool
  | JInt int
  | JFloat u64
  | JString string
  | JArray "json list"
  | JObject "(string \<times> json) list"

type_synonym obj = "(string \<times> json) list"

section \<open>Maps\<close>

abbreviation obj_get :: "obj \<Rightarrow> string \<Rightarrow> json option" where
  "obj_get m k \<equiv> map_of m k"

fun obj_insert :: "string \<Rightarrow> json \<Rightarrow> obj \<Rightarrow> obj" where
  "obj_insert k v [] = [(k, v)]"
| "obj_insert k v ((a, b) # m) =
     (if k < a then (k, v) # (a, b) # m
      else if k = a then (k, v) # m
      else (a, b) # obj_insert k v m)"

definition obj_of_list :: "(string \<times> json) list \<Rightarrow> obj" where
  "obj_of_list kvs = fold (\<lambda>(k, v) m. obj_insert k v m) kvs []"

definition obj_keys :: "obj \<Rightarrow> string list" where
  "obj_keys m = map fst m"

definition obj_ok :: "obj \<Rightarrow> bool" where
  "obj_ok m \<longleftrightarrow> sorted_wrt (<) (map fst m)"

lemma obj_ok_Nil [simp, intro]: "obj_ok []"
  by (simp add: obj_ok_def)

lemma map_of_obj_insert [simp]: "map_of (obj_insert k v m) = (map_of m)(k \<mapsto> v)"
  by (induction m) (auto simp: fun_eq_iff)

lemma keys_obj_insert [simp]: "fst ` set (obj_insert k v m) = insert k (fst ` set m)"
  by (simp flip: dom_map_of_conv_image_fst)

lemma obj_ok_insert [intro, simp]: "obj_ok m \<Longrightarrow> obj_ok (obj_insert k v m)"
proof (induction m)
  case Nil
  then show ?case by (simp add: obj_ok_def)
next
  case (Cons p m)
  obtain a b where p: "p = (a, b)" by (cases p)
  from Cons.prems p have ok: "obj_ok m" and lt: "\<forall>x \<in> fst ` set m. a < x"
    by (auto simp: obj_ok_def)
  have "\<forall>x \<in> fst ` set (obj_insert k v m). a < x" if "a < k"
    using that lt by simp
  with Cons.IH [OF ok] Cons.prems p show ?case
    by (auto simp: obj_ok_def intro: less_trans)
qed

lemma obj_ok_distinct: "obj_ok m \<Longrightarrow> distinct (map fst m)"
  by (simp add: obj_ok_def strict_sorted_iff)

lemma obj_of_list_Nil [simp]: "obj_of_list [] = []"
  by (simp add: obj_of_list_def)

lemma obj_ok_of_list [intro, simp]: "obj_ok (obj_of_list kvs)"
proof -
  have "obj_ok m \<Longrightarrow> obj_ok (fold (\<lambda>(k, v) m. obj_insert k v m) kvs m)" for m
    by (induction kvs arbitrary: m) auto
  then show ?thesis by (simp add: obj_of_list_def)
qed

lemma map_of_obj_of_list: "map_of (obj_of_list kvs) = map_of (rev kvs)"
proof -
  have "map_of (fold (\<lambda>(k, v) m. obj_insert k v m) kvs m) = map_of m ++ map_of (rev kvs)" for m
  proof (induction kvs arbitrary: m)
    case Nil
    then show ?case by simp
  next
    case (Cons p kvs)
    then show ?case
      by (cases p) (simp add: map_add_def fun_eq_iff split: option.splits)
  qed
  then show ?thesis by (simp add: obj_of_list_def)
qed

text \<open>Two well-formed maps with the same lookups are the same map.\<close>

lemma obj_eqI:
  assumes "obj_ok m" and "obj_ok m'" and "map_of m = map_of m'"
  shows "m = m'"
proof -
  have ks: "set (map fst m) = set (map fst m')"
    using assms(3) by (metis dom_map_of_conv_image_fst list.set_map)
  then have "map fst m = map fst m'"
    using assms(1,2) by (simp add: obj_ok_def strict_sorted_equal)
  moreover have "map snd m = map snd m'"
  proof -
    have s: "map snd x = map (\<lambda>k. the (map_of x k)) (map fst x)" if "obj_ok x" for x :: obj
      using obj_ok_distinct [OF that] by (auto simp: map_of_is_SomeI)
    show ?thesis using s [OF assms(1)] s [OF assms(2)] assms(3) calculation by simp
  qed
  ultimately show ?thesis by (metis zip_map_fst_snd)
qed

section \<open>Values\<close>

fun as_str :: "json \<Rightarrow> string option" where
  "as_str (JString s) = Some s"
| "as_str _ = None"

fun as_bool :: "json \<Rightarrow> bool option" where
  "as_bool (JBool b) = Some b"
| "as_bool _ = None"

fun as_i64 :: "json \<Rightarrow> i64 option" where
  "as_i64 (JInt i) = (if - (2 ^ 63) \<le> i \<and> i < 2 ^ 63 then Some (word_of_int i) else None)"
| "as_i64 _ = None"

fun as_object :: "json \<Rightarrow> obj option" where
  "as_object (JObject m) = Some m"
| "as_object _ = None"

fun as_array :: "json \<Rightarrow> json list option" where
  "as_array (JArray vs) = Some vs"
| "as_array _ = None"

text \<open>\<open>Value::get(&str)\<close> is \<open>None\<close> on anything but an object.\<close>

fun value_get :: "json \<Rightarrow> string \<Rightarrow> json option" where
  "value_get (JObject m) k = obj_get m k"
| "value_get _ k = None"

text \<open>\<open>record.get(k).and_then(Value::as_str)\<close> and its siblings.\<close>

definition get_str :: "obj \<Rightarrow> string \<Rightarrow> string option" where
  "get_str m k = Option.bind (obj_get m k) as_str"

definition get_i64 :: "obj \<Rightarrow> string \<Rightarrow> i64 option" where
  "get_i64 m k = Option.bind (obj_get m k) as_i64"

definition get_bool :: "obj \<Rightarrow> string \<Rightarrow> bool option" where
  "get_bool m k = Option.bind (obj_get m k) as_bool"

definition json_of_i64 :: "i64 \<Rightarrow> json" where
  "json_of_i64 w = JInt (sint w)"

lemma as_i64_json_of_i64 [simp]: "as_i64 (json_of_i64 w) = Some w"
  using sint_i64_bounds [of w] by (simp add: json_of_i64_def)

text \<open>The text format, supplied by \<open>serde_json\<close>.\<close>

record json_codec =
  render :: "json \<Rightarrow> string"
  parse :: "string \<Rightarrow> string + json"

text \<open>
  What reading back a printed value gives: every object in key order. The laws asked of a codec
  are that no value prints as the empty text, and that reading inverts printing on well-formed
  values, those whose objects have no key twice, that the crate documents to come back: the parser
  stops at its recursion limit of 128, so arrays and objects nest at most 127 deep, and without
  the \<open>float_roundtrip\<close> feature, which the workspace does not enable, a float may come back in
  another last place, so there is none. Integers outside the range of the crate are not values it can hold.
\<close>

fun json_norm :: "json \<Rightarrow> json" where
  "json_norm (JArray vs) = JArray (map json_norm vs)"
| "json_norm (JObject m) = JObject (obj_of_list (map (\<lambda>(k, v). (k, json_norm v)) m))"
| "json_norm v = v"

fun json_wf :: "json \<Rightarrow> bool" where
  "json_wf (JInt i) \<longleftrightarrow> - (2 ^ 63) \<le> i \<and> i < 2 ^ 64"
| "json_wf (JArray vs) \<longleftrightarrow> (\<forall>v \<in> set vs. json_wf v)"
| "json_wf (JObject m) \<longleftrightarrow> distinct (map fst m) \<and> (\<forall>(k, v) \<in> set m. json_wf v)"
| "json_wf _ \<longleftrightarrow> True"

fun json_canonical :: "json \<Rightarrow> bool" where
  "json_canonical (JInt i) \<longleftrightarrow> - (2 ^ 63) \<le> i \<and> i < 2 ^ 64"
| "json_canonical (JArray vs) \<longleftrightarrow> (\<forall>v \<in> set vs. json_canonical v)"
| "json_canonical (JObject m) \<longleftrightarrow> obj_ok m \<and> (\<forall>(k, v) \<in> set m. json_canonical v)"
| "json_canonical _ \<longleftrightarrow> True"

text \<open>No float, and at most \<open>d\<close> arrays and objects inside each other.\<close>

fun json_fits :: "nat \<Rightarrow> json \<Rightarrow> bool" where
  "json_fits d (JFloat f) \<longleftrightarrow> False"
| "json_fits d (JArray vs) \<longleftrightarrow> 0 < d \<and> (\<forall>v \<in> set vs. json_fits (d - 1) v)"
| "json_fits d (JObject m) \<longleftrightarrow> 0 < d \<and> (\<forall>(k, v) \<in> set m. json_fits (d - 1) v)"
| "json_fits d _ \<longleftrightarrow> True"

definition codec_ok :: "json_codec \<Rightarrow> bool" where
  "codec_ok c \<longleftrightarrow> (\<forall>v. render c v \<noteq> [])
     \<and> (\<forall>v. json_wf v \<and> json_fits 127 v \<longrightarrow> parse c (render c v) = Inr (json_norm v))"

text \<open>
  The values that a store can wrap and read back: in key order, without floats, and nested no
  deeper than \<open>d\<close>. A record or a queued payload has \<open>d = 124\<close>, which leaves three levels: the
  array of the queue's file, the operation in it and the kind in that.
\<close>

definition json_storable :: "nat \<Rightarrow> json \<Rightarrow> bool" where
  "json_storable d v \<longleftrightarrow> json_canonical v \<and> json_fits d v"

abbreviation record_ok :: "obj \<Rightarrow> bool" where
  "record_ok m \<equiv> json_storable 124 (JObject m)"

lemma json_fits_mono: "json_fits d v \<Longrightarrow> d \<le> e \<Longrightarrow> json_fits e v"
proof (induction d v arbitrary: e rule: json_fits.induct)
  case (2 d vs)
  then show ?case by (auto intro: diff_le_mono)
next
  case (3 d m)
  then show ?case by (fastforce intro: diff_le_mono)
qed simp_all

lemma json_storable_mono: "json_storable d v \<Longrightarrow> d \<le> e \<Longrightarrow> json_storable e v"
  by (auto simp: json_storable_def intro: json_fits_mono)

lemma json_storable_simps [simp]:
  "json_storable d JNull" "json_storable d (JBool b)" "json_storable d (JString s)"
  "json_storable d (JInt i) \<longleftrightarrow> - (2 ^ 63) \<le> i \<and> i < 2 ^ 64" "\<not> json_storable d (JFloat f)"
  "json_storable d (JArray vs) \<longleftrightarrow> 0 < d \<and> (\<forall>v \<in> set vs. json_storable (d - 1) v)"
  "json_storable d (JObject m) \<longleftrightarrow> 0 < d \<and> obj_ok m \<and> (\<forall>(k, v) \<in> set m. json_storable (d - 1) v)"
  by (auto simp: json_storable_def)

lemma json_storable_of_i64 [simp]: "json_storable d (json_of_i64 w)" "json_fits d (json_of_i64 w)"
  using sint_i64_bounds [of w] by (simp_all add: json_of_i64_def)

lemma map_of_rev: "distinct (map fst kvs) \<Longrightarrow> map_of (rev kvs) = map_of kvs"
  by (subst map_of_inject_set) (simp_all flip: rev_map)

lemma obj_of_list_ok: "obj_ok m \<Longrightarrow> obj_of_list m = m"
  by (rule obj_eqI) (simp_all add: map_of_obj_of_list obj_ok_distinct map_of_rev)

lemma json_canonical_wf: "json_canonical v \<Longrightarrow> json_wf v"
  by (induction v rule: json_canonical.induct) (auto simp: obj_ok_distinct)

lemma json_canonical_norm: "json_canonical v \<Longrightarrow> json_norm v = v"
proof (induction v rule: json_norm.induct)
  case (1 vs)
  then show ?case by (simp add: map_idI)
next
  case (2 m)
  then have "map (\<lambda>(k, v). (k, json_norm v)) m = m"
    by (auto intro!: map_idI)
  with 2 show ?case by (simp add: obj_of_list_ok)
qed simp_all

lemma json_storableD: "json_storable d v \<Longrightarrow> json_wf v \<and> json_norm v = v"
  by (simp add: json_storable_def json_canonical_wf json_canonical_norm)

lemma codec_roundtrip:
  assumes "codec_ok c" and "json_storable d v" and "d \<le> 127"
  shows "parse c (render c v) = Inr v"
  using assms json_storableD [OF assms(2)] json_fits_mono [OF _ assms(3), of v]
  by (simp add: codec_ok_def json_storable_def)

lemma json_wf_of_i64 [simp]: "json_wf (json_of_i64 w)" "json_canonical (json_of_i64 w)"
  using sint_i64_bounds [of w] by (simp_all add: json_of_i64_def)

section \<open>A concrete text format\<close>

text \<open>
  A self-delimiting notation that satisfies the law, for the witnesses: lengths and magnitudes
  in unary, every value tagged by its first character.
\<close>

definition ref_nat :: "nat \<Rightarrow> string" where
  "ref_nat n = replicate n (CHR ''i'') @ ''.''"

fun un_nat :: "string \<Rightarrow> (nat \<times> string) option" where
  "un_nat (CHR ''i'' # s) = (case un_nat s of Some (n, r) \<Rightarrow> Some (Suc n, r) | None \<Rightarrow> None)"
| "un_nat (CHR ''.'' # s) = Some (0, s)"
| "un_nat _ = None"

lemma un_nat_ref [simp]: "un_nat (ref_nat n @ r) = Some (n, r)"
  by (induction n) (simp_all add: ref_nat_def)

definition ref_str :: "string \<Rightarrow> string" where
  "ref_str s = ref_nat (length s) @ s"

definition un_str :: "string \<Rightarrow> (string \<times> string) option" where
  "un_str s = Option.bind (un_nat s) (\<lambda>(n, r). if n \<le> length r then Some (take n r, drop n r) else None)"

lemma un_str_ref [simp]: "un_str (ref_str s @ r) = Some (s, r)"
  by (simp add: un_str_def ref_str_def)

fun ref_render :: "json \<Rightarrow> string" where
  "ref_render JNull = ''n''"
| "ref_render (JBool b) = (if b then ''t'' else ''f'')"
| "ref_render (JInt i) = (if i < 0 then ''-'' else ''+'') @ ref_nat (nat \<bar>i\<bar>)"
| "ref_render (JFloat w) = ''d'' @ ref_nat (unat w)"
| "ref_render (JString s) = ''s'' @ ref_str s"
| "ref_render (JArray vs) = ''a'' @ ref_nat (length vs) @ concat (map ref_render vs)"
| "ref_render (JObject m) =
     ''o'' @ ref_nat (length m) @ concat (map (\<lambda>(k, v). ref_str k @ ref_render v) m)"

fun un_list :: "(string \<Rightarrow> ('a \<times> string) option) \<Rightarrow> nat \<Rightarrow> string \<Rightarrow> ('a list \<times> string) option" where
  "un_list p 0 s = Some ([], s)"
| "un_list p (Suc n) s =
     Option.bind (p s) (\<lambda>(x, r). Option.bind (un_list p n r) (\<lambda>(xs, q). Some (x # xs, q)))"

text \<open>The fuel bounds the nesting depth, which the length of the text bounds.\<close>

fun un_json :: "nat \<Rightarrow> string \<Rightarrow> (json \<times> string) option" where
  "un_json 0 s = None"
| "un_json (Suc d) [] = None"
| "un_json (Suc d) (c # s) =
     (if c = CHR ''n'' then Some (JNull, s)
      else if c = CHR ''t'' then Some (JBool True, s)
      else if c = CHR ''f'' then Some (JBool False, s)
      else if c = CHR ''+'' then map_option (\<lambda>(n, r). (JInt (int n), r)) (un_nat s)
      else if c = CHR ''-'' then map_option (\<lambda>(n, r). (JInt (- int n), r)) (un_nat s)
      else if c = CHR ''d'' then map_option (\<lambda>(n, r). (JFloat (word_of_nat n), r)) (un_nat s)
      else if c = CHR ''s'' then map_option (\<lambda>(x, r). (JString x, r)) (un_str s)
      else if c = CHR ''a'' then
        Option.bind (un_nat s) (\<lambda>(n, r). map_option (\<lambda>(vs, q). (JArray vs, q)) (un_list (un_json d) n r))
      else if c = CHR ''o'' then
        Option.bind (un_nat s) (\<lambda>(n, r). map_option (\<lambda>(m, q). (JObject m, q))
          (un_list (\<lambda>t. Option.bind (un_str t) (\<lambda>(k, q). map_option (\<lambda>(v, u). ((k, v), u)) (un_json d q))) n r))
      else None)"

definition ref_codec :: json_codec where
  "ref_codec = \<lparr>render = ref_render,
     parse = (\<lambda>s. case un_json (length s) s of
                Some (v, []) \<Rightarrow> Inr (json_norm v)
              | _ \<Rightarrow> Inl ''syntax error'')\<rparr>"

lemma un_list_ref:
  assumes "\<And>x r. x \<in> set xs \<Longrightarrow> p (f x @ r) = Some (x, r)"
  shows "un_list p (length xs) (concat (map f xs) @ r) = Some (xs, r)"
  using assms by (induction xs) simp_all

lemma length_concat_ge: "x \<in> set xs \<Longrightarrow> length (f x) \<le> length (concat (map f xs))"
  by (induction xs) auto

lemma un_json_ref: "length (ref_render v) \<le> d \<Longrightarrow> un_json d (ref_render v @ r) = Some (v, r)"
proof (induction v arbitrary: d r rule: ref_render.induct)
  case (6 vs)
  then obtain e where d: "d = Suc e" by (cases d) auto
  have "un_json e (ref_render v @ q) = Some (v, q)" if "v \<in> set vs" for v q
    using 6 length_concat_ge [OF that, of ref_render] that by (simp add: d)
  then have "un_list (un_json e) (length vs) (concat (map ref_render vs) @ r) = Some (vs, r)"
    by (rule un_list_ref)
  then show ?case by (simp add: d)
next
  case (7 m)
  then obtain e where d: "d = Suc e" by (cases d) auto
  let ?f = "\<lambda>(k, v). ref_str k @ ref_render v"
  let ?p = "\<lambda>t. Option.bind (un_str t) (\<lambda>(k, q). map_option (\<lambda>(v, u). ((k, v), u)) (un_json e q))"
  have "un_json e (ref_render v @ q) = Some (v, q)" if "(k, v) \<in> set m" for k v q
    using 7 length_concat_ge [OF that, of ?f] that by (auto simp: d)
  then have "un_list ?p (length m) (concat (map ?f m) @ r) = Some (m, r)"
    by (intro un_list_ref) (auto simp: case_prod_beta)
  then show ?case by (simp add: d)
qed (auto simp: Suc_le_eq gr0_conv_Suc dest!: less_imp_Suc_add)

lemma ref_render_ne: "ref_render v \<noteq> []"
  by (cases v) auto

lemma ref_codec_ok [simp]: "codec_ok ref_codec"
  using ref_render_ne un_json_ref [where r = "[]"] by (simp add: codec_ok_def ref_codec_def)

end
