(* ===== verification/OfflineQueue.thy ===== *)
theory OfflineQueue
  imports Errors Json
begin

text \<open>
  \<open>crates/polybase/src/offline_queue/mod.rs\<close>: the queued operation and its JSON form,
  the \<open>OfflineQueue\<close> trait as a locale, and the in-memory queue as its first model. A
  queue object is its state; an operation of the trait maps a state to the \<open>Result\<close> and
  the next state, one atomic step as the lock of the implementations makes it.
\<close>

section \<open>Queued operations\<close>

datatype QueuedOperationKind =
    Write json
  | Tombstone i64
  | HardDelete

record QueuedOperation =
  op_table :: string
  op_entity_id :: string
  op_kind :: QueuedOperationKind
  op_queued_at_micros :: i64
  op_retry_count :: u32
  op_last_error :: "string option"

definition to_contract :: "QueuedOperation \<Rightarrow> ContractOperation" where
  "to_contract op =
     \<lparr>co_table = op_table op, co_entity_id = op_entity_id op,
      co_queued_at_micros = op_queued_at_micros op\<rparr>"

definition op_key :: "QueuedOperation \<Rightarrow> string \<times> string" where
  "op_key op = (op_table op, op_entity_id op)"

text \<open>The full key of the \<open>HashSet\<close>s and \<open>HashMap\<close>s in the finalizers.\<close>

definition full_key :: "QueuedOperation \<Rightarrow> string \<times> string \<times> i64" where
  "full_key op = (op_table op, op_entity_id op, op_queued_at_micros op)"

text \<open>The derived serde forms: internally tagged, snake case.\<close>

fun kind_to_json :: "QueuedOperationKind \<Rightarrow> json" where
  "kind_to_json (Write payload) =
     JObject [(''type'', JString ''write''), (''payload'', payload)]"
| "kind_to_json (Tombstone version) =
     JObject [(''type'', JString ''tombstone''), (''version'', json_of_i64 version)]"
| "kind_to_json HardDelete = JObject [(''type'', JString ''hard_delete'')]"

text \<open>
  The texts of the deserialisation errors are those of the crate: the model only says that
  there is one.
\<close>

definition kind_from_json :: "json \<Rightarrow> string + QueuedOperationKind" where
  "kind_from_json v =
     (case Option.bind (value_get v ''type'') as_str of
        None \<Rightarrow> Inl ''missing field `type`''
      | Some tag \<Rightarrow>
          (if tag = ''write'' then
             map_err (\<lambda>_. ''missing field `payload`'')
               (ok_or () (map_option Write (value_get v ''payload'')))
           else if tag = ''tombstone'' then
             map_err (\<lambda>_. ''missing field `version`'')
               (ok_or () (map_option Tombstone (Option.bind (value_get v ''version'') as_i64)))
           else if tag = ''hard_delete'' then Inr HardDelete
           else Inl ''unknown variant''))"

definition json_of_opt_str :: "string option \<Rightarrow> json" where
  "json_of_opt_str x = (case x of None \<Rightarrow> JNull | Some s \<Rightarrow> JString s)"

definition op_to_json :: "QueuedOperation \<Rightarrow> json" where
  "op_to_json op = JObject
     [(''table'', JString (op_table op)), (''entity_id'', JString (op_entity_id op)),
      (''kind'', kind_to_json (op_kind op)),
      (''queued_at_micros'', json_of_i64 (op_queued_at_micros op)),
      (''retry_count'', JInt (int (unat (op_retry_count op)))),
      (''last_error'', json_of_opt_str (op_last_error op))]"

fun u32_from_json :: "json \<Rightarrow> u32 option" where
  "u32_from_json (JInt i) = (if 0 \<le> i \<and> i < 2 ^ 32 then Some (word_of_int i) else None)"
| "u32_from_json _ = None"

fun opt_str_from_json :: "json \<Rightarrow> string option option" where
  "opt_str_from_json JNull = Some None"
| "opt_str_from_json (JString s) = Some (Some s)"
| "opt_str_from_json _ = None"

text \<open>\<open>#[serde(default)]\<close> gives a missing retry count 0 and a missing error \<open>None\<close>.\<close>

definition op_from_json :: "json \<Rightarrow> string + QueuedOperation" where
  "op_from_json v =
     (case (Option.bind (value_get v ''table'') as_str,
            Option.bind (value_get v ''entity_id'') as_str,
            value_get v ''kind'',
            Option.bind (value_get v ''queued_at_micros'') as_i64,
            (case value_get v ''retry_count'' of None \<Rightarrow> Some 0 | Some x \<Rightarrow> u32_from_json x),
            (case value_get v ''last_error'' of None \<Rightarrow> Some None | Some x \<Rightarrow> opt_str_from_json x)) of
        (Some table, Some entity_id, Some kind, Some at, Some retries, Some last_error) \<Rightarrow>
          (case kind_from_json kind of
             Inl e \<Rightarrow> Inl e
           | Inr k \<Rightarrow> Inr \<lparr>op_table = table, op_entity_id = entity_id, op_kind = k,
                         op_queued_at_micros = at, op_retry_count = retries,
                         op_last_error = last_error\<rparr>)
      | _ \<Rightarrow> Inl ''invalid queued operation'')"

text \<open>The payloads that can be wrapped in a kind, an operation and the array of a file and read back.\<close>

definition kind_ok :: "QueuedOperationKind \<Rightarrow> bool" where
  "kind_ok k = (case k of Write p \<Rightarrow> json_storable 124 p | _ \<Rightarrow> True)"

lemma json_norm_str [simp]: "json_norm (json_of_opt_str x) = json_of_opt_str x"
  "json_wf (json_of_opt_str x)" "json_fits d (json_of_opt_str x)" "opt_str_from_json (json_of_opt_str x) = Some x"
  by (cases x; simp add: json_of_opt_str_def)+

lemma kind_json_wf [simp]: "kind_ok k \<Longrightarrow> json_wf (kind_to_json k)"
  by (cases k) (auto simp: kind_ok_def dest: json_storableD)

lemma kind_json_fits [simp]: "kind_ok k \<Longrightarrow> 125 \<le> d \<Longrightarrow> json_fits d (kind_to_json k)"
  by (cases k) (auto simp: kind_ok_def json_storable_def elim!: json_fits_mono)

lemma kind_json_norm: "kind_ok k \<Longrightarrow> kind_from_json (json_norm (kind_to_json k)) = Inr k"
  by (cases k)
    (simp_all add: kind_ok_def kind_from_json_def map_of_obj_of_list json_storableD json_of_i64_def
      sint_i64_bounds [simplified])

lemma json_norm_i64 [simp]: "json_norm (json_of_i64 w) = json_of_i64 w"
  by (simp add: json_of_i64_def)

lemma u32_json: "json_wf (JInt (int (unat (w :: u32))))" "u32_from_json (JInt (int (unat w))) = Some w"
proof -
  have "0 \<le> uint w" "uint w < 2 ^ 32" using unsigned_less [of w] by simp_all
  moreover have "- (2 ^ 63) \<le> uint w" by (rule order_trans [of _ 0]) simp_all
  ultimately show "json_wf (JInt (int (unat w)))" "u32_from_json (JInt (int (unat w))) = Some w"
    by simp_all
qed

lemma op_json_wf: "kind_ok (op_kind op) \<Longrightarrow> json_wf (op_to_json op)"
  using u32_json [of "op_retry_count op"] by (simp add: op_to_json_def)

lemma op_json_fits: "kind_ok (op_kind op) \<Longrightarrow> 126 \<le> d \<Longrightarrow> json_fits d (op_to_json op)"
  by (simp add: op_to_json_def)

lemma op_json_norm: "kind_ok (op_kind op) \<Longrightarrow> op_from_json (json_norm (op_to_json op)) = Inr op"
  using u32_json [of "op_retry_count op"]
  by (simp add: op_to_json_def op_from_json_def map_of_obj_of_list kind_json_norm)

section \<open>Finalisation on queued operations\<close>

definition stamps :: "QueuedOperation list \<Rightarrow> (string \<times> string \<times> i64) set" where
  "stamps ops = full_key ` set ops"

text \<open>The keys that stay, computed through the contract helper by every implementation.\<close>

definition retained_keys ::
  "QueuedOperation list \<Rightarrow> QueuedOperation list \<Rightarrow> QueuedOperation list
   \<Rightarrow> (string \<times> string \<times> i64) set" where
  "retained_keys current snapshot failed =
     (\<lambda>op. (co_table op, co_entity_id op, co_queued_at_micros op)) `
       set (finalize_queue_after_processing (map to_contract current) (map to_contract snapshot)
              (map to_contract failed))"

definition failed_by_full_key ::
  "QueuedOperation list \<Rightarrow> (string \<times> string \<times> i64) \<rightharpoonup> string option" where
  "failed_by_full_key failed = collect_map (map (\<lambda>f. (full_key f, op_last_error f)) failed)"

lemma co_key_to_contract [simp]: "co_key (to_contract op) = op_key op"
  by (simp add: co_key_def to_contract_def op_key_def)

lemma stamp_to_contract: "stamp (to_contract op) = (op_key op, op_queued_at_micros op)"
  by (simp add: stamp_def) (simp add: to_contract_def)

lemma full_key_eq_iff: "full_key a = full_key b \<longleftrightarrow> stamp (to_contract a) = stamp (to_contract b)"
  by (auto simp: full_key_def stamp_to_contract op_key_def)

lemma full_key_op_key: "full_key a = full_key b \<Longrightarrow> op_key a = op_key b"
  by (simp add: full_key_def op_key_def)

lemma full_key_triple:
  "(co_table (to_contract a), co_entity_id (to_contract a), co_queued_at_micros (to_contract a))
   = full_key a"
  by (simp add: to_contract_def full_key_def)

lemma failed_by_full_key_dom: "failed_by_full_key failed k = None \<longleftrightarrow> k \<notin> stamps failed"
  by (simp add: failed_by_full_key_def collect_map_None stamps_def image_image)

text \<open>
  With distinct keys in the queue and in the snapshot, and failures taken from the snapshot, an
  operation of the queue stays exactly when the snapshot does not cover it or it failed.
\<close>

lemma retained_keys_iff:
  assumes "distinct (map op_key current)" and "distinct (map op_key snapshot)"
    and sub: "stamps failed \<subseteq> stamps snapshot" and op: "op \<in> set current"
  shows "full_key op \<in> retained_keys current snapshot failed
         \<longleftrightarrow> full_key op \<notin> stamps snapshot \<or> full_key op \<in> stamps failed"
proof -
  let ?S = "superseding (map to_contract current) (map to_contract snapshot)"
  have S: "set ?S = to_contract ` {x \<in> set current. full_key x \<notin> stamps snapshot}"
  proof -
    have "(stamp (to_contract x) \<in> (\<lambda>y. stamp (to_contract y)) ` set snapshot)
        = (full_key x \<in> stamps snapshot)" for x
      by (auto simp: stamps_def full_key_eq_iff)
    then show ?thesis using assms(2) by (auto simp: set_superseding comp_def image_image)
  qed
  have mem: "full_key op \<in> retained_keys current snapshot failed \<longleftrightarrow>
      (\<exists>c \<in> set ?S \<union> set (readd_failed (co_key ` set ?S) (map to_contract failed)).
         (co_table c, co_entity_id c, co_queued_at_micros c) = full_key op)"
    by (simp only: retained_keys_def finalize_alt set_append image_iff eq_commute [of "full_key op"])
  show ?thesis
  proof (cases "full_key op \<in> stamps snapshot")
    case False
    then have "to_contract op \<in> set ?S" using op by (simp add: S)
    then show ?thesis using False mem full_key_triple by blast
  next
    case True
    have key: "x = op" if "x \<in> set current" "op_key x = op_key op" for x
      using assms(1) op that by (metis distinct_map inj_onD)
    have nk: "op_key op \<notin> co_key ` set ?S"
      using True key by (auto simp: S)
    have uniq: "full_key f = full_key op"
      if f: "f \<in> set failed" "op_key f = op_key op" for f
    proof -
      obtain a where a: "a \<in> set snapshot" "full_key a = full_key op"
        using True by (auto simp: stamps_def)
      obtain b where b: "b \<in> set snapshot" "full_key b = full_key f"
        using f(1) sub by (fastforce simp: stamps_def)
      have "op_key a = op_key b" using a b f(2) by (metis full_key_op_key)
      then have "a = b" using assms(2) a b by (metis distinct_map inj_onD)
      then show ?thesis using a b by simp
    qed
    have notS: "(co_table c, co_entity_id c, co_queued_at_micros c) \<noteq> full_key op"
      if "c \<in> set ?S" for c
      using that True key by (auto simp: S full_key_triple dest: full_key_op_key)
    show ?thesis
    proof
      assume "full_key op \<in> retained_keys current snapshot failed"
      then obtain c where "c \<in> set (map to_contract failed)"
        "(co_table c, co_entity_id c, co_queued_at_micros c) = full_key op"
        using mem notS set_readd_failed by blast
      then show "full_key op \<notin> stamps snapshot \<or> full_key op \<in> stamps failed"
        by (auto simp: stamps_def full_key_triple image_iff) metis
    next
      assume "full_key op \<notin> stamps snapshot \<or> full_key op \<in> stamps failed"
      then obtain f where f: "f \<in> set failed" "full_key f = full_key op"
        using True by (auto simp: stamps_def)
      then have "op_key op \<in> co_key ` set (map to_contract failed)"
        by (metis co_key_to_contract full_key_op_key image_eqI image_set)
      then have "op_key op \<in> co_key ` set (readd_failed (co_key ` set ?S) (map to_contract failed))"
        using nk by (simp add: keys_readd_failed del: set_map)
      then obtain c where c: "c \<in> set (readd_failed (co_key ` set ?S) (map to_contract failed))"
        "co_key c = op_key op" by auto
      then obtain g where "g \<in> set failed" "c = to_contract g"
        using set_readd_failed by fastforce
      with c uniq have "(co_table c, co_entity_id c, co_queued_at_micros c) = full_key op"
        by (simp add: full_key_triple)
      with c mem show "full_key op \<in> retained_keys current snapshot failed" by blast
    qed
  qed
qed

text \<open>A fresh operation, as the tests build one.\<close>

definition sample_op :: "string \<Rightarrow> string \<Rightarrow> i64 \<Rightarrow> QueuedOperation" where
  "sample_op table i at =
     \<lparr>op_table = table, op_entity_id = i, op_kind = Write JNull, op_queued_at_micros = at,
      op_retry_count = 0, op_last_error = None\<rparr>"

section \<open>The trait\<close>

definition keyed :: "QueuedOperation list \<Rightarrow> ((string \<times> string) \<times> QueuedOperation) list" where
  "keyed ops = map (\<lambda>op. (op_key op, op)) ops"

text \<open>
  What becomes of one queued operation when a batch is finalised, \<open>retried\<close> being what the
  implementation does to an operation it keeps for another attempt.
\<close>

definition settled ::
  "(QueuedOperation list \<Rightarrow> QueuedOperation \<Rightarrow> QueuedOperation)
   \<Rightarrow> QueuedOperation list \<Rightarrow> QueuedOperation list \<Rightarrow> QueuedOperation \<Rightarrow> QueuedOperation option" where
  "settled retried snap failed op =
     (if full_key op \<in> stamps failed then Some (retried failed op)
      else if full_key op \<in> stamps snap then None
      else Some op)"

text \<open>The retry counter of a stored operation can still be incremented.\<close>

definition headroom :: "(string \<times> string \<rightharpoonup> QueuedOperation) \<Rightarrow> bool" where
  "headroom m \<longleftrightarrow> (\<forall>op \<in> ran m. op_retry_count op \<noteq> - 1)"

definition bump_retry :: "QueuedOperation list \<Rightarrow> QueuedOperation \<Rightarrow> QueuedOperation" where
  "bump_retry failed op =
     (case failed_by_full_key failed (full_key op) of
        None \<Rightarrow> op
      | Some last_error \<Rightarrow>
          op\<lparr>op_retry_count := u32_saturating_inc (op_retry_count op), op_last_error := last_error\<rparr>)"

lemma full_key_bump [simp]: "full_key (bump_retry failed op) = full_key op"
  by (simp add: bump_retry_def full_key_def split: option.splits)

lemma op_key_bump [simp]: "op_key (bump_retry failed op) = op_key op"
  by (rule full_key_op_key) simp

lemma kind_bump [simp]: "op_kind (bump_retry failed op) = op_kind op"
  by (simp add: bump_retry_def split: option.splits)

lemma fst_keyed [simp]: "map fst (keyed ops) = map op_key ops" "fst ` set (keyed ops) = op_key ` set ops"
  by (simp_all add: keyed_def comp_def image_image)

lemma keyed_simps [simp]: "keyed [] = []" "keyed (op # ops) = (op_key op, op) # keyed ops"
  "keyed (xs @ ys) = keyed xs @ keyed ys"
  by (simp_all add: keyed_def)

lemma map_of_keyed_SomeD: "map_of (keyed ops) k = Some op \<Longrightarrow> op \<in> set ops \<and> op_key op = k"
  by (auto simp: keyed_def dest!: map_of_SomeD)

lemma headroomD: "headroom m \<Longrightarrow> m k = Some op \<Longrightarrow> op_retry_count op \<noteq> - 1"
  unfolding headroom_def by (blast intro: ranI)

lemma headroom_map_of: "(\<And>op. op \<in> set ops \<Longrightarrow> op_retry_count op \<noteq> - 1) \<Longrightarrow> headroom (map_of (keyed ops))"
  by (auto simp: headroom_def ran_def dest!: map_of_keyed_SomeD)

lemma map_of_keyed_iff:
  "distinct (map op_key ops) \<Longrightarrow> map_of (keyed ops) k = Some op \<longleftrightarrow> op \<in> set ops \<and> op_key op = k"
  by (subst map_of_eq_Some_iff) (auto simp: keyed_def comp_def)

text \<open>Enqueues of other tasks, in the order in which they take the lock.\<close>

fun enqueue_all ::
  "(QueuedOperation \<Rightarrow> 'q \<Rightarrow> (OfflineQueueError + unit) \<times> 'q) \<Rightarrow> QueuedOperation list \<Rightarrow> 'q
   \<Rightarrow> (OfflineQueueError + unit) \<times> 'q" where
  "enqueue_all enq [] q = (Inr (), q)"
| "enqueue_all enq (op # ops) q =
     (case enq op q of
        (Inl e, q') \<Rightarrow> (Inl e, q')
      | (Inr u, q') \<Rightarrow> enqueue_all enq ops q')"

lemma keyed_singleton:
  assumes "distinct (map op_key ops)" and "map_of (keyed ops) k = Some op"
  shows "{x \<in> set ops. op_key x = k} = {op}"
proof -
  have op: "op \<in> set ops" "op_key op = k" using map_of_keyed_SomeD [OF assms(2)] by simp_all
  then show ?thesis using assms(1) by (auto simp: distinct_map inj_on_def)
qed

locale offline_queue =
  fixes enqueue :: "QueuedOperation \<Rightarrow> 'q \<Rightarrow> (OfflineQueueError + unit) \<times> 'q"
    and snapshot :: "'q \<Rightarrow> (OfflineQueueError + QueuedOperation list) \<times> 'q"
    and finalize :: "QueuedOperation list \<Rightarrow> QueuedOperation list \<Rightarrow> 'q
                     \<Rightarrow> (OfflineQueueError + unit) \<times> 'q"
    and depth :: "'q \<Rightarrow> (OfflineQueueError + nat) \<times> 'q"
    and inv :: "'q \<Rightarrow> bool"
    and view :: "'q \<Rightarrow> string \<times> string \<rightharpoonup> QueuedOperation"
    and retried :: "QueuedOperation list \<Rightarrow> QueuedOperation \<Rightarrow> QueuedOperation"
  assumes full_key_retried: "full_key (retried failed op) = full_key op"
    and enqueue_inv: "inv q \<Longrightarrow> kind_ok (op_kind op) \<Longrightarrow> inv (snd (enqueue op q))"
    and enqueue_view: "inv q \<Longrightarrow> kind_ok (op_kind op) \<Longrightarrow> fst (enqueue op q) = Inr () \<Longrightarrow>
          view (snd (enqueue op q)) = (view q)(op_key op \<mapsto> op)"
    and snapshot_inv: "inv q \<Longrightarrow> inv (snd (snapshot q))"
    and snapshot_view: "inv q \<Longrightarrow> view (snd (snapshot q)) = view q"
    and snapshot_ok: "inv q \<Longrightarrow> fst (snapshot q) = Inr ops \<Longrightarrow>
          distinct (map op_key ops) \<and> map_of (keyed ops) = view q"
    and finalize_inv: "inv q \<Longrightarrow> headroom (view q) \<Longrightarrow> inv (snd (finalize snap failed q))"
    and finalize_view: "inv q \<Longrightarrow> headroom (view q) \<Longrightarrow> distinct (map op_key snap) \<Longrightarrow>
          stamps failed \<subseteq> stamps snap \<Longrightarrow> fst (finalize snap failed q) = Inr () \<Longrightarrow>
          view (snd (finalize snap failed q)) k = Option.bind (view q k) (settled retried snap failed)"
    and depth_inv: "inv q \<Longrightarrow> inv (snd (depth q)) \<and> view (snd (depth q)) = view q"
    and depth_ok: "inv q \<Longrightarrow> fst (depth q) = Inr n \<Longrightarrow> n = card (dom (view q))"
begin

lemma enqueue_all_ok:
  assumes "inv q" and "\<And>op. op \<in> set ops \<Longrightarrow> kind_ok (op_kind op)"
    and "fst (enqueue_all enqueue ops q) = Inr ()"
  shows "inv (snd (enqueue_all enqueue ops q)) \<and>
         view (snd (enqueue_all enqueue ops q)) = view q ++ map_of (rev (keyed ops))"
  using assms
proof (induction ops arbitrary: q)
  case Nil
  then show ?case by simp
next
  case (Cons op ops)
  obtain r q' where e: "enqueue op q = (r, q')" by (cases "enqueue op q")
  with Cons.prems obtain u where r: "r = Inr u" by (cases r) auto
  have "inv q'" "view q' = (view q)(op_key op \<mapsto> op)"
    using enqueue_inv [OF Cons.prems(1), of op] enqueue_view [OF Cons.prems(1), of op]
      Cons.prems(2) e r by simp_all
  with Cons.IH [of q'] Cons.prems e r show ?case by (simp add: map_add_def fun_eq_iff split: option.splits)
qed

lemma view_key:
  assumes "inv q" and "fst (snapshot q) = Inr ops" and "view q k = Some op"
  shows "op \<in> set ops \<and> op_key op = k"
  using snapshot_ok [OF assms(1,2)] assms(3) map_of_keyed_SomeD by metis

text \<open>
  One replay: a snapshot is taken, other tasks enqueue while it is processed, and the batch is
  finalised with the operations that failed.
\<close>

lemma drain_exact:
  assumes q: "inv q" "snapshot q = (Inr snap, q1)"
    and e: "enqueue_all enqueue ops q1 = (Inr (), q2)"
    and ops: "\<And>op. op \<in> set ops \<Longrightarrow> kind_ok (op_kind op)" and sub: "stamps failed \<subseteq> stamps snap"
    and room: "headroom (view q2)" and f: "finalize snap failed q2 = (Inr (), q3)"
  shows "view q3 k = Option.bind ((view q ++ map_of (rev (keyed ops))) k) (settled retried snap failed)"
proof -
  have q1: "inv q1" "view q1 = view q"
    using snapshot_inv [OF q(1)] snapshot_view [OF q(1)] q(2) by simp_all
  have q2: "inv q2" "view q2 = view q ++ map_of (rev (keyed ops))"
    using enqueue_all_ok [OF q1(1), of ops] ops e q1(2) by simp_all
  have "distinct (map op_key snap)" using snapshot_ok [OF q(1)] q(2) by simp
  then show ?thesis using finalize_view [OF q2(1) room _ sub] f q2(2) by simp
qed

text \<open>With timestamps of their own, no enqueue of another task is lost.\<close>

lemma drain_view:
  assumes q: "inv q" "snapshot q = (Inr snap, q1)"
    and e: "enqueue_all enqueue ops q1 = (Inr (), q2)"
    and ops: "\<And>op. op \<in> set ops \<Longrightarrow> kind_ok (op_kind op)"
    and fresh: "stamps ops \<inter> stamps snap = {}" and sub: "stamps failed \<subseteq> stamps snap"
    and room: "headroom (view q2)" and f: "finalize snap failed q2 = (Inr (), q3)"
  shows "view q3 = (\<lambda>k. Option.bind (view q k)
           (\<lambda>op. if full_key op \<in> stamps failed then Some (retried failed op) else None))
         ++ map_of (rev (keyed ops))"
proof
  fix k
  have snap: "map_of (keyed snap) = view q" using snapshot_ok [OF q(1)] q(2) by simp
  show "view q3 k = ((\<lambda>k. Option.bind (view q k)
      (\<lambda>op. if full_key op \<in> stamps failed then Some (retried failed op) else None))
      ++ map_of (rev (keyed ops))) k"
  proof (cases "map_of (rev (keyed ops)) k")
    case None
    then show ?thesis
      using map_of_keyed_SomeD [of snap k] drain_exact [OF q e ops sub room f, of k]
      by (auto simp: map_add_def settled_def stamps_def snap split: option.splits intro!: Option.bind_cong)
  next
    case (Some op)
    then have "op \<in> set ops" using map_of_keyed_SomeD [of "rev ops" k op] by (simp add: keyed_def rev_map)
    then have "full_key op \<in> stamps ops" by (simp add: stamps_def)
    then show ?thesis using Some fresh sub drain_exact [OF q e ops sub room f, of k] by (auto simp: settled_def)
  qed
qed

end

text \<open>
  Implementations that record the attempts of an operation they keep: the retry counter goes up
  and the error of the failed entry is stored.
\<close>

locale retrying_queue = offline_queue enqueue snapshot finalize depth inv view bump_retry
  for enqueue :: "QueuedOperation \<Rightarrow> 'q \<Rightarrow> (OfflineQueueError + unit) \<times> 'q"
    and snapshot :: "'q \<Rightarrow> (OfflineQueueError + QueuedOperation list) \<times> 'q"
    and finalize :: "QueuedOperation list \<Rightarrow> QueuedOperation list \<Rightarrow> 'q
                     \<Rightarrow> (OfflineQueueError + unit) \<times> 'q"
    and depth :: "'q \<Rightarrow> (OfflineQueueError + nat) \<times> 'q"
    and inv :: "'q \<Rightarrow> bool"
    and view :: "'q \<Rightarrow> string \<times> string \<rightharpoonup> QueuedOperation" +
  assumes enqueue_atomic: "inv q \<Longrightarrow> fst (enqueue op q) = Inl e \<Longrightarrow> view (snd (enqueue op q)) = view q"
    and finalize_atomic: "inv q \<Longrightarrow> fst (finalize snap failed q) = Inl e \<Longrightarrow>
          view (snd (finalize snap failed q)) = view q"
begin

lemma retry_recorded:
  assumes "inv q" "headroom (view q)" "distinct (map op_key snap)" "stamps failed \<subseteq> stamps snap"
    and "fst (finalize snap failed q) = Inr ()"
    and "view q k = Some op" and "full_key op \<in> stamps failed"
  obtains op' where "view (snd (finalize snap failed q)) k = Some op'"
    and "unat (op_retry_count op') = unat (op_retry_count op) + 1"
    and "op_last_error op' = the (failed_by_full_key failed (full_key op))"
    and "full_key op' = full_key op" and "op_kind op' = op_kind op"
proof
  from assms(7) obtain le where le: "failed_by_full_key failed (full_key op) = Some le"
    using failed_by_full_key_dom [of failed "full_key op"] by auto
  have ne: "op_retry_count op \<noteq> - 1"
    using assms(2,6) by (auto simp: headroom_def intro: ranI)
  then have inc: "unat (u32_saturating_inc (op_retry_count op)) = unat (op_retry_count op) + 1"
    by (rule unat_u32_inc)
  show "view (snd (finalize snap failed q)) k = Some (bump_retry failed op)"
    using finalize_view [OF assms(1-5)] assms(6,7) by (simp add: settled_def)
  show "unat (op_retry_count (bump_retry failed op)) = unat (op_retry_count op) + 1"
    and "op_last_error (bump_retry failed op) = the (failed_by_full_key failed (full_key op))"
    using inc by (simp_all add: bump_retry_def le)
qed simp_all

end

end
