(* ===== verification/MemoryQueue.thy ===== *)
theory MemoryQueue
  imports OfflineQueue
begin

text \<open>
  The \<open>MemoryQueue\<close> of \<open>crates/polybase/src/offline_queue/mod.rs\<close>: a
  \<open>VecDeque\<close> behind a mutex, here the list it holds. It meets both queue contracts.
\<close>

type_synonym MemoryQueue = "QueuedOperation list"

definition memory_enqueue ::
  "QueuedOperation \<Rightarrow> MemoryQueue \<Rightarrow> (OfflineQueueError + unit) \<times> MemoryQueue" where
  "memory_enqueue op q =
     (Inr (), filter (\<lambda>existing. \<not> (op_table existing = op_table op
                              \<and> op_entity_id existing = op_entity_id op)) q @ [op])"

definition memory_snapshot ::
  "MemoryQueue \<Rightarrow> (OfflineQueueError + QueuedOperation list) \<times> MemoryQueue" where
  "memory_snapshot q = (Inr q, q)"

definition memory_finalize ::
  "QueuedOperation list \<Rightarrow> QueuedOperation list \<Rightarrow> MemoryQueue
   \<Rightarrow> (OfflineQueueError + unit) \<times> MemoryQueue" where
  "memory_finalize snapshot failed q =
     (let keys = retained_keys q snapshot failed
      in (Inr (), map (bump_retry failed) (filter (\<lambda>op. full_key op \<in> keys) q)))"

definition memory_depth :: "MemoryQueue \<Rightarrow> (OfflineQueueError + nat) \<times> MemoryQueue" where
  "memory_depth q = (Inr (length q), q)"

definition memory_ok :: "MemoryQueue \<Rightarrow> bool" where
  "memory_ok q \<longleftrightarrow> distinct (map op_key q)"

definition memory_view :: "MemoryQueue \<Rightarrow> string \<times> string \<rightharpoonup> QueuedOperation" where
  "memory_view q = map_of (keyed q)"

lemmas memory_defs = memory_enqueue_def memory_snapshot_def memory_finalize_def memory_depth_def

lemma same_key_iff: "op_table a = op_table b \<and> op_entity_id a = op_entity_id b \<longleftrightarrow> op_key a = op_key b"
  by (simp add: op_key_def)

text \<open>Replacing the entry of a key and settling a batch, as list functions any queue can use.\<close>

lemma replace_ok: "distinct (map op_key q) \<Longrightarrow> distinct (map op_key (filter (\<lambda>x. op_key x \<noteq> op_key op) q @ [op]))"
  by (auto simp: distinct_map_filter)

lemma remove_view: "map_of (keyed (filter (\<lambda>x. op_key x \<noteq> k) q)) = (map_of (keyed q))(k := None)"
  by (induction q) (auto simp: fun_eq_iff)

lemma replace_view:
  "map_of (keyed (filter (\<lambda>x. op_key x \<noteq> op_key op) q @ [op])) = (map_of (keyed q))(op_key op \<mapsto> op)"
  by (simp add: remove_view) (auto simp: fun_eq_iff map_add_def split: option.splits)

lemma map_of_keyed_filter_map:
  assumes "distinct (map op_key q)" and "\<And>x. op_key (f x) = op_key x"
  shows "map_of (keyed (map f (filter P q))) k =
     Option.bind (map_of (keyed q) k) (\<lambda>x. if P x then Some (f x) else None)"
  using assms(1)
proof (induction q)
  case Nil
  then show ?case by simp
next
  case (Cons x q)
  then have "map_of (keyed (map f (filter P q))) (op_key x) = None"
    using assms(2) by (auto simp: map_of_eq_None_iff image_iff)
  with Cons assms(2) show ?case by simp
qed

lemma settle_view:
  assumes "distinct (map op_key q)" and "distinct (map op_key snap)"
    and sub: "stamps failed \<subseteq> stamps snap"
    and r: "\<And>x. full_key (r x) = full_key x" "\<And>x. full_key x \<notin> stamps failed \<Longrightarrow> r x = x"
  shows "map_of (keyed (map r (filter (\<lambda>op. full_key op \<in> retained_keys q snap failed) q))) k =
     Option.bind (map_of (keyed q) k) (settled (\<lambda>_. r) snap failed)"
proof -
  have "op_key (r x) = op_key x" for x using r(1) full_key_op_key by blast
  then have "map_of (keyed (map r (filter (\<lambda>op. full_key op \<in> retained_keys q snap failed) q))) k =
      Option.bind (map_of (keyed q) k)
        (\<lambda>x. if full_key x \<in> retained_keys q snap failed then Some (r x) else None)"
    by (rule map_of_keyed_filter_map [OF assms(1)])
  also have "\<dots> = Option.bind (map_of (keyed q) k) (settled (\<lambda>_. r) snap failed)"
  proof (rule Option.bind_cong [OF refl])
    fix x
    assume "map_of (keyed q) k = Some x"
    then have "x \<in> set q" using map_of_keyed_SomeD by blast
    then show "(if full_key x \<in> retained_keys q snap failed then Some (r x) else None)
        = settled (\<lambda>_. r) snap failed x"
      using retained_keys_iff [OF assms(1,2) sub] r(2) by (simp add: settled_def)
  qed
  finally show ?thesis .
qed

lemma bump_retry_other: "full_key op \<notin> stamps failed \<Longrightarrow> bump_retry failed op = op"
  using failed_by_full_key_dom [of failed "full_key op"] by (simp add: bump_retry_def)

lemma distinct_map_filter_keys:
  "distinct (map op_key q) \<Longrightarrow> (\<And>x. op_key (f x) = op_key x) \<Longrightarrow> distinct (map op_key (map f (filter P q)))"
  by (simp add: comp_def distinct_map_filter)

lemma card_dom_keyed: "distinct (map op_key q) \<Longrightarrow> card (dom (map_of (keyed q))) = length q"
  by (simp add: dom_map_of_conv_image_fst) (metis distinct_card length_map list.set_map)

interpretation memory: retrying_queue memory_enqueue memory_snapshot memory_finalize memory_depth
  memory_ok memory_view
proof unfold_locales
  fix q :: MemoryQueue and op ops snap failed k n
  show "full_key (bump_retry failed op) = full_key op" by simp
  show "memory_ok q \<Longrightarrow> memory_ok (snd (memory_enqueue op q))"
    using replace_ok [of q op] by (simp add: memory_defs memory_ok_def same_key_iff)
  show "memory_view (snd (memory_enqueue op q)) = (memory_view q)(op_key op \<mapsto> op)"
    using replace_view [of op q] by (simp add: memory_defs memory_view_def same_key_iff)
  show "memory_ok q \<Longrightarrow> fst (memory_snapshot q) = Inr ops \<Longrightarrow>
      distinct (map op_key ops) \<and> map_of (keyed ops) = memory_view q"
    by (auto simp: memory_defs memory_ok_def memory_view_def)
  show "memory_ok q \<Longrightarrow> memory_ok (snd (memory_finalize snap failed q))"
    by (simp add: memory_defs memory_ok_def distinct_map_filter_keys Let_def del: map_map)
  show "memory_ok q \<Longrightarrow> distinct (map op_key snap) \<Longrightarrow> stamps failed \<subseteq> stamps snap \<Longrightarrow>
      memory_view (snd (memory_finalize snap failed q)) k =
      Option.bind (memory_view q k) (settled bump_retry snap failed)"
    using settle_view [of q snap failed "bump_retry failed"] bump_retry_other
    by (simp add: memory_defs memory_ok_def memory_view_def settled_def [abs_def] Let_def)
  show "memory_ok q \<Longrightarrow> fst (memory_depth q) = Inr n \<Longrightarrow> n = card (dom (memory_view q))"
    by (auto simp: memory_defs memory_ok_def memory_view_def card_dom_keyed)
qed (auto simp: memory_defs memory_ok_def memory_view_def)

section \<open>Properties\<close>

text \<open>
  One replay of the in-memory queue. A snapshot is taken, other tasks enqueue operations with
  timestamps of their own, and the batch is finalised: what is queued afterwards is, for every
  key, the last operation enqueued meanwhile, else the snapshot entry with its retry recorded if
  it failed, else nothing. No concurrent enqueue is lost and no completed operation stays.
\<close>

theorem memory_queue_drain:
  assumes "memory_ok q" and "memory_snapshot q = (Inr snap, q1)"
    and "enqueue_all memory_enqueue ops q1 = (Inr (), q2)"
    and "\<And>op. op \<in> set ops \<Longrightarrow> kind_ok (op_kind op)"
    and "stamps ops \<inter> stamps snap = {}" and "stamps failed \<subseteq> stamps snap"
    and "headroom (memory_view q2)" and "memory_finalize snap failed q2 = (Inr (), q3)"
  shows "memory_view q3 = (\<lambda>k. Option.bind (memory_view q k)
           (\<lambda>op. if full_key op \<in> stamps failed then Some (bump_retry failed op) else None))
         ++ map_of (rev (keyed ops))"
  by (rule memory.drain_view [OF assms(1,2,3) _ assms(5,6,7,8)]) (rule assms(4))

theorem memory_queue_drain_witness:
  "memory_view (snd (memory_finalize [sample_op ''m'' ''1'' 100, sample_op ''m'' ''2'' 110]
      [sample_op ''m'' ''2'' 110]
      [sample_op ''m'' ''1'' 100, sample_op ''m'' ''2'' 110, sample_op ''m'' ''3'' 150])) (''m'', ''2'')
   = Some (sample_op ''m'' ''2'' 110\<lparr>op_retry_count := 1\<rparr>)"
proof -
  let ?snap = "[sample_op ''m'' ''1'' 100, sample_op ''m'' ''2'' 110]"
  let ?new = "sample_op ''m'' ''3'' 150" and ?failed = "[sample_op ''m'' ''2'' 110]"
  let ?q3 = "snd (memory_finalize ?snap ?failed (?snap @ [?new]))"
  have "memory_view ?q3 = (\<lambda>k. Option.bind (memory_view ?snap k)
           (\<lambda>op. if full_key op \<in> stamps ?failed then Some (bump_retry ?failed op) else None))
         ++ map_of (rev (keyed [?new]))"
  proof (rule memory_queue_drain)
    show "memory_ok ?snap" by (simp add: memory_ok_def op_key_def sample_op_def)
    show "memory_snapshot ?snap = (Inr ?snap, ?snap)" by (simp add: memory_snapshot_def)
    show "enqueue_all memory_enqueue [?new] ?snap = (Inr (), ?snap @ [?new])"
      by (simp add: memory_enqueue_def sample_op_def)
    show "kind_ok (op_kind op)" if "op \<in> set [?new]" for op
      using that by (simp add: kind_ok_def sample_op_def)
    show "stamps [?new] \<inter> stamps ?snap = {}" "stamps ?failed \<subseteq> stamps ?snap"
      by (simp_all add: stamps_def full_key_def sample_op_def)
    show "headroom (memory_view (?snap @ [?new]))"
      unfolding memory_view_def by (rule headroom_map_of) (auto simp: sample_op_def)
    show "memory_finalize ?snap ?failed (?snap @ [?new]) = (Inr (), ?q3)"
      by (simp add: memory_finalize_def Let_def)
  qed
  then show ?thesis
    by (simp add: memory_view_def keyed_def op_key_def full_key_def stamps_def sample_op_def
        bump_retry_def failed_by_full_key_def collect_map_def u32_saturating_inc_def)
qed

definition oldest_first :: "QueuedOperation list \<Rightarrow> bool" where
  "oldest_first q \<longleftrightarrow> sorted_wrt (\<lambda>a b. sint (op_queued_at_micros a) \<le> sint (op_queued_at_micros b)) q"

lemma queued_at_bump [simp]: "op_queued_at_micros (bump_retry failed op) = op_queued_at_micros op"
  by (simp add: bump_retry_def split: option.splits)

lemma oldest_first_filter: "oldest_first q \<Longrightarrow> oldest_first (filter P q)"
  by (simp add: oldest_first_def sorted_wrt_filter)

text \<open>
  The queue is replayed oldest first. When every operation is enqueued with a timestamp not
  older than those already queued, the snapshot stays in timestamp order, with one entry per
  key, through enqueues and finalisations.
\<close>

theorem memory_queue_oldest_first:
  assumes "memory_ok q" and "oldest_first q"
    and "\<And>x. x \<in> set q \<Longrightarrow> sint (op_queued_at_micros x) \<le> sint (op_queued_at_micros op)"
  shows "memory_ok (snd (memory_enqueue op q)) \<and> oldest_first (snd (memory_enqueue op q))
       \<and> memory_ok (snd (memory_finalize snap failed q))
       \<and> oldest_first (snd (memory_finalize snap failed q))"
proof -
  have "oldest_first (snd (memory_finalize snap failed q))"
    using oldest_first_filter [OF assms(2)]
    by (simp add: memory_defs oldest_first_def sorted_wrt_map Let_def)
  moreover have "oldest_first (snd (memory_enqueue op q))"
    using oldest_first_filter [OF assms(2)] assms(3)
    by (simp add: memory_defs oldest_first_def sorted_wrt_append)
  moreover have "memory_ok (snd (memory_enqueue op q))"
    using replace_ok [of q op] assms(1) by (simp add: memory_defs memory_ok_def same_key_iff)
  moreover have "memory_ok (snd (memory_finalize snap failed q))"
    using assms(1) by (simp add: memory_defs memory_ok_def distinct_map_filter_keys Let_def del: map_map)
  ultimately show ?thesis by simp
qed

theorem memory_queue_oldest_first_witness:
  "oldest_first (snd (memory_enqueue (sample_op ''m'' ''1'' 9) [sample_op ''m'' ''1'' 3, sample_op ''m'' ''2'' 5]))"
proof -
  let ?q = "[sample_op ''m'' ''1'' 3, sample_op ''m'' ''2'' 5]"
  have a: "memory_ok ?q" and b: "oldest_first ?q"
    by (simp_all add: memory_ok_def oldest_first_def op_key_def sample_op_def)
  have c: "sint (op_queued_at_micros x) \<le> sint (op_queued_at_micros (sample_op ''m'' ''1'' 9))"
    if "x \<in> set ?q" for x
    using that by (auto simp: sample_op_def)
  show ?thesis using memory_queue_oldest_first [OF a b c, of "[]" "[]"] by blast
qed

end
