(* ===== verification/SqliteQueue.thy ===== *)
theory SqliteQueue
  imports MemoryQueue
begin

text \<open>
  \<open>crates/polybase-sqlite/src/queue.rs\<close>: the queue in the \<open>polybase_queue\<close> table of
  the user's database. The table is the list of its rows, in an order no query shows; the
  composite primary key is \<open>INSERT OR REPLACE\<close> dropping the row of the same key. Every
  statement first consumes one entry of \<open>sq_faults\<close>, the errors the database will report;
  a transaction that ends before its commit leaves the table as it was. Text comparison is the
  byte order of SQLite's \<open>BINARY\<close> collation.
\<close>

record QueueRow =
  qr_table_name :: string
  qr_entity_id :: string
  qr_kind :: string
  qr_queued_at_micros :: i64
  qr_retry_count :: int
  qr_last_error :: "string option"

record SqliteQueue =
  sq_pool :: "QueueRow list option"
  sq_codec :: json_codec
  sq_faults :: "string option list"

text \<open>\<open>u32::try_from(row.retry_count).unwrap_or(0)\<close>.\<close>

definition u32_try_from :: "int \<Rightarrow> u32" where
  "u32_try_from i = (if 0 \<le> i \<and> i < 2 ^ 32 then word_of_int i else 0)"

definition row_try_from :: "json_codec \<Rightarrow> QueueRow \<Rightarrow> OfflineQueueError + QueuedOperation" where
  "row_try_from c row =
     (case map_err Queue_Decode (parse c (qr_kind row)) of
        Inl e \<Rightarrow> Inl e
      | Inr v \<Rightarrow>
          (case map_err Queue_Decode (kind_from_json v) of
             Inl e \<Rightarrow> Inl e
           | Inr kind \<Rightarrow> Inr \<lparr>op_table = qr_table_name row, op_entity_id = qr_entity_id row,
               op_kind = kind, op_queued_at_micros = qr_queued_at_micros row,
               op_retry_count = u32_try_from (qr_retry_count row),
               op_last_error = qr_last_error row\<rparr>))"

definition op_row :: "json_codec \<Rightarrow> QueuedOperation \<Rightarrow> QueueRow" where
  "op_row c op =
     \<lparr>qr_table_name = op_table op, qr_entity_id = op_entity_id op,
      qr_kind = render c (kind_to_json (op_kind op)),
      qr_queued_at_micros = op_queued_at_micros op,
      qr_retry_count = int (unat (op_retry_count op)), qr_last_error = op_last_error op\<rparr>"

section \<open>Statements\<close>

definition insert_or_replace :: "QueueRow \<Rightarrow> QueueRow list \<Rightarrow> QueueRow list" where
  "insert_or_replace row rows =
     filter (\<lambda>r. \<not> (qr_table_name r = qr_table_name row \<and> qr_entity_id r = qr_entity_id row)) rows
     @ [row]"

text \<open>\<open>ORDER BY queued_at_micros ASC, table_name ASC, entity_id ASC\<close>.\<close>

definition select_ordered :: "QueueRow list \<Rightarrow> QueueRow list" where
  "select_ordered rows =
     sort_key (\<lambda>r. (sint (qr_queued_at_micros r), qr_table_name r, qr_entity_id r)) rows"

definition row_full_key :: "QueueRow \<Rightarrow> string \<times> string \<times> i64" where
  "row_full_key r = (qr_table_name r, qr_entity_id r, qr_queued_at_micros r)"

definition delete_stmt :: "QueuedOperation \<Rightarrow> QueueRow list \<Rightarrow> QueueRow list" where
  "delete_stmt op rows =
     filter (\<lambda>r. \<not> (qr_table_name r = op_table op \<and> qr_entity_id r = op_entity_id op
                    \<and> qr_queued_at_micros r = op_queued_at_micros op)) rows"

definition bump_stmt :: "string option \<Rightarrow> QueuedOperation \<Rightarrow> QueueRow list \<Rightarrow> QueueRow list" where
  "bump_stmt last_error op rows =
     map (\<lambda>r. if qr_table_name r = op_table op \<and> qr_entity_id r = op_entity_id op
                 \<and> qr_queued_at_micros r = op_queued_at_micros op
              then r\<lparr>qr_retry_count := qr_retry_count r + 1, qr_last_error := last_error\<rparr>
              else r) rows"

section \<open>Operations\<close>

definition no_pool :: OfflineQueueError where
  "no_pool = Queue_Io ''no active user pool''"

definition sqlite_enqueue ::
  "QueuedOperation \<Rightarrow> SqliteQueue \<Rightarrow> (OfflineQueueError + unit) \<times> SqliteQueue" where
  "sqlite_enqueue op q =
     (case sq_pool q of
        None \<Rightarrow> (Inl no_pool, q)
      | Some rows \<Rightarrow>
          (case take_fault (sq_faults q) of
             (Some msg, fs) \<Rightarrow> (Inl (Queue_Io msg), q\<lparr>sq_faults := fs\<rparr>)
           | (None, fs) \<Rightarrow>
               (Inr (), q\<lparr>sq_pool := Some (insert_or_replace (op_row (sq_codec q) op) rows),
                          sq_faults := fs\<rparr>)))"

definition sqlite_snapshot ::
  "SqliteQueue \<Rightarrow> (OfflineQueueError + QueuedOperation list) \<times> SqliteQueue" where
  "sqlite_snapshot q =
     (case sq_pool q of
        None \<Rightarrow> (Inl no_pool, q)
      | Some rows \<Rightarrow>
          (case take_fault (sq_faults q) of
             (Some msg, fs) \<Rightarrow> (Inl (Queue_Io msg), q\<lparr>sq_faults := fs\<rparr>)
           | (None, fs) \<Rightarrow>
               (collect_results (map (row_try_from (sq_codec q)) (select_ordered rows)),
                q\<lparr>sq_faults := fs\<rparr>)))"

text \<open>The loop of the transaction, on the rows the transaction sees.\<close>

fun finalize_loop ::
  "(string \<times> string \<times> i64) set \<Rightarrow> (string \<times> string \<times> i64 \<rightharpoonup> string option)
   \<Rightarrow> QueuedOperation list \<Rightarrow> QueueRow list \<Rightarrow> string option list
   \<Rightarrow> (OfflineQueueError + QueueRow list) \<times> string option list" where
  "finalize_loop keys failed [] rows fs = (Inr rows, fs)"
| "finalize_loop keys failed (op # current) rows fs =
     (if full_key op \<notin> keys then
        (case take_fault fs of
           (Some msg, fs') \<Rightarrow> (Inl (Queue_Io msg), fs')
         | (None, fs') \<Rightarrow> finalize_loop keys failed current (delete_stmt op rows) fs')
      else
        (case failed (full_key op) of
           None \<Rightarrow> finalize_loop keys failed current rows fs
         | Some last_error \<Rightarrow>
             (case take_fault fs of
                (Some msg, fs') \<Rightarrow> (Inl (Queue_Io msg), fs')
              | (None, fs') \<Rightarrow>
                  finalize_loop keys failed current (bump_stmt last_error op rows) fs')))"

text \<open>\<open>begin\<close>, the loop, \<open>commit\<close>: the rows change only when all of it succeeds.\<close>

definition finalize_tx ::
  "QueuedOperation list \<Rightarrow> QueuedOperation list \<Rightarrow> QueuedOperation list \<Rightarrow> SqliteQueue
   \<Rightarrow> (OfflineQueueError + unit) \<times> SqliteQueue" where
  "finalize_tx current snapshot failed q =
     (case sq_pool q of
        None \<Rightarrow> (Inl no_pool, q)
      | Some rows \<Rightarrow>
          (case take_fault (sq_faults q) of
             (Some msg, fs) \<Rightarrow> (Inl (Queue_Io msg), q\<lparr>sq_faults := fs\<rparr>)
           | (None, fs) \<Rightarrow>
               (case finalize_loop (retained_keys current snapshot failed)
                       (failed_by_full_key failed) current rows fs of
                  (Inl e, fs') \<Rightarrow> (Inl e, q\<lparr>sq_faults := fs'\<rparr>)
                | (Inr rows', fs') \<Rightarrow>
                    (case take_fault fs' of
                       (Some msg, fs'') \<Rightarrow> (Inl (Queue_Io msg), q\<lparr>sq_faults := fs''\<rparr>)
                     | (None, fs'') \<Rightarrow>
                         (Inr (), q\<lparr>sq_pool := Some rows', sq_faults := fs''\<rparr>)))))"

text \<open>
  The current rows are read before the transaction begins, so the operations of other tasks can
  run in between: \<open>between\<close> is what they do.
\<close>

definition sqlite_finalize_with ::
  "(SqliteQueue \<Rightarrow> SqliteQueue) \<Rightarrow> QueuedOperation list \<Rightarrow> QueuedOperation list \<Rightarrow> SqliteQueue
   \<Rightarrow> (OfflineQueueError + unit) \<times> SqliteQueue" where
  "sqlite_finalize_with between snapshot failed q =
     (case sqlite_snapshot q of
        (Inl e, q') \<Rightarrow> (Inl e, q')
      | (Inr current, q') \<Rightarrow> finalize_tx current snapshot failed (between q'))"

definition sqlite_finalize ::
  "QueuedOperation list \<Rightarrow> QueuedOperation list \<Rightarrow> SqliteQueue
   \<Rightarrow> (OfflineQueueError + unit) \<times> SqliteQueue" where
  "sqlite_finalize snapshot failed q = sqlite_finalize_with id snapshot failed q"

definition sqlite_depth :: "SqliteQueue \<Rightarrow> (OfflineQueueError + nat) \<times> SqliteQueue" where
  "sqlite_depth q =
     (case sq_pool q of
        None \<Rightarrow> (Inl no_pool, q)
      | Some rows \<Rightarrow>
          (case take_fault (sq_faults q) of
             (Some msg, fs) \<Rightarrow> (Inl (Queue_Io msg), q\<lparr>sq_faults := fs\<rparr>)
           | (None, fs) \<Rightarrow> (Inr (length rows), q\<lparr>sq_faults := fs\<rparr>)))"

section \<open>Rows and operations\<close>

lemma row_roundtrip:
  "codec_ok c \<Longrightarrow> kind_ok (op_kind op) \<Longrightarrow> row_try_from c (op_row c op) = Inr op"
  using u32_json(2) [of "op_retry_count op"]
  by (simp add: row_try_from_def op_row_def codec_ok_def kind_json_norm u32_try_from_def split: if_splits)

lemma row_full_key_op [simp]: "row_full_key (op_row c op) = full_key op"
  by (simp add: row_full_key_def op_row_def full_key_def)

lemma matches_full_key:
  "qr_table_name r = op_table op \<and> qr_entity_id r = op_entity_id op
     \<and> qr_queued_at_micros r = op_queued_at_micros op \<longleftrightarrow> row_full_key r = full_key op"
  by (simp add: row_full_key_def full_key_def)

lemma insert_or_replace_ops:
  "insert_or_replace (op_row c op) (map (op_row c) ops) =
     map (op_row c) (filter (\<lambda>x. op_key x \<noteq> op_key op) ops @ [op])"
  by (simp add: insert_or_replace_def op_row_def op_key_def filter_map comp_def)

definition op_order :: "QueuedOperation \<Rightarrow> int \<times> string \<times> string" where
  "op_order op = (sint (op_queued_at_micros op), op_table op, op_entity_id op)"

lemma sort_key_map: "sort_key f (map g xs) = map g (sort_key (\<lambda>x. f (g x)) xs)"
proof -
  have "insort_key f (g x) (map g ys) = map g (insort_key (\<lambda>x. f (g x)) x ys)" for x ys
    by (induction ys) auto
  then show ?thesis by (induction xs) (simp_all add: sort_key_def)
qed

lemma select_ordered_ops: "select_ordered (map (op_row c) ops) = map (op_row c) (sort_key op_order ops)"
  by (simp add: select_ordered_def sort_key_map op_order_def [abs_def] op_row_def)

section \<open>The loop\<close>

text \<open>What the statements of the loop make of one row.\<close>

fun settle_row ::
  "(string \<times> string \<times> i64) set \<Rightarrow> (string \<times> string \<times> i64 \<rightharpoonup> string option)
   \<Rightarrow> QueuedOperation list \<Rightarrow> QueueRow \<Rightarrow> QueueRow option" where
  "settle_row keys failed [] r = Some r"
| "settle_row keys failed (op # current) r =
     (if row_full_key r = full_key op then
        (if full_key op \<notin> keys then None
         else settle_row keys failed current
           (case failed (full_key op) of
              None \<Rightarrow> r
            | Some le \<Rightarrow> r\<lparr>qr_retry_count := qr_retry_count r + 1, qr_last_error := le\<rparr>))
      else settle_row keys failed current r)"

lemma row_full_key_bump [simp]:
  "row_full_key (r\<lparr>qr_retry_count := n, qr_last_error := le\<rparr>) = row_full_key r"
  by (simp add: row_full_key_def)

lemma map_filter_filter:
  "List.map_filter f (filter P xs) = List.map_filter (\<lambda>x. if P x then f x else None) xs"
  by (induction xs) (simp_all add: List.map_filter_simps split: option.split)

lemma map_filter_map: "List.map_filter f (map g xs) = List.map_filter (\<lambda>x. f (g x)) xs"
  by (induction xs) (simp_all add: List.map_filter_simps split: option.split)

lemma map_filter_id: "(\<And>x. f x = Some x) \<Longrightarrow> List.map_filter f xs = xs"
  by (induction xs) (simp_all add: List.map_filter_simps)

lemma finalize_loop_rows:
  "finalize_loop keys failed current rows fs = (Inr rows', fs') \<Longrightarrow>
   rows' = List.map_filter (settle_row keys failed current) rows"
proof (induction keys failed current rows fs rule: finalize_loop.induct)
  case (1 keys failed rows fs)
  then show ?case by (simp add: map_filter_id)
next
  case (2 keys failed op current rows fs)
  then show ?case
    by (auto simp: delete_stmt_def bump_stmt_def matches_full_key map_filter_filter map_filter_map
        if_distrib [of "settle_row keys failed current"] cong: if_cong split: if_splits option.splits prod.splits intro!: arg_cong2 [where f = List.map_filter])
qed

lemma settle_row_other:
  "row_full_key r \<notin> full_key ` set current \<Longrightarrow> settle_row keys failed current r = Some r"
  by (induction keys failed current r rule: settle_row.induct) auto

lemma settle_row_in:
  assumes "distinct (map full_key current)" and "op \<in> set current" and "row_full_key r = full_key op"
  shows "settle_row keys failed current r =
     (if full_key op \<notin> keys then None
      else Some (case failed (full_key op) of
                   None \<Rightarrow> r
                 | Some le \<Rightarrow> r\<lparr>qr_retry_count := qr_retry_count r + 1, qr_last_error := le\<rparr>))"
  using assms
proof (induction current arbitrary: r)
  case Nil
  then show ?case by simp
next
  case (Cons x current)
  show ?case
  proof (cases "full_key x = full_key op")
    case True
    then have "row_full_key r \<notin> full_key ` set current" using Cons.prems by auto
    then show ?thesis using True Cons.prems by (simp add: settle_row_other split: option.split)
  next
    case False
    then show ?thesis using Cons by auto
  qed
qed

section \<open>The contract\<close>

text \<open>The table holds the rows of operations with distinct keys.\<close>

definition table_ops :: "json_codec \<Rightarrow> QueueRow list \<Rightarrow> QueuedOperation list \<Rightarrow> bool" where
  "table_ops c rows ops \<longleftrightarrow>
     rows = map (op_row c) ops \<and> distinct (map op_key ops) \<and> (\<forall>op \<in> set ops. kind_ok (op_kind op))"

definition sqlite_ok :: "SqliteQueue \<Rightarrow> bool" where
  "sqlite_ok q \<longleftrightarrow> codec_ok (sq_codec q) \<and>
     (\<forall>rows. sq_pool q = Some rows \<longrightarrow> (\<exists>ops. table_ops (sq_codec q) rows ops))"

definition sqlite_view :: "SqliteQueue \<Rightarrow> string \<times> string \<rightharpoonup> QueuedOperation" where
  "sqlite_view q =
     (case sq_pool q of
        None \<Rightarrow> Map.empty
      | Some rows \<Rightarrow> map_of (keyed (map (\<lambda>r. projr (row_try_from (sq_codec q) r)) rows)))"

lemma table_ops_decode:
  assumes "codec_ok c" and "table_ops c rows ops"
  shows "map (\<lambda>r. projr (row_try_from c r)) rows = ops"
  using assms by (auto simp: table_ops_def row_roundtrip intro!: map_idI)

lemma sqlite_view_ops:
  "sqlite_ok q \<Longrightarrow> sq_pool q = Some rows \<Longrightarrow> table_ops (sq_codec q) rows ops \<Longrightarrow>
   sqlite_view q = map_of (keyed ops)"
  by (simp add: sqlite_view_def table_ops_decode sqlite_ok_def)

lemma sqlite_okD:
  "sqlite_ok q \<Longrightarrow> sq_pool q = Some rows \<Longrightarrow> \<exists>ops. table_ops (sq_codec q) rows ops"
  by (simp add: sqlite_ok_def)

lemma sqlite_faults_only [simp]:
  "sqlite_ok (q\<lparr>sq_faults := fs\<rparr>) = sqlite_ok q" "sqlite_view (q\<lparr>sq_faults := fs\<rparr>) = sqlite_view q"
  by (simp_all add: sqlite_ok_def sqlite_view_def split: option.split)

lemma select_ordered_decode:
  assumes "codec_ok c" and "table_ops c rows ops"
  shows "collect_results (map (row_try_from c) (select_ordered rows)) = Inr (sort_key op_order ops)"
proof -
  have "map (row_try_from c) (map (op_row c) (sort_key op_order ops)) = map (\<lambda>x. Inr (id x)) (sort_key op_order ops)"
    using assms by (auto simp: table_ops_def row_roundtrip)
  then have "map (row_try_from c) (select_ordered rows) = map (\<lambda>x. Inr (id x)) (sort_key op_order ops)"
    using assms(2) by (simp only: table_ops_def select_ordered_ops)
  then show ?thesis by (simp only: collect_results_map_Inr list.map_id)
qed

lemma sqlite_snapshot_cases:
  assumes "sqlite_ok q"
  obtains (err) e fs where "sqlite_snapshot q = (Inl e, q\<lparr>sq_faults := fs\<rparr>)"
  | (ok) rows ops fs where "sq_pool q = Some rows" "table_ops (sq_codec q) rows ops"
      "sqlite_view q = map_of (keyed ops)"
      "sqlite_snapshot q = (Inr (sort_key op_order ops), q\<lparr>sq_faults := fs\<rparr>)"
proof (cases "sq_pool q")
  case None
  then show ?thesis using err [of no_pool "sq_faults q"] by (simp add: sqlite_snapshot_def)
next
  case (Some rows)
  obtain f fs where f: "take_fault (sq_faults q) = (f, fs)" by (cases "take_fault (sq_faults q)")
  obtain ops where ops: "table_ops (sq_codec q) rows ops" using sqlite_okD [OF assms Some] by blast
  show ?thesis
  proof (cases f)
    case None
    have "codec_ok (sq_codec q)" using assms by (simp add: sqlite_ok_def)
    then show ?thesis
      using None Some f ok [OF Some ops sqlite_view_ops [OF assms Some ops]]
      by (simp add: sqlite_snapshot_def select_ordered_decode [OF _ ops])
  next
    case (Some m)
    then show ?thesis using err [of "Queue_Io m" fs] f \<open>sq_pool q = Some rows\<close>
      by (simp add: sqlite_snapshot_def)
  qed
qed

lemma set_sort_ops [simp]: "set (sort_key op_order ops) = set ops"
  by simp

lemma distinct_sort_ops: "distinct (map op_key ops) \<Longrightarrow> distinct (map op_key (sort_key op_order ops))"
  by (simp add: distinct_map)

lemma stamps_sort [simp]: "stamps (sort_key op_order ops) = stamps ops"
  by (simp add: stamps_def)

text \<open>The loop over all rows of the table keeps and bumps what the in-memory queue does.\<close>

lemma op_row_bump:
  assumes "op_retry_count op \<noteq> - 1"
  shows "op_row c (bump_retry failed op) =
     (case failed_by_full_key failed (full_key op) of
        None \<Rightarrow> op_row c op
      | Some le \<Rightarrow> (op_row c op)\<lparr>qr_retry_count := qr_retry_count (op_row c op) + 1, qr_last_error := le\<rparr>)"
proof -
  have "int (unat (u32_saturating_inc (op_retry_count op))) = int (unat (op_retry_count op)) + 1"
    by (simp only: unat_u32_inc [OF assms] of_nat_add of_nat_1)
  then show ?thesis by (simp add: op_row_def bump_retry_def split: option.split)
qed

lemma map_filter_cong: "(\<And>x. x \<in> set xs \<Longrightarrow> f x = g x) \<Longrightarrow> List.map_filter f xs = List.map_filter g xs"
  by (induction xs) (simp_all add: List.map_filter_simps split: option.split)

lemma map_filter_cond: "List.map_filter (\<lambda>x. if P x then Some (f x) else None) xs = map f (filter P xs)"
  by (induction xs) (simp_all add: List.map_filter_simps)

lemma distinct_full_key: "distinct (map op_key xs) \<Longrightarrow> distinct (map full_key xs)"
  by (induction xs) (auto simp: image_iff dest: full_key_op_key)

definition kept_op ::
  "(string \<times> string \<times> i64) set \<Rightarrow> QueuedOperation list \<Rightarrow> QueuedOperation list
   \<Rightarrow> QueuedOperation \<Rightarrow> QueuedOperation option" where
  "kept_op keys failed current op =
     (if full_key op \<notin> stamps current then Some op
      else if full_key op \<in> keys then Some (bump_retry failed op) else None)"

lemma settle_row_kept:
  assumes d: "distinct (map op_key current)"
    and op: "op \<in> set current \<or> full_key op \<notin> stamps current" and room: "op_retry_count op \<noteq> - 1"
  shows "settle_row keys (failed_by_full_key failed) current (op_row c op)
       = map_option (op_row c) (kept_op keys failed current op)"
proof (cases "full_key op \<in> stamps current")
  case True
  with op have "op \<in> set current" by simp
  then show ?thesis
    using True
    by (simp only: settle_row_in [OF distinct_full_key [OF d] _ row_full_key_op] op_row_bump [OF room])
      (simp add: kept_op_def op_row_bump [OF room])
next
  case False
  then show ?thesis by (simp add: kept_op_def settle_row_other stamps_def)
qed

lemma map_filter_map_option: "List.map_filter (\<lambda>x. map_option g (f x)) xs = map g (List.map_filter f xs)"
  by (induction xs) (simp_all add: List.map_filter_simps split: option.split)

lemma loop_settles:
  assumes "finalize_loop keys (failed_by_full_key failed) current (map (op_row c) ops) fs = (Inr rows', fs')"
    and "distinct (map op_key current)"
    and "\<And>op. op \<in> set ops \<Longrightarrow> op \<in> set current \<or> full_key op \<notin> stamps current"
    and "\<And>op. op \<in> set ops \<Longrightarrow> op_retry_count op \<noteq> - 1"
  shows "rows' = map (op_row c) (List.map_filter (kept_op keys failed current) ops)"
proof -
  have "rows' = List.map_filter (settle_row keys (failed_by_full_key failed) current) (map (op_row c) ops)"
    by (rule finalize_loop_rows [OF assms(1)])
  also have "\<dots> = List.map_filter (\<lambda>op. map_option (op_row c) (kept_op keys failed current op)) ops"
    unfolding map_filter_map
    by (rule map_filter_cong) (rule settle_row_kept [OF assms(2,3,4)])
  also have "\<dots> = map (op_row c) (List.map_filter (kept_op keys failed current) ops)"
    by (rule map_filter_map_option)
  finally show ?thesis .
qed

lemma map_of_sorted_ops:
  assumes "distinct (map op_key ops)"
  shows "map_of (keyed (sort_key op_order ops)) = map_of (keyed ops)"
  by (subst map_of_inject_set) (simp_all add: assms distinct_sort_ops, simp add: keyed_def)

lemma finalize_tx_cases:
  assumes pool: "sq_pool q = Some (map (op_row (sq_codec q)) ops)"
    and cur: "distinct (map op_key current)"
    and mem: "\<And>op. op \<in> set ops \<Longrightarrow> op \<in> set current \<or> full_key op \<notin> stamps current"
    and room: "\<And>op. op \<in> set ops \<Longrightarrow> op_retry_count op \<noteq> - 1"
  obtains (err) e fs where "finalize_tx current snap failed q = (Inl e, q\<lparr>sq_faults := fs\<rparr>)"
  | (ok) fs where "finalize_tx current snap failed q =
      (Inr (), q\<lparr>sq_pool := Some (map (op_row (sq_codec q))
           (List.map_filter (kept_op (retained_keys current snap failed) failed current) ops)),
         sq_faults := fs\<rparr>)"
proof -
  obtain f fs where f: "take_fault (sq_faults q) = (f, fs)" by (cases "take_fault (sq_faults q)")
  let ?loop = "finalize_loop (retained_keys current snap failed) (failed_by_full_key failed) current
      (map (op_row (sq_codec q)) ops) fs"
  obtain r fs' where l: "?loop = (r, fs')" by (cases ?loop)
  obtain g fs'' where g: "take_fault fs' = (g, fs'')" by (cases "take_fault fs'")
  note step = finalize_tx_def pool f l g option.case prod.case sum.case
  show thesis
  proof (cases f)
    case (Some m)
    then show thesis using err [of "Queue_Io m" fs] by (simp only: step)
  next
    case f0: None
    show thesis
    proof (cases r)
      case (Inl e)
      then show thesis using err [of e fs'] f0 by (simp only: step)
    next
      case (Inr rows')
      have rows': "rows' = map (op_row (sq_codec q))
          (List.map_filter (kept_op (retained_keys current snap failed) failed current) ops)"
        by (rule loop_settles [OF _ cur mem room]) (use l Inr in simp)
      show thesis
      proof (cases g)
        case (Some m)
        then show thesis using err [of "Queue_Io m" fs''] f0 Inr by (simp only: step)
      next
        case None
        then show thesis using ok [of fs''] f0 Inr rows' by (simp only: step)
      qed
    qed
  qed
qed

lemma kept_op_key: "kept_op keys failed current op = Some x \<Longrightarrow> op_key x = op_key op \<and> op_kind x = op_kind op"
  by (auto simp: kept_op_def split: if_splits)

lemma set_map_filter: "set (List.map_filter f xs) = {y. \<exists>x \<in> set xs. f x = Some y}"
  by (induction xs) (auto simp: List.map_filter_simps split: option.split)

lemma kept_keys: "op_key ` set (List.map_filter (kept_op keys failed current) ops) \<subseteq> op_key ` set ops"
  using kept_op_key by (fastforce simp: set_map_filter)

lemma kept_distinct:
  "distinct (map op_key ops) \<Longrightarrow> distinct (map op_key (List.map_filter (kept_op keys failed current) ops))"
proof (induction ops)
  case Nil
  then show ?case by (simp add: List.map_filter_simps)
next
  case (Cons x ops)
  have "op_key x \<notin> op_key ` set (List.map_filter (kept_op keys failed current) ops)"
    using Cons.prems kept_keys [of keys failed current ops] by auto
  with Cons kept_op_key [of keys failed current x] show ?case
    by (simp add: List.map_filter_simps split: option.split)
qed

lemma kept_table_ops:
  assumes "distinct (map op_key ops)" and "\<forall>op \<in> set ops. kind_ok (op_kind op)"
  shows "table_ops c (map (op_row c) (List.map_filter (kept_op keys failed current) ops))
           (List.map_filter (kept_op keys failed current) ops)"
  using assms kept_distinct [OF assms(1)] kept_op_key
  by (fastforce simp: table_ops_def set_map_filter)

lemma map_of_kept:
  assumes "distinct (map op_key ops)"
  shows "map_of (keyed (List.map_filter (kept_op keys failed current) ops)) k
       = Option.bind (map_of (keyed ops) k) (kept_op keys failed current)"
  using assms
proof (induction ops)
  case Nil
  then show ?case by (simp add: List.map_filter_simps)
next
  case (Cons x ops)
  then have "map_of (keyed (List.map_filter (kept_op keys failed current) ops)) (op_key x) = None"
    using kept_keys [of keys failed current ops] by (auto simp: map_of_eq_None_iff)
  with Cons kept_op_key [of keys failed current x] show ?case
    by (auto simp: List.map_filter_simps split: option.split)
qed

lemma sqlite_finalize_cases:
  assumes "sqlite_ok q" and "headroom (sqlite_view q)"
  obtains (err) e fs where "sqlite_finalize snap failed q = (Inl e, q\<lparr>sq_faults := fs\<rparr>)"
  | (ok) rows ops fs where "sq_pool q = Some rows" "table_ops (sq_codec q) rows ops"
      "sqlite_view q = map_of (keyed ops)"
      "sqlite_finalize snap failed q = (Inr (), q\<lparr>sq_pool := Some (map (op_row (sq_codec q))
         (List.map_filter (kept_op (retained_keys (sort_key op_order ops) snap failed) failed
            (sort_key op_order ops)) ops)), sq_faults := fs\<rparr>)"
  using assms(1)
proof (cases rule: sqlite_snapshot_cases)
  case (err e fs)
  then show thesis using that(1) by (simp add: sqlite_finalize_def sqlite_finalize_with_def)
next
  case s: (ok rows ops fs)
  then have pool: "sq_pool (q\<lparr>sq_faults := fs\<rparr>) = Some (map (op_row (sq_codec (q\<lparr>sq_faults := fs\<rparr>))) ops)"
    by (simp add: table_ops_def)
  have room: "op_retry_count op \<noteq> - 1" if "op \<in> set ops" for op
  proof (rule headroomD [OF assms(2)])
    show "sqlite_view q (op_key op) = Some op"
      using that s(2) by (simp only: s(3) table_ops_def map_of_keyed_iff simp_thms)
  qed
  from s(2) have d: "distinct (map op_key (sort_key op_order ops))"
    by (simp add: table_ops_def distinct_sort_ops)
  note fin = sqlite_finalize_def sqlite_finalize_with_def s(4) sum.case prod.case id_apply
  show thesis
  proof (rule finalize_tx_cases [OF pool d, where snap = snap and failed = failed])
    fix e fs' assume "finalize_tx (sort_key op_order ops) snap failed (q\<lparr>sq_faults := fs\<rparr>)
        = (Inl e, q\<lparr>sq_faults := fs, sq_faults := fs'\<rparr>)"
    then show thesis using that(1) [of e fs'] by (simp only: fin) simp
  next
    fix fs' assume "finalize_tx (sort_key op_order ops) snap failed (q\<lparr>sq_faults := fs\<rparr>) =
      (Inr (), q\<lparr>sq_faults := fs, sq_pool := Some (map (op_row (sq_codec (q\<lparr>sq_faults := fs\<rparr>)))
         (List.map_filter (kept_op (retained_keys (sort_key op_order ops) snap failed) failed
            (sort_key op_order ops)) ops)), sq_faults := fs'\<rparr>)"
    then show thesis using that(2) [OF s(1-3), of fs'] by (simp only: fin) simp
  qed (use room in auto)
qed

lemma sqlite_ok_pool:
  "sqlite_ok q \<Longrightarrow> table_ops (sq_codec q) rows ops \<Longrightarrow> sqlite_ok (q\<lparr>sq_pool := Some rows\<rparr>)"
  by (auto simp: sqlite_ok_def)

lemma sqlite_view_pool:
  "sqlite_ok q \<Longrightarrow> table_ops (sq_codec q) rows ops \<Longrightarrow>
   sqlite_view (q\<lparr>sq_pool := Some rows\<rparr>) = map_of (keyed ops)"
  by (rule sqlite_view_ops) (auto simp: sqlite_ok_pool)

lemma sqlite_enqueue_cases:
  assumes "sqlite_ok q" and "kind_ok (op_kind op)"
  obtains (err) e fs where "sqlite_enqueue op q = (Inl e, q\<lparr>sq_faults := fs\<rparr>)"
  | (ok) rows ops fs where "sq_pool q = Some rows" "table_ops (sq_codec q) rows ops"
      "sqlite_view q = map_of (keyed ops)"
      "sqlite_enqueue op q = (Inr (), q\<lparr>sq_pool := Some (map (op_row (sq_codec q)) (filter (\<lambda>x. op_key x \<noteq> op_key op) ops) @ [op_row (sq_codec q) op]), sq_faults := fs\<rparr>)"
      "table_ops (sq_codec q) (map (op_row (sq_codec q)) (filter (\<lambda>x. op_key x \<noteq> op_key op) ops) @ [op_row (sq_codec q) op])
         (filter (\<lambda>x. op_key x \<noteq> op_key op) ops @ [op])"
proof (cases "sq_pool q")
  case None
  then show ?thesis using err [of no_pool "sq_faults q"] by (simp add: sqlite_enqueue_def)
next
  case (Some rows)
  obtain f fs where f: "take_fault (sq_faults q) = (f, fs)" by (cases "take_fault (sq_faults q)")
  obtain ops where ops: "table_ops (sq_codec q) rows ops" using sqlite_okD [OF assms(1) Some] by blast
  have t: "table_ops (sq_codec q) (map (op_row (sq_codec q)) (filter (\<lambda>x. op_key x \<noteq> op_key op) ops) @ [op_row (sq_codec q) op])
         (filter (\<lambda>x. op_key x \<noteq> op_key op) ops @ [op])"
    using ops assms(2) replace_ok [of ops op] by (simp add: table_ops_def)
  have r: "insert_or_replace (op_row (sq_codec q) op) rows
      = map (op_row (sq_codec q)) (filter (\<lambda>x. op_key x \<noteq> op_key op) ops) @ [op_row (sq_codec q) op]"
    using ops insert_or_replace_ops by (simp add: table_ops_def)
  show ?thesis
  proof (cases f)
    case None
    then show ?thesis using Some f ok [OF Some ops sqlite_view_ops [OF assms(1) Some ops] _ t] r
      by (simp only: sqlite_enqueue_def option.case prod.case)
  next
    case (Some m)
    then show ?thesis using err [of "Queue_Io m" fs] f \<open>sq_pool q = Some rows\<close>
      by (simp add: sqlite_enqueue_def)
  qed
qed

lemma kept_settled:
  assumes d: "distinct (map op_key ops)" "distinct (map op_key snap)" and sub: "stamps failed \<subseteq> stamps snap"
    and x: "x \<in> set ops"
  shows "kept_op (retained_keys (sort_key op_order ops) snap failed) failed (sort_key op_order ops) x
       = settled bump_retry snap failed x"
  using retained_keys_iff [OF distinct_sort_ops [OF d(1)] d(2) sub, of x] x bump_retry_other
  by (auto simp: kept_op_def settled_def stamps_def)

interpretation sqlite: retrying_queue sqlite_enqueue sqlite_snapshot sqlite_finalize sqlite_depth
  sqlite_ok sqlite_view
proof unfold_locales
  fix q :: SqliteQueue and op ops snap failed k n e
  assume ok: "sqlite_ok q"
  show "kind_ok (op_kind op) \<Longrightarrow> sqlite_ok (snd (sqlite_enqueue op q))"
    by (erule sqlite_enqueue_cases [OF ok]) (simp_all add: ok sqlite_ok_pool)
  show "kind_ok (op_kind op) \<Longrightarrow> fst (sqlite_enqueue op q) = Inr () \<Longrightarrow>
      sqlite_view (snd (sqlite_enqueue op q)) = (sqlite_view q)(op_key op \<mapsto> op)"
    by (erule sqlite_enqueue_cases [OF ok])
      (simp_all add: sqlite_view_pool [OF ok] replace_view del: keyed_simps)
  show "sqlite_ok (snd (sqlite_snapshot q))" "sqlite_view (snd (sqlite_snapshot q)) = sqlite_view q"
    by (rule sqlite_snapshot_cases [OF ok]; simp add: ok)+
  show "fst (sqlite_snapshot q) = Inr ops \<Longrightarrow> distinct (map op_key ops) \<and> map_of (keyed ops) = sqlite_view q"
    by (rule sqlite_snapshot_cases [OF ok])
      (auto simp: table_ops_def distinct_sort_ops map_of_sorted_ops)
  show "fst (sqlite_enqueue op q) = Inl e \<Longrightarrow> sqlite_view (snd (sqlite_enqueue op q)) = sqlite_view q"
    by (auto simp: sqlite_enqueue_def split: option.splits prod.splits)
  show "sqlite_ok (snd (sqlite_depth q)) \<and> sqlite_view (snd (sqlite_depth q)) = sqlite_view q"
    using ok by (simp add: sqlite_depth_def split: option.split prod.split)
  show "fst (sqlite_depth q) = Inr n \<Longrightarrow> n = card (dom (sqlite_view q))"
    using ok sqlite_okD [OF ok] sqlite_view_ops [OF ok] card_dom_keyed
    by (fastforce simp: sqlite_depth_def table_ops_def split: option.splits prod.splits)
  show "headroom (sqlite_view q) \<Longrightarrow> sqlite_ok (snd (sqlite_finalize snap failed q))"
  proof (erule sqlite_finalize_cases [OF ok, of snap failed], goal_cases)
    case (1 e fs)
    then show ?case by (simp add: ok)
  next
    case (2 rows ops fs)
    then have "distinct (map op_key ops)" "\<forall>op \<in> set ops. kind_ok (op_kind op)"
      by (simp_all add: table_ops_def)
    from sqlite_ok_pool [OF ok kept_table_ops [OF this]] 2 show ?case by simp
  qed
  show "sqlite_view (snd (sqlite_finalize snap failed q)) k =
      Option.bind (sqlite_view q k) (settled bump_retry snap failed)"
    if room: "headroom (sqlite_view q)" and d: "distinct (map op_key snap)"
      and sub: "stamps failed \<subseteq> stamps snap" and f: "fst (sqlite_finalize snap failed q) = Inr ()"
    using ok room
  proof (cases rule: sqlite_finalize_cases [of _ snap failed])
    case (err e fs)
    then show ?thesis using f by simp
  next
    case (ok rows ops fs)
    then have t: "distinct (map op_key ops)" "\<forall>op \<in> set ops. kind_ok (op_kind op)"
      by (simp_all add: table_ops_def)
    have "sqlite_view (snd (sqlite_finalize snap failed q)) k = Option.bind (map_of (keyed ops) k)
        (kept_op (retained_keys (sort_key op_order ops) snap failed) failed (sort_key op_order ops))"
      using ok(4) sqlite_view_pool [OF \<open>sqlite_ok q\<close> kept_table_ops [OF t]] map_of_kept [OF t(1)]
      by simp
    also have "\<dots> = Option.bind (map_of (keyed ops) k) (settled bump_retry snap failed)"
      by (rule Option.bind_cong [OF refl]) (auto dest: map_of_keyed_SomeD intro: kept_settled [OF t(1) d sub])
    finally show ?thesis by (simp add: ok(3))
  qed
  show "fst (sqlite_finalize snap failed q) = Inl e \<Longrightarrow>
      sqlite_view (snd (sqlite_finalize snap failed q)) = sqlite_view q"
    by (auto simp: sqlite_finalize_def sqlite_finalize_with_def sqlite_snapshot_def finalize_tx_def
        split: option.splits prod.splits sum.splits)
qed simp_all

section \<open>Properties\<close>

text \<open>The queue of a freshly migrated database.\<close>

definition sqlite_fresh :: SqliteQueue where
  "sqlite_fresh = \<lparr>sq_pool = Some [], sq_codec = ref_codec, sq_faults = []\<rparr>"

lemma sqlite_snapshot_fine:
  "sqlite_ok q \<Longrightarrow> sq_pool q = Some rows \<Longrightarrow> sq_faults q = [] \<Longrightarrow> \<exists>ops q'. sqlite_snapshot q = (Inr ops, q')"
  using select_ordered_decode [of "sq_codec q" rows] by (fastforce simp: sqlite_snapshot_def take_fault_def sqlite_ok_def)

lemma sqlite_fresh_ok [simp]: "sqlite_ok sqlite_fresh" "sqlite_view sqlite_fresh = Map.empty"
  by (auto simp: sqlite_fresh_def sqlite_ok_def table_ops_def sqlite_view_def)

text \<open>
  C5: what one replay of the SQLite queue leaves. After a snapshot, enqueues of other tasks and a
  finalisation that succeeded, the operation of a key is the last one enqueued meanwhile, else the
  one of the snapshot, with three exceptions decided by its timestamp: under the key and time of a failed
  entry it stays with the attempt recorded, under those of another entry of the snapshot it is gone. An
  enqueue of another task survives unless it carries the very time of the entry it replaced.
\<close>

theorem sqlite_queue_drain:
  assumes "sqlite_ok q" and "sqlite_snapshot q = (Inr snap, q1)"
    and "enqueue_all sqlite_enqueue ops q1 = (Inr (), q2)"
    and "\<And>op. op \<in> set ops \<Longrightarrow> kind_ok (op_kind op)" and "stamps failed \<subseteq> stamps snap"
    and "headroom (sqlite_view q2)" and "sqlite_finalize snap failed q2 = (Inr (), q3)"
  shows "sqlite_view q3 k =
     (case (sqlite_view q ++ map_of (rev (keyed ops))) k of
        None \<Rightarrow> None
      | Some op \<Rightarrow>
          if full_key op \<in> stamps failed then Some (bump_retry failed op)
          else if full_key op \<in> stamps snap then None
          else Some op)"
proof -
  have "sqlite_view q3 k = Option.bind ((sqlite_view q ++ map_of (rev (keyed ops))) k) (settled bump_retry snap failed)"
    by (rule sqlite.drain_exact [OF assms(1-3) _ assms(5-7)]) (rule assms(4))
  then show ?thesis
    by (cases "(sqlite_view q ++ map_of (rev (keyed ops))) k") (simp_all only: settled_def Option.bind.simps option.case)
qed

lemma sample_kind [simp]: "kind_ok (op_kind (sample_op t i n))" "op_retry_count (sample_op t i n) = 0"
  by (simp_all add: sample_op_def kind_ok_def)

lemma finalize_loop_fine: "\<exists>rows'. finalize_loop keys failed current rows [] = (Inr rows', [])"
  by (induction current arbitrary: rows) (auto simp: take_fault_def split: option.split)

lemma sqlite_finalize_fine:
  assumes "sqlite_ok q" "sq_pool q = Some rows" "sq_faults q = []"
  shows "fst (sqlite_finalize snap failed q) = Inr ()"
proof -
  obtain ops where s: "sqlite_snapshot q = (Inr ops, q)"
    using sqlite_snapshot_fine [OF assms] assms(2,3) by (auto simp: sqlite_snapshot_def take_fault_def)
  obtain rows' where "finalize_loop (retained_keys ops snap failed) (failed_by_full_key failed) ops rows [] = (Inr rows', [])"
    using finalize_loop_fine by blast
  then show ?thesis using assms(2,3)
    by (simp add: sqlite_finalize_def sqlite_finalize_with_def s finalize_tx_def take_fault_def)
qed

text \<open>
  Three rows: the first is superseded meanwhile, the second fails, the third is processed while
  another task enqueues under its key and time.
\<close>

definition drained_queue :: SqliteQueue where
  "drained_queue = \<lparr>sq_pool = Some (map (op_row ref_codec) [sample_op ''m'' ''1'' 100, sample_op ''m'' ''2'' 110, sample_op ''m'' ''3'' 120]),
     sq_codec = ref_codec, sq_faults = []\<rparr>"

lemma drained_table: "table_ops ref_codec (map (op_row ref_codec) [sample_op ''m'' ''1'' 100, sample_op ''m'' ''2'' 110, sample_op ''m'' ''3'' 120])
    [sample_op ''m'' ''1'' 100, sample_op ''m'' ''2'' 110, sample_op ''m'' ''3'' 120]"
  by (simp add: table_ops_def op_key_def) (simp add: sample_op_def)

lemma drained_ok: "sqlite_ok drained_queue"
  using drained_table by (auto simp: sqlite_ok_def drained_queue_def)

theorem sqlite_queue_drain_witness:
  "\<exists>q1 q2 q3 lost. let snap = [sample_op ''m'' ''1'' 100, sample_op ''m'' ''2'' 110, sample_op ''m'' ''3'' 120];
          newer = sample_op ''m'' ''1'' 150; failed = [sample_op ''m'' ''2'' 110]
      in sqlite_snapshot drained_queue = (Inr snap, q1)
         \<and> enqueue_all sqlite_enqueue [newer, lost] q1 = (Inr (), q2) \<and> sqlite_finalize snap failed q2 = (Inr (), q3)
         \<and> op_kind lost = Tombstone 2 \<and> op_key lost = (''m'', ''3'')
         \<and> sqlite_view q3 (''m'', ''1'') = Some newer
         \<and> sqlite_view q3 (''m'', ''2'') = Some (sample_op ''m'' ''2'' 110\<lparr>op_retry_count := 1\<rparr>)
         \<and> sqlite_view q3 (''m'', ''3'') = None"
proof -
  let ?snap = "[sample_op ''m'' ''1'' 100, sample_op ''m'' ''2'' 110, sample_op ''m'' ''3'' 120]"
  let ?newer = "sample_op ''m'' ''1'' 150" and ?failed = "[sample_op ''m'' ''2'' 110]"
  let ?lost = "sample_op ''m'' ''3'' 120\<lparr>op_kind := Tombstone 2\<rparr>"
  have view: "sqlite_view drained_queue = map_of (keyed ?snap)"
    using sqlite_view_ops [OF drained_ok, of _ ?snap] drained_table by (simp add: drained_queue_def)
  have "sort_key op_order ?snap = ?snap" by (simp add: op_order_def sample_op_def less_eq_prod_def)
  then have s: "sqlite_snapshot drained_queue = (Inr ?snap, drained_queue)"
    using select_ordered_decode [OF ref_codec_ok drained_table]
    by (simp add: sqlite_snapshot_def drained_queue_def take_fault_def del: map_map list.map)
  have kind: "kind_ok (op_kind op)" if "op \<in> set [?newer, ?lost]" for op
    using that by (auto simp: sample_op_def kind_ok_def)
  have "\<exists>q2 rows. enqueue_all sqlite_enqueue [?newer, ?lost] drained_queue = (Inr (), q2) \<and> sq_pool q2 = Some rows \<and> sq_faults q2 = []"
    by (simp add: sqlite_enqueue_def drained_queue_def take_fault_def)
  then obtain q2 rows where e: "enqueue_all sqlite_enqueue [?newer, ?lost] drained_queue = (Inr (), q2)"
    and p: "sq_pool q2 = Some rows" "sq_faults q2 = []" by blast
  have q2: "sqlite_ok q2" "sqlite_view q2 = sqlite_view drained_queue ++ map_of (rev (keyed [?newer, ?lost]))"
    using sqlite.enqueue_all_ok [OF drained_ok kind, of "[?newer, ?lost]"] e by (simp_all only: fst_conv snd_conv simp_thms)
  obtain q3 where f: "sqlite_finalize ?snap ?failed q2 = (Inr (), q3)"
    using sqlite_finalize_fine [OF q2(1) p, of ?snap ?failed] by (metis prod.collapse)
  have room: "headroom (sqlite_view q2)"
    unfolding q2(2) view by (auto simp: headroom_def ran_def sample_op_def op_key_def split: if_splits)
  have sub: "stamps ?failed \<subseteq> stamps ?snap" by (simp add: stamps_def)
  have drain: "sqlite_view q3 k =
     (case (sqlite_view drained_queue ++ map_of (rev (keyed [?newer, ?lost]))) k of
        None \<Rightarrow> None
      | Some op \<Rightarrow> if full_key op \<in> stamps ?failed then Some (bump_retry ?failed op)
                   else if full_key op \<in> stamps ?snap then None else Some op)" for k
    by (rule sqlite_queue_drain [OF drained_ok s e _ sub room f]) (rule kind)
  have "sqlite_view q3 (''m'', ''1'') = Some ?newer" "sqlite_view q3 (''m'', ''3'') = None"
    "sqlite_view q3 (''m'', ''2'') = Some (sample_op ''m'' ''2'' 110\<lparr>op_retry_count := 1\<rparr>)"
    unfolding drain view
    by (simp_all add: sample_op_def op_key_def full_key_def stamps_def bump_retry_def failed_by_full_key_def collect_map_def
        u32_saturating_inc_def)
  then show ?thesis unfolding Let_def using s e f
    by - (rule exI [of _ drained_queue], rule exI [of _ q2], rule exI [of _ q3], rule exI [of _ ?lost],
      simp add: sample_op_def op_key_def)
qed

text \<open>
  No half-applied batch. Whichever statement the database refuses, an enqueue or a
  finalisation that returns an error leaves every queued operation as it was.
\<close>

theorem sqlite_queue_atomic:
  assumes "sqlite_ok q"
  shows "(case sqlite_finalize snap failed q of
            (Inl e, q') \<Rightarrow> sqlite_view q' = sqlite_view q | (Inr u, q') \<Rightarrow> True)
       \<and> (case sqlite_enqueue op q of
            (Inl e, q') \<Rightarrow> sqlite_view q' = sqlite_view q | (Inr u, q') \<Rightarrow> True)"
  using sqlite.finalize_atomic [OF assms, of snap failed] sqlite.enqueue_atomic [OF assms, of op]
  by (cases "sqlite_finalize snap failed q"; cases "sqlite_enqueue op q") (simp split: sum.split)

theorem sqlite_queue_atomic_witness:
  "sqlite_finalize [] [] (sqlite_fresh\<lparr>sq_faults := [None, Some ''disk full'']\<rparr>)
     = (Inl (Queue_Io ''disk full''), sqlite_fresh)
   \<and> sqlite_view sqlite_fresh = Map.empty"
proof -
  let ?q = "sqlite_fresh\<lparr>sq_faults := [None, Some ''disk full'']\<rparr>"
  have f: "sqlite_finalize [] [] ?q = (Inl (Queue_Io ''disk full''), sqlite_fresh)"
    by (simp add: sqlite_finalize_def sqlite_finalize_with_def sqlite_snapshot_def sqlite_fresh_def
        take_fault_def finalize_tx_def select_ordered_def)
  have "sqlite_ok ?q" by simp
  from sqlite_queue_atomic [OF this, of "[]" "[]"] f show ?thesis by simp
qed

text \<open>
  The window between reading the rows and the transaction is harmless. An operation another
  task enqueues there, with a timestamp of its own, is in the queue after the finalisation, even
  when it replaced an operation the finalisation deletes or retries.
\<close>

theorem sqlite_finalize_race:
  assumes ok: "sqlite_ok q" "headroom (sqlite_view q)"
    and s: "sqlite_snapshot q = (Inr current, q1)" and e: "fst (sqlite_enqueue op q1) = Inr ()"
    and op: "kind_ok (op_kind op)" "op_retry_count op \<noteq> - 1" "full_key op \<notin> stamps current"
    and f: "sqlite_finalize_with (\<lambda>q. snd (sqlite_enqueue op q)) snap failed q = (Inr (), q3)"
  shows "sqlite_view q3 (op_key op) = Some op"
proof -
  have ok1: "sqlite_ok q1" and v1: "sqlite_view q1 = sqlite_view q"
    using sqlite.snapshot_inv [OF ok(1)] sqlite.snapshot_view [OF ok(1)] s by simp_all
  have cur: "distinct (map op_key current)" "map_of (keyed current) = sqlite_view q"
    using sqlite.snapshot_ok [OF ok(1)] s by simp_all
  have fin: "finalize_tx current snap failed (snd (sqlite_enqueue op q1)) = (Inr (), q3)"
    using f s by (simp add: sqlite_finalize_with_def)
  from ok1 op(1) show ?thesis
  proof (cases rule: sqlite_enqueue_cases)
    case (err x fs)
    then show ?thesis using e by simp
  next
    case c: (ok rows ops fs)
    let ?ops = "filter (\<lambda>x. op_key x \<noteq> op_key op) ops @ [op]"
    let ?q2 = "snd (sqlite_enqueue op q1)"
    have d: "distinct (map op_key ops)" "\<forall>x \<in> set ops. kind_ok (op_kind x)"
      using c(2) by (simp_all add: table_ops_def)
    have pool: "sq_pool ?q2 = Some (map (op_row (sq_codec ?q2)) ?ops)" using c(4) by simp
    have mem: "x \<in> set current \<and> op_retry_count x \<noteq> - 1" if "x \<in> set ops" for x
    proof -
      have x: "sqlite_view q (op_key x) = Some x"
        using that d(1) by (simp only: v1 [symmetric] c(3) map_of_keyed_iff simp_thms)
      then show ?thesis
        using headroomD [OF ok(2)] cur map_of_keyed_SomeD by metis
    qed
    have in_current: "x \<in> set current \<or> full_key x \<notin> stamps current" if "x \<in> set ?ops" for x
      using that mem op(3) by auto
    have room: "op_retry_count x \<noteq> - 1" if "x \<in> set ?ops" for x
      using that mem op(2) by auto
    show ?thesis
    proof (rule finalize_tx_cases [OF pool cur(1) in_current room, where snap = snap and failed = failed])
      fix e' fs' assume "finalize_tx current snap failed ?q2 = (Inl e', ?q2\<lparr>sq_faults := fs'\<rparr>)"
      then show ?thesis using fin by simp
    next
      fix fs'
      let ?kept = "List.map_filter (kept_op (retained_keys current snap failed) failed current) ?ops"
      assume "finalize_tx current snap failed ?q2 =
        (Inr (), ?q2\<lparr>sq_pool := Some (map (op_row (sq_codec ?q2)) ?kept), sq_faults := fs'\<rparr>)"
      then have q3: "q3 = ?q2\<lparr>sq_pool := Some (map (op_row (sq_codec ?q2)) ?kept), sq_faults := fs'\<rparr>"
        using fin by simp
      have d': "distinct (map op_key ?ops)" "\<forall>x \<in> set ?ops. kind_ok (op_kind x)"
        using replace_ok [OF d(1)] d(2) op(1) by auto
      have "sqlite_ok ?q2" by (rule sqlite.enqueue_inv [OF ok1 op(1)])
      then have "sqlite_view q3 = map_of (keyed ?kept)"
        unfolding q3 using sqlite_view_pool [OF _ kept_table_ops [OF d']] by simp
      moreover have "map_of (keyed ?ops) (op_key op) = Some op" by (simp only: replace_view fun_upd_same)
      ultimately show ?thesis
        using op(3) by (simp only: map_of_kept [OF d'(1)] Option.bind.bind_lunit kept_op_def if_P not_False_eq_True)
    qed (simp_all)
  qed
qed

text \<open>A database that reports no error lets a finalisation through.\<close>

lemma finalize_loop_no_faults: "\<exists>rows'. finalize_loop keys failed current rows [] = (Inr rows', [])"
  by (induction current arbitrary: rows) (simp_all add: take_fault_def split: option.split)

lemma finalize_tx_no_faults:
  assumes "sq_pool q = Some rows" and "sq_faults q = []"
  shows "fst (finalize_tx current snap failed q) = Inr ()"
  using finalize_loop_no_faults [of "retained_keys current snap failed" "failed_by_full_key failed" current rows]
  by (auto simp: finalize_tx_def assms take_fault_def)

theorem sqlite_finalize_race_witness:
  "sqlite_view (snd (sqlite_finalize_with (\<lambda>q. snd (sqlite_enqueue (sample_op ''m'' ''1'' 200) q))
       [sample_op ''m'' ''1'' 100] []
       (sqlite_fresh\<lparr>sq_pool := Some [op_row ref_codec (sample_op ''m'' ''1'' 100)]\<rparr>))) (''m'', ''1'')
   = Some (sample_op ''m'' ''1'' 200)"
proof -
  let ?old = "sample_op ''m'' ''1'' 100" and ?new = "sample_op ''m'' ''1'' 200"
  let ?q = "sqlite_fresh\<lparr>sq_pool := Some [op_row ref_codec ?old]\<rparr>"
  let ?r = "sqlite_finalize_with (\<lambda>q. snd (sqlite_enqueue ?new q)) [?old] [] ?q"
  have t: "table_ops ref_codec [op_row ref_codec ?old] [?old]" by (simp add: table_ops_def)
  have ok: "sqlite_ok ?q"
    using sqlite_ok_pool [OF sqlite_fresh_ok(1), of _ "[?old]"] t by (simp add: sqlite_fresh_def)
  have v: "sqlite_view ?q = map_of (keyed [?old])"
    using sqlite_view_pool [OF sqlite_fresh_ok(1), of _ "[?old]"] t by (simp add: sqlite_fresh_def)
  have s: "sqlite_snapshot ?q = (Inr [?old], ?q)"
    using select_ordered_decode [OF ref_codec_ok t]
    by (simp add: sqlite_snapshot_def sqlite_fresh_def take_fault_def)
  have "fst ?r = Inr ()"
    unfolding sqlite_finalize_with_def s prod.case sum.case
    by (rule finalize_tx_no_faults) (simp_all add: sqlite_enqueue_def sqlite_fresh_def take_fault_def)
  then have r: "?r = (Inr (), snd ?r)" by (simp add: prod_eq_iff)
  have "sqlite_view (snd ?r) (op_key ?new) = Some ?new"
  proof (rule sqlite_finalize_race [OF ok _ s _ _ _ _ r])
    show "headroom (sqlite_view ?q)" unfolding v by (rule headroom_map_of) simp
    show "fst (sqlite_enqueue ?new ?q) = Inr ()"
      by (simp add: sqlite_enqueue_def sqlite_fresh_def take_fault_def)
    show "full_key ?new \<notin> stamps [?old]" by (simp add: stamps_def full_key_def sample_op_def)
  qed simp_all
  then show ?thesis by (simp add: op_key_def sample_op_def)
qed

end
