(* ===== verification/FileQueue.thy ===== *)
theory FileQueue
  imports MemoryQueue
begin

text \<open>
  \<open>crates/tauri-plugin-polybase/src/queue_store.rs\<close>: the queue in a JSON file, with a
  cache that is loaded when it is empty and written through by every change. The file is its
  bytes, \<open>None\<close> when it does not exist. Each file-system call consumes one entry of
  \<open>fq_faults\<close>: \<open>Some (message, leftover)\<close> makes it fail, and a failing write
  leaves \<open>leftover\<close> in the file.
\<close>

type_synonym io_fault = "string \<times> string option"

record FileQueue =
  fq_file :: "string option"
  fq_cache :: "QueuedOperation list"
  fq_disabled :: bool
  fq_has_parent :: bool
  fq_codec :: json_codec
  fq_faults :: "io_fault option list"

definition take_io :: "FileQueue \<Rightarrow> io_fault option \<times> FileQueue" where
  "take_io q = (case fq_faults q of [] \<Rightarrow> (None, q) | f # fs \<Rightarrow> (f, q\<lparr>fq_faults := fs\<rparr>))"

definition ops_from_json :: "json \<Rightarrow> string + QueuedOperation list" where
  "ops_from_json v =
     (case as_array v of
        None \<Rightarrow> Inl ''invalid type: expected a sequence''
      | Some vs \<Rightarrow> collect_results (map op_from_json vs))"

definition decode_file :: "json_codec \<Rightarrow> string \<Rightarrow> OfflineQueueError + QueuedOperation list" where
  "decode_file c bytes =
     (case parse c bytes of
        Inl e \<Rightarrow> Inl (Queue_Decode e)
      | Inr v \<Rightarrow> map_err Queue_Decode (ops_from_json v))"

definition load_into_cache :: "FileQueue \<Rightarrow> (OfflineQueueError + unit) \<times> FileQueue" where
  "load_into_cache q =
     (if fq_disabled q then (Inr (), q)
      else if fq_cache q \<noteq> [] then (Inr (), q)
      else
        (case take_io q of
           (Some (msg, _), q') \<Rightarrow> (Inl (Queue_Io msg), q')
         | (None, q') \<Rightarrow>
             (case fq_file q' of
                None \<Rightarrow> (Inr (), q')
              | Some bytes \<Rightarrow>
                  (if bytes = [] then (Inr (), q')
                   else
                     (case decode_file (fq_codec q') bytes of
                        Inl e \<Rightarrow> (Inl e, q')
                      | Inr parsed \<Rightarrow> (Inr (), q'\<lparr>fq_cache := parsed\<rparr>))))))"

definition write_file :: "FileQueue \<Rightarrow> (OfflineQueueError + unit) \<times> FileQueue" where
  "write_file q =
     (case take_io q of
        (Some (msg, leftover), q') \<Rightarrow>
          (Inl (Queue_Io msg),
           (case leftover of None \<Rightarrow> q' | Some bytes \<Rightarrow> q'\<lparr>fq_file := Some bytes\<rparr>))
      | (None, q') \<Rightarrow>
          (Inr (), q'\<lparr>fq_file := Some (render (fq_codec q') (JArray (map op_to_json (fq_cache q'))))\<rparr>))"

definition flush_locked :: "FileQueue \<Rightarrow> (OfflineQueueError + unit) \<times> FileQueue" where
  "flush_locked q =
     (if fq_disabled q then (Inr (), q)
      else if fq_has_parent q then
        (case take_io q of
           (Some (msg, _), q') \<Rightarrow> (Inl (Queue_Io msg), q')
         | (None, q') \<Rightarrow> write_file q')
      else write_file q)"

definition file_enqueue ::
  "QueuedOperation \<Rightarrow> FileQueue \<Rightarrow> (OfflineQueueError + unit) \<times> FileQueue" where
  "file_enqueue op q =
     (case load_into_cache q of
        (Inl e, q') \<Rightarrow> (Inl e, q')
      | (Inr _, q') \<Rightarrow>
          flush_locked (q'\<lparr>fq_cache :=
             filter (\<lambda>existing. \<not> (op_table existing = op_table op
                             \<and> op_entity_id existing = op_entity_id op)) (fq_cache q') @ [op]\<rparr>))"

definition file_snapshot :: "FileQueue \<Rightarrow> (OfflineQueueError + QueuedOperation list) \<times> FileQueue" where
  "file_snapshot q =
     (case load_into_cache q of
        (Inl e, q') \<Rightarrow> (Inl e, q')
      | (Inr _, q') \<Rightarrow> (Inr (fq_cache q'), q'))"

definition file_finalize ::
  "QueuedOperation list \<Rightarrow> QueuedOperation list \<Rightarrow> FileQueue
   \<Rightarrow> (OfflineQueueError + unit) \<times> FileQueue" where
  "file_finalize snapshot failed q =
     (case load_into_cache q of
        (Inl e, q') \<Rightarrow> (Inl e, q')
      | (Inr _, q') \<Rightarrow>
          (let keys = retained_keys (fq_cache q') snapshot failed
           in flush_locked (q'\<lparr>fq_cache := filter (\<lambda>op. full_key op \<in> keys) (fq_cache q')\<rparr>)))"

definition file_depth :: "FileQueue \<Rightarrow> (OfflineQueueError + nat) \<times> FileQueue" where
  "file_depth q =
     (case load_into_cache q of
        (Inl e, q') \<Rightarrow> (Inl e, q')
      | (Inr _, q') \<Rightarrow> (Inr (length (fq_cache q')), q'))"

section \<open>The contract\<close>

definition ops_ok :: "QueuedOperation list \<Rightarrow> bool" where
  "ops_ok ops \<longleftrightarrow> distinct (map op_key ops) \<and> (\<forall>op \<in> set ops. kind_ok (op_kind op))"

text \<open>What the file holds for a fresh process, where it can be read.\<close>

definition file_ops :: "json_codec \<Rightarrow> string option \<Rightarrow> QueuedOperation list" where
  "file_ops c file =
     (case file of
        None \<Rightarrow> []
      | Some bytes \<Rightarrow>
          (if bytes = [] then []
           else case decode_file c bytes of Inl e \<Rightarrow> [] | Inr ops \<Rightarrow> ops))"

definition file_queue_ops :: "FileQueue \<Rightarrow> QueuedOperation list" where
  "file_queue_ops q =
     (if fq_disabled q \<or> fq_cache q \<noteq> [] then fq_cache q else file_ops (fq_codec q) (fq_file q))"

definition file_view :: "FileQueue \<Rightarrow> string \<times> string \<rightharpoonup> QueuedOperation" where
  "file_view q = map_of (keyed (file_queue_ops q))"

text \<open>
  A failing write may leave anything that does not decode, or decodes to a well-formed queue: a
  truncated array does not parse.
\<close>

definition file_ok :: "FileQueue \<Rightarrow> bool" where
  "file_ok q \<longleftrightarrow> codec_ok (fq_codec q) \<and> ops_ok (fq_cache q) \<and> ops_ok (file_ops (fq_codec q) (fq_file q))
     \<and> (\<forall>f. Some f \<in> set (fq_faults q) \<longrightarrow> ops_ok (file_ops (fq_codec q) (snd f)))"

lemma decode_file_render:
  assumes "codec_ok c" and "\<forall>op \<in> set ops. kind_ok (op_kind op)"
  shows "decode_file c (render c (JArray (map op_to_json ops))) = Inr ops"
proof -
  have "parse c (render c (JArray (map op_to_json ops))) = Inr (json_norm (JArray (map op_to_json ops)))"
    using assms by (simp add: codec_ok_def op_json_wf op_json_fits)
  moreover have "map (\<lambda>x. op_from_json (json_norm (op_to_json x))) ops = map (\<lambda>x. Inr (id x)) ops"
    using assms(2) by (simp add: op_json_norm)
  ultimately show ?thesis
    by (simp only: decode_file_def ops_from_json_def sum.case json_norm.simps as_array.simps option.case
        map_map comp_def collect_results_map_Inr list.map_id map_err_simps)
qed

lemma file_ops_render:
  "codec_ok c \<Longrightarrow> \<forall>op \<in> set ops. kind_ok (op_kind op) \<Longrightarrow>
   file_ops c (Some (render c (JArray (map op_to_json ops)))) = ops"
  by (simp add: file_ops_def decode_file_render) (simp add: codec_ok_def)

lemma file_ok_faults: "file_ok q \<Longrightarrow> take_io q = (f, q') \<Longrightarrow> file_ok q'"
  by (cases "fq_faults q") (auto simp: take_io_def file_ok_def)

lemma take_io_sel:
  assumes "take_io q = (f, q')"
  shows "fq_file q' = fq_file q" "fq_cache q' = fq_cache q" "fq_disabled q' = fq_disabled q"
    "fq_codec q' = fq_codec q" "fq_has_parent q' = fq_has_parent q"
    "file_queue_ops q' = file_queue_ops q"
  using assms by (cases "fq_faults q"; auto simp: take_io_def file_queue_ops_def)+

lemma load_into_cache_cases:
  assumes "file_ok q"
  obtains (err) e q' where "load_into_cache q = (Inl e, q')" "file_ok q'"
    "file_queue_ops q' = file_queue_ops q"
  | (ok) q' where "load_into_cache q = (Inr (), q')" "file_ok q'" "fq_cache q' = file_queue_ops q"
    "file_queue_ops q' = file_queue_ops q" "fq_disabled q' = fq_disabled q"
proof (cases "fq_disabled q \<or> fq_cache q \<noteq> []")
  case True
  then show ?thesis using ok [of q] assms by (auto simp: load_into_cache_def file_queue_ops_def)
next
  case False
  obtain f q' where t: "take_io q = (f, q')" by (cases "take_io q")
  note sel = take_io_sel [OF t]
  have q': "file_ok q'" by (rule file_ok_faults [OF assms t])
  show ?thesis
  proof (cases f)
    case (Some m)
    then show ?thesis using err [of "Queue_Io (fst m)" q'] False t sel q'
      by (cases m) (simp add: load_into_cache_def)
  next
    case f: None
    have load: "load_into_cache q = (case fq_file q of
          None \<Rightarrow> (Inr (), q')
        | Some bytes \<Rightarrow> if bytes = [] then (Inr (), q')
            else (case decode_file (fq_codec q) bytes of
                Inl e \<Rightarrow> (Inl e, q') | Inr parsed \<Rightarrow> (Inr (), q'\<lparr>fq_cache := parsed\<rparr>)))"
      using False by (simp add: load_into_cache_def t f sel(1,4) split: option.split)
    have view: "file_queue_ops q = file_ops (fq_codec q) (fq_file q)"
      using False by (simp add: file_queue_ops_def)
    have c: "fq_cache q' = []" and nd: "\<not> fq_disabled q" "fq_cache q = []"
      using False sel(2) by simp_all
    show ?thesis
    proof (cases "fq_file q = None \<or> fq_file q = Some []")
      case True
      then have "load_into_cache q = (Inr (), q')" "file_queue_ops q = []"
        by (auto simp: load view file_ops_def)
      then show ?thesis using ok [OF _ q' _ sel(6,3)] c by simp
    next
      case False
      then obtain b where b: "fq_file q = Some b" "b \<noteq> []" by auto
      show ?thesis
      proof (cases "decode_file (fq_codec q) b")
        case (Inl e)
        then have "load_into_cache q = (Inl e, q')" by (simp add: load b)
        then show ?thesis by (rule err [OF _ q' sel(6)])
      next
        case (Inr ops)
        then have l: "load_into_cache q = (Inr (), q'\<lparr>fq_cache := ops\<rparr>)" by (simp add: load b)
        have o: "file_ops (fq_codec q) (fq_file q) = ops" by (simp add: file_ops_def b Inr)
        have "file_ok (q'\<lparr>fq_cache := ops\<rparr>)" using q' o sel(1,4) by (auto simp: file_ok_def)
        then show ?thesis
          using l sel(1,3,4) o nd
          by (rule_tac ok [of "q'\<lparr>fq_cache := ops\<rparr>"]) (auto simp: view file_queue_ops_def)
      qed
    qed
  qed
qed

lemma write_file_inv:
  assumes "file_ok q"
  shows "file_ok (snd (write_file q)) \<and> fq_cache (snd (write_file q)) = fq_cache q
    \<and> fq_disabled (snd (write_file q)) = fq_disabled q \<and> fq_codec (snd (write_file q)) = fq_codec q
    \<and> (fst (write_file q) = Inr () \<longrightarrow>
         file_ops (fq_codec q) (fq_file (snd (write_file q))) = fq_cache q)"
proof -
  obtain f q' where t: "take_io q = (f, q')" by (cases "take_io q")
  note sel = take_io_sel [OF t]
  have q': "file_ok q'" by (rule file_ok_faults [OF assms t])
  show ?thesis
  proof (cases f)
    case None
    have "file_ops (fq_codec q') (Some (render (fq_codec q') (JArray (map op_to_json (fq_cache q'))))) = fq_cache q'"
      using q' by (intro file_ops_render) (auto simp: file_ok_def ops_ok_def)
    then show ?thesis using None t sel q' by (simp add: write_file_def file_ok_def)
  next
    case (Some m)
    then have "Some m \<in> set (fq_faults q)"
      using t by (cases "fq_faults q") (auto simp: take_io_def)
    then have "ops_ok (file_ops (fq_codec q) (snd m))" using assms unfolding file_ok_def by blast
    then show ?thesis using Some t sel q'
      by (cases m) (auto simp: write_file_def file_ok_def split: option.splits)
  qed
qed

lemma flush_inv:
  assumes "file_ok q"
  shows "file_ok (snd (flush_locked q)) \<and> fq_cache (snd (flush_locked q)) = fq_cache q
    \<and> fq_disabled (snd (flush_locked q)) = fq_disabled q \<and> fq_codec (snd (flush_locked q)) = fq_codec q
    \<and> (fst (flush_locked q) = Inr () \<longrightarrow> \<not> fq_disabled q \<longrightarrow>
         file_ops (fq_codec q) (fq_file (snd (flush_locked q))) = fq_cache q)"
proof -
  obtain f q' where t: "take_io q = (f, q')" by (cases "take_io q")
  have q': "file_ok q'" by (rule file_ok_faults [OF assms t])
  show ?thesis
    using write_file_inv [OF assms] write_file_inv [OF q'] take_io_sel [OF t] t assms q'
    by (cases f) (auto simp: flush_locked_def)
qed

lemma flush_view:
  assumes "file_ok q" and "fst (flush_locked q) = Inr ()"
  shows "file_queue_ops (snd (flush_locked q)) = fq_cache q"
  using flush_inv [OF assms(1)] assms(2) by (auto simp: file_queue_ops_def)

lemma file_ok_cache: "file_ok q \<Longrightarrow> ops_ok ops \<Longrightarrow> file_ok (q\<lparr>fq_cache := ops\<rparr>)"
  by (simp add: file_ok_def)

lemma file_queue_ops_ok: "file_ok q \<Longrightarrow> ops_ok (file_queue_ops q)"
  by (simp add: file_ok_def file_queue_ops_def)

lemma replace_ops_ok:
  "ops_ok ops \<Longrightarrow> kind_ok (op_kind op) \<Longrightarrow> ops_ok (filter (\<lambda>x. op_key x \<noteq> op_key op) ops @ [op])"
  using replace_ok [of ops op] by (auto simp: ops_ok_def)

lemma filter_ops_ok: "ops_ok ops \<Longrightarrow> ops_ok (filter P ops)"
  by (auto simp: ops_ok_def distinct_map_filter)

interpretation fileq: offline_queue file_enqueue file_snapshot file_finalize file_depth
  file_ok file_view "\<lambda>_ op. op"
proof unfold_locales
  fix q :: FileQueue and op ops snap failed k n
  assume ok: "file_ok q"
  note load = load_into_cache_cases [OF ok]
  note ops = file_queue_ops_ok [OF ok]
  show "kind_ok (op_kind op) \<Longrightarrow> file_ok (snd (file_enqueue op q))"
    by (rule load)
      (simp_all add: file_enqueue_def same_key_iff flush_inv file_ok_cache replace_ops_ok ops)
  show "kind_ok (op_kind op) \<Longrightarrow> fst (file_enqueue op q) = Inr () \<Longrightarrow>
      file_view (snd (file_enqueue op q)) = (file_view q)(op_key op \<mapsto> op)"
    by (rule load)
      (simp_all add: file_enqueue_def same_key_iff file_view_def flush_view file_ok_cache
        replace_ops_ok ops replace_view del: keyed_simps)
  show "file_ok (snd (file_snapshot q))" "file_view (snd (file_snapshot q)) = file_view q"
    by (rule load; simp add: file_snapshot_def file_view_def)+
  show "fst (file_snapshot q) = Inr ops \<Longrightarrow> distinct (map op_key ops) \<and> map_of (keyed ops) = file_view q"
    by (rule load) (use ops in \<open>auto simp: file_snapshot_def file_view_def ops_ok_def\<close>)
  show "file_ok (snd (file_finalize snap failed q))"
    by (rule load) (simp_all add: file_finalize_def Let_def flush_inv file_ok_cache filter_ops_ok ops)
  show "file_ok (snd (file_depth q)) \<and> file_view (snd (file_depth q)) = file_view q"
    by (rule load) (simp_all add: file_depth_def file_view_def)
  show "fst (file_depth q) = Inr n \<Longrightarrow> n = card (dom (file_view q))"
    by (rule load)
      (use ops in \<open>auto simp: file_depth_def file_view_def ops_ok_def card_dom_keyed\<close>)
  show "distinct (map op_key snap) \<Longrightarrow> stamps failed \<subseteq> stamps snap \<Longrightarrow>
      fst (file_finalize snap failed q) = Inr () \<Longrightarrow>
      file_view (snd (file_finalize snap failed q)) k =
      Option.bind (file_view q k) (settled (\<lambda>_ op. op) snap failed)"
    using settle_view [of "file_queue_ops q" snap failed "\<lambda>op. op" k] ops [unfolded ops_ok_def]
    by - (rule load, auto simp: file_finalize_def Let_def file_view_def flush_view file_ok_cache
        filter_ops_ok ops)
qed simp_all

section \<open>Properties\<close>

definition file_fresh :: FileQueue where
  "file_fresh = \<lparr>fq_file = None, fq_cache = [], fq_disabled = False, fq_has_parent = True,
     fq_codec = ref_codec, fq_faults = []\<rparr>"

lemma file_fresh_ok [simp]: "file_ok file_fresh"
  by (simp add: file_ok_def file_fresh_def ops_ok_def file_ops_def)

text \<open>
  One replay of the file-backed queue: as for the other queues no concurrent enqueue is lost
  and no completed operation stays, but a failed operation is kept exactly as it was, without a
  retry count or an error.
\<close>

theorem file_queue_drain:
  assumes "file_ok q" and "file_snapshot q = (Inr snap, q1)"
    and "enqueue_all file_enqueue ops q1 = (Inr (), q2)"
    and "\<And>op. op \<in> set ops \<Longrightarrow> kind_ok (op_kind op)"
    and "stamps ops \<inter> stamps snap = {}" and "stamps failed \<subseteq> stamps snap"
    and "headroom (file_view q2)" and "file_finalize snap failed q2 = (Inr (), q3)"
  shows "file_view q3 = (\<lambda>k. Option.bind (file_view q k)
           (\<lambda>op. if full_key op \<in> stamps failed then Some op else None))
         ++ map_of (rev (keyed ops))"
  by (rule fileq.drain_view [OF assms(1,2,3) _ assms(5,6,7,8)]) (rule assms(4))

theorem file_queue_drain_witness:
  "file_view (snd (file_finalize [sample_op ''m'' ''1'' 100] [sample_op ''m'' ''1'' 100]
     (snd (file_enqueue (sample_op ''m'' ''2'' 150)
       (snd (file_snapshot (file_fresh\<lparr>fq_cache := [sample_op ''m'' ''1'' 100]\<rparr>))))))) (''m'', ''1'')
   = Some (sample_op ''m'' ''1'' 100)"
proof -
  let ?a = "sample_op ''m'' ''1'' 100" and ?b = "sample_op ''m'' ''2'' 150"
  let ?q = "file_fresh\<lparr>fq_cache := [?a]\<rparr>"
  let ?q1 = "snd (file_snapshot ?q)"
  let ?q2 = "snd (file_enqueue ?b ?q1)"
  let ?q3 = "snd (file_finalize [?a] [?a] ?q2)"
  have kind: "kind_ok (op_kind ?a)" "kind_ok (op_kind ?b)" by (simp_all add: sample_op_def kind_ok_def)
  have ok: "file_ok ?q" using kind by (simp add: file_ok_cache ops_ok_def)
  have s: "file_snapshot ?q = (Inr [?a], ?q)"
    by (simp add: file_snapshot_def load_into_cache_def file_fresh_def)
  have e: "file_enqueue ?b ?q = (Inr (), ?q\<lparr>fq_cache := [?a, ?b],
      fq_file := Some (ref_render (JArray (map op_to_json [?a, ?b])))\<rparr>)"
    by (simp add: file_enqueue_def load_into_cache_def file_fresh_def flush_locked_def take_io_def
        write_file_def ref_codec_def) (simp add: sample_op_def)
  have q2: "?q2 = ?q\<lparr>fq_cache := [?a, ?b],
      fq_file := Some (ref_render (JArray (map op_to_json [?a, ?b])))\<rparr>"
    by (simp only: s e snd_conv)
  have f: "fst (file_finalize [?a] [?a] ?q2) = Inr ()"
    unfolding q2 by (simp add: file_finalize_def load_into_cache_def file_fresh_def flush_locked_def
        take_io_def write_file_def Let_def)
  have "file_view ?q3 = (\<lambda>k. Option.bind (file_view ?q k)
           (\<lambda>op. if full_key op \<in> stamps [?a] then Some op else None)) ++ map_of (rev (keyed [?b]))"
  proof (rule file_queue_drain [OF ok])
    show "file_snapshot ?q = (Inr [?a], ?q1)" by (simp add: s)
    show "enqueue_all file_enqueue [?b] ?q1 = (Inr (), ?q2)" by (simp add: s e)
    show "kind_ok (op_kind op)" if "op \<in> set [?b]" for op using that kind by simp
    show "stamps [?b] \<inter> stamps [?a] = {}" by (simp add: stamps_def full_key_def sample_op_def)
    have "file_queue_ops ?q2 = [?a, ?b]" unfolding q2 by (simp add: file_queue_ops_def)
    then show "headroom (file_view ?q2)"
      unfolding file_view_def by (intro headroom_map_of) (auto simp: sample_op_def)
    show "file_finalize [?a] [?a] ?q2 = (Inr (), ?q3)" using f by (simp add: prod_eq_iff)
  qed simp
  moreover have "file_view ?q (''m'', ''1'') = Some ?a"
    by (simp add: file_view_def file_queue_ops_def op_key_def sample_op_def)
  ultimately show ?thesis by (simp add: stamps_def op_key_def sample_op_def map_add_def)
qed

text \<open>
  C12: a change that succeeded survives a restart. After an enqueue or a finalisation that returned
  \<open>Ok\<close> on an enabled queue, a process that starts with an empty cache reads back exactly
  the operations that were queued. This asks of a queued payload what \<open>serde_json\<close> gives back: no
  float in it, and at most 124 levels of nesting (the parser stops at 128, and the file wraps a payload in
  a list, an operation and its kind).
\<close>

theorem file_queue_durable:
  assumes "file_ok q" and "kind_ok (op_kind op)" and "\<not> fq_disabled q"
  shows "(fst (file_enqueue op q) = Inr () \<longrightarrow>
            file_queue_ops (snd (file_enqueue op q)\<lparr>fq_cache := []\<rparr>) = file_queue_ops (snd (file_enqueue op q)))
       \<and> (fst (file_finalize snap failed q) = Inr () \<longrightarrow>
            file_queue_ops (snd (file_finalize snap failed q)\<lparr>fq_cache := []\<rparr>)
              = file_queue_ops (snd (file_finalize snap failed q)))"
proof -
  have durable: "file_queue_ops (snd (flush_locked q')\<lparr>fq_cache := []\<rparr>) = file_queue_ops (snd (flush_locked q'))"
    if "file_ok q'" "\<not> fq_disabled q'" "fst (flush_locked q') = Inr ()" for q'
    using flush_inv [OF that(1)] that(2,3) by (auto simp: file_queue_ops_def)
  show ?thesis
    using assms(1)
  proof (cases rule: load_into_cache_cases)
    case (err e q')
    then show ?thesis by (simp add: file_enqueue_def file_finalize_def)
  next
    case (ok q')
    have ops: "ops_ok (file_queue_ops q)" by (rule file_queue_ops_ok [OF assms(1)])
    show ?thesis
      using ok assms(3)
      by (auto simp: file_enqueue_def file_finalize_def Let_def same_key_iff
          intro!: durable file_ok_cache replace_ops_ok [OF ops assms(2)] filter_ops_ok [OF ops])
  qed
qed

theorem file_queue_durable_witness:
  "file_queue_ops (snd (file_enqueue (sample_op ''m'' ''1'' 7) file_fresh)\<lparr>fq_cache := []\<rparr>)
   = [sample_op ''m'' ''1'' 7]"
proof -
  let ?op = "sample_op ''m'' ''1'' 7"
  have k: "kind_ok (op_kind ?op)" by (simp add: sample_op_def kind_ok_def)
  have d: "\<not> fq_disabled file_fresh" by (simp add: file_fresh_def)
  have r: "fst (file_enqueue ?op file_fresh) = Inr ()" "fq_cache (snd (file_enqueue ?op file_fresh)) = [?op]"
    by (simp_all add: file_enqueue_def load_into_cache_def file_fresh_def flush_locked_def take_io_def
        write_file_def)
  then show ?thesis
    using file_queue_durable [OF file_fresh_ok k d, of "[]" "[]"] by (simp add: file_queue_ops_def)
qed

text \<open>
  C20: a write of the file that is cut short loses the queue. The file is overwritten in place, so a
  process that dies while it writes can leave bytes that do not decode. After the restart nothing that was
  pending is found, and no call repairs it: every enqueue, snapshot, finalisation and depth
  returns the decoding error and leaves the file as it is.
\<close>

theorem torn_write_wedges:
  assumes enabled: "\<not> fq_disabled q" and pending: "fq_cache q \<noteq> []"
    and crash: "fq_faults q = (if fq_has_parent q then [None] else []) @ [Some (msg, Some torn)]"
    and undecodable: "torn \<noteq> []" "decode_file (fq_codec q) torn = Inl e"
  shows "\<exists>q'. file_enqueue op q = (Inl (Queue_Io msg), q') \<and>
    (let restarted = q'\<lparr>fq_cache := []\<rparr>
     in file_queue_ops restarted = [] \<and> file_enqueue op' restarted = (Inl e, restarted)
        \<and> file_snapshot restarted = (Inl e, restarted) \<and> file_finalize snap failed restarted = (Inl e, restarted)
        \<and> file_depth restarted = (Inl e, restarted))"
proof -
  let ?ops = "filter (\<lambda>existing. \<not> (op_table existing = op_table op \<and> op_entity_id existing = op_entity_id op)) (fq_cache q) @ [op]"
  let ?q' = "q\<lparr>fq_cache := ?ops, fq_faults := [], fq_file := Some torn\<rparr>" and ?r = "q\<lparr>fq_cache := [], fq_faults := [], fq_file := Some torn\<rparr>"
  have enq: "file_enqueue op q = (Inl (Queue_Io msg), ?q')"
    using enabled pending crash by (simp add: file_enqueue_def load_into_cache_def flush_locked_def write_file_def take_io_def)
  have load: "load_into_cache ?r = (Inl e, ?r)"
    using enabled undecodable by (simp add: load_into_cache_def take_io_def)
  have "file_queue_ops ?r = []" using enabled undecodable by (simp add: file_queue_ops_def file_ops_def)
  moreover have "file_enqueue op' ?r = (Inl e, ?r)" "file_snapshot ?r = (Inl e, ?r)" "file_finalize snap failed ?r = (Inl e, ?r)"
    "file_depth ?r = (Inl e, ?r)"
    using load by (simp_all add: file_enqueue_def file_snapshot_def file_finalize_def file_depth_def)
  moreover have same: "?q'\<lparr>fq_cache := []\<rparr> = ?r" by simp
  ultimately show ?thesis unfolding Let_def by (intro exI [of _ ?q'] conjI enq) (simp_all only: same)
qed

theorem torn_write_wedges_witness:
  "\<exists>e q'. file_enqueue (sample_op ''m'' ''2'' 9)
      (file_fresh\<lparr>fq_cache := [sample_op ''m'' ''1'' 7], fq_faults := [None, Some (''power'', Some ''[{'')]\<rparr>)
      = (Inl (Queue_Io ''power''), q')
    \<and> file_queue_ops (q'\<lparr>fq_cache := []\<rparr>) = [] \<and> fst (file_snapshot (q'\<lparr>fq_cache := []\<rparr>)) = Inl e"
proof -
  let ?q = "file_fresh\<lparr>fq_cache := [sample_op ''m'' ''1'' 7], fq_faults := [None, Some (''power'', Some ''[{'')]\<rparr>"
  have "isl (decode_file ref_codec ''[{'')" by code_simp
  then obtain e where e: "decode_file (fq_codec ?q) ''[{'' = Inl e" by (auto simp: isl_def file_fresh_def)
  have "\<not> fq_disabled ?q" "fq_cache ?q \<noteq> []"
    "fq_faults ?q = (if fq_has_parent ?q then [None] else []) @ [Some (''power'', Some ''[{'')]" "''[{'' \<noteq> []"
    by (simp_all add: file_fresh_def)
  from torn_write_wedges [OF this e, of "sample_op ''m'' ''2'' 9" "sample_op ''m'' ''2'' 9" "[]" "[]"]
  show ?thesis by (auto simp: Let_def)
qed

end
