(* ===== verification/Encryption.thy ===== *)
theory Encryption
  imports Errors
begin

text \<open>
  \<open>crates/polybase/src/encryption.rs\<close>: the wire format of encrypted columns and blobs.
  AES-GCM, HKDF, SHA-256, base64 and the UUID functions are the \<open>crypto\<close> record; what the
  code relies on is \<open>crypto_ok\<close>: opening what was sealed under the same key and nonce gives
  the plaintext back, and decoding inverts encoding. The nonce is an argument of the operations
  that draw one. Binary data are \<open>8 word\<close> lists, strings their UTF-8 bytes.
\<close>

type_synonym bytes = "8 word list"
type_synonym uuid = "128 word"

definition as_bytes :: "string \<Rightarrow> bytes" where
  "as_bytes s = map (\<lambda>c. word_of_nat (of_char c)) s"

definition of_bytes :: "bytes \<Rightarrow> string" where
  "of_bytes bs = map (\<lambda>b. char_of (unat b)) bs"

lemma of_bytes_as_bytes [simp]: "of_bytes (as_bytes s) = s"
proof -
  have "char_of (unat (word_of_nat (of_char c) :: 8 word)) = c" for c
  proof -
    have "(of_char c :: nat) < 256" by simp
    then have "unat (word_of_nat (of_char c) :: 8 word) = of_char c"
      by (simp add: unat_of_nat)
    then show ?thesis by simp
  qed
  then show ?thesis by (simp add: of_bytes_def as_bytes_def map_idI)
qed

lemma as_bytes_Nil_iff [simp]: "as_bytes s = [] \<longleftrightarrow> s = []"
  by (simp add: as_bytes_def)

text \<open>Well-formed UTF-8, the check of \<open>String::from_utf8\<close>.\<close>

definition utf8_cont :: "8 word \<Rightarrow> bool" where
  "utf8_cont b \<longleftrightarrow> 0x80 \<le> b \<and> b \<le> 0xBF"

fun valid_utf8 :: "bytes \<Rightarrow> bool" where
  "valid_utf8 [] = True"
| "valid_utf8 (a # bs) =
     (if a \<le> 0x7F then valid_utf8 bs
      else if 0xC2 \<le> a \<and> a \<le> 0xDF then
        (case bs of b # r \<Rightarrow> utf8_cont b \<and> valid_utf8 r | _ \<Rightarrow> False)
      else if 0xE0 \<le> a \<and> a \<le> 0xEF then
        (case bs of
           b # c # r \<Rightarrow> utf8_cont b \<and> utf8_cont c \<and> (a = 0xE0 \<longrightarrow> 0xA0 \<le> b) \<and> (a = 0xED \<longrightarrow> b \<le> 0x9F)
             \<and> valid_utf8 r
         | _ \<Rightarrow> False)
      else if 0xF0 \<le> a \<and> a \<le> 0xF4 then
        (case bs of
           b # c # d # r \<Rightarrow> utf8_cont b \<and> utf8_cont c \<and> utf8_cont d \<and> (a = 0xF0 \<longrightarrow> 0x90 \<le> b)
             \<and> (a = 0xF4 \<longrightarrow> b \<le> 0x8F) \<and> valid_utf8 r
         | _ \<Rightarrow> False)
      else False)"

text \<open>A Rust string.\<close>

definition str_ok :: "string \<Rightarrow> bool" where
  "str_ok s \<longleftrightarrow> valid_utf8 (as_bytes s)"

section \<open>The primitives\<close>

record crypto =
  sha256 :: "bytes \<Rightarrow> bytes"
  hkdf_sha256 :: "bytes \<Rightarrow> bytes \<Rightarrow> bytes \<Rightarrow> string + bytes"
  aes_seal :: "bytes \<Rightarrow> bytes \<Rightarrow> bytes \<Rightarrow> string + bytes"
  aes_open :: "bytes \<Rightarrow> bytes \<Rightarrow> bytes \<Rightarrow> string + bytes"
  b64_encode :: "bytes \<Rightarrow> string"
  b64_decode :: "string \<Rightarrow> string + bytes"
  uuid_parse :: "string \<Rightarrow> uuid option"
  uuid_v5_url :: "bytes \<Rightarrow> uuid"
  uuid_to_string :: "uuid \<Rightarrow> string"

definition crypto_ok :: "crypto \<Rightarrow> bool" where
  "crypto_ok c \<longleftrightarrow>
     (\<forall>key nonce m ct. aes_seal c key nonce m = Inr ct \<longrightarrow> aes_open c key nonce ct = Inr m)
   \<and> (\<forall>bs. b64_decode c (b64_encode c bs) = Inr bs)"

section \<open>The encryptor\<close>

record Encryption =
  app_secret :: bytes
  secret_fingerprint :: string

definition hex_digit :: "8 word \<Rightarrow> char" where
  "hex_digit n = ''0123456789abcdef'' ! (unat n mod 16)"

text \<open>\<open>format!("{b:02x}")\<close>.\<close>

definition hex2 :: "8 word \<Rightarrow> string" where
  "hex2 b = [hex_digit (b div 16), hex_digit (b mod 16)]"

definition make_secret_fingerprint :: "crypto \<Rightarrow> bytes \<Rightarrow> string" where
  "make_secret_fingerprint c secret_data = take 12 (concat (map hex2 (sha256 c secret_data)))"

definition encryption_new :: "crypto \<Rightarrow> string \<Rightarrow> EncryptionError + Encryption" where
  "encryption_new c secret =
     (if secret = [] then Inl EmptySecret
      else Inr \<lparr>app_secret = as_bytes secret,
                secret_fingerprint = make_secret_fingerprint c (as_bytes secret)\<rparr>)"

definition is_encrypted :: "string \<Rightarrow> bool" where
  "is_encrypted txt = starts_with txt STRING_ENCRYPTION_PREFIX"

definition is_data_encrypted :: "bytes \<Rightarrow> bool" where
  "is_data_encrypted data \<longleftrightarrow> take 4 data = BINARY_ENCRYPTION_HEADER"

definition key_user_uuid :: "crypto \<Rightarrow> string \<Rightarrow> uuid" where
  "key_user_uuid c user_id =
     (case uuid_parse c user_id of
        Some u \<Rightarrow> u
      | None \<Rightarrow> uuid_v5_url c (as_bytes (''polybase:'' @ user_id)))"

definition derive_key :: "crypto \<Rightarrow> Encryption \<Rightarrow> uuid \<Rightarrow> EncryptionError + bytes" where
  "derive_key c e user_id =
     map_err (\<lambda>m. OperationFailed (''hkdf expand: '' @ m))
       (hkdf_sha256 c (as_bytes (to_ascii_uppercase (uuid_to_string c user_id))) (app_secret e)
          (as_bytes HKDF_INFO))"

definition encrypt :: "crypto \<Rightarrow> Encryption \<Rightarrow> bytes \<Rightarrow> string \<Rightarrow> uuid \<Rightarrow> EncryptionError + string" where
  "encrypt c e nonce plaintext user_id =
     (if plaintext = [] then Inr plaintext
      else
        (case derive_key c e user_id of
           Inl err \<Rightarrow> Inl err
         | Inr key \<Rightarrow>
             (case aes_seal c key nonce (as_bytes plaintext) of
                Inl m \<Rightarrow> Inl (OperationFailed (''encrypt: '' @ m))
              | Inr ciphertext \<Rightarrow>
                  Inr (STRING_ENCRYPTION_PREFIX @ b64_encode c (nonce @ ciphertext)))))"

definition decrypt :: "crypto \<Rightarrow> Encryption \<Rightarrow> string \<Rightarrow> uuid \<Rightarrow> EncryptionError + string" where
  "decrypt c e ciphertext user_id =
     (if \<not> is_encrypted ciphertext then Inr ciphertext
      else
        (case derive_key c e user_id of
           Inl err \<Rightarrow> Inl err
         | Inr key \<Rightarrow>
             (case b64_decode c (drop (length STRING_ENCRYPTION_PREFIX) ciphertext) of
                Inl m \<Rightarrow> Inl (OperationFailed (''base64: '' @ m))
              | Inr combined \<Rightarrow>
                  (if length combined < 12 then Inl (OperationFailed ''ciphertext too short'')
                   else
                     (case aes_open c key (take 12 combined) (drop 12 combined) of
                        Inl m \<Rightarrow> Inl (OperationFailed (''decrypt: '' @ m))
                      | Inr decrypted \<Rightarrow>
                          (if valid_utf8 decrypted then Inr (of_bytes decrypted)
                           else Inl (OperationFailed ''utf8: invalid utf-8 sequence'')))))))"

definition decrypt_with_healing ::
  "crypto \<Rightarrow> Encryption \<Rightarrow> string \<Rightarrow> uuid \<Rightarrow> EncryptionError + string \<times> bool" where
  "decrypt_with_healing c e ciphertext user_id =
     (let was_encrypted = is_encrypted ciphertext
      in case decrypt c e ciphertext user_id of
           Inl err \<Rightarrow> Inl err
         | Inr decrypted \<Rightarrow> Inr (decrypted, was_encrypted))"

definition decrypt_optional_with_healing ::
  "crypto \<Rightarrow> Encryption \<Rightarrow> string option \<Rightarrow> uuid \<Rightarrow> EncryptionError + (string \<times> bool) option" where
  "decrypt_optional_with_healing c e ciphertext user_id =
     (case ciphertext of
        Some txt \<Rightarrow>
          (case decrypt_with_healing c e txt user_id of
             Inl err \<Rightarrow> Inl err
           | Inr r \<Rightarrow> Inr (Some r))
      | None \<Rightarrow> Inr None)"

definition encrypt_data :: "crypto \<Rightarrow> Encryption \<Rightarrow> bytes \<Rightarrow> bytes \<Rightarrow> uuid \<Rightarrow> EncryptionError + bytes" where
  "encrypt_data c e nonce data user_id =
     (if data = [] then Inr data
      else
        (case derive_key c e user_id of
           Inl err \<Rightarrow> Inl err
         | Inr key \<Rightarrow>
             (case aes_seal c key nonce data of
                Inl m \<Rightarrow> Inl (OperationFailed (''encrypt_data: '' @ m))
              | Inr ciphertext \<Rightarrow> Inr (BINARY_ENCRYPTION_HEADER @ nonce @ ciphertext))))"

definition decrypt_data :: "crypto \<Rightarrow> Encryption \<Rightarrow> bytes \<Rightarrow> uuid \<Rightarrow> EncryptionError + bytes" where
  "decrypt_data c e data user_id =
     (if \<not> is_data_encrypted data then Inr data
      else
        (case derive_key c e user_id of
           Inl err \<Rightarrow> Inl err
         | Inr key \<Rightarrow>
             (let combined = drop (length BINARY_ENCRYPTION_HEADER) data
              in if length combined < 12 then Inl (OperationFailed ''encrypted data too short'')
                 else map_err (\<lambda>m. OperationFailed (''decrypt_data: '' @ m))
                        (aes_open c key (take 12 combined) (drop 12 combined)))))"

section \<open>Round trips\<close>

lemma is_encrypted_prefix [simp]: "is_encrypted (STRING_ENCRYPTION_PREFIX @ s)"
  by (simp add: is_encrypted_def starts_with_def STRING_ENCRYPTION_PREFIX_def)

lemma is_encrypted_Nil [simp]: "\<not> is_encrypted []"
  by (simp add: is_encrypted_def starts_with_def STRING_ENCRYPTION_PREFIX_def)

lemma encrypt_is_encrypted: "encrypt c e nonce p u = Inr ct \<Longrightarrow> is_encrypted ct \<longleftrightarrow> p \<noteq> []"
  by (auto simp: encrypt_def split: if_splits sum.splits)

lemma decrypt_encrypt:
  assumes "crypto_ok c" and "str_ok p" and "length nonce = 12"
    and "encrypt c e nonce p u = Inr ct"
  shows "decrypt c e ct u = Inr p"
proof (cases "p = []")
  case True
  then show ?thesis using assms(4) by (simp add: encrypt_def decrypt_def)
next
  case False
  then obtain key ct' where k: "derive_key c e u = Inr key" "aes_seal c key nonce (as_bytes p) = Inr ct'"
    "ct = STRING_ENCRYPTION_PREFIX @ b64_encode c (nonce @ ct')"
    using assms(4) by (auto simp: encrypt_def split: sum.splits)
  then show ?thesis
    using assms(1-3) by (simp add: decrypt_def crypto_ok_def str_ok_def)
qed

lemma decrypt_data_encrypt_data:
  assumes "crypto_ok c" and "length nonce = 12" and "encrypt_data c e nonce d u = Inr ct"
  shows "decrypt_data c e ct u = Inr d"
proof (cases "d = []")
  case True
  then show ?thesis using assms(3)
    by (simp add: encrypt_data_def decrypt_data_def is_data_encrypted_def BINARY_ENCRYPTION_HEADER_def)
next
  case False
  then obtain key ct' where k: "derive_key c e u = Inr key" "aes_seal c key nonce d = Inr ct'"
    "ct = BINARY_ENCRYPTION_HEADER @ nonce @ ct'"
    using assms(3) by (auto simp: encrypt_data_def split: sum.splits)
  then show ?thesis
    using assms(1,2)
    by (simp add: decrypt_data_def crypto_ok_def is_data_encrypted_def BINARY_ENCRYPTION_HEADER_def)
qed

section \<open>A toy instance\<close>

text \<open>A cipher that appends the key, for the witnesses: it satisfies the laws.\<close>

definition toy_crypto :: crypto where
  "toy_crypto = \<lparr>sha256 = (\<lambda>_. replicate 32 0xAB),
     hkdf_sha256 = (\<lambda>salt ikm info. Inr (take 32 (salt @ ikm @ info))),
     aes_seal = (\<lambda>key nonce m. Inr (m @ key)),
     aes_open = (\<lambda>key nonce ct.
        (if length key \<le> length ct \<and> drop (length ct - length key) ct = key
         then Inr (take (length ct - length key) ct) else Inl ''aead::Error'')),
     b64_encode = of_bytes, b64_decode = (\<lambda>s. Inr (as_bytes s)),
     uuid_parse = (\<lambda>_. None), uuid_v5_url = (\<lambda>bs. of_nat (length bs)),
     uuid_to_string = (\<lambda>u. ''id-'' @ dec (unat u))\<rparr>"

lemma as_bytes_of_bytes [simp]: "as_bytes (of_bytes bs) = bs"
proof -
  have "word_of_nat (of_char (char_of (unat b) :: char)) = b" for b :: "8 word"
  proof -
    have "unat b < 256" using unsigned_less [of b] by simp
    then show ?thesis by (simp add: of_char_of)
  qed
  then show ?thesis by (simp add: of_bytes_def as_bytes_def map_idI)
qed

lemma toy_crypto_ok [simp]: "crypto_ok toy_crypto"
  by (simp add: crypto_ok_def toy_crypto_def)

section \<open>Properties\<close>

text \<open>
  What \<open>encrypt\<close> wrote for a user reads back for that user: the plaintext returns, and
  the healing flag says it was ciphertext exactly when there was anything to encrypt. A value
  without the prefix, such as a legacy plaintext row, passes through and is flagged for healing.
\<close>

theorem encrypt_roundtrip:
  assumes "crypto_ok c" and "str_ok p" and "length nonce = 12"
    and "encrypt c e nonce p u = Inr ct" and "\<not> is_encrypted legacy"
  shows "decrypt_with_healing c e ct u = Inr (p, p \<noteq> [])
       \<and> decrypt_with_healing c e legacy u = Inr (legacy, False)"
  using decrypt_encrypt [OF assms(1-4)] encrypt_is_encrypted [OF assms(4)] assms(5)
  by (simp add: decrypt_with_healing_def Let_def) (simp add: decrypt_def)

definition toy_encryption :: Encryption where
  "toy_encryption = \<lparr>app_secret = as_bytes ''secret'', secret_fingerprint = []\<rparr>"

theorem encrypt_roundtrip_witness:
  "\<exists>ct. encrypt toy_crypto toy_encryption (replicate 12 7) ''hello'' 5 = Inr ct
      \<and> decrypt_with_healing toy_crypto toy_encryption ct 5 = Inr (''hello'', True)"
proof -
  obtain ct where ct: "encrypt toy_crypto toy_encryption (replicate 12 7) ''hello'' 5 = Inr ct"
    by (simp add: encrypt_def derive_key_def toy_crypto_def)
  have "str_ok ''hello''" by (simp add: str_ok_def as_bytes_def)
  moreover have "\<not> is_encrypted ''old''"
    by (simp add: is_encrypted_def starts_with_def STRING_ENCRYPTION_PREFIX_def)
  ultimately show ?thesis using encrypt_roundtrip [OF toy_crypto_ok _ _ ct, of "''old''"] ct by auto
qed

text \<open>
  Binary blobs: what \<open>encrypt_data\<close> wrote reads back, every non-empty ciphertext starts
  with the magic header followed by its nonce, and a header on fewer than 12 further bytes is an
  error instead of a slice out of range.
\<close>

theorem encrypt_data_roundtrip:
  assumes "crypto_ok c" and "length nonce = 12" and "encrypt_data c e nonce d u = Inr ct"
    and "derive_key c e u = Inr key" and "length short < 12"
  shows "decrypt_data c e ct u = Inr d
       \<and> (d = [] \<or> take 16 ct = BINARY_ENCRYPTION_HEADER @ nonce)
       \<and> decrypt_data c e (BINARY_ENCRYPTION_HEADER @ short) u
           = Inl (OperationFailed ''encrypted data too short'')"
  using decrypt_data_encrypt_data [OF assms(1-3)] assms(2-5)
  by (auto simp: encrypt_data_def decrypt_data_def is_data_encrypted_def BINARY_ENCRYPTION_HEADER_def
      split: if_splits sum.splits)

theorem encrypt_data_roundtrip_witness:
  "\<exists>ct. encrypt_data toy_crypto toy_encryption (replicate 12 9) [0, 1, 2] 5 = Inr ct
      \<and> decrypt_data toy_crypto toy_encryption ct 5 = Inr [0, 1, 2]"
proof -
  obtain ct where ct: "encrypt_data toy_crypto toy_encryption (replicate 12 9) [0, 1, 2] 5 = Inr ct"
    by (simp add: encrypt_data_def derive_key_def toy_crypto_def)
  obtain key where key: "derive_key toy_crypto toy_encryption 5 = Inr key"
    by (simp add: derive_key_def toy_crypto_def)
  show ?thesis using encrypt_data_roundtrip [OF toy_crypto_ok _ ct key, of "[1]"] ct by simp
qed

end
