(* ===== verification/Registry.thy ===== *)
theory Registry
  imports Encryption Json
begin

text \<open>
  \<open>crates/polybase/src/registry/mod.rs\<close> and \<open>schema.rs\<close>: the entity
  configurations with their builder, the mapping of records between local and remote column
  names, the preparation of outgoing payloads, the registry's tables and the schema checks. The
  current time is an argument (\<open>clock\<close>), and so are the nonces encryption draws, one per
  column name. The table map of the registry is an association list, whose order stands for the
  iteration order of the \<open>HashMap\<close>.
\<close>

section \<open>Configurations\<close>

datatype TableScope = Synced | LocalOnly

datatype WritePath = PostgREST | Edge string string

record ColumnDef =
  canonical_name :: string
  local_name :: string
  remote_name :: "string option"
  sql_type :: string
  remote_type :: "string option"
  encrypted :: bool

definition column_synced ::
  "string \<Rightarrow> string \<Rightarrow> string \<Rightarrow> string \<Rightarrow> string \<Rightarrow> bool \<Rightarrow> ColumnDef" where
  "column_synced canonical loc rem sql rtype enc =
     \<lparr>canonical_name = canonical, local_name = loc, remote_name = Some rem, sql_type = sql,
      remote_type = Some rtype, encrypted = enc\<rparr>"

definition column_local_only :: "string \<Rightarrow> string \<Rightarrow> ColumnDef" where
  "column_local_only name sql =
     \<lparr>canonical_name = name, local_name = name, remote_name = None, sql_type = sql,
      remote_type = None, encrypted = False\<rparr>"

definition effective_remote_name :: "ColumnDef \<Rightarrow> string" where
  "effective_remote_name c = unwrap_or (canonical_name c) (remote_name c)"

record ParentRelation =
  parent_table :: string
  parent_id_column :: string

record EntityConfig =
  table_name :: string
  entity_type_name :: "string option"
  columns :: "ColumnDef list"
  parent_relation :: "ParentRelation option"
  user_id_column :: "string option"
  include_user_id :: bool
  factory :: "(obj \<Rightarrow> RegistryError + json) option"
  scope :: TableScope
  write_path :: WritePath
  conflict_target :: string

definition entity_synced :: "string \<Rightarrow> string \<Rightarrow> EntityConfig" where
  "entity_synced table entity_type =
     \<lparr>table_name = table, entity_type_name = Some entity_type, columns = [], parent_relation = None,
      user_id_column = Some ''user_id'', include_user_id = True, factory = None, scope = Synced,
      write_path = PostgREST, conflict_target = ''id''\<rparr>"

definition entity_local_only :: "string \<Rightarrow> EntityConfig" where
  "entity_local_only table =
     \<lparr>table_name = table, entity_type_name = None, columns = [], parent_relation = None,
      user_id_column = None, include_user_id = False, factory = None, scope = LocalOnly,
      write_path = PostgREST, conflict_target = ''id''\<rparr>"

definition with_column :: "ColumnDef \<Rightarrow> EntityConfig \<Rightarrow> EntityConfig" where
  "with_column c cfg = cfg\<lparr>columns := columns cfg @ [c]\<rparr>"

definition with_columns :: "ColumnDef list \<Rightarrow> EntityConfig \<Rightarrow> EntityConfig" where
  "with_columns cs cfg = cfg\<lparr>columns := columns cfg @ cs\<rparr>"

definition with_parent :: "ParentRelation \<Rightarrow> EntityConfig \<Rightarrow> EntityConfig" where
  "with_parent p cfg = cfg\<lparr>parent_relation := Some p\<rparr>"

definition with_factory :: "(obj \<Rightarrow> RegistryError + json) \<Rightarrow> EntityConfig \<Rightarrow> EntityConfig" where
  "with_factory f cfg = cfg\<lparr>factory := Some f\<rparr>"

definition with_user_id_column :: "string \<Rightarrow> EntityConfig \<Rightarrow> EntityConfig" where
  "with_user_id_column c cfg = cfg\<lparr>user_id_column := Some c\<rparr>"

definition with_include_user_id :: "bool \<Rightarrow> EntityConfig \<Rightarrow> EntityConfig" where
  "with_include_user_id b cfg = cfg\<lparr>include_user_id := b\<rparr>"

definition write_via_edge :: "string \<Rightarrow> string \<Rightarrow> EntityConfig \<Rightarrow> EntityConfig" where
  "write_via_edge function default_op cfg = cfg\<lparr>write_path := Edge function default_op\<rparr>"

definition with_conflict_target :: "string \<Rightarrow> EntityConfig \<Rightarrow> EntityConfig" where
  "with_conflict_target target cfg = cfg\<lparr>conflict_target := target\<rparr>"

definition column_names :: "EntityConfig \<Rightarrow> string list" where
  "column_names cfg = map canonical_name (columns cfg)"

definition local_column_names :: "EntityConfig \<Rightarrow> string list" where
  "local_column_names cfg = map local_name (columns cfg)"

text \<open>The column that receives the user id, when payloads include it.\<close>

definition injected_user_id_column :: "EntityConfig \<Rightarrow> string option" where
  "injected_user_id_column cfg = (if include_user_id cfg then user_id_column cfg else None)"

definition remote_column_names :: "EntityConfig \<Rightarrow> string list" where
  "remote_column_names cfg =
     List.map_filter remote_name (columns cfg)
     @ (case injected_user_id_column cfg of None \<Rightarrow> [] | Some c \<Rightarrow> [c])"

definition encrypted_columns :: "EntityConfig \<Rightarrow> string list" where
  "encrypted_columns cfg = map canonical_name (filter encrypted (columns cfg))"

definition is_synced :: "EntityConfig \<Rightarrow> bool" where
  "is_synced cfg \<longleftrightarrow> scope cfg = Synced"

record clock =
  now_rfc3339 :: string
  now_millis :: i64

definition tombstone_updated_at_value :: "clock \<Rightarrow> EntityConfig \<Rightarrow> json" where
  "tombstone_updated_at_value clk cfg =
     (case find (\<lambda>c. canonical_name c = ''updated_at'') (columns cfg) of
        None \<Rightarrow> JString (now_rfc3339 clk)
      | Some column \<Rightarrow>
          (if to_ascii_uppercase (sql_type column) \<in> {''INTEGER'', ''BIGINT'', ''INT'', ''INT64''}
           then json_of_i64 (now_millis clk)
           else JString (now_rfc3339 clk)))"

section \<open>Records\<close>

fun map_remote_cols :: "ColumnDef list \<Rightarrow> obj \<Rightarrow> obj \<Rightarrow> obj" where
  "map_remote_cols [] remote loc = loc"
| "map_remote_cols (c # cs) remote loc =
     (case remote_name c of
        None \<Rightarrow> map_remote_cols cs remote loc
      | Some rn \<Rightarrow>
          (case obj_get remote rn of
             None \<Rightarrow> map_remote_cols cs remote loc
           | Some v \<Rightarrow> map_remote_cols cs remote (obj_insert (local_name c) v loc)))"

definition map_remote_to_local :: "EntityConfig \<Rightarrow> obj \<Rightarrow> obj" where
  "map_remote_to_local cfg remote = map_remote_cols (columns cfg) remote []"

fun map_local_cols :: "ColumnDef list \<Rightarrow> obj \<Rightarrow> obj \<Rightarrow> obj" where
  "map_local_cols [] loc remote = remote"
| "map_local_cols (c # cs) loc remote =
     (case remote_name c of
        None \<Rightarrow> map_local_cols cs loc remote
      | Some rn \<Rightarrow>
          (case obj_get loc (local_name c) of
             None \<Rightarrow> map_local_cols cs loc remote
           | Some v \<Rightarrow> map_local_cols cs loc (obj_insert rn v remote)))"

definition map_local_to_remote :: "EntityConfig \<Rightarrow> obj \<Rightarrow> obj" where
  "map_local_to_remote cfg loc = map_local_cols (columns cfg) loc []"

definition has_factory :: "EntityConfig \<Rightarrow> bool" where
  "has_factory cfg \<longleftrightarrow> factory cfg \<noteq> None"

definition create_entity :: "EntityConfig \<Rightarrow> obj \<Rightarrow> RegistryError + json" where
  "create_entity cfg rec =
     (case factory cfg of
        None \<Rightarrow> Inl (FactoryFailed (table_name cfg) ''no factory registered'')
      | Some f \<Rightarrow> f rec)"

section \<open>Outgoing payloads\<close>

text \<open>What encryption needs: the primitives and the nonce drawn for a column.\<close>

record cipher_env =
  ce_crypto :: crypto
  ce_nonce :: "string \<Rightarrow> bytes"

fun encrypt_cols ::
  "cipher_env \<Rightarrow> Encryption \<Rightarrow> uuid \<Rightarrow> string \<Rightarrow> ColumnDef list \<Rightarrow> obj \<Rightarrow> RegistryError + obj" where
  "encrypt_cols env enc u table [] m = Inr m"
| "encrypt_cols env enc u table (col # cols) m =
     (if \<not> encrypted col then encrypt_cols env enc u table cols m
      else
        (let key = effective_remote_name col
         in case obj_get m key of
              Some (JString current_value) \<Rightarrow>
                (if is_encrypted current_value then encrypt_cols env enc u table cols m
                 else
                   (case encrypt (ce_crypto env) enc (ce_nonce env key) current_value u of
                      Inl _ \<Rightarrow> Inl (EncryptionFailed table (canonical_name col))
                    | Inr ct \<Rightarrow> encrypt_cols env enc u table cols (obj_insert key (JString ct) m)))
            | _ \<Rightarrow> encrypt_cols env enc u table cols m))"

definition serialize_for_remote ::
  "cipher_env \<Rightarrow> Encryption option \<Rightarrow> string \<Rightarrow> EntityConfig \<Rightarrow> obj \<Rightarrow> RegistryError + obj" where
  "serialize_for_remote env encryption user_id cfg payload =
     (case (case encryption of
              None \<Rightarrow> Inr payload
            | Some enc \<Rightarrow>
                encrypt_cols env enc (key_user_uuid (ce_crypto env) user_id) (table_name cfg)
                  (columns cfg) payload) of
        Inl e \<Rightarrow> Inl e
      | Inr serialized \<Rightarrow>
          Inr (case injected_user_id_column cfg of
                 None \<Rightarrow> serialized
               | Some c \<Rightarrow> obj_insert c (JString user_id) serialized))"

section \<open>The registry\<close>

record Registry =
  by_type :: "string \<rightharpoonup> EntityConfig"
  by_table :: "(string \<times> EntityConfig) list"
  table_to_type :: "string \<rightharpoonup> string"

definition registry_new :: Registry where
  "registry_new = \<lparr>by_type = Map.empty, by_table = [], table_to_type = Map.empty\<rparr>"

text \<open>\<open>None\<close> is the panic of \<open>expect\<close> on a synced entity without a type name.\<close>

definition register :: "EntityConfig \<Rightarrow> Registry \<Rightarrow> Registry option" where
  "register config r =
     (let table = table_name config
      in if is_synced config then
           (case entity_type_name config of
              None \<Rightarrow> None
            | Some entity_type \<Rightarrow>
                Some (r\<lparr>table_to_type := (table_to_type r)(table \<mapsto> entity_type),
                        by_type := (by_type r)(entity_type \<mapsto> config),
                        by_table := AList.update table config (by_table r)\<rparr>))
         else Some (r\<lparr>by_table := AList.update table config (by_table r)\<rparr>))"

definition config_for_type :: "Registry \<Rightarrow> string \<Rightarrow> EntityConfig option" where
  "config_for_type r entity_type = by_type r entity_type"

definition config_for_table :: "Registry \<Rightarrow> string \<Rightarrow> EntityConfig option" where
  "config_for_table r table = map_of (by_table r) table"

definition is_registered_type :: "Registry \<Rightarrow> string \<Rightarrow> bool" where
  "is_registered_type r entity_type \<longleftrightarrow> by_type r entity_type \<noteq> None"

definition is_registered_table :: "Registry \<Rightarrow> string \<Rightarrow> bool" where
  "is_registered_table r table \<longleftrightarrow> table_to_type r table \<noteq> None"

text \<open>The lists of names, in the unspecified order of a hash map.\<close>

definition registered_tables :: "Registry \<Rightarrow> string set" where
  "registered_tables r = dom (table_to_type r)"

definition registered_types :: "Registry \<Rightarrow> string set" where
  "registered_types r = dom (by_type r)"

definition serialize_remote_payload ::
  "cipher_env \<Rightarrow> Registry \<Rightarrow> string \<Rightarrow> obj \<Rightarrow> Encryption option \<Rightarrow> string \<Rightarrow> RegistryError + obj" where
  "serialize_remote_payload env r table payload encryption user_id =
     (case config_for_table r table of
        None \<Rightarrow> Inl (TableNotRegistered table)
      | Some config \<Rightarrow> serialize_for_remote env encryption user_id config payload)"

section \<open>Schema snapshots\<close>

record ColumnShape =
  cs_name :: string
  cs_data_type :: string

type_synonym TableShape = "ColumnShape list"

definition column_map :: "TableShape \<Rightarrow> string \<rightharpoonup> string" where
  "column_map t = collect_map (map (\<lambda>c. (cs_name c, cs_data_type c)) t)"

type_synonym SchemaSnapshot = "string \<rightharpoonup> TableShape"

definition property_type :: "json \<Rightarrow> string" where
  "property_type property =
     unwrap_or ''unknown''
       (or_else (Option.bind (value_get property ''type'') as_str)
                (Option.bind (value_get property ''format'') as_str))"

definition from_openapi :: "json \<Rightarrow> RegistryError + SchemaSnapshot" where
  "from_openapi value =
     (case Option.bind (Option.bind (value_get value ''components'') (\<lambda>v. value_get v ''schemas'')) as_object of
        None \<Rightarrow> Inl (InvalidRemoteSchema ''missing components.schemas'')
      | Some schemas \<Rightarrow>
          Inr (collect_map (List.map_filter (\<lambda>(table, schema_value).
            (case Option.bind (value_get schema_value ''properties'') as_object of
               None \<Rightarrow> None
             | Some properties \<Rightarrow>
                 Some (table, map (\<lambda>(column, property).
                   \<lparr>cs_name = column, cs_data_type = property_type property\<rparr>) properties))) schemas)))"

definition normalize_type :: "string \<Rightarrow> string" where
  "normalize_type value =
     (let v = to_ascii_lowercase (trim value)
      in if v \<in> {''int'', ''integer'', ''int8'', ''bigint''} then ''integer''
         else if v \<in> {''real'', ''float'', ''double'', ''double precision''} then ''real''
         else if v \<in> {''bool'', ''boolean''} then ''boolean''
         else if v \<in> {''text'', ''varchar'', ''character varying'', ''string''} then ''string''
         else v)"

section \<open>Schema validation\<close>

datatype SchemaLocation = Local | Remote

definition remote_expected_columns :: "EntityConfig \<Rightarrow> (string \<times> string) list" where
  "remote_expected_columns config =
     List.map_filter (\<lambda>c. map_option (\<lambda>rn. (rn, unwrap_or ''unknown'' (remote_type c))) (remote_name c))
       (columns config)
     @ (case injected_user_id_column config of None \<Rightarrow> [] | Some c \<Rightarrow> [(c, ''string'')])"

definition expected_columns :: "SchemaLocation \<Rightarrow> EntityConfig \<Rightarrow> (string \<times> string) list" where
  "expected_columns location config =
     (case location of
        Local \<Rightarrow> map (\<lambda>c. (local_name c, sql_type c)) (columns config)
      | Remote \<Rightarrow> remote_expected_columns config)"

definition build_remote_snapshot_from_registry :: "Registry \<Rightarrow> SchemaSnapshot" where
  "build_remote_snapshot_from_registry r =
     collect_map (map (\<lambda>config. (table_name config,
         map (\<lambda>(n, t). \<lparr>cs_name = n, cs_data_type = t\<rparr>) (remote_expected_columns config)))
       (filter is_synced (map snd (by_table r))))"

definition column_issue ::
  "string \<Rightarrow> (string \<rightharpoonup> string) \<Rightarrow> string \<times> string \<Rightarrow> string list" where
  "column_issue table actual expected =
     (case expected of (column_name, expected_type) \<Rightarrow>
        (case actual column_name of
           None \<Rightarrow> [''table '' @ [CHR 0x27] @ table @ [CHR 0x27] @ '' missing column: '' @ column_name]
         | Some actual_type \<Rightarrow>
             (if normalize_type expected_type \<noteq> normalize_type actual_type then
                [''table '' @ [CHR 0x27] @ table @ [CHR 0x27] @ '' column '' @ [CHR 0x27] @ column_name
                 @ [CHR 0x27] @ '' type mismatch: expected '' @ expected_type @ '', found '' @ actual_type]
              else [])))"

definition config_issues :: "SchemaSnapshot \<Rightarrow> SchemaLocation \<Rightarrow> EntityConfig \<Rightarrow> string list" where
  "config_issues snapshot location config =
     (case snapshot (table_name config) of
        None \<Rightarrow> [''missing table: '' @ table_name config]
      | Some actual_table \<Rightarrow>
          concat (map (column_issue (table_name config) (column_map actual_table))
                    (expected_columns location config)))"

definition validate_schema :: "Registry \<Rightarrow> SchemaSnapshot \<Rightarrow> SchemaLocation \<Rightarrow> string list" where
  "validate_schema r snapshot location =
     concat (map (config_issues snapshot location)
       (filter (\<lambda>config. case location of Local \<Rightarrow> True | Remote \<Rightarrow> is_synced config)
          (map snd (by_table r))))"

definition validate_local_schema_snapshot :: "Registry \<Rightarrow> SchemaSnapshot \<Rightarrow> string list" where
  "validate_local_schema_snapshot r snapshot = validate_schema r snapshot Local"

definition validate_remote_schema_snapshot :: "Registry \<Rightarrow> SchemaSnapshot \<Rightarrow> string list" where
  "validate_remote_schema_snapshot r snapshot = validate_schema r snapshot Remote"

section \<open>Mapping records\<close>

text \<open>Both directions of the mapping copy fields from a source to a destination name.\<close>

fun project ::
  "(ColumnDef \<Rightarrow> (string \<times> string) option) \<Rightarrow> ColumnDef list \<Rightarrow> obj \<Rightarrow> obj \<Rightarrow> obj" where
  "project f [] src acc = acc"
| "project f (c # cs) src acc =
     (case Option.bind (f c) (\<lambda>(s, d). map_option (Pair d) (obj_get src s)) of
        None \<Rightarrow> project f cs src acc
      | Some (d, v) \<Rightarrow> project f cs src (obj_insert d v acc))"

definition remote_local :: "ColumnDef \<Rightarrow> (string \<times> string) option" where
  "remote_local c = map_option (\<lambda>rn. (rn, local_name c)) (remote_name c)"

definition local_remote :: "ColumnDef \<Rightarrow> (string \<times> string) option" where
  "local_remote c = map_option (\<lambda>rn. (local_name c, rn)) (remote_name c)"

lemma map_remote_cols_project: "map_remote_cols cs r acc = project remote_local cs r acc"
  by (induction cs arbitrary: acc) (auto simp: remote_local_def split: option.splits)

lemma map_local_cols_project: "map_local_cols cs l acc = project local_remote cs l acc"
  by (induction cs arbitrary: acc) (auto simp: local_remote_def split: option.splits)

lemma project_ok: "obj_ok acc \<Longrightarrow> obj_ok (project f cs src acc)"
  by (induction f cs src acc rule: project.induct) (auto split: option.splits)

lemma project_get_other:
  "d \<notin> snd ` set (List.map_filter f cs) \<Longrightarrow> obj_get (project f cs src acc) d = obj_get acc d"
proof (induction f cs src acc rule: project.induct)
  case (2 f c cs src acc)
  then show ?case by (cases "f c") (auto simp: List.map_filter_simps split: option.split)
qed simp

lemma project_get:
  assumes "distinct (map snd (List.map_filter f cs))" and "c \<in> set cs" and "f c = Some (s, d)"
  shows "obj_get (project f cs src acc) d =
     (case obj_get src s of None \<Rightarrow> obj_get acc d | Some v \<Rightarrow> Some v)"
  using assms
proof (induction cs arbitrary: acc)
  case Nil
  then show ?case by simp
next
  case (Cons c' cs)
  have dist: "distinct (map snd (List.map_filter f cs))"
    using Cons.prems(1) by (simp add: List.map_filter_simps split: option.splits)
  show ?case
  proof (cases "c = c'")
    case True
    then have "d \<notin> snd ` set (List.map_filter f cs)"
      using Cons.prems(1,3) by (auto simp: List.map_filter_simps)
    then show ?thesis using True Cons.prems(3) by (simp add: project_get_other split: option.split)
  next
    case False
    then have c: "c \<in> set cs" using Cons.prems(2) by simp
    have "d' \<noteq> d" if "f c' = Some (s', d')" for s' d'
    proof -
      have "d \<in> snd ` set (List.map_filter f cs)"
        using c Cons.prems(3) by (force simp: List.map_filter_def)
      then show ?thesis using Cons.prems(1) that by (auto simp: List.map_filter_simps)
    qed
    then show ?thesis using Cons.IH [OF dist c Cons.prems(3)]
      by (cases "f c'") (auto split: option.split)
  qed
qed

text \<open>The names a configuration can map without two columns meeting.\<close>

definition mapping_ok :: "EntityConfig \<Rightarrow> bool" where
  "mapping_ok cfg \<longleftrightarrow> distinct (map snd (List.map_filter remote_local (columns cfg)))
     \<and> distinct (map snd (List.map_filter local_remote (columns cfg)))"

definition remote_names :: "EntityConfig \<Rightarrow> string set" where
  "remote_names cfg = snd ` set (List.map_filter local_remote (columns cfg))"

lemma mapped_column:
  "rn \<in> remote_names cfg \<longleftrightarrow> (\<exists>c \<in> set (columns cfg). remote_name c = Some rn)"
  by (force simp: remote_names_def local_remote_def List.map_filter_def)

lemma map_remote_to_local_get:
  assumes "mapping_ok cfg" and "c \<in> set (columns cfg)" and "remote_name c = Some rn"
  shows "obj_get (map_remote_to_local cfg r) (local_name c) = obj_get r rn"
  using assms project_get [of remote_local "columns cfg" c rn "local_name c" r "[]"]
  by (simp add: mapping_ok_def map_remote_to_local_def map_remote_cols_project remote_local_def
      split: option.split)

lemma map_local_to_remote_get:
  assumes "mapping_ok cfg" and "c \<in> set (columns cfg)" and "remote_name c = Some rn"
  shows "obj_get (map_local_to_remote cfg l) rn = obj_get l (local_name c)"
  using assms project_get [of local_remote "columns cfg" c "local_name c" rn l "[]"]
  by (simp add: mapping_ok_def map_local_to_remote_def map_local_cols_project local_remote_def
      split: option.split)

lemma map_local_to_remote_other:
  "rn \<notin> remote_names cfg \<Longrightarrow> obj_get (map_local_to_remote cfg l) rn = None"
  by (simp add: remote_names_def map_local_to_remote_def map_local_cols_project project_get_other)

text \<open>
  Nothing registered is lost between the remote and the local naming. For a configuration
  whose columns have distinct names on both sides, mapping a remote row to the local mirror and
  back yields exactly its registered remote fields.
\<close>

theorem record_mapping_roundtrip:
  assumes "mapping_ok cfg"
  shows "obj_get (map_local_to_remote cfg (map_remote_to_local cfg r)) rn =
     (if rn \<in> remote_names cfg then obj_get r rn else None)"
proof (cases "rn \<in> remote_names cfg")
  case True
  then obtain c where "c \<in> set (columns cfg)" "remote_name c = Some rn"
    by (auto simp: mapped_column)
  then show ?thesis
    using True map_local_to_remote_get [OF assms] map_remote_to_local_get [OF assms] by simp
next
  case False
  then show ?thesis by (simp add: map_local_to_remote_other)
qed

text \<open>A configuration of two columns, one of them encrypted, for the witnesses.\<close>

definition sample_config :: EntityConfig where
  "sample_config =
     with_columns [column_synced ''id'' ''id'' ''id'' ''TEXT'' ''string'' False,
                   column_synced ''content'' ''body'' ''content'' ''TEXT'' ''string'' True,
                   column_local_only ''draft'' ''TEXT'']
       (entity_synced ''messages'' ''Message'')"

lemmas sample_config_defs =
  sample_config_def with_columns_def column_synced_def column_local_only_def entity_synced_def

theorem record_mapping_roundtrip_witness:
  "obj_get (map_local_to_remote sample_config (map_remote_to_local sample_config
       [(''content'', JString ''hi''), (''extra'', JNull), (''id'', JString ''7'')])) ''content''
   = Some (JString ''hi'')"
proof -
  have ok: "mapping_ok sample_config"
    by (simp add: mapping_ok_def sample_config_defs remote_local_def local_remote_def List.map_filter_simps)
  have "''content'' \<in> remote_names sample_config"
    by (simp add: mapped_column sample_config_defs)
  then show ?thesis using record_mapping_roundtrip [OF ok] by simp
qed

section \<open>Serialisation\<close>

definition encrypted_keys :: "ColumnDef list \<Rightarrow> string set" where
  "encrypted_keys cols = effective_remote_name ` set (filter encrypted cols)"

text \<open>What a payload value under an encrypted key becomes.\<close>

definition seal_value :: "cipher_env \<Rightarrow> Encryption \<Rightarrow> uuid \<Rightarrow> string \<Rightarrow> json \<Rightarrow> json" where
  "seal_value env enc u key v =
     (case v of
        JString s \<Rightarrow>
          (if is_encrypted s then v
           else (case encrypt (ce_crypto env) enc (ce_nonce env key) s u of
                   Inl _ \<Rightarrow> v | Inr ct \<Rightarrow> JString ct))
      | _ \<Rightarrow> v)"

lemma encrypt_Nil [simp]: "encrypt c e n [] u = Inr []"
  by (simp add: encrypt_def)

lemma seal_sealed:
  "encrypt (ce_crypto env) enc (ce_nonce env key) s u = Inr ct \<Longrightarrow>
   seal_value env enc u key (JString ct) = JString ct"
  using encrypt_is_encrypted [of "ce_crypto env" enc "ce_nonce env key" s u ct]
  by (cases "s = []") (auto simp: seal_value_def)

lemma encrypt_cols_ok: "encrypt_cols env enc u table cols m = Inr m' \<Longrightarrow> obj_ok m \<Longrightarrow> obj_ok m'"
  by (induction env enc u table cols m rule: encrypt_cols.induct)
    (auto simp: Let_def split: if_splits option.splits json.splits sum.splits)

lemma encrypt_cols_get:
  "encrypt_cols env enc u table cols m = Inr m' \<Longrightarrow>
   obj_get m' k = (if k \<in> encrypted_keys cols then map_option (seal_value env enc u k) (obj_get m k)
                   else obj_get m k)"
proof (induction cols arbitrary: m)
  case Nil
  then show ?case by (simp add: encrypted_keys_def)
next
  case (Cons col cols)
  let ?key = "effective_remote_name col"
  have keys: "encrypted_keys (col # cols) =
      (if encrypted col then insert ?key (encrypted_keys cols) else encrypted_keys cols)"
    by (auto simp: encrypted_keys_def)
  show ?case
  proof (cases "encrypted col \<and> (\<exists>s. obj_get m ?key = Some (JString s) \<and> \<not> is_encrypted s)")
    case False
    then have rec: "encrypt_cols env enc u table cols m = Inr m'"
      using Cons.prems by (auto simp: Let_def split: if_splits option.splits json.splits)
    have "obj_get m' k = (if k \<in> encrypted_keys cols then map_option (seal_value env enc u k) (obj_get m k)
                   else obj_get m k)"
      by (rule Cons.IH [OF rec])
    moreover have "map_option (seal_value env enc u ?key) (obj_get m ?key) = obj_get m ?key"
      if "encrypted col"
      using False that
      by (cases "obj_get m ?key") (auto simp: seal_value_def split: json.splits)
    ultimately show ?thesis by (auto simp: keys)
  next
    case True
    then obtain s where s: "encrypted col" "obj_get m ?key = Some (JString s)" "\<not> is_encrypted s" by blast
    then obtain ct where ct: "encrypt (ce_crypto env) enc (ce_nonce env ?key) s u = Inr ct"
      and rec: "encrypt_cols env enc u table cols (obj_insert ?key (JString ct) m) = Inr m'"
      using Cons.prems by (auto simp: Let_def split: sum.splits)
    have "obj_get m' k = (if k \<in> encrypted_keys cols
        then map_option (seal_value env enc u k) (obj_get (obj_insert ?key (JString ct) m) k)
        else obj_get (obj_insert ?key (JString ct) m) k)"
      by (rule Cons.IH [OF rec])
    moreover have "seal_value env enc u ?key (JString s) = JString ct"
      using s ct by (simp add: seal_value_def)
    ultimately show ?thesis using s seal_sealed [OF ct] by (auto simp: keys)
  qed
qed

lemma serialize_get:
  assumes "serialize_for_remote env (Some enc) uid cfg payload = Inr out"
  shows "obj_get out k =
     (if injected_user_id_column cfg = Some k then Some (JString uid)
      else if k \<in> encrypted_keys (columns cfg)
      then map_option (seal_value env enc (key_user_uuid (ce_crypto env) uid) k) (obj_get payload k)
      else obj_get payload k)"
  using assms encrypt_cols_get [of env enc "key_user_uuid (ce_crypto env) uid" "table_name cfg" "columns cfg" payload _ k]
  by (auto simp: serialize_for_remote_def split: sum.splits option.splits)

text \<open>A payload is only serialised when every string to be encrypted could be.\<close>

lemma encrypt_cols_encrypts:
  "encrypt_cols env enc u table cols m = Inr m' \<Longrightarrow> k \<in> encrypted_keys cols \<Longrightarrow> obj_get m k = Some (JString s)
   \<Longrightarrow> \<not> is_encrypted s \<Longrightarrow> \<exists>ct. encrypt (ce_crypto env) enc (ce_nonce env k) s u = Inr ct"
proof (induction cols arbitrary: m)
  case Nil
  then show ?case by (simp add: encrypted_keys_def)
next
  case (Cons c cols)
  then show ?case
    by (cases "effective_remote_name c = k")
      (auto simp: encrypted_keys_def Let_def split: if_splits option.splits json.splits sum.splits)
qed

lemma serialize_encrypts:
  assumes "serialize_for_remote env (Some enc) uid cfg payload = Inr out" and "obj_get payload k = Some (JString s)"
    and "k \<in> encrypted_keys (columns cfg)" and "\<not> is_encrypted s"
  shows "\<exists>ct. encrypt (ce_crypto env) enc (ce_nonce env k) s (key_user_uuid (ce_crypto env) uid) = Inr ct"
proof -
  obtain m' where "encrypt_cols env enc (key_user_uuid (ce_crypto env) uid) (table_name cfg) (columns cfg) payload = Inr m'"
    using assms(1) by (auto simp: serialize_for_remote_def split: sum.splits)
  then show ?thesis using encrypt_cols_encrypts assms(2-4) by blast
qed

text \<open>
  C8: what leaves the client. In a serialised payload the user column holds the active user,
  whatever the caller put there; a string under an encrypted column that was not ciphertext is
  replaced by a value that decrypts for this user to the original and, unless it is empty,
  carries the encryption prefix; every other field is unchanged.
\<close>

theorem serialize_for_remote_seals:
  assumes "serialize_for_remote env (Some enc) uid cfg payload = Inr out"
    and "crypto_ok (ce_crypto env)" and "\<And>k. length (ce_nonce env k) = 12"
    and "obj_get payload k = Some (JString s)" and "k \<in> encrypted_keys (columns cfg)"
    and "\<not> is_encrypted s" and "str_ok s" and "injected_user_id_column cfg \<noteq> Some k"
    and "injected_user_id_column cfg = Some uc"
    and "other \<notin> encrypted_keys (columns cfg)" and "other \<noteq> uc"
  shows "(\<exists>ct. obj_get out k = Some (JString ct) \<and> is_encrypted ct = (s \<noteq> [])
            \<and> decrypt (ce_crypto env) enc ct (key_user_uuid (ce_crypto env) uid) = Inr s)
       \<and> obj_get out uc = Some (JString uid) \<and> obj_get out other = obj_get payload other"
proof -
  let ?u = "key_user_uuid (ce_crypto env) uid"
  note get = serialize_get [OF assms(1)]
  have ok: "\<exists>ct. encrypt (ce_crypto env) enc (ce_nonce env k) s ?u = Inr ct"
    by (rule serialize_encrypts [OF assms(1,4-6)])
  then obtain ct where ct: "encrypt (ce_crypto env) enc (ce_nonce env k) s ?u = Inr ct" by blast
  then have "obj_get out k = Some (JString ct)"
    using assms(4-6,8) by (simp add: get seal_value_def)
  moreover have "is_encrypted ct = (s \<noteq> [])" by (rule encrypt_is_encrypted [OF ct])
  moreover have "decrypt (ce_crypto env) enc ct ?u = Inr s"
    by (rule decrypt_encrypt [OF assms(2,7,3) ct])
  ultimately show ?thesis using assms(9-11) by (simp add: get)
qed

definition toy_env :: cipher_env where
  "toy_env = \<lparr>ce_crypto = toy_crypto, ce_nonce = (\<lambda>_. replicate 12 7)\<rparr>"

lemma toy_env_ok [simp]: "crypto_ok (ce_crypto toy_env)" "length (ce_nonce toy_env k) = 12"
  by (simp_all add: toy_env_def)

theorem serialize_for_remote_seals_witness:
  "\<exists>out. serialize_for_remote toy_env (Some toy_encryption) ''me'' sample_config
       [(''content'', JString ''hi''), (''id'', JString ''7''), (''user_id'', JString ''you'')] = Inr out
     \<and> obj_get out ''user_id'' = Some (JString ''me'') \<and> obj_get out ''id'' = Some (JString ''7'')"
proof -
  let ?p = "[(''content'', JString ''hi''), (''id'', JString ''7''), (''user_id'', JString ''you'')]"
  obtain out where out: "serialize_for_remote toy_env (Some toy_encryption) ''me'' sample_config ?p = Inr out"
    by (simp add: serialize_for_remote_def sample_config_defs effective_remote_name_def Let_def
        encrypt_def derive_key_def toy_env_def toy_crypto_def is_encrypted_def starts_with_def
        STRING_ENCRYPTION_PREFIX_def injected_user_id_column_def)
  have e: "encrypted_keys (columns sample_config) = {''content''}"
    by (simp add: encrypted_keys_def sample_config_defs effective_remote_name_def)
  have i: "injected_user_id_column sample_config = Some ''user_id''"
    by (simp add: injected_user_id_column_def sample_config_defs)
  have "(\<exists>ct. obj_get out ''content'' = Some (JString ct) \<and> is_encrypted ct = (''hi'' \<noteq> [])
        \<and> decrypt (ce_crypto toy_env) toy_encryption ct (key_user_uuid (ce_crypto toy_env) ''me'') = Inr ''hi'')
      \<and> obj_get out ''user_id'' = Some (JString ''me'') \<and> obj_get out ''id'' = obj_get ?p ''id''"
  proof (rule serialize_for_remote_seals [OF out toy_env_ok(1)])
    show "obj_get ?p ''content'' = Some (JString ''hi'')" by simp
    show "\<not> is_encrypted ''hi''" by (simp add: is_encrypted_def starts_with_def STRING_ENCRYPTION_PREFIX_def)
    show "str_ok ''hi''" by (simp add: str_ok_def as_bytes_def)
  qed (simp_all add: e i)
  then show ?thesis using out by simp
qed

text \<open>
  Serialisation is idempotent: a payload that was prepared once, for instance one replayed
  from the queue, is left as it is when it is prepared again for the same user.
\<close>

theorem serialize_for_remote_idempotent:
  assumes "serialize_for_remote env (Some enc) uid cfg payload = Inr out" and "obj_ok payload"
    and "serialize_for_remote env (Some enc) uid cfg out = Inr out'"
  shows "out' = out"
proof (rule obj_eqI)
  have ok: "obj_ok m'" if "serialize_for_remote env (Some enc) uid cfg m = Inr m'" "obj_ok m" for m m'
    using that by (auto simp: serialize_for_remote_def dest: encrypt_cols_ok split: sum.splits option.splits)
  show "obj_ok out" by (rule ok [OF assms(1,2)])
  then show "obj_ok out'" by (rule ok [OF assms(3)])
  let ?u = "key_user_uuid (ce_crypto env) uid"
  have seal: "seal_value env enc ?u k (seal_value env enc ?u k v) = seal_value env enc ?u k v" for k v
  proof (cases v)
    case (JString s)
    show ?thesis
    proof (cases "\<exists>ct. \<not> is_encrypted s \<and> encrypt (ce_crypto env) enc (ce_nonce env k) s ?u = Inr ct")
      case True
      then obtain ct where ct: "\<not> is_encrypted s" "encrypt (ce_crypto env) enc (ce_nonce env k) s ?u = Inr ct"
        by blast
      then have "seal_value env enc ?u k v = JString ct" by (simp add: JString seal_value_def)
      then show ?thesis by (simp add: seal_sealed [OF ct(2)])
    next
      case False
      then have "seal_value env enc ?u k v = v"
        by (auto simp: JString seal_value_def split: sum.split)
      then show ?thesis by simp
    qed
  qed (simp_all add: seal_value_def)
  show "map_of out' = map_of out"
    by (rule ext) (simp add: serialize_get [OF assms(3)] serialize_get [OF assms(1)] option.map_comp comp_def seal)
qed

theorem serialize_for_remote_idempotent_witness:
  "serialize_for_remote toy_env (Some toy_encryption) ''me'' sample_config [(''user_id'', JString ''me'')]
   = Inr [(''user_id'', JString ''me'')]"
proof -
  have s: "\<exists>out. serialize_for_remote toy_env (Some toy_encryption) ''me'' sample_config [(''user_id'', JString x)] = Inr out" for x
    by (simp add: serialize_for_remote_def sample_config_defs effective_remote_name_def Let_def
        injected_user_id_column_def)
  have one: "serialize_for_remote toy_env (Some toy_encryption) ''me'' sample_config [(''user_id'', JString ''you'')]
      = Inr [(''user_id'', JString ''me'')]"
    by (simp add: serialize_for_remote_def sample_config_defs effective_remote_name_def Let_def
        injected_user_id_column_def)
  obtain out' where "serialize_for_remote toy_env (Some toy_encryption) ''me'' sample_config
      [(''user_id'', JString ''me'')] = Inr out'" using s by blast
  with serialize_for_remote_idempotent [OF one _ this] show ?thesis by (simp add: obj_ok_def)
qed

section \<open>Lookups\<close>

definition registry_ok :: "Registry \<Rightarrow> bool" where
  "registry_ok r \<longleftrightarrow> distinct (map fst (by_table r)) \<and>
     (\<forall>(t, c) \<in> set (by_table r). t = table_name c \<and>
        (is_synced c \<longrightarrow> (\<exists>ty. entity_type_name c = Some ty \<and> table_to_type r t = Some ty
           \<and> by_type r ty \<noteq> None)))"

lemma registry_new_ok [simp]: "registry_ok registry_new"
  by (simp add: registry_ok_def registry_new_def)

lemma set_AList_update:
  "distinct (map fst al) \<Longrightarrow> set (AList.update k v al) = insert (k, v) {p \<in> set al. fst p \<noteq> k}"
  by (induction al) (auto simp: image_iff)

lemma register_ok: "register config r = Some r' \<Longrightarrow> registry_ok r \<Longrightarrow> registry_ok r'"
  by (auto simp: register_def Let_def registry_ok_def set_AList_update distinct_update
      split: if_splits option.splits) fastforce+

text \<open>
  Registration keeps the tables of the registry consistent, the new entity is what its table
  name looks up, the other tables are untouched, and a synced entity is found by its type name
  and reported as registered.
\<close>

theorem register_lookup:
  assumes "register config r = Some r'" and "registry_ok r"
  shows "registry_ok r'
     \<and> config_for_table r' t = (if t = table_name config then Some config else config_for_table r t)
     \<and> (is_synced config \<longrightarrow> is_registered_table r' (table_name config)
          \<and> config_for_type r' (the (entity_type_name config)) = Some config)"
  using register_ok [OF assms] assms(1)
  by (auto simp: register_def config_for_table_def config_for_type_def is_registered_table_def
      update_conv' Let_def split: if_splits option.splits)

theorem register_lookup_witness:
  "config_for_table (the (register sample_config registry_new)) ''messages'' = Some sample_config
   \<and> registry_ok (the (register sample_config registry_new))"
proof -
  obtain r where r: "register sample_config registry_new = Some r"
    by (simp add: register_def Let_def sample_config_defs is_synced_def)
  have "table_name sample_config = ''messages''" by (simp add: sample_config_defs)
  with register_lookup [OF r registry_new_ok, of "''messages''"] show ?thesis by (simp add: r)
qed

section \<open>Schema drift\<close>

definition in_location :: "SchemaLocation \<Rightarrow> EntityConfig \<Rightarrow> bool" where
  "in_location location config = (case location of Local \<Rightarrow> True | Remote \<Rightarrow> is_synced config)"

text \<open>An expected column is present with a type of the same normal form.\<close>

definition column_matches :: "TableShape \<Rightarrow> string \<times> string \<Rightarrow> bool" where
  "column_matches t expected =
     (case column_map t (fst expected) of
        None \<Rightarrow> False
      | Some actual \<Rightarrow> normalize_type (snd expected) = normalize_type actual)"

lemma column_issue_Nil: "column_issue tb (column_map t) e = [] \<longleftrightarrow> column_matches t e"
  by (cases e) (simp add: column_issue_def column_matches_def split: option.split)

lemma config_issues_Nil:
  "config_issues snapshot location c = [] \<longleftrightarrow>
     (case snapshot (table_name c) of
        None \<Rightarrow> False | Some t \<Rightarrow> list_all (column_matches t) (expected_columns location c))"
  by (simp add: config_issues_def column_issue_Nil list_all_iff split: option.split)

lemma concat_map_Nil: "concat (map f xs) = [] \<longleftrightarrow> list_all (\<lambda>x. f x = []) xs"
  by (induction xs) auto

text \<open>
  Schema validation is exact. It reports nothing if and only if every registered table of the
  location exists in the snapshot and has every expected column with a type that normalises to
  the expected one.
\<close>

theorem validate_schema_exact:
  "validate_schema r snapshot location = [] \<longleftrightarrow>
     list_all (\<lambda>c. case snapshot (table_name c) of
          None \<Rightarrow> False
        | Some t \<Rightarrow> list_all (column_matches t) (expected_columns location c))
       (filter (in_location location) (map snd (by_table r)))"
  by (simp only: validate_schema_def concat_map_Nil config_issues_Nil in_location_def [abs_def])

definition columns_consistent :: "EntityConfig \<Rightarrow> bool" where
  "columns_consistent c \<longleftrightarrow>
     (\<forall>(n, t) \<in> set (remote_expected_columns c). \<forall>(n', t') \<in> set (remote_expected_columns c).
        n = n' \<longrightarrow> normalize_type t = normalize_type t')"

lemma column_matches_self:
  assumes "columns_consistent c" and "e \<in> set (remote_expected_columns c)"
  shows "column_matches (map (\<lambda>(n, t). \<lparr>cs_name = n, cs_data_type = t\<rparr>) (remote_expected_columns c)) e"
proof -
  let ?cols = "remote_expected_columns c"
  have m: "column_map (map (\<lambda>(n, t). \<lparr>cs_name = n, cs_data_type = t\<rparr>) ?cols) = collect_map ?cols"
    by (simp add: column_map_def comp_def case_prod_unfold)
  obtain t where t: "collect_map ?cols (fst e) = Some t"
    using assms(2) collect_map_None [of ?cols "fst e"] by force
  then have "(fst e, t) \<in> set ?cols" by (rule collect_map_SomeD)
  then have "normalize_type (snd e) = normalize_type t"
    using assms by (fastforce simp: columns_consistent_def)
  then show ?thesis by (simp add: column_matches_def m t)
qed

text \<open>
  The registry agrees with itself. The remote schema derived from the registered columns
  validates without an issue, whenever no table declares one remote column with two types.
\<close>

theorem registry_self_check:
  assumes "registry_ok r" and "\<forall>c \<in> set (map snd (by_table r)). columns_consistent c"
  shows "validate_remote_schema_snapshot r (build_remote_snapshot_from_registry r) = []"
proof -
  let ?shape = "\<lambda>c. map (\<lambda>(n, t). \<lparr>cs_name = n, cs_data_type = t\<rparr>) (remote_expected_columns c)"
  let ?synced = "filter is_synced (map snd (by_table r))"
  have inj: "c = c'" if "c \<in> set ?synced" "c' \<in> set ?synced" "table_name c = table_name c'" for c c'
  proof -
    have "(table_name c, c) \<in> set (by_table r)" "(table_name c', c') \<in> set (by_table r)"
      using that(1,2) assms(1) by (auto simp: registry_ok_def)
    then show ?thesis using assms(1) that(3) by (metis registry_ok_def eq_key_imp_eq_value)
  qed
  have "build_remote_snapshot_from_registry r (table_name c) = Some (?shape c)" if c: "c \<in> set ?synced" for c
  proof -
    let ?kvs = "map (\<lambda>c. (table_name c, ?shape c)) ?synced"
    have "table_name c \<in> fst ` set ?kvs" using c by force
    then obtain v where v: "collect_map ?kvs (table_name c) = Some v"
      using collect_map_None [of ?kvs "table_name c"] by blast
    then have "(table_name c, v) \<in> set ?kvs" by (rule collect_map_SomeD)
    then show ?thesis
      using v inj [OF c] by (auto simp: build_remote_snapshot_from_registry_def)
  qed
  then have "config_issues (build_remote_snapshot_from_registry r) Remote c = []" if "c \<in> set ?synced" for c
    using that assms(2) column_matches_self
    by (auto simp: config_issues_Nil expected_columns_def list_all_iff)
  then show ?thesis
    by (auto simp: validate_remote_schema_snapshot_def validate_schema_def)
qed

theorem registry_self_check_witness:
  "validate_remote_schema_snapshot (the (register sample_config registry_new))
     (build_remote_snapshot_from_registry (the (register sample_config registry_new))) = []"
proof -
  obtain r where r: "register sample_config registry_new = Some r" "by_table r = [(''messages'', sample_config)]"
    by (simp add: register_def Let_def sample_config_defs is_synced_def registry_new_def)
  have "columns_consistent sample_config"
    by (simp add: columns_consistent_def remote_expected_columns_def sample_config_defs
        injected_user_id_column_def List.map_filter_simps)
  then show ?thesis using registry_self_check [OF register_ok [OF r(1) registry_new_ok]] r by simp
qed

end
