(* ===== verification/Http.thy ===== *)
theory Http
  imports Errors Json Echo
begin

text \<open>
  \<open>crates/polybase/src/client.rs\<close> and the HTTP exchanges of the crate. A request is what
  the builder chain of \<open>reqwest\<close> was given; the server is a function of the requests it
  has seen and the new one, answering a response or a transport error. The \<open>network\<close>
  record is the mutable side of the sync layer: the echo tracker, the clock it reads and the
  trace of what it did, in order.
\<close>

section \<open>The client\<close>

record ClientConfig =
  supabase_url :: string
  supabase_anon_key :: string
  encryption_secret :: "string option"
  storage_bucket :: "string option"

definition client_validate :: "ClientConfig \<Rightarrow> PolyError + unit" where
  "client_validate c =
     (if trim (supabase_url c) = [] then Inl (NotConfigured ''supabase_url is empty'')
      else if trim (supabase_anon_key c) = [] then Inl (NotConfigured ''supabase_anon_key is empty'')
      else Inr ())"

definition storage_bucket_or_default :: "ClientConfig \<Rightarrow> string" where
  "storage_bucket_or_default c = unwrap_or ''attachments'' (storage_bucket c)"

definition base_url :: "ClientConfig \<Rightarrow> string" where
  "base_url c = trim_end_slash (supabase_url c)"

definition rest_url :: "ClientConfig \<Rightarrow> string \<Rightarrow> string" where
  "rest_url c table = base_url c @ ''/rest/v1/'' @ table"

definition functions_url :: "ClientConfig \<Rightarrow> string \<Rightarrow> string" where
  "functions_url c function_name = base_url c @ ''/functions/v1/'' @ function_name"

definition storage_object_url :: "ClientConfig \<Rightarrow> string \<Rightarrow> string \<Rightarrow> string" where
  "storage_object_url c bucket path =
     base_url c @ ''/storage/v1/object/'' @ bucket @ ''/'' @ trim_start_slash path"

definition auth_url :: "ClientConfig \<Rightarrow> string \<Rightarrow> string" where
  "auth_url c path = base_url c @ ''/auth/v1/'' @ trim_start_slash path"

section \<open>Exchanges\<close>

datatype http_method = GET | POST | PATCH | PUT | DELETE

record http_request =
  req_method :: http_method
  req_url :: string
  req_headers :: "(string \<times> string) list"
  req_query :: "(string \<times> string) list"
  req_body :: "json option"

text \<open>The body of a response is read in a second step that can fail on its own.\<close>

record http_response =
  resp_status :: nat
  resp_text :: "string + string"

definition status_success :: "nat \<Rightarrow> bool" where
  "status_success s \<longleftrightarrow> 200 \<le> s \<and> s < 300"

definition status_server_error :: "nat \<Rightarrow> bool" where
  "status_server_error s \<longleftrightarrow> 500 \<le> s \<and> s < 600"

datatype net_effect =
    Marked string string
  | Sent http_request

record network =
  net_echo :: EchoTracker
  net_now :: nat
  net_trace :: "net_effect list"

record net_env =
  ne_config :: ClientConfig
  ne_server :: "http_request list \<Rightarrow> http_request \<Rightarrow> string + http_response"
  ne_codec :: json_codec
  ne_uuid_v7 :: "nat \<Rightarrow> string"

fun sent_requests :: "net_effect list \<Rightarrow> http_request list" where
  "sent_requests [] = []"
| "sent_requests (Marked t i # es) = sent_requests es"
| "sent_requests (Sent r # es) = r # sent_requests es"

definition net_send :: "net_env \<Rightarrow> http_request \<Rightarrow> network \<Rightarrow> (string + http_response) \<times> network" where
  "net_send env r n =
     (ne_server env (sent_requests (net_trace n)) r, n\<lparr>net_trace := net_trace n @ [Sent r]\<rparr>)"

definition net_mark :: "string \<Rightarrow> string \<Rightarrow> network \<Rightarrow> network" where
  "net_mark table entity_id n =
     n\<lparr>net_echo := mark_pushed table entity_id (net_now n) (net_echo n),
       net_trace := net_trace n @ [Marked table entity_id]\<rparr>"

text \<open>\<open>resp.text().await.unwrap_or_default()\<close> and \<open>resp.json().await\<close>.\<close>

definition text_or_default :: "http_response \<Rightarrow> string" where
  "text_or_default r = (case resp_text r of Inl _ \<Rightarrow> [] | Inr t \<Rightarrow> t)"

definition resp_json :: "json_codec \<Rightarrow> http_response \<Rightarrow> string + json" where
  "resp_json c r = (case resp_text r of Inl e \<Rightarrow> Inl e | Inr t \<Rightarrow> parse c t)"

definition auth_headers :: "ClientConfig \<Rightarrow> string \<Rightarrow> (string \<times> string) list" where
  "auth_headers c access_token =
     [(''apikey'', supabase_anon_key c), (''Authorization'', ''Bearer '' @ access_token)]"

text \<open>\<open>format!("HTTP {}: {body}", status.as_u16())\<close>.\<close>

definition http_message :: "nat \<Rightarrow> string \<Rightarrow> string" where
  "http_message status body = ''HTTP '' @ dec status @ '': '' @ body"

lemma net_send_trace [simp]:
  "net_trace (snd (net_send env r n)) = net_trace n @ [Sent r]"
  "net_echo (snd (net_send env r n)) = net_echo n" "net_now (snd (net_send env r n)) = net_now n"
  by (simp_all add: net_send_def)

lemma net_mark_trace [simp]:
  "net_trace (net_mark t i n) = net_trace n @ [Marked t i]" "net_now (net_mark t i n) = net_now n"
  "net_echo (net_mark t i n) = mark_pushed t i (net_now n) (net_echo n)"
  by (simp_all add: net_mark_def)

lemma sent_requests_append [simp]: "sent_requests (a @ b) = sent_requests a @ sent_requests b"
  by (induction a rule: sent_requests.induct) auto

end
