(* ===== verification/Edge.thy ===== *)
theory Edge
  imports Http
begin

text \<open>
  \<open>crates/polybase/src/edge.rs\<close>: calls of Edge Functions. The payload is already a JSON
  value and the decoder of the typed response is an argument. A request without keys draws two
  UUIDs; their texts come from the environment.
\<close>

record EdgeRequest =
  er_function :: string
  er_op :: "string option"
  er_payload :: json
  er_idempotency_key :: "string option"
  er_request_id :: "string option"

definition edge_request_new :: "string \<Rightarrow> json \<Rightarrow> EdgeRequest" where
  "edge_request_new function_name payload =
     \<lparr>er_function = function_name, er_op = None, er_payload = payload, er_idempotency_key = None,
      er_request_id = None\<rparr>"

definition with_op :: "string \<Rightarrow> EdgeRequest \<Rightarrow> EdgeRequest" where
  "with_op op r = r\<lparr>er_op := Some op\<rparr>"

definition with_idempotency_key :: "string \<Rightarrow> EdgeRequest \<Rightarrow> EdgeRequest" where
  "with_idempotency_key key r = r\<lparr>er_idempotency_key := Some key\<rparr>"

definition with_request_id :: "string \<Rightarrow> EdgeRequest \<Rightarrow> EdgeRequest" where
  "with_request_id i r = r\<lparr>er_request_id := Some i\<rparr>"

record 'r EdgeOk =
  eo_data :: 'r
  eo_request_id :: "string option"

record EdgeErrorBody =
  eb_code :: string
  eb_message :: string
  eb_details :: "json option"

record RawEnvelope =
  re_success :: bool
  re_data :: "json option"
  re_error :: "EdgeErrorBody option"
  re_request_id :: "string option"

text \<open>The derived deserialisers: an optional field may be missing or null.\<close>

definition opt_field :: "(json \<Rightarrow> 'a option) \<Rightarrow> obj \<Rightarrow> string \<Rightarrow> 'a option option" where
  "opt_field f m k =
     (case obj_get m k of
        None \<Rightarrow> Some None
      | Some v \<Rightarrow> (if v = JNull then Some None else map_option Some (f v)))"

definition error_body_from_json :: "json \<Rightarrow> EdgeErrorBody option" where
  "error_body_from_json v =
     (case v of
        JObject m \<Rightarrow>
          (case (get_str m ''code'', get_str m ''message'', opt_field Some m ''details'') of
             (Some c, Some msg, Some d) \<Rightarrow> Some \<lparr>eb_code = c, eb_message = msg, eb_details = d\<rparr>
           | _ \<Rightarrow> None)
      | _ \<Rightarrow> None)"

definition envelope_from_json :: "json \<Rightarrow> RawEnvelope option" where
  "envelope_from_json v =
     (case v of
        JObject m \<Rightarrow>
          (case (get_bool m ''success'', opt_field Some m ''data'',
                 opt_field error_body_from_json m ''error'', opt_field as_str m ''request_id'') of
             (Some s, Some d, Some e, Some r) \<Rightarrow>
               Some \<lparr>re_success = s, re_data = d, re_error = e, re_request_id = r\<rparr>
           | _ \<Rightarrow> None)
      | _ \<Rightarrow> None)"

definition parse_envelope :: "json_codec \<Rightarrow> string \<Rightarrow> string + RawEnvelope" where
  "parse_envelope c body =
     (case parse c body of
        Inl e \<Rightarrow> Inl e
      | Inr v \<Rightarrow> ok_or ''invalid envelope'' (envelope_from_json v))"

definition wrap_body :: "json \<Rightarrow> json" where
  "wrap_body payload = JObject [(''payload'', payload)]"

definition edge_build_url :: "ClientConfig \<Rightarrow> string \<Rightarrow> string option \<Rightarrow> string" where
  "edge_build_url c function_name op =
     (let base = functions_url c function_name
      in case op of
           Some o' \<Rightarrow> (if o' \<noteq> [] then base @ ''/v1/'' @ o' else base)
         | None \<Rightarrow> base)"

definition classify_error :: "string \<Rightarrow> nat \<Rightarrow> EdgeErrorBody \<Rightarrow> EdgeError" where
  "classify_error function_name status error =
     (if status = 401 \<or> status = 403 then Edge_Forbidden function_name (eb_message error)
      else if status_server_error status then
        (if eq_ignore_ascii_case (eb_code error) ''permanent''
         then Edge_Permanent function_name (eb_message error)
         else Edge_Transient function_name (eb_message error))
      else
        (let code = to_ascii_lowercase (eb_code error)
         in if contains_sub code ''conflict'' \<or> contains_sub code ''version''
               \<or> contains_sub code ''idempotency''
            then Edge_Conflict function_name (eb_code error) (eb_message error)
            else Edge_Validation function_name (eb_code error) (eb_message error)))"

definition edge_http_request :: "net_env \<Rightarrow> EdgeRequest \<Rightarrow> string \<Rightarrow> http_request" where
  "edge_http_request env request access_token =
     \<lparr>req_method = POST,
      req_url = edge_build_url (ne_config env) (er_function request) (er_op request),
      req_headers = auth_headers (ne_config env) access_token
        @ [(''Idempotency-Key'', unwrap_or (ne_uuid_v7 env 0) (er_idempotency_key request)),
           (''X-Request-Id'', unwrap_or (ne_uuid_v7 env 1) (er_request_id request))],
      req_query = [], req_body = Some (wrap_body (er_payload request))\<rparr>"

text \<open>What the code makes of a status and a body it could read.\<close>

definition edge_response ::
  "net_env \<Rightarrow> (json \<Rightarrow> string + 'r) \<Rightarrow> string \<Rightarrow> nat \<Rightarrow> string \<Rightarrow> EdgeError + 'r EdgeOk" where
  "edge_response env decode function_name status body =
     (if status_success status then
        (case parse_envelope (ne_codec env) body of
           Inl err \<Rightarrow> Inl (Edge_Decode function_name err)
         | Inr envelope \<Rightarrow>
             (if re_success envelope then
                (case re_data envelope of
                   None \<Rightarrow> Inl (Edge_Decode function_name
                             ''envelope.success was true but data was missing'')
                 | Some data_value \<Rightarrow>
                     (case decode data_value of
                        Inl err \<Rightarrow> Inl (Edge_Decode function_name err)
                      | Inr data \<Rightarrow>
                          Inr \<lparr>eo_data = data, eo_request_id = re_request_id envelope\<rparr>))
              else Inl (classify_error function_name status
                     (unwrap_or \<lparr>eb_code = ''unknown'', eb_message = body, eb_details = None\<rparr>
                        (re_error envelope)))))
      else Inl (classify_error function_name status
             (case (case parse_envelope (ne_codec env) body of
                      Inl _ \<Rightarrow> None | Inr envelope \<Rightarrow> re_error envelope) of
                Some error \<Rightarrow> error
              | None \<Rightarrow> \<lparr>eb_code = dec status, eb_message = body, eb_details = None\<rparr>)))"

definition edge_call ::
  "net_env \<Rightarrow> (json \<Rightarrow> string + 'r) \<Rightarrow> EdgeRequest \<Rightarrow> string \<Rightarrow> network
   \<Rightarrow> (PolyError + 'r EdgeOk) \<times> network" where
  "edge_call env decode request access_token n =
     (case net_send env (edge_http_request env request access_token) n of
        (Inl err, n') \<Rightarrow> (Inl (Poly_Edge (Edge_Transient (er_function request) err)), n')
      | (Inr resp, n') \<Rightarrow>
          (case resp_text resp of
             Inl err \<Rightarrow>
               (Inl (Poly_Edge (Edge_Transient (er_function request) (''read body: '' @ err))), n')
           | Inr body \<Rightarrow>
               (map_err Poly_Edge
                  (edge_response env decode (er_function request) (resp_status resp) body), n')))"

section \<open>Retry decisions\<close>

lemma classify_error_transient:
  "edge_is_transient (classify_error f s e) \<longleftrightarrow>
     s = 401 \<or> s = 403 \<or> (status_server_error s \<and> \<not> eq_ignore_ascii_case (eb_code e) ''permanent'')"
  by (simp add: classify_error_def Let_def)

lemma classify_error_fields [simp]:
  "edge_function (classify_error f s e) = f" "edge_message (classify_error f s e) = eb_message e"
  by (simp_all add: classify_error_def Let_def)

lemma edge_call_ok:
  assumes "fst (edge_call env decode request token n) = Inr x"
  shows "\<exists>resp. ne_server env (sent_requests (net_trace n)) (edge_http_request env request token) = Inr resp
    \<and> status_success (resp_status resp)"
  using assms
  by (auto simp: edge_call_def edge_response_def net_send_def split: sum.splits option.splits if_splits)

lemma edge_call_error: "fst (edge_call env decode request token n) = Inl e \<Longrightarrow> \<exists>ee. e = Poly_Edge ee"
  by (auto simp: edge_call_def map_err_def split: sum.splits prod.splits)

lemma success_not_server: "status_success s \<Longrightarrow> \<not> status_server_error s \<and> s \<noteq> 401 \<and> s \<noteq> 403"
  by (simp add: status_success_def status_server_error_def)

text \<open>The code the error of a failed exchange carries.\<close>

definition response_code :: "net_env \<Rightarrow> nat \<Rightarrow> string \<Rightarrow> string" where
  "response_code env status body =
     (case parse_envelope (ne_codec env) body of
        Inl _ \<Rightarrow> dec status
      | Inr envelope \<Rightarrow> (case re_error envelope of None \<Rightarrow> dec status | Some e \<Rightarrow> eb_code e))"

lemma edge_response_transient:
  "(\<exists>e. edge_response env decode f s body = Inl e \<and> edge_is_transient e) \<longleftrightarrow>
     s = 401 \<or> s = 403 \<or>
     (status_server_error s \<and> \<not> eq_ignore_ascii_case (response_code env s body) ''permanent'')"
proof (cases "status_success s")
  case True
  then show ?thesis
    using success_not_server [OF True]
    by (auto simp: edge_response_def classify_error_transient
        split: sum.splits option.splits if_splits)
next
  case False
  then show ?thesis
    by (auto simp: edge_response_def classify_error_transient response_code_def
        split: sum.splits option.splits)
qed

text \<open>
  C26: which Edge failures are retried. A call fails only with an Edge error, and the error asks
  for a retry exactly when the transport failed, the body could not be read, the status is 401
  or 403, or the status is 5xx and the server's code is not "permanent" in any letter case. So a 429 asks
  for none, although the transient errors are documented to cover rate limits.
\<close>

theorem edge_call_retry_exact:
  "fst (edge_call env decode request token n) \<in> range Inr \<union> range (\<lambda>e. Inl (Poly_Edge e))
   \<and> ((\<exists>e. fst (edge_call env decode request token n) = Inl (Poly_Edge e) \<and> edge_is_transient e)
   \<longleftrightarrow>
   (case fst (net_send env (edge_http_request env request token) n) of
      Inl _ \<Rightarrow> True
    | Inr resp \<Rightarrow>
        (case resp_text resp of
           Inl _ \<Rightarrow> True
         | Inr body \<Rightarrow>
             resp_status resp = 401 \<or> resp_status resp = 403
             \<or> (status_server_error (resp_status resp)
                \<and> \<not> eq_ignore_ascii_case (response_code env (resp_status resp) body) ''permanent''))))"
proof -
  let ?snd = "net_send env (edge_http_request env request token) n"
  obtain r n' where s: "?snd = (r, n')" by (cases ?snd)
  show ?thesis
  proof (cases "\<exists>resp body. r = Inr resp \<and> resp_text resp = Inr body")
    case False
    then show ?thesis
      by (auto simp: edge_call_def s split: sum.splits)
  next
    case True
    then obtain resp body where r: "r = Inr resp" "resp_text resp = Inr body" by blast
    have "fst (edge_call env decode request token n)
        = map_err Poly_Edge (edge_response env decode (er_function request) (resp_status resp) body)"
      by (simp add: edge_call_def s r)
    moreover have "(\<exists>e. map_err Poly_Edge x = Inl (Poly_Edge e) \<and> edge_is_transient e) \<longleftrightarrow> (\<exists>e. x = Inl e \<and> edge_is_transient e)"
      "map_err Poly_Edge x \<in> range Inr \<union> range (\<lambda>e. Inl (Poly_Edge e))" for x :: "EdgeError + 'a EdgeOk"
      by (cases x; auto)+
    ultimately show ?thesis
      using edge_response_transient [of env decode "er_function request" "resp_status resp" body]
      by (simp add: s r)
  qed
qed

text \<open>The markers the contract classifiers look for survive the classification.\<close>

lemma edge_benign_message:
  "edge_is_benign_same_version_mutation (classify_error f s e)
   \<longleftrightarrow> is_same_version_mutation_message (eb_message e)"
  by (simp add: edge_is_benign_same_version_mutation_def)

end
