(* ===== verification/Push.thy ===== *)
theory Push
  imports Http
begin

text \<open>
  \<open>crates/polybase/src/sync/push.rs\<close>, \<open>pull.rs\<close> and the live half of
  \<open>remote.rs\<close>: the PostgREST requests of the sync layer and the classification of their
  rejections. Every operation takes the environment and the network state and returns the
  \<open>Result\<close> with the next state.
\<close>

section \<open>Classification\<close>

definition PERMANENT_PUSH_ERROR_PATTERNS :: "string list" where
  "PERMANENT_PUSH_ERROR_PATTERNS =
     [''version regression'', ''is immutable'', ''same-version mutation'',
      ''undelete requires version'', ''string is too long for tsvector'', ''value too long'',
      ''violates check constraint'', ''violates not-null constraint'',
      ''violates unique constraint'', ''invalid input syntax'']"

definition is_permanent_push_error_message :: "string \<Rightarrow> bool" where
  "is_permanent_push_error_message message =
     (let lower = to_ascii_lowercase message
      in list_ex (\<lambda>pattern. contains_sub lower pattern) PERMANENT_PUSH_ERROR_PATTERNS)"

definition classify_push_error_message :: "string \<Rightarrow> string \<Rightarrow> PushError" where
  "classify_push_error_message table message =
     (if is_permanent_push_error_message message then Push_Permanent table message
      else Push_Transient table message)"

section \<open>The pusher\<close>

definition upsert_request :: "net_env \<Rightarrow> string \<Rightarrow> json \<Rightarrow> string \<Rightarrow> string \<Rightarrow> http_request" where
  "upsert_request env table body conflict_target access_token =
     \<lparr>req_method = POST, req_url = rest_url (ne_config env) table,
      req_headers = auth_headers (ne_config env) access_token
        @ [(''Prefer'', ''resolution=merge-duplicates,return=minimal'')],
      req_query = [(''on_conflict'', conflict_target)], req_body = Some body\<rparr>"

definition patch_request :: "net_env \<Rightarrow> string \<Rightarrow> string \<Rightarrow> json \<Rightarrow> string \<Rightarrow> http_request" where
  "patch_request env table entity_id body access_token =
     \<lparr>req_method = PATCH, req_url = rest_url (ne_config env) table,
      req_headers = auth_headers (ne_config env) access_token @ [(''Prefer'', ''return=minimal'')],
      req_query = [(''id'', ''eq.'' @ entity_id)], req_body = Some body\<rparr>"

definition rejected :: "string \<Rightarrow> http_response \<Rightarrow> PolyError" where
  "rejected table resp =
     Poly_Push (classify_push_error_message table (http_message (resp_status resp) (text_or_default resp)))"

definition pusher_upsert ::
  "net_env \<Rightarrow> string \<Rightarrow> obj \<Rightarrow> string \<Rightarrow> string \<Rightarrow> network \<Rightarrow> (PolyError + unit) \<times> network" where
  "pusher_upsert env table rec conflict_target access_token n =
     (case get_str rec ''id'' of
        None \<Rightarrow> (Inl (Poly_Push (Push_Permanent table (''record missing '' @ [CHR 0x27] @ ''id''
                      @ [CHR 0x27] @ '' field''))), n)
      | Some entity_id \<Rightarrow>
          (let n1 = net_mark table entity_id n
           in case net_send env (upsert_request env table (JArray [JObject rec]) conflict_target access_token) n1 of
                (Inl err, n2) \<Rightarrow> (Inl (Poly_Http err), n2)
              | (Inr resp, n2) \<Rightarrow>
                  (if status_success (resp_status resp) then (Inr (), n2)
                   else if is_same_version_mutation_message (text_or_default resp)
                   then (Inl (Poly_Push (SameVersionMutationIgnored table)), n2)
                   else (Inl (rejected table resp), n2))))"

definition tombstone_body :: "i64 \<Rightarrow> json \<Rightarrow> json" where
  "tombstone_body version updated_at =
     JObject (obj_of_list [(''version'', json_of_i64 version), (''deleted'', JBool True),
                           (''updated_at'', updated_at)])"

definition pusher_update_tombstone ::
  "net_env \<Rightarrow> string \<Rightarrow> string \<Rightarrow> i64 \<Rightarrow> json \<Rightarrow> string \<Rightarrow> network \<Rightarrow> (PolyError + unit) \<times> network" where
  "pusher_update_tombstone env table entity_id version updated_at access_token n =
     (let n1 = net_mark table entity_id n
      in case net_send env (patch_request env table entity_id (tombstone_body version updated_at) access_token) n1 of
           (Inl err, n2) \<Rightarrow> (Inl (Poly_Http err), n2)
         | (Inr resp, n2) \<Rightarrow>
             (if status_success (resp_status resp) then (Inr (), n2)
              else (Inl (rejected table resp), n2)))"

section \<open>The puller\<close>

definition get_request :: "net_env \<Rightarrow> string \<Rightarrow> (string \<times> string) list \<Rightarrow> string \<Rightarrow> http_request" where
  "get_request env table query access_token =
     \<lparr>req_method = GET, req_url = rest_url (ne_config env) table,
      req_headers = auth_headers (ne_config env) access_token, req_query = query, req_body = None\<rparr>"

text \<open>Send, check the status, decode the body: shared by the readers.\<close>

definition get_json ::
  "net_env \<Rightarrow> string \<Rightarrow> (string \<times> string) list \<Rightarrow> string \<Rightarrow> network \<Rightarrow> (PolyError + json) \<times> network" where
  "get_json env table query access_token n =
     (case net_send env (get_request env table query access_token) n of
        (Inl err, n') \<Rightarrow> (Inl (Poly_Http err), n')
      | (Inr resp, n') \<Rightarrow>
          (if \<not> status_success (resp_status resp) then
             (Inl (Poly_Pull (Pull_Failed table (http_message (resp_status resp) (text_or_default resp)))), n')
           else (map_err Poly_Http (resp_json (ne_codec env) resp), n')))"

definition array_or_default :: "json \<Rightarrow> json list" where
  "array_or_default v = unwrap_or [] (as_array v)"

definition puller_read_by_ids ::
  "net_env \<Rightarrow> string \<Rightarrow> string list \<Rightarrow> string \<Rightarrow> network \<Rightarrow> (PolyError + json list) \<times> network" where
  "puller_read_by_ids env table ids access_token n =
     (if ids = [] then (Inr [], n)
      else
        (case get_json env table [(''id'', ''in.('' @ join '','' ids @ '')''), (''select'', ''*'')] access_token n of
           (Inl e, n') \<Rightarrow> (Inl e, n')
         | (Inr v, n') \<Rightarrow> (Inr (array_or_default v), n')))"

definition puller_read_versions ::
  "net_env \<Rightarrow> string \<Rightarrow> string \<Rightarrow> network \<Rightarrow> (PolyError + json list) \<times> network" where
  "puller_read_versions env table access_token n =
     (case get_json env table [(''select'', ''id,version,deleted'')] access_token n of
        (Inl e, n') \<Rightarrow> (Inl e, n')
      | (Inr v, n') \<Rightarrow> (Inr (array_or_default v), n'))"

section \<open>The remote writer and reader\<close>

record RemoteFilter =
  rf_eq :: "(string \<times> string) list"
  rf_gte :: "(string \<times> string) list"

definition filter_from_pairs :: "(string \<times> string) list \<Rightarrow> RemoteFilter" where
  "filter_from_pairs pairs = \<lparr>rf_eq = pairs, rf_gte = []\<rparr>"

definition with_gte :: "string \<Rightarrow> string \<Rightarrow> RemoteFilter \<Rightarrow> RemoteFilter" where
  "with_gte column value f = f\<lparr>rf_gte := rf_gte f @ [(column, value)]\<rparr>"

definition mark_record :: "string \<Rightarrow> obj \<Rightarrow> network \<Rightarrow> network" where
  "mark_record table rec n =
     (case get_str rec ''id'' of None \<Rightarrow> n | Some i \<Rightarrow> net_mark table i n)"

definition writer_upsert_record ::
  "net_env \<Rightarrow> string \<Rightarrow> obj \<Rightarrow> string \<Rightarrow> network \<Rightarrow> (PolyError + unit) \<times> network" where
  "writer_upsert_record env table rec access_token n =
     (case net_send env (upsert_request env table (JArray [JObject rec]) ''id'' access_token)
             (mark_record table rec n) of
        (Inl err, n2) \<Rightarrow> (Inl (Poly_Http err), n2)
      | (Inr resp, n2) \<Rightarrow>
          (if status_success (resp_status resp) then (Inr (), n2)
           else
             (let lower = to_ascii_lowercase (text_or_default resp)
              in if contains_sub lower ''same-version mutation'' \<or> contains_sub lower ''ignored''
                 then (Inl (Poly_Push (SameVersionMutationIgnored table)), n2)
                 else (Inl (rejected table resp), n2))))"

definition writer_upsert_records ::
  "net_env \<Rightarrow> string \<Rightarrow> obj list \<Rightarrow> string \<Rightarrow> network \<Rightarrow> (PolyError + unit) \<times> network" where
  "writer_upsert_records env table records access_token n =
     (if records = [] then (Inr (), n)
      else
        (case net_send env (upsert_request env table (JArray (map JObject records)) ''id'' access_token)
                (fold (mark_record table) records n) of
           (Inl err, n2) \<Rightarrow> (Inl (Poly_Http err), n2)
         | (Inr resp, n2) \<Rightarrow>
             (if status_success (resp_status resp) then (Inr (), n2)
              else (Inl (rejected table resp), n2))))"

definition writer_update_fields ::
  "net_env \<Rightarrow> string \<Rightarrow> string \<Rightarrow> obj \<Rightarrow> string \<Rightarrow> network \<Rightarrow> (PolyError + unit) \<times> network" where
  "writer_update_fields env table i fs access_token n =
     (case net_send env (patch_request env table i (JObject fs) access_token) (net_mark table i n) of
        (Inl err, n2) \<Rightarrow> (Inl (Poly_Http err), n2)
      | (Inr resp, n2) \<Rightarrow>
          (if status_success (resp_status resp) then (Inr (), n2)
           else (Inl (rejected table resp), n2)))"

definition user_scope :: "string \<Rightarrow> string option \<Rightarrow> (string \<times> string) list" where
  "user_scope user_id_column user_id =
     (case user_id of None \<Rightarrow> [] | Some uid \<Rightarrow> [(user_id_column, ''eq.'' @ uid)])"

definition filter_query :: "RemoteFilter option \<Rightarrow> (string \<times> string) list" where
  "filter_query f =
     (case f of
        None \<Rightarrow> []
      | Some extra \<Rightarrow> map (\<lambda>(c, v). (c, ''eq.'' @ v)) (rf_eq extra)
                    @ map (\<lambda>(c, v). (c, ''gte.'' @ v)) (rf_gte extra))"

definition reader_fetch_records ::
  "net_env \<Rightarrow> string \<Rightarrow> string \<Rightarrow> string option \<Rightarrow> RemoteFilter option \<Rightarrow> string \<Rightarrow> network
   \<Rightarrow> (PolyError + obj list) \<times> network" where
  "reader_fetch_records env table user_id_column user_id flt access_token n =
     (case get_json env table
             ([(''select'', ''*'')] @ user_scope user_id_column user_id @ filter_query flt) access_token n of
        (Inl e, n') \<Rightarrow> (Inl e, n')
      | (Inr v, n') \<Rightarrow> (Inr (List.map_filter as_object (array_or_default v)), n'))"

definition version_entry :: "json \<Rightarrow> (string \<times> i64 \<times> bool) option" where
  "version_entry row =
     (case row of
        JObject m \<Rightarrow>
          (case get_str m ''id'' of
             None \<Rightarrow> None
           | Some i \<Rightarrow>
               (case get_i64 m ''version'' of
                  None \<Rightarrow> None
                | Some version \<Rightarrow> Some (i, version, unwrap_or False (get_bool m ''deleted''))))
      | _ \<Rightarrow> None)"

text \<open>Here the body must be an array: \<open>resp.json::<Vec<Value>>()\<close>.\<close>

definition reader_fetch_versions ::
  "net_env \<Rightarrow> string \<Rightarrow> string \<Rightarrow> string option \<Rightarrow> string \<Rightarrow> network
   \<Rightarrow> (PolyError + (string \<rightharpoonup> i64 \<times> bool)) \<times> network" where
  "reader_fetch_versions env table user_id_column user_id access_token n =
     (case get_json env table
             ([(''select'', ''id,version,deleted'')] @ user_scope user_id_column user_id) access_token n of
        (Inl e, n') \<Rightarrow> (Inl e, n')
      | (Inr v, n') \<Rightarrow>
          (case as_array v of
             None \<Rightarrow> (Inl (Poly_Http ''invalid type: expected a sequence''), n')
           | Some rows \<Rightarrow> (Inr (collect_map (List.map_filter version_entry rows)), n')))"

section \<open>Facts\<close>

lemma permanent_same_version:
  "is_same_version_mutation_message m \<Longrightarrow> is_permanent_push_error_message m"
  "is_version_regression_message m \<Longrightarrow> is_permanent_push_error_message m"
  by (simp_all add: is_same_version_mutation_message_def is_version_regression_message_def
      is_permanent_push_error_message_def PERMANENT_PUSH_ERROR_PATTERNS_def Let_def
      SAME_VERSION_MUTATION_MARKER_def VERSION_REGRESSION_MARKER_def)

lemma permanent_context:
  assumes "is_permanent_push_error_message m"
  shows "is_permanent_push_error_message (u @ m @ v)"
proof -
  obtain p where "p \<in> set PERMANENT_PUSH_ERROR_PATTERNS" "contains_sub (to_ascii_lowercase m) p"
    using assms by (auto simp: is_permanent_push_error_message_def list_ex_iff Let_def)
  then show ?thesis
    using contains_lower_context [of m p u v]
    by (auto simp: is_permanent_push_error_message_def list_ex_iff Let_def)
qed

lemma http_message_markers:
  "is_same_version_mutation_message b \<Longrightarrow> is_same_version_mutation_message (http_message s b)"
  "is_version_regression_message b \<Longrightarrow> is_version_regression_message (http_message s b)"
  using message_markers_context [of b "''HTTP '' @ dec s @ '': ''" "[]"]
  by (simp_all add: http_message_def)

lemma rejected_permanent:
  "is_permanent_push_error_message (text_or_default resp) \<Longrightarrow>
   rejected table resp = Poly_Push (Push_Permanent table (http_message (resp_status resp) (text_or_default resp)))"
  using permanent_context [of "text_or_default resp" "''HTTP '' @ dec (resp_status resp) @ '': ''" "[]"]
  by (simp add: rejected_def classify_push_error_message_def http_message_def)

text \<open>
  An upsert that reaches the network has marked the echo tracker first, and only once it has
  an id. A record without an id is refused as permanent and touches neither; otherwise exactly
  one mark and then one request are added to the trace, in this order, so the tracker suppresses
  the row from before the request on.
\<close>

theorem pusher_upsert_echo_first:
  "(case get_str rec ''id'' of
      None \<Rightarrow> snd (pusher_upsert env table rec target token n) = n
            \<and> (\<exists>m. fst (pusher_upsert env table rec target token n) = Inl (Poly_Push (Push_Permanent table m)))
    | Some i \<Rightarrow>
        net_trace (snd (pusher_upsert env table rec target token n)) =
          net_trace n @ [Marked table i, Sent (upsert_request env table (JArray [JObject rec]) target token)]
        \<and> net_echo (snd (pusher_upsert env table rec target token n)) = mark_pushed table i (net_now n) (net_echo n))"
proof (cases "get_str rec ''id''")
  case None
  then show ?thesis by (simp add: pusher_upsert_def)
next
  case (Some i)
  obtain r n2 where s: "net_send env (upsert_request env table (JArray [JObject rec]) target token) (net_mark table i n) = (r, n2)"
    by (cases "net_send env (upsert_request env table (JArray [JObject rec]) target token) (net_mark table i n)")
  have n2: "net_trace n2 = net_trace n @ [Marked table i, Sent (upsert_request env table (JArray [JObject rec]) target token)]"
    "net_echo n2 = mark_pushed table i (net_now n) (net_echo n)"
    using net_send_trace [of env _ "net_mark table i n"] s by (metis append.assoc append_Cons append_Nil net_mark_trace snd_conv)+
  show ?thesis using Some n2 by (cases r) (simp_all add: pusher_upsert_def Let_def s)
qed

text \<open>
  How a rejected PostgREST write is classified. For any status outside 2xx: an upsert whose
  body mentions a same-version mutation is the benign no-op; one whose body mentions a version
  regression is a permanent error the coordinator recognises as a regression; and a tombstone
  update rejected as same-version is a permanent error, not the no-op.
\<close>

theorem rejection_classes:
  assumes "ne_server env (sent_requests (net_trace n)) (upsert_request env table (JArray [JObject rec]) target token) = Inr resp"
    and "get_str rec ''id'' = Some i" and "\<not> status_success (resp_status resp)"
    and "ne_server env (sent_requests (net_trace n)) (patch_request env table i (tombstone_body v at) token) = Inr resp'"
    and "\<not> status_success (resp_status resp')" and "is_same_version_mutation_message (text_or_default resp')"
  shows "(is_same_version_mutation_message (text_or_default resp) \<longrightarrow>
            fst (pusher_upsert env table rec target token n) = Inl (Poly_Push (SameVersionMutationIgnored table)))
       \<and> (is_version_regression_message (text_or_default resp) \<longrightarrow>
            \<not> is_same_version_mutation_message (text_or_default resp) \<longrightarrow>
            (\<exists>e. fst (pusher_upsert env table rec target token n) = Inl (Poly_Push e)
                \<and> push_is_permanent e \<and> push_is_version_regression e))
       \<and> (\<exists>e. fst (pusher_update_tombstone env table i v at token n) = Inl (Poly_Push e)
                \<and> push_is_permanent e \<and> e \<noteq> SameVersionMutationIgnored table)"
proof -
  have u: "fst (pusher_upsert env table rec target token n) =
      (if is_same_version_mutation_message (text_or_default resp)
       then Inl (Poly_Push (SameVersionMutationIgnored table)) else Inl (rejected table resp))"
    using assms(1-3) by (simp add: pusher_upsert_def Let_def net_send_def)
  have t: "fst (pusher_update_tombstone env table i v at token n) = Inl (rejected table resp')"
    using assms(4,5) by (simp add: pusher_update_tombstone_def Let_def net_send_def)
  show ?thesis
    using assms(6) by (simp add: u t rejected_permanent permanent_same_version http_message_markers)
qed

definition sample_client :: ClientConfig where
  "sample_client = \<lparr>supabase_url = ''https://x.co/'', supabase_anon_key = ''anon'',
     encryption_secret = None, storage_bucket = None\<rparr>"

text \<open>A server that gives every request the same answer.\<close>

definition const_env :: "string + http_response \<Rightarrow> net_env" where
  "const_env answer = \<lparr>ne_config = sample_client, ne_server = (\<lambda>_ _. answer), ne_codec = ref_codec,
     ne_uuid_v7 = (\<lambda>k. ''id'' @ dec k)\<rparr>"

definition fresh_network :: network where
  "fresh_network = \<lparr>net_echo = echo_default_window, net_now = 0, net_trace = []\<rparr>"

theorem rejection_classes_witness:
  "\<exists>e. fst (pusher_update_tombstone
        (const_env (Inr \<lparr>resp_status = 400, resp_text = Inr ''same-version mutation''\<rparr>))
        ''t'' ''1'' 3 JNull ''tok'' fresh_network) = Inl (Poly_Push e) \<and> push_is_permanent e"
proof -
  let ?r = "\<lparr>resp_status = 400, resp_text = Inr ''same-version mutation''\<rparr> :: http_response"
  have m: "is_same_version_mutation_message (text_or_default ?r)"
    by (simp add: text_or_default_def is_same_version_mutation_message_def to_ascii_lowercase_def
        ascii_lower_def SAME_VERSION_MUTATION_MARKER_def starts_with_def)
  show ?thesis
    using rejection_classes [of "const_env (Inr ?r)" fresh_network "''t''" "[(''id'', JString ''1'')]" "''id''"
        "''tok''" ?r "''1''" 3 JNull ?r] m
    by (auto simp: const_env_def status_success_def get_str_def)
qed

end
