(* ===== verification/DbManager.thy ===== *)
theory DbManager
  imports SqliteQueue
begin

text \<open>
  \<open>crates/polybase-sqlite/src/manager.rs\<close>: one database directory per user under the
  root. The file system below the root is a map from directory names to the database the
  directory holds (\<open>None\<close> in it: no database file yet); the pool is the name of the
  directory it is open on. Removing, creating, connecting and the migrations consume one entry of
  \<open>dm_faults\<close> each; the migrators are functions on the database.
\<close>

datatype DbManagerError =
    Db_Sqlx string
  | Db_Migrate string
  | Db_Io string
  | InvalidUserId string

fun db_error_display :: "DbManagerError \<Rightarrow> string" where
  "db_error_display (Db_Sqlx m) = ''sqlx error: '' @ m"
| "db_error_display (Db_Migrate m) = ''migration error: '' @ m"
| "db_error_display (Db_Io m) = ''io error: '' @ m"
| "db_error_display (InvalidUserId u) = ''invalid user id: '' @ u"

record 'd DbManager =
  dm_user_id :: "string option"
  dm_pool :: "string option"
  dm_dirs :: "string \<rightharpoonup> 'd option"
  dm_empty_db :: 'd
  dm_polybase_migrator :: "('d \<Rightarrow> string + 'd) option"
  dm_app_migrator :: "('d \<Rightarrow> string + 'd) option"
  dm_faults :: "string option list"

text \<open>
  A manager over a root that holds \<open>dirs\<close>; the size of the pool has no counterpart here.
\<close>

definition db_manager_new :: "(string \<rightharpoonup> 'd option) \<Rightarrow> 'd \<Rightarrow> string option list \<Rightarrow> 'd DbManager" where
  "db_manager_new dirs empty_db faults =
     \<lparr>dm_user_id = None, dm_pool = None, dm_dirs = dirs, dm_empty_db = empty_db, dm_polybase_migrator = None,
      dm_app_migrator = None, dm_faults = faults\<rparr>"

definition with_polybase_migrator :: "('d \<Rightarrow> string + 'd) \<Rightarrow> 'd DbManager \<Rightarrow> 'd DbManager" where
  "with_polybase_migrator migrator m = m\<lparr>dm_polybase_migrator := Some migrator\<rparr>"

definition with_app_migrator :: "('d \<Rightarrow> string + 'd) \<Rightarrow> 'd DbManager \<Rightarrow> 'd DbManager" where
  "with_app_migrator migrator m = m\<lparr>dm_app_migrator := Some migrator\<rparr>"

definition db_fault :: "'d DbManager \<Rightarrow> string option \<times> 'd DbManager" where
  "db_fault m = (case take_fault (dm_faults m) of (f, fs) \<Rightarrow> (f, m\<lparr>dm_faults := fs\<rparr>))"

definition manager_pool :: "'d DbManager \<Rightarrow> string option" where
  "manager_pool m = dm_pool m"

definition manager_current_user :: "'d DbManager \<Rightarrow> string option" where
  "manager_current_user m = dm_user_id m"

definition user_id_char :: "char \<Rightarrow> bool" where
  "user_id_char c \<longleftrightarrow>
     (CHR ''a'' \<le> c \<and> c \<le> CHR ''z'') \<or> (CHR ''A'' \<le> c \<and> c \<le> CHR ''Z'')
     \<or> (CHR ''0'' \<le> c \<and> c \<le> CHR ''9'') \<or> c = CHR ''-'' \<or> c = CHR ''_''"

text \<open>One migrator run on the open database.\<close>

definition run_migrator ::
  "('d \<Rightarrow> string + 'd) option \<Rightarrow> string \<Rightarrow> 'd DbManager \<Rightarrow> (DbManagerError + unit) \<times> 'd DbManager" where
  "run_migrator migrator dir m =
     (case migrator of
        None \<Rightarrow> (Inr (), m)
      | Some run \<Rightarrow>
          (case db_fault m of
             (Some e, m') \<Rightarrow> (Inl (Db_Migrate e), m')
           | (None, m') \<Rightarrow>
               (case run (case dm_dirs m' dir of Some (Some d) \<Rightarrow> d | _ \<Rightarrow> dm_empty_db m') of
                  Inl e \<Rightarrow> (Inl (Db_Migrate e), m')
                | Inr d \<Rightarrow> (Inr (), m'\<lparr>dm_dirs := (dm_dirs m')(dir \<mapsto> Some d)\<rparr>))))"

text \<open>Closing the pool and removing the directory of the user who was active.\<close>

definition leave_prior :: "'d DbManager \<Rightarrow> (DbManagerError + unit) \<times> 'd DbManager" where
  "leave_prior m =
     (let m1 = m\<lparr>dm_pool := None\<rparr>
      in case dm_user_id m1 of
           None \<Rightarrow> (Inr (), m1)
         | Some prior \<Rightarrow>
             (let m2 = m1\<lparr>dm_user_id := None\<rparr>
              in case dm_dirs m2 prior of
                   None \<Rightarrow> (Inr (), m2)
                 | Some _ \<Rightarrow>
                     (case db_fault m2 of
                        (Some e, m3) \<Rightarrow> (Inl (Db_Io e), m3)
                      | (None, m3) \<Rightarrow> (Inr (), m3\<lparr>dm_dirs := (dm_dirs m3)(prior := None)\<rparr>))))"

text \<open>Creating the directory and opening the database in it.\<close>

definition open_database :: "string \<Rightarrow> 'd DbManager \<Rightarrow> (DbManagerError + unit) \<times> 'd DbManager" where
  "open_database user_id m =
     (case db_fault m of
        (Some e, m1) \<Rightarrow> (Inl (Db_Io e), m1)
      | (None, m1) \<Rightarrow>
          (let m2 = m1\<lparr>dm_dirs := (dm_dirs m1)(user_id \<mapsto> unwrap_or None (dm_dirs m1 user_id))\<rparr>
           in case db_fault m2 of
                (Some e, m3) \<Rightarrow> (Inl (Db_Sqlx e), m3)
              | (None, m3) \<Rightarrow>
                  (Inr (), m3\<lparr>dm_dirs := (dm_dirs m3)(user_id \<mapsto>
                     Some (unwrap_or (dm_empty_db m3) (unwrap_or None (dm_dirs m3 user_id))))\<rparr>)))"

definition manager_switch_user ::
  "string \<Rightarrow> 'd DbManager \<Rightarrow> (DbManagerError + unit) \<times> 'd DbManager" where
  "manager_switch_user user_id m =
     (if dm_user_id m = Some user_id then (Inr (), m)
      else
        (case leave_prior m of
           (Inl e, m1) \<Rightarrow> (Inl e, m1)
         | (Inr _, m1) \<Rightarrow>
             (if user_id = [] then (Inr (), m1\<lparr>dm_user_id := None, dm_pool := None\<rparr>)
              else if \<not> list_all user_id_char user_id then (Inl (InvalidUserId user_id), m1)
              else
                (case open_database user_id m1 of
                   (Inl e, m2) \<Rightarrow> (Inl e, m2)
                 | (Inr _, m2) \<Rightarrow>
                     (case run_migrator (dm_polybase_migrator m2) user_id m2 of
                        (Inl e, m3) \<Rightarrow> (Inl e, m3)
                      | (Inr _, m3) \<Rightarrow>
                          (case run_migrator (dm_app_migrator m3) user_id m3 of
                             (Inl e, m4) \<Rightarrow> (Inl e, m4)
                           | (Inr _, m4) \<Rightarrow>
                               (Inr (), m4\<lparr>dm_user_id := Some user_id, dm_pool := Some user_id\<rparr>)))))))"

section \<open>What each step touches\<close>

lemma db_fault_alt:
  "db_fault m = (fst (take_fault (dm_faults m)), m\<lparr>dm_faults := snd (take_fault (dm_faults m))\<rparr>)"
  by (simp add: db_fault_def split: prod.split)

lemma run_migrator_frame:
  assumes "run_migrator mg dir m = (r, m')"
  shows "dm_user_id m' = dm_user_id m" "dm_pool m' = dm_pool m"
    "k \<noteq> dir \<Longrightarrow> dm_dirs m' k = dm_dirs m k" "dm_dirs m dir \<noteq> None \<Longrightarrow> dm_dirs m' dir \<noteq> None"
    "\<And>k. dm_dirs m' k \<noteq> None \<Longrightarrow> dm_dirs m k \<noteq> None \<or> k = dir"
  using assms
  by (auto simp: run_migrator_def db_fault_alt split: option.splits prod.splits sum.splits)

lemma leave_prior_frame:
  assumes "leave_prior m = (r, m')"
  shows "dm_user_id m' = None" "dm_pool m' = None" "k \<notin> set_option (dm_user_id m) \<Longrightarrow> dm_dirs m' k = dm_dirs m k"
    "r = Inr () \<Longrightarrow> dm_user_id m = Some prior \<Longrightarrow> dm_dirs m' prior = None"
    "\<And>k. dm_dirs m' k \<noteq> None \<Longrightarrow> dm_dirs m k \<noteq> None"
  using assms
  by (auto simp: leave_prior_def Let_def db_fault_alt split: option.splits prod.splits if_splits)

lemma open_database_frame:
  assumes "open_database u m = (r, m')"
  shows "dm_user_id m' = dm_user_id m" "dm_pool m' = dm_pool m"
    "k \<noteq> u \<Longrightarrow> dm_dirs m' k = dm_dirs m k" "r = Inr () \<Longrightarrow> dm_dirs m' u \<noteq> None"
    "\<And>k. dm_dirs m' k \<noteq> None \<Longrightarrow> dm_dirs m k \<noteq> None \<or> k = u"
  using assms
  by (auto simp: open_database_def Let_def db_fault_alt split: option.splits prod.splits if_splits)

lemmas manager_frames = leave_prior_frame open_database_frame run_migrator_frame

section \<open>Switching users\<close>

lemma manager_switch_cases:
  assumes "manager_switch_user u m = (r, m')"
  obtains (same) "dm_user_id m = Some u" "r = Inr ()" "m' = m"
  | (leave) e where "dm_user_id m \<noteq> Some u" "leave_prior m = (Inl e, m')" "r = Inl e"
  | (out) m1 where "dm_user_id m \<noteq> Some u" "leave_prior m = (Inr (), m1)" "u = []" "r = Inr ()"
      "m' = m1\<lparr>dm_user_id := None, dm_pool := None\<rparr>"
  | (invalid) "dm_user_id m \<noteq> Some u" "leave_prior m = (Inr (), m')" "\<not> list_all user_id_char u"
      "r = Inl (InvalidUserId u)"
  | (fail) m1 e where "dm_user_id m \<noteq> Some u" "leave_prior m = (Inr (), m1)"
      "list_all user_id_char u" "u \<noteq> []"
      "dm_user_id m' = None" "dm_pool m' = None" "r = Inl e" "\<And>k. k \<noteq> u \<Longrightarrow> dm_dirs m' k = dm_dirs m1 k"
  | (switch) m1 where "dm_user_id m \<noteq> Some u" "leave_prior m = (Inr (), m1)"
      "list_all user_id_char u" "u \<noteq> []" "r = Inr ()"
      "dm_user_id m' = Some u" "dm_pool m' = Some u" "dm_dirs m' u \<noteq> None"
      "\<And>k. k \<noteq> u \<Longrightarrow> dm_dirs m' k = dm_dirs m1 k"
proof (cases "dm_user_id m = Some u")
  case True
  then show ?thesis using same assms by (simp add: manager_switch_user_def)
next
  case ne: False
  obtain r1 m1 where l: "leave_prior m = (r1, m1)" by (cases "leave_prior m")
  note lf = leave_prior_frame(1,2) [OF l]
  show ?thesis
  proof (cases r1)
    case (Inl e)
    then show ?thesis using leave [of e] ne l assms by (simp add: manager_switch_user_def)
  next
    case (Inr x)
    then have l: "leave_prior m = (Inr (), m1)" using l by simp
    consider "u = []" | "u \<noteq> []" "\<not> list_all user_id_char u" | "u \<noteq> []" "list_all user_id_char u" by blast
    then show ?thesis
    proof cases
      case 1
      then show ?thesis using out [OF ne l] l ne assms by (simp add: manager_switch_user_def)
    next
      case 2
      then show ?thesis using invalid [OF ne] l ne assms by (simp add: manager_switch_user_def)
    next
      case 3
      obtain r2 m2 where o: "open_database u m1 = (r2, m2)" by (cases "open_database u m1")
      obtain r3 m3 where g: "run_migrator (dm_polybase_migrator m2) u m2 = (r3, m3)"
        by (cases "run_migrator (dm_polybase_migrator m2) u m2")
      obtain r4 m4 where h: "run_migrator (dm_app_migrator m3) u m3 = (r4, m4)"
        by (cases "run_migrator (dm_app_migrator m3) u m3")
      note sw = manager_switch_user_def ne l 3 o g h
      note fr = open_database_frame [OF o] run_migrator_frame [OF g] run_migrator_frame [OF h]
      show ?thesis
      proof (cases "r2 = Inr () \<and> r3 = Inr () \<and> r4 = Inr ()")
        case True
        then have "m' = m4\<lparr>dm_user_id := Some u, dm_pool := Some u\<rparr>" "r = Inr ()"
          using assms by (simp_all add: sw)
        then show ?thesis using switch [OF ne l 3(2,1)] fr True by simp
      next
        case False
        then have "\<exists>e. r = Inl e \<and> m' \<in> {m2, m3, m4}"
          using assms by (auto simp: sw split: sum.splits)
        then show ?thesis using fail [OF ne l 3(2,1)] fr lf by auto
      qed
    qed
  qed
qed

text \<open>
  C7: switching users. When the switch to a named user succeeds, that user is the active one and
  the pool is open on the user's own, existing directory; the directory of the user who was
  active before is gone, and no other directory was touched. Under every outcome, failures
  included, the pool belongs to the active user and to nobody else.
\<close>

theorem switch_user_isolation:
  assumes "dm_pool m = dm_user_id m" and "manager_switch_user u m = (r, m')"
  shows "dm_pool m' = dm_user_id m' \<and> dm_user_id m' \<in> {None, Some u, dm_user_id m}
     \<and> (r = Inr () \<longrightarrow> (u \<noteq> [] \<longrightarrow> dm_user_id m' = Some u) \<and> (u = [] \<longrightarrow> dm_user_id m \<noteq> Some [] \<longrightarrow> dm_user_id m' = None)
          \<and> (dm_user_id m = Some prior \<longrightarrow> prior \<noteq> u \<longrightarrow> dm_dirs m' prior = None)
          \<and> (other \<noteq> u \<longrightarrow> Some other \<noteq> dm_user_id m \<longrightarrow> dm_dirs m' other = dm_dirs m other))"
  using assms(2)
proof (cases rule: manager_switch_cases)
  case same
  then show ?thesis using assms(1) by auto
next
  case (leave e)
  then show ?thesis using leave_prior_frame(1,2) [OF leave(2)] by simp
next
  case (out m1)
  then show ?thesis
    using leave_prior_frame(1,2) [OF out(2)] leave_prior_frame(3) [OF out(2), of other]
      leave_prior_frame(4) [OF out(2) refl, of prior] by auto
next
  case invalid
  then show ?thesis using leave_prior_frame(1,2) [OF invalid(2)] by simp
next
  case (fail m1 e)
  then show ?thesis by simp
next
  case (switch m1)
  then show ?thesis
    using leave_prior_frame(3) [OF switch(2), of other] leave_prior_frame(4) [OF switch(2) refl, of prior]
    by auto
qed

definition fresh_manager :: "QueueRow list DbManager" where
  "fresh_manager = \<lparr>dm_user_id = None, dm_pool = None, dm_dirs = Map.empty, dm_empty_db = [],
     dm_polybase_migrator = Some (\<lambda>d. Inr d), dm_app_migrator = None, dm_faults = []\<rparr>"

lemmas manager_simps = manager_switch_user_def leave_prior_def open_database_def run_migrator_def
  db_fault_def take_fault_def user_id_char_def fresh_manager_def

theorem switch_user_isolation_witness:
  "dm_dirs (snd (manager_switch_user ''bob'' (snd (manager_switch_user ''alice'' fresh_manager)))) ''alice'' = None
   \<and> dm_user_id (snd (manager_switch_user ''bob'' (snd (manager_switch_user ''alice'' fresh_manager)))) = Some ''bob''"
proof -
  let ?a = "snd (manager_switch_user ''alice'' fresh_manager)"
  have a: "dm_user_id ?a = Some ''alice''" "dm_pool ?a = Some ''alice''"
    by (simp_all add: manager_simps Let_def)
  have ok: "dm_pool ?a = dm_user_id ?a" using a by simp
  have r: "manager_switch_user ''bob'' ?a = (Inr (), snd (manager_switch_user ''bob'' ?a))"
    by (simp add: manager_simps Let_def)
  from switch_user_isolation [OF ok r, of "''alice''" "''carol''"] a(1) show ?thesis by simp
qed

text \<open>A history of switches.\<close>

definition switch_all :: "string list \<Rightarrow> 'd DbManager \<Rightarrow> 'd DbManager" where
  "switch_all us m = fold (\<lambda>u m. snd (manager_switch_user u m)) us m"

text \<open>Only the active user's directory is on disk.\<close>

definition only_active :: "'d DbManager \<Rightarrow> bool" where
  "only_active m \<longleftrightarrow> dm_pool m = dm_user_id m \<and> dm_user_id m \<noteq> Some []
     \<and> (\<forall>k. dm_dirs m k \<noteq> None \<longrightarrow> dm_user_id m = Some k)"

definition reliable :: "'d DbManager \<Rightarrow> bool" where
  "reliable m \<longleftrightarrow> dm_faults m = []
     \<and> (\<forall>f \<in> set_option (dm_polybase_migrator m) \<union> set_option (dm_app_migrator m). \<forall>d. \<exists>d'. f d = Inr d')"

lemma reliable_run_migrator:
  assumes "reliable m" and "mg = dm_polybase_migrator m \<or> mg = dm_app_migrator m"
  obtains m' where "run_migrator mg u m = (Inr (), m')" "reliable m'"
proof (cases mg)
  case None
  then show ?thesis using that assms(1) by (simp add: run_migrator_def)
next
  case (Some f)
  let ?m = "m\<lparr>dm_faults := []\<rparr>"
  have f0: "dm_faults m = []" using assms(1) by (simp add: reliable_def)
  then have m: "?m = m" by simp
  let ?d = "case dm_dirs m u of Some (Some d) \<Rightarrow> d | _ \<Rightarrow> dm_empty_db m"
  have "\<exists>d'. f ?d = Inr d'" using assms Some unfolding reliable_def by auto
  then obtain d' where d: "f ?d = Inr d'" ..
  have flt: "db_fault m = (None, m)" using f0 m by (simp add: db_fault_alt take_fault_def)
  have "run_migrator mg u m = (Inr (), m\<lparr>dm_dirs := (dm_dirs m)(u \<mapsto> Some d')\<rparr>)"
    using Some d by (simp add: run_migrator_def flt)
  moreover have "reliable (m\<lparr>dm_dirs := (dm_dirs m)(u \<mapsto> Some d')\<rparr>)"
    using assms(1) by (simp add: reliable_def)
  ultimately show ?thesis by (rule that)
qed

lemma reliable_leave:
  assumes "reliable m"
  obtains m1 where "leave_prior m = (Inr (), m1)" "reliable m1"
proof -
  have f0: "dm_faults m = []" using assms by (simp add: reliable_def)
  obtain r1 m1 where l: "leave_prior m = (r1, m1)" by (cases "leave_prior m")
  have "r1 = Inr () \<and> reliable m1"
    using l assms f0
    by (auto simp: leave_prior_def Let_def db_fault_alt take_fault_def reliable_def split: option.splits)
  then show ?thesis using that l by simp
qed

lemma reliable_switch:
  assumes "reliable m" and "only_active m"
  shows "reliable (snd (manager_switch_user u m)) \<and> only_active (snd (manager_switch_user u m))"
proof -
  obtain r m' where s: "manager_switch_user u m = (r, m')" by (cases "manager_switch_user u m")
  obtain m1 where l: "leave_prior m = (Inr (), m1)" and rel: "reliable m1"
    using reliable_leave [OF assms(1)] by blast
  obtain m2 where o: "open_database u m1 = (Inr (), m2)" "reliable m2"
    using rel by (auto simp: open_database_def Let_def reliable_def db_fault_def take_fault_def)
  obtain m3 where g: "run_migrator (dm_polybase_migrator m2) u m2 = (Inr (), m3)" "reliable m3"
    using reliable_run_migrator [OF o(2)] by blast
  obtain m4 where h: "run_migrator (dm_app_migrator m3) u m3 = (Inr (), m4)" "reliable m4"
    using reliable_run_migrator [OF g(2)] by blast
  have rel': "reliable m'"
    using s l rel o g h assms(1) by (auto simp: manager_switch_user_def reliable_def split: if_splits)
  have no_dirs: "dm_dirs m1 k = None" for k
    using leave_prior_frame(4) [OF l refl, of k] leave_prior_frame(5) [OF l, of k] assms(2)
    by (cases "dm_dirs m1 k") (auto simp: only_active_def)
  from s have "only_active m'"
  proof (cases rule: manager_switch_cases)
    case same
    then show ?thesis using assms(2) by simp
  next
    case (leave e)
    then show ?thesis using l by simp
  next
    case (out m1')
    then show ?thesis using l no_dirs by (simp add: only_active_def)
  next
    case invalid
    then show ?thesis using l no_dirs leave_prior_frame(1,2) [OF l] by (simp add: only_active_def)
  next
    case (fail m1' e)
    then show ?thesis using s l o g h by (auto simp: manager_switch_user_def)
  next
    case (switch m1')
    then show ?thesis using l no_dirs by (auto simp: only_active_def) (metis option.distinct(1))
  qed
  with s rel' show ?thesis by simp
qed

text \<open>
  One user's data on disk. On a file system that reports no error, after any history of
  sign-ins, account switches, sign-outs and rejected user ids, the only directory under the root
  is that of the active user.
\<close>

theorem only_active_user_on_disk:
  assumes "reliable m" and "only_active m"
  shows "only_active (switch_all us m)"
proof -
  have "reliable (switch_all us m) \<and> only_active (switch_all us m)"
    using assms by (induction us arbitrary: m) (auto simp: switch_all_def reliable_switch)
  then show ?thesis by simp
qed

theorem only_active_user_on_disk_witness:
  "only_active (switch_all [''alice'', ''bob'', ''../x'', ''carol'', []] fresh_manager)"
proof (rule only_active_user_on_disk)
  show "reliable fresh_manager" by (simp add: reliable_def fresh_manager_def)
  show "only_active fresh_manager" by (simp add: only_active_def fresh_manager_def)
qed

text \<open>
  A failed wipe is not retried. When removing the previous user's directory fails, the switch
  reports the error and forgets the user; the next successful switch leaves that user's data on
  disk.
\<close>

theorem failed_wipe_forgotten:
  assumes "dm_user_id m = Some a" and "dm_dirs m a = Some d" and "take_fault (dm_faults m) = (Some e, fs)"
    and "a \<noteq> b" and "manager_switch_user b m = (r1, m1)" and "manager_switch_user b m1 = (Inr (), m2)"
    and "b \<noteq> []"
  shows "r1 = Inl (Db_Io e) \<and> dm_user_id m2 = Some b \<and> dm_dirs m2 a = Some d"
proof -
  have m1: "r1 = Inl (Db_Io e)" "dm_user_id m1 = None" "dm_dirs m1 a = Some d"
    using assms(1-5) by (auto simp: manager_switch_user_def leave_prior_def Let_def db_fault_def)
  from assms(6) show ?thesis
  proof (cases rule: manager_switch_cases)
    case (switch m3)
    then show ?thesis using m1 assms(4) leave_prior_frame(3) [OF switch(2), of a] by simp
  qed (use m1 assms(7) in auto)
qed

theorem failed_wipe_forgotten_witness:
  "dm_dirs (snd (manager_switch_user ''b'' (snd (manager_switch_user ''b''
     (fresh_manager\<lparr>dm_user_id := Some ''a'', dm_pool := Some ''a'', dm_dirs := [''a'' \<mapsto> Some []],
        dm_faults := [Some ''busy'']\<rparr>))))) ''a'' = Some (Some [])"
proof -
  let ?m = "fresh_manager\<lparr>dm_user_id := Some ''a'', dm_pool := Some ''a'', dm_dirs := [''a'' \<mapsto> Some []],
        dm_faults := [Some ''busy'']\<rparr>"
  let ?m1 = "snd (manager_switch_user ''b'' ?m)" and ?r1 = "fst (manager_switch_user ''b'' ?m)"
  have r: "manager_switch_user ''b'' ?m1 = (Inr (), snd (manager_switch_user ''b'' ?m1))"
    by (simp add: manager_simps Let_def)
  show ?thesis
    using failed_wipe_forgotten [of ?m "''a''" "Some []" "''busy''" "[]" "''b''" ?r1 ?m1, OF _ _ _ _ _ r]
    by (simp add: fresh_manager_def take_fault_def)
qed

end
