(* ===== verification/Events.thy ===== *)
theory Events
  imports Reconcile
begin

text \<open>
  \<open>crates/polybase/src/events.rs\<close>: what the runtime publishes. The broadcast channel is
  the list of events published so far; lagging and absent subscribers lose events but never
  disturb the publisher.
\<close>

datatype SessionChangeKind = Change_UserChanged | Change_CredentialsRefreshed | Change_Cleared

datatype RealtimeOp = Op_Insert | Op_Update | Op_Delete

datatype ReconcilePhase = Phase_Started | Phase_Completed | Phase_Failed

datatype PolyEvent =
    SessionChanged "string option" SessionChangeKind
  | RealtimeChanged string string RealtimeOp
  | OfflineQueueChanged nat bool
  | ReconcileProgress string ReconcilePhase "ReconcileActionCounts option"
  | PullProgress string nat bool
  | KvsChanged string string bool
  | VersionRegressionDetected string string

type_synonym EventBus = "PolyEvent list"

definition publish :: "PolyEvent \<Rightarrow> EventBus \<Rightarrow> EventBus" where
  "publish event bus = bus @ [event]"

text \<open>What a receiver is told: a value, that it lagged behind the channel, or that all senders are gone.\<close>

datatype 'a bus_recv = Received 'a | Lagged nat | Bus_closed

end
