(* ===== verification/Auth.thy ===== *)
theory Auth
  imports Events Edge
begin

text \<open>
  \<open>crates/polybase/src/auth.rs\<close>: the session store and the refresh of its tokens. The store
  record holds what the \<open>Arc\<close> shares: the session, the cooldown, the refresh in flight, the
  watermark counter; the calls of the user-change hook and the published events are traces.
  Clock readings are arguments: seconds of the system clock, instants in milliseconds. The calls
  as tasks that yield at their awaits are in \<open>Refresh\<close>.
\<close>

definition REFRESH_COOLDOWN :: nat where
  "REFRESH_COOLDOWN = 30000"

record SessionPayload =
  sp_user_id :: string
  sp_access_token :: string
  sp_refresh_token :: string
  sp_expires_at :: i64
  sp_updated_at :: u64

record EnsureFreshResult =
  efr_session :: SessionPayload
  efr_refreshed :: bool

datatype SessionMutationKind = Noop | CredentialsRefreshed | UserChanged | Cleared

record SessionMutation =
  sm_kind :: SessionMutationKind
  sm_updated_at :: u64

fun into_event_kind :: "SessionMutationKind \<Rightarrow> SessionChangeKind option" where
  "into_event_kind Noop = None"
| "into_event_kind CredentialsRefreshed = Some Change_CredentialsRefreshed"
| "into_event_kind UserChanged = Some Change_UserChanged"
| "into_event_kind Cleared = Some Change_Cleared"

record SessionStore =
  ss_session :: "SessionPayload option"
  ss_last_failure_at :: "nat option"
  ss_refresh_in_flight :: "nat option"
  ss_update_counter :: u64
  ss_has_hook :: bool
  ss_hook_calls :: "string option list"
  ss_events :: EventBus

definition session_store_new :: SessionStore where
  "session_store_new =
     \<lparr>ss_session = None, ss_last_failure_at = None, ss_refresh_in_flight = None, ss_update_counter = 1,
      ss_has_hook = False, ss_hook_calls = [], ss_events = []\<rparr>"

definition on_user_changed :: "SessionStore \<Rightarrow> SessionStore" where
  "on_user_changed s = s\<lparr>ss_has_hook := True\<rparr>"

definition fire_user_change_hook :: "string option \<Rightarrow> SessionStore \<Rightarrow> SessionStore" where
  "fire_user_change_hook new_user s =
     (if ss_has_hook s then s\<lparr>ss_hook_calls := ss_hook_calls s @ [new_user]\<rparr> else s)"

definition publish_session :: "PolyEvent \<Rightarrow> SessionStore \<Rightarrow> SessionStore" where
  "publish_session event s = s\<lparr>ss_events := publish event (ss_events s)\<rparr>"

definition session_matches :: "SessionPayload \<Rightarrow> SessionPayload \<Rightarrow> bool" where
  "session_matches l r \<longleftrightarrow>
     sp_user_id l = sp_user_id r \<and> sp_access_token l = sp_access_token r
     \<and> sp_refresh_token l = sp_refresh_token r \<and> sp_expires_at l = sp_expires_at r"

section \<open>Setting and clearing\<close>

definition set_session :: "SessionPayload \<Rightarrow> SessionStore \<Rightarrow> SessionMutation \<times> SessionStore" where
  "set_session payload s =
     (case ss_session s of
        Some current \<Rightarrow>
          (if session_matches current payload
           then (\<lparr>sm_kind = Noop, sm_updated_at = sp_updated_at current\<rparr>, s)
           else
             (let kind = (if sp_user_id current = sp_user_id payload then CredentialsRefreshed else UserChanged);
                  assigned = ss_update_counter s;
                  s1 = s\<lparr>ss_update_counter := assigned + 1, ss_session := Some (payload\<lparr>sp_updated_at := assigned\<rparr>)\<rparr>;
                  s2 = (if kind = UserChanged then fire_user_change_hook (Some (sp_user_id payload)) s1 else s1);
                  s3 = (case into_event_kind kind of None \<Rightarrow> s2
                        | Some event_kind \<Rightarrow> publish_session (SessionChanged (Some (sp_user_id payload)) event_kind) s2)
              in (\<lparr>sm_kind = kind, sm_updated_at = assigned\<rparr>, s3)))
      | None \<Rightarrow>
          (let assigned = ss_update_counter s;
               s1 = s\<lparr>ss_update_counter := assigned + 1, ss_session := Some (payload\<lparr>sp_updated_at := assigned\<rparr>)\<rparr>;
               s2 = fire_user_change_hook (Some (sp_user_id payload)) s1
           in (\<lparr>sm_kind = UserChanged, sm_updated_at = assigned\<rparr>,
               publish_session (SessionChanged (Some (sp_user_id payload)) Change_UserChanged) s2)))"

text \<open>
  \<open>clear_session\<close> in two halves: the second begins when it has the lock of
  \<open>refresh_in_flight\<close>, which another task may hold for long.
\<close>

definition clear_begin :: "SessionStore \<Rightarrow> bool \<times> SessionStore" where
  "clear_begin s = (ss_session s \<noteq> None, s\<lparr>ss_session := None, ss_last_failure_at := None\<rparr>)"

definition clear_end :: "bool \<Rightarrow> SessionStore \<Rightarrow> SessionMutation \<times> SessionStore" where
  "clear_end had_session s =
     (let s1 = s\<lparr>ss_refresh_in_flight := None\<rparr>
      in if had_session then
           (\<lparr>sm_kind = Cleared, sm_updated_at = 0\<rparr>,
            publish_session (SessionChanged None Change_Cleared) (fire_user_change_hook None s1))
         else (\<lparr>sm_kind = Noop, sm_updated_at = 0\<rparr>, s1))"

definition clear_session :: "SessionStore \<Rightarrow> SessionMutation \<times> SessionStore" where
  "clear_session s = (case clear_begin s of (had_session, s1) \<Rightarrow> clear_end had_session s1)"

definition current_user_id :: "SessionStore \<Rightarrow> string option" where
  "current_user_id s = map_option sp_user_id (ss_session s)"

definition current_updated_at :: "SessionStore \<Rightarrow> u64" where
  "current_updated_at s = unwrap_or 0 (map_option sp_updated_at (ss_session s))"

definition is_session_valid :: "u64 \<Rightarrow> SessionStore \<Rightarrow> bool" where
  "is_session_valid min_updated_at s \<longleftrightarrow>
     unwrap_or False (map_option (\<lambda>p. min_updated_at \<le> sp_updated_at p) (ss_session s))"

section \<open>Expiry\<close>

definition i64_saturating_add :: "i64 \<Rightarrow> i64 \<Rightarrow> i64" where
  "i64_saturating_add a b = word_of_int (max (- (2 ^ 63)) (min (2 ^ 63 - 1) (sint a + sint b)))"

text \<open>\<open>min_valid_for.as_secs() as i64\<close>: the seconds of a duration are a \<open>u64\<close>.\<close>

definition session_expires_within :: "i64 \<Rightarrow> SessionPayload \<Rightarrow> u64 \<Rightarrow> bool" where
  "session_expires_within now session min_valid_for =
     i64_le (sp_expires_at session) (i64_saturating_add now min_valid_for)"

definition has_unexpired_session :: "i64 \<Rightarrow> SessionStore \<Rightarrow> bool" where
  "has_unexpired_session now s \<longleftrightarrow>
     unwrap_or False (map_option (\<lambda>p. \<not> session_expires_within now p 0) (ss_session s))"

definition is_permanent_refresh_failure :: "string \<Rightarrow> bool" where
  "is_permanent_refresh_failure message \<longleftrightarrow>
     contains_sub message ''refresh_token_already_used'' \<or> contains_sub message ''invalid_grant''
     \<or> contains_sub message ''Invalid Refresh Token''"

section \<open>The refresh request\<close>

definition refresh_request :: "net_env \<Rightarrow> SessionPayload \<Rightarrow> http_request" where
  "refresh_request env session =
     \<lparr>req_method = POST, req_url = auth_url (ne_config env) ''token'' @ ''?grant_type=refresh_token'',
      req_headers = [(''apikey'', supabase_anon_key (ne_config env))], req_query = [],
      req_body = Some (JObject [(''refresh_token'', JString (sp_refresh_token session))])\<rparr>"

record RefreshSessionResponse =
  rr_access_token :: string
  rr_refresh_token :: "string option"
  rr_expires_at :: "i64 option"
  rr_expires_in :: "i64 option"
  rr_user :: "string option"

definition refresh_response_from_json :: "json \<Rightarrow> RefreshSessionResponse option" where
  "refresh_response_from_json v =
     (case v of
        JObject m \<Rightarrow>
          (case (get_str m ''access_token'', opt_field as_str m ''refresh_token'',
                 opt_field as_i64 m ''expires_at'', opt_field as_i64 m ''expires_in'',
                 opt_field (\<lambda>u. Option.bind (as_object u) (\<lambda>o'. get_str o' ''id'')) m ''user'') of
             (Some a, Some r, Some x, Some n, Some u) \<Rightarrow>
               Some \<lparr>rr_access_token = a, rr_refresh_token = r, rr_expires_at = x, rr_expires_in = n, rr_user = u\<rparr>
           | _ \<Rightarrow> None)
      | _ \<Rightarrow> None)"

definition refreshed_payload :: "i64 \<Rightarrow> SessionPayload \<Rightarrow> RefreshSessionResponse \<Rightarrow> SessionPayload" where
  "refreshed_payload now session p =
     \<lparr>sp_user_id = unwrap_or (sp_user_id session) (case rr_user p of Some i \<Rightarrow> (if i \<noteq> [] then Some i else None) | None \<Rightarrow> None),
      sp_access_token = rr_access_token p,
      sp_refresh_token = unwrap_or (sp_refresh_token session) (rr_refresh_token p),
      sp_expires_at = unwrap_or (i64_saturating_add now 3600)
        (or_else (rr_expires_at p) (map_option (i64_saturating_add now) (rr_expires_in p))),
      sp_updated_at = 0\<rparr>"

definition refresh_failure :: "http_response \<Rightarrow> PolyError" where
  "refresh_failure resp =
     (let body = text_or_default resp;
          message = (if trim body = [] then ''HTTP '' @ dec (resp_status resp)
                     else ''HTTP '' @ dec (resp_status resp) @ '': '' @ trim body)
      in Poly_Other (''session refresh failed: '' @ message))"

definition refresh_payload ::
  "net_env \<Rightarrow> i64 \<Rightarrow> SessionPayload \<Rightarrow> network \<Rightarrow> (PolyError + SessionPayload) \<times> network" where
  "refresh_payload env now session n =
     (case net_send env (refresh_request env session) n of
        (Inl err, n') \<Rightarrow> (Inl (Poly_Http err), n')
      | (Inr resp, n') \<Rightarrow>
          (if \<not> status_success (resp_status resp) then (Inl (refresh_failure resp), n')
           else
             (case resp_json (ne_codec env) resp of
                Inl err \<Rightarrow> (Inl (Poly_Http err), n')
              | Inr v \<Rightarrow>
                  (case refresh_response_from_json v of
                     None \<Rightarrow> (Inl (Poly_Http ''error decoding response body''), n')
                   | Some p \<Rightarrow> (Inr (refreshed_payload now session p), n')))))"

text \<open>The value \<open>perform_refresh\<close> returns once the new session is stored.\<close>

definition refresh_outcome :: "SessionPayload \<Rightarrow> SessionMutation \<Rightarrow> SessionStore \<Rightarrow> EnsureFreshResult option" where
  "refresh_outcome payload mutation s =
     Some \<lparr>efr_session = unwrap_or payload (ss_session s),
           efr_refreshed = (sm_kind mutation = CredentialsRefreshed)\<rparr>"

section \<open>The store\<close>

lemma fire_user_change_hook_simps [simp]:
  "ss_session (fire_user_change_hook u s) = ss_session s"
  "ss_update_counter (fire_user_change_hook u s) = ss_update_counter s"
  "ss_refresh_in_flight (fire_user_change_hook u s) = ss_refresh_in_flight s"
  "ss_last_failure_at (fire_user_change_hook u s) = ss_last_failure_at s"
  "ss_has_hook (fire_user_change_hook u s) = ss_has_hook s"
  "ss_events (fire_user_change_hook u s) = ss_events s"
  by (simp_all add: fire_user_change_hook_def)

lemma publish_session_simps [simp]:
  "ss_session (publish_session e s) = ss_session s"
  "ss_update_counter (publish_session e s) = ss_update_counter s"
  "ss_refresh_in_flight (publish_session e s) = ss_refresh_in_flight s"
  "ss_last_failure_at (publish_session e s) = ss_last_failure_at s"
  "ss_has_hook (publish_session e s) = ss_has_hook s"
  "ss_hook_calls (publish_session e s) = ss_hook_calls s"
  "ss_events (publish_session e s) = ss_events s @ [e]"
  by (simp_all add: publish_session_def publish_def)

lemma set_session_flight [simp]:
  "ss_refresh_in_flight (snd (set_session p s)) = ss_refresh_in_flight s"
  "ss_has_hook (snd (set_session p s)) = ss_has_hook s"
  by (auto simp: set_session_def Let_def split: option.split)

lemmas clear_defs = clear_session_def clear_begin_def clear_end_def

lemma clear_session_simps [simp]:
  "ss_session (snd (clear_session s)) = None" "ss_refresh_in_flight (snd (clear_session s)) = None"
  "ss_update_counter (snd (clear_session s)) = ss_update_counter s"
  "ss_has_hook (snd (clear_session s)) = ss_has_hook s"
  by (simp_all add: clear_defs Let_def)

text \<open>A mutation gives the session the next watermark; a no-op leaves the store alone.\<close>

lemma set_session_cases:
  obtains (noop) cur where "ss_session s = Some cur" "session_matches cur p"
      "set_session p s = (\<lparr>sm_kind = Noop, sm_updated_at = sp_updated_at cur\<rparr>, s)"
  | (mutated) k s' where "set_session p s = (\<lparr>sm_kind = k, sm_updated_at = ss_update_counter s\<rparr>, s')"
      "ss_session s' = Some (p\<lparr>sp_updated_at := ss_update_counter s\<rparr>)"
      "ss_update_counter s' = ss_update_counter s + 1"
      "k = (if current_user_id s = Some (sp_user_id p) then CredentialsRefreshed else UserChanged)"
      "ss_hook_calls s' = ss_hook_calls s @
         (if ss_has_hook s \<and> current_user_id s \<noteq> Some (sp_user_id p) then [Some (sp_user_id p)] else [])"
      "ss_events s' = ss_events s @ [SessionChanged (Some (sp_user_id p)) (the (into_event_kind k))]"
proof (cases "ss_session s")
  case None
  then show ?thesis
    by (intro mutated [of UserChanged "snd (set_session p s)"])
      (simp_all add: set_session_def Let_def current_user_id_def fire_user_change_hook_def)
next
  case (Some cur)
  show ?thesis
  proof (cases "session_matches cur p")
    case True
    then show ?thesis using noop Some by (simp add: set_session_def)
  next
    case False
    then show ?thesis using Some
      by (intro mutated [of "if sp_user_id cur = sp_user_id p then CredentialsRefreshed else UserChanged"
              "snd (set_session p s)"])
        (auto simp: set_session_def Let_def current_user_id_def fire_user_change_hook_def)
  qed
qed

text \<open>A history of sign-ins and sign-outs.\<close>

datatype session_op = Set_session SessionPayload | Clear_session

fun session_run :: "session_op list \<Rightarrow> SessionStore \<Rightarrow> SessionStore" where
  "session_run [] s = s"
| "session_run (Set_session p # ops) s = session_run ops (snd (set_session p s))"
| "session_run (Clear_session # ops) s = session_run ops (snd (clear_session s))"

text \<open>As long as the counter has not wrapped it is ahead of every watermark given out.\<close>

definition watermark_ok :: "SessionStore \<Rightarrow> bool" where
  "watermark_ok s \<longleftrightarrow> (\<forall>p. ss_session s = Some p \<longrightarrow> sp_updated_at p < ss_update_counter s)"

lemma u64_inc: "unat (c :: u64) + 1 < 2 ^ 64 \<Longrightarrow> unat (c + 1) = unat c + 1"
  using unat_add_lem [of c 1] by simp

lemma set_session_watermark:
  assumes "unat (ss_update_counter s) + 1 < 2 ^ 64" and "watermark_ok s"
  shows "watermark_ok (snd (set_session p s))" and "ss_update_counter s \<le> ss_update_counter (snd (set_session p s))"
    and "unat (ss_update_counter (snd (set_session p s))) \<le> unat (ss_update_counter s) + 1"
proof -
  note inc = u64_inc [OF assms(1)]
  show "watermark_ok (snd (set_session p s))" and "ss_update_counter s \<le> ss_update_counter (snd (set_session p s))"
    and "unat (ss_update_counter (snd (set_session p s))) \<le> unat (ss_update_counter s) + 1"
    by (cases rule: set_session_cases [of s p];
        use assms(2) inc in \<open>simp add: watermark_ok_def word_less_nat_alt word_le_nat_alt\<close>)+
qed

lemma session_run_watermark:
  assumes "unat (ss_update_counter s) + length ops < 2 ^ 64" and "watermark_ok s"
    and "w \<le> ss_update_counter s" and "\<And>p. ss_session s = Some p \<Longrightarrow> w \<le> sp_updated_at p"
  shows "watermark_ok (session_run ops s) \<and> (\<forall>p. ss_session (session_run ops s) = Some p \<longrightarrow> w \<le> sp_updated_at p)"
  using assms
proof (induction ops s rule: session_run.induct)
  case (2 p ops s)
  have b: "unat (ss_update_counter s) + 1 < 2 ^ 64" using 2(2) by simp
  note st = set_session_watermark [OF b 2(3), of p]
  show ?case unfolding session_run.simps
  proof (rule 2(1))
    show "unat (ss_update_counter (snd (set_session p s))) + length ops < 2 ^ 64"
      using st(3) 2(2) by simp
    show "w \<le> ss_update_counter (snd (set_session p s))" using st(2) 2(4) by simp
    show "w \<le> sp_updated_at q" if "ss_session (snd (set_session p s)) = Some q" for q
      using that 2(4,5) by (cases rule: set_session_cases [of s p]) auto
  qed (rule st(1))
next
  case (3 ops s)
  show ?case unfolding session_run.simps
    by (rule 3(1)) (use 3(2-5) in \<open>simp_all add: watermark_ok_def\<close>)
qed simp

text \<open>
  What the session watermark can and cannot tell. A task takes the watermark of the session it
  starts under. Whatever sessions are set and cleared meanwhile (fewer than the counter can
  count), the watermark is later found valid exactly when some session is present: signing out
  is noticed while it lasts, but a switch to another account, directly or through a sign-out, is
  not.
\<close>

theorem session_valid_iff_present:
  assumes "watermark_ok s" and "ss_session s = Some p"
    and "unat (ss_update_counter s) + length ops < 2 ^ 64"
  shows "is_session_valid (current_updated_at s) (session_run ops s) \<longleftrightarrow> ss_session (session_run ops s) \<noteq> None"
proof -
  have "sp_updated_at p < ss_update_counter s" using assms(1,2) by (simp add: watermark_ok_def)
  then have "\<forall>q. ss_session (session_run ops s) = Some q \<longrightarrow> sp_updated_at p \<le> sp_updated_at q"
    using session_run_watermark [OF assms(3,1), of "sp_updated_at p"] assms(2) by (simp add: order_less_imp_le)
  then show ?thesis using assms(2)
    by (auto simp: is_session_valid_def current_updated_at_def unwrap_or_def split: option.splits)
qed

definition sample_session :: "string \<Rightarrow> SessionPayload" where
  "sample_session u = \<lparr>sp_user_id = u, sp_access_token = ''at'', sp_refresh_token = ''rt'', sp_expires_at = 100, sp_updated_at = 0\<rparr>"

definition signed_in :: "string \<Rightarrow> SessionStore" where
  "signed_in u = snd (set_session (sample_session u) (on_user_changed session_store_new))"

lemmas session_eval = signed_in_def sample_session_def set_session_def clear_defs on_user_changed_def
  session_store_new_def session_matches_def fire_user_change_hook_def publish_session_def publish_def

theorem session_valid_iff_present_witness:
  "is_session_valid (current_updated_at (signed_in ''alice''))
     (session_run [Clear_session, Set_session (sample_session ''bob'')] (signed_in ''alice''))"
  using session_valid_iff_present [of "signed_in ''alice''" "(sample_session ''alice'')\<lparr>sp_updated_at := 1\<rparr>"
      "[Clear_session, Set_session (sample_session ''bob'')]"]
  by (simp add: session_eval watermark_ok_def)

text \<open>
  The user-change hook follows the user. In every history that starts without a session and
  with a hook, the hook has last been called with the user who is now signed in (\<open>None\<close> when
  nobody is, and not at all before the first sign-in), and it is never called twice in a row for
  the same user: account switches and sign-outs are announced, token refreshes are not.
\<close>

fun alternating :: "'a \<Rightarrow> 'a list \<Rightarrow> bool" where
  "alternating x [] \<longleftrightarrow> True"
| "alternating x (y # ys) \<longleftrightarrow> x \<noteq> y \<and> alternating y ys"

lemma alternating_append:
  "alternating x (ys @ [z]) \<longleftrightarrow> alternating x ys \<and> last (x # ys) \<noteq> z"
  by (induction ys arbitrary: x) auto

lemma hook_step:
  assumes "ss_has_hook s" and "alternating None (ss_hook_calls s)" and "last (None # ss_hook_calls s) = current_user_id s"
  shows "alternating None (ss_hook_calls (session_run ops s))
     \<and> last (None # ss_hook_calls (session_run ops s)) = current_user_id (session_run ops s)"
  using assms
proof (induction ops s rule: session_run.induct)
  case (2 p ops s)
  show ?case unfolding session_run.simps
  proof (rule 2(1))
    let ?s = "snd (set_session p s)"
    show "ss_has_hook ?s" using 2(2) by simp
    show "alternating None (ss_hook_calls ?s)" and "last (None # ss_hook_calls ?s) = current_user_id ?s"
      by (cases rule: set_session_cases [of s p];
          use 2(2-4) in \<open>auto simp: alternating_append current_user_id_def\<close>)+
  qed
next
  case (3 ops s)
  show ?case unfolding session_run.simps
    by (rule 3(1)) (use 3(2-4) in \<open>auto simp: clear_defs Let_def current_user_id_def alternating_append
        fire_user_change_hook_def split: option.splits\<close>)
qed simp

theorem hook_follows_user:
  assumes "ss_session s = None" and "ss_has_hook s" and "ss_hook_calls s = []"
  shows "last (None # ss_hook_calls (session_run ops s)) = current_user_id (session_run ops s)
     \<and> alternating None (ss_hook_calls (session_run ops s))"
  using hook_step [of s ops] assms by (simp add: current_user_id_def)

theorem hook_follows_user_witness:
  "last (None # ss_hook_calls (session_run [Set_session (sample_session ''alice''), Clear_session,
      Set_session (sample_session ''bob'')] (on_user_changed session_store_new))) = Some ''bob''"
  using hook_follows_user [of "on_user_changed session_store_new" "[Set_session (sample_session ''alice''), Clear_session,
      Set_session (sample_session ''bob'')]"]
  by (simp add: session_eval current_user_id_def)

end
