(* ===== verification/Refresh.thy ===== *)
theory Refresh
  imports Auth
begin

text \<open>
  The concurrent side of \<open>crates/polybase/src/auth.rs\<close>: refreshes, sign-ins and sign-outs as
  tasks that run interleaved, the two locks they hold across awaits, and what that does to them.
\<close>

section \<open>Calls as tasks\<close>

text \<open>
  \<open>refresh_if_needed\<close>, \<open>perform_refresh\<close>, \<open>set_session\<close> and \<open>clear_session\<close> cut at
  the awaits where they can be held up. A ticket stands for one watch channel. Two locks are held
  across such an await and are part of the state: \<open>mutation_lock\<close>, and the one of
  \<open>refresh_in_flight\<close>. A call that finds a refresh in flight keeps the second one for the
  whole wait: \<open>if let Some(tx) = lock().await.clone()\<close> drops the guard only after its body.
  That call also keeps its own clone of the sender, so \<open>rx.changed()\<close> cannot fail while it
  waits. \<open>Sender::send\<close> stores nothing when there is no receiver; the receivers are the waiting
  calls, and only the holder of the lock is one.
\<close>

datatype auth_task =
    RT_Start
  | RT_Reading
  | RT_Expiring
  | RT_Recheck
  | RT_Captured SessionPayload
  | RT_Refreshing nat SessionPayload
  | RT_Answered nat "PolyError + SessionPayload"
  | RT_Stored nat SessionPayload SessionMutation
  | RT_Clearing nat PolyError bool
  | RT_Applied nat "PolyError + EnsureFreshResult option"
  | RT_Sent nat "PolyError + EnsureFreshResult option"
  | RT_Waiting nat
  | RT_Done "PolyError + EnsureFreshResult option"
  | SI_Start SessionPayload
  | SO_Start
  | SO_Clearing bool
  | Mutation_Done SessionMutation
  | Dropped

record auth_world =
  aw_store :: SessionStore
  aw_tasks :: "nat \<Rightarrow> auth_task option"
  aw_outcomes :: "nat \<Rightarrow> (string + EnsureFreshResult option) option"
  aw_flight_lock :: "nat option"
  aw_mutation_lock :: "nat option"
  aw_next_ticket :: nat
  aw_net :: network
  aw_clears :: nat
  aw_cancels :: nat

record auth_clock =
  ac_unix :: i64
  ac_instant :: nat

definition set_task :: "nat \<Rightarrow> auth_task \<Rightarrow> auth_world \<Rightarrow> auth_world" where
  "set_task tid phase w = w\<lparr>aw_tasks := (aw_tasks w)(tid \<mapsto> phase)\<rparr>"

definition cooling :: "nat \<Rightarrow> SessionStore \<Rightarrow> PolyError option" where
  "cooling now s =
     (case ss_last_failure_at s of
        None \<Rightarrow> None
      | Some last_failure_at \<Rightarrow>
          (let elapsed = now - last_failure_at
           in if elapsed < REFRESH_COOLDOWN
              then Some (Poly_Other (''session refresh is cooling down; retry in ''
                     @ dec (REFRESH_COOLDOWN - elapsed) @ ''ms''))
              else None))"

definition unchanged :: "SessionPayload \<Rightarrow> PolyError + EnsureFreshResult option" where
  "unchanged session = Inr (Some \<lparr>efr_session = session, efr_refreshed = False\<rparr>)"

definition await_watch :: "nat \<Rightarrow> auth_world \<Rightarrow> (PolyError + EnsureFreshResult option) option" where
  "await_watch tk w =
     (case aw_outcomes w tk of
        Some (Inr value) \<Rightarrow> Some (Inr value)
      | Some (Inl message) \<Rightarrow> Some (Inl (Poly_Other message))
      | None \<Rightarrow> None)"

text \<open>A receiver of the ticket exists: the holder of the lock is waiting for it.\<close>

definition has_receiver :: "nat \<Rightarrow> auth_world \<Rightarrow> bool" where
  "has_receiver tk w \<longleftrightarrow>
     (case aw_flight_lock w of None \<Rightarrow> False | Some b \<Rightarrow> aw_tasks w b = Some (RT_Waiting tk))"

definition clear_done :: "bool \<Rightarrow> auth_world \<Rightarrow> SessionMutation \<times> auth_world" where
  "clear_done had w =
     (case clear_end had (aw_store w) of
        (mutation, s) \<Rightarrow> (mutation, w\<lparr>aw_store := s, aw_mutation_lock := None, aw_clears := Suc (aw_clears w)\<rparr>))"

definition task_step ::
  "net_env \<Rightarrow> (nat \<Rightarrow> u64 \<times> bool) \<Rightarrow> auth_clock \<Rightarrow> nat \<Rightarrow> auth_world \<Rightarrow> auth_world option" where
  "task_step env args clk tid w =
     (let (min_valid_for, force) = args tid; s = aw_store w;
          needed = (\<lambda>session. force \<or> session_expires_within (ac_unix clk) session min_valid_for)
      in case aw_tasks w tid of
           Some RT_Start \<Rightarrow>
             (if aw_flight_lock w \<noteq> None then None
              else Some (case ss_refresh_in_flight s of
                  Some tk \<Rightarrow> set_task tid (RT_Waiting tk) (w\<lparr>aw_flight_lock := Some tid\<rparr>)
                | None \<Rightarrow> set_task tid RT_Reading w))
         | Some RT_Reading \<Rightarrow>
             Some (set_task tid (case ss_session s of
                 None \<Rightarrow> RT_Done (Inr None)
               | Some session \<Rightarrow> if needed session then RT_Expiring else RT_Done (unchanged session)) w)
         | Some RT_Expiring \<Rightarrow>
             Some (set_task tid (case cooling (ac_instant clk) s of
                 Some err \<Rightarrow> RT_Done (Inl err) | None \<Rightarrow> RT_Recheck) w)
         | Some RT_Recheck \<Rightarrow>
             Some (set_task tid (case ss_session s of
                 None \<Rightarrow> RT_Done (Inl NoSession)
               | Some session \<Rightarrow> if needed session then RT_Captured session else RT_Done (unchanged session)) w)
         | Some (RT_Captured session) \<Rightarrow>
             (if aw_flight_lock w \<noteq> None then None
              else Some (case ss_refresh_in_flight s of
                  Some _ \<Rightarrow> set_task tid RT_Start w
                | None \<Rightarrow>
                    (let tk = aw_next_ticket w
                     in set_task tid (RT_Refreshing tk session)
                          (w\<lparr>aw_store := s\<lparr>ss_refresh_in_flight := Some tk\<rparr>, aw_next_ticket := Suc tk\<rparr>))))
         | Some (RT_Refreshing tk session) \<Rightarrow>
             (let (answer, n) = refresh_payload env (ac_unix clk) session (aw_net w)
              in Some (set_task tid (RT_Answered tk answer) (w\<lparr>aw_net := n\<rparr>)))
         | Some (RT_Answered tk (Inr payload)) \<Rightarrow>
             (if aw_mutation_lock w \<noteq> None then None
              else (let (mutation, s') = set_session payload s
                    in Some (set_task tid (RT_Stored tk payload mutation) (w\<lparr>aw_store := s'\<rparr>))))
         | Some (RT_Stored tk payload mutation) \<Rightarrow>
             Some (set_task tid (RT_Applied tk (Inr (refresh_outcome payload mutation s)))
               (w\<lparr>aw_store := s\<lparr>ss_last_failure_at := None\<rparr>\<rparr>))
         | Some (RT_Answered tk (Inl err)) \<Rightarrow>
             (if is_permanent_refresh_failure (poly_display err) then
                (if aw_mutation_lock w \<noteq> None then None
                 else (let (had, s') = clear_begin s
                       in Some (set_task tid (RT_Clearing tk err had) (w\<lparr>aw_store := s', aw_mutation_lock := Some tid\<rparr>))))
              else Some (set_task tid (RT_Applied tk (Inl err))
                     (w\<lparr>aw_store := s\<lparr>ss_last_failure_at := Some (ac_instant clk)\<rparr>\<rparr>)))
         | Some (RT_Clearing tk err had) \<Rightarrow>
             (if aw_flight_lock w \<noteq> None then None
              else Some (set_task tid (RT_Applied tk (Inl err)) (snd (clear_done had w))))
         | Some (RT_Applied tk result) \<Rightarrow>
             Some (set_task tid (RT_Sent tk result)
               (if has_receiver tk w
                then w\<lparr>aw_outcomes := (aw_outcomes w)(tk \<mapsto> map_err poly_display result)\<rparr> else w))
         | Some (RT_Sent tk result) \<Rightarrow>
             (if aw_flight_lock w \<noteq> None then None
              else Some (set_task tid (RT_Done result) (w\<lparr>aw_store := s\<lparr>ss_refresh_in_flight := None\<rparr>\<rparr>)))
         | Some (RT_Waiting tk) \<Rightarrow>
             map_option (\<lambda>result. set_task tid (RT_Done result) (w\<lparr>aw_flight_lock := None\<rparr>)) (await_watch tk w)
         | Some (SI_Start payload) \<Rightarrow>
             (if aw_mutation_lock w \<noteq> None then None
              else (let (mutation, s') = set_session payload s
                    in Some (set_task tid (Mutation_Done mutation) (w\<lparr>aw_store := s'\<rparr>))))
         | Some SO_Start \<Rightarrow>
             (if aw_mutation_lock w \<noteq> None then None
              else (let (had, s') = clear_begin s
                    in Some (set_task tid (SO_Clearing had) (w\<lparr>aw_store := s', aw_mutation_lock := Some tid\<rparr>))))
         | Some (SO_Clearing had) \<Rightarrow>
             (if aw_flight_lock w \<noteq> None then None
              else (let (mutation, w') = clear_done had w in Some (set_task tid (Mutation_Done mutation) w')))
         | _ \<Rightarrow> None)"

fun ticket_of :: "auth_task \<Rightarrow> nat option" where
  "ticket_of (RT_Refreshing tk _) = Some tk"
| "ticket_of (RT_Answered tk _) = Some tk"
| "ticket_of (RT_Stored tk _ _) = Some tk"
| "ticket_of (RT_Clearing tk _ _) = Some tk"
| "ticket_of (RT_Applied tk _) = Some tk"
| "ticket_of (RT_Sent tk _) = Some tk"
| "ticket_of _ = None"

text \<open>Dropping the future of a call releases the locks it holds; the store's sender stays.\<close>

definition release :: "nat \<Rightarrow> nat option \<Rightarrow> nat option" where
  "release tid lock = (if lock = Some tid then None else lock)"

definition drop_task :: "nat \<Rightarrow> auth_world \<Rightarrow> auth_world" where
  "drop_task tid w =
     set_task tid Dropped
       (w\<lparr>aw_flight_lock := release tid (aw_flight_lock w),
          aw_mutation_lock := release tid (aw_mutation_lock w), aw_cancels := Suc (aw_cancels w)\<rparr>)"

text \<open>The steps: a refresh, a sign-in or a sign-out is called, runs on, or is dropped.\<close>

inductive auth_step :: "net_env \<Rightarrow> (nat \<Rightarrow> u64 \<times> bool) \<Rightarrow> auth_world \<Rightarrow> auth_world \<Rightarrow> bool" for env args where
  spawn: "aw_tasks w tid = None \<Longrightarrow> call = RT_Start \<or> call = SO_Start \<or> call = SI_Start payload
          \<Longrightarrow> auth_step env args w (set_task tid call w)"
| run: "task_step env args clk tid w = Some w' \<Longrightarrow> auth_step env args w w'"
| cancel: "aw_tasks w tid \<noteq> None \<Longrightarrow> auth_step env args w (drop_task tid w)"

definition auth_init :: "network \<Rightarrow> auth_world" where
  "auth_init n = \<lparr>aw_store = session_store_new, aw_tasks = Map.empty, aw_outcomes = Map.empty,
     aw_flight_lock = None, aw_mutation_lock = None, aw_next_ticket = 0, aw_net = n, aw_clears = 0, aw_cancels = 0\<rparr>"

section \<open>One refresh at a time\<close>

definition holds :: "auth_world \<Rightarrow> nat \<Rightarrow> nat option" where
  "holds w tid = Option.bind (aw_tasks w tid) ticket_of"

abbreviation in_flight :: "auth_world \<Rightarrow> nat option" where
  "in_flight w \<equiv> ss_refresh_in_flight (aw_store w)"

fun sent :: "auth_task option \<Rightarrow> bool" where
  "sent (Some (RT_Sent _ _)) \<longleftrightarrow> True"
| "sent _ \<longleftrightarrow> False"

text \<open>
  The invariant of the runs that clear no session: whoever holds a ticket holds the one in flight,
  alone, and has not sent its outcome before it says so; whoever waits has the lock.
\<close>

definition flight_ok :: "auth_world \<Rightarrow> bool" where
  "flight_ok w \<longleftrightarrow>
     (\<forall>a x. holds w a = Some x \<longrightarrow> in_flight w = Some x \<and> (\<forall>b. holds w b = Some x \<longrightarrow> b = a)
        \<and> (\<not> sent (aw_tasks w a) \<longrightarrow> aw_outcomes w x = None))
     \<and> (\<forall>x. in_flight w = Some x \<or> aw_outcomes w x \<noteq> None \<longrightarrow> x < aw_next_ticket w)
     \<and> (\<forall>a x. aw_tasks w a = Some (RT_Waiting x) \<longrightarrow> aw_flight_lock w = Some a \<and> in_flight w = Some x)"

lemma flight_okI:
  assumes "\<And>a x. holds w a = Some x \<Longrightarrow> in_flight w = Some x"
    and "\<And>a b x. holds w a = Some x \<Longrightarrow> holds w b = Some x \<Longrightarrow> b = a"
    and "\<And>a x. holds w a = Some x \<Longrightarrow> \<not> sent (aw_tasks w a) \<Longrightarrow> aw_outcomes w x = None"
    and "\<And>x. in_flight w = Some x \<Longrightarrow> x < aw_next_ticket w"
    and "\<And>x. aw_outcomes w x \<noteq> None \<Longrightarrow> x < aw_next_ticket w"
    and "\<And>a x. aw_tasks w a = Some (RT_Waiting x) \<Longrightarrow> aw_flight_lock w = Some a \<and> in_flight w = Some x"
  shows "flight_ok w"
  unfolding flight_ok_def using assms by blast

lemma flight_okD:
  assumes "flight_ok w"
  shows "holds w a = Some x \<Longrightarrow> in_flight w = Some x"
    and "holds w a = Some x \<Longrightarrow> holds w b = Some x \<Longrightarrow> b = a"
    and "holds w a = Some x \<Longrightarrow> \<not> sent (aw_tasks w a) \<Longrightarrow> aw_outcomes w x = None"
    and "in_flight w = Some x \<Longrightarrow> x < aw_next_ticket w"
    and "aw_outcomes w x \<noteq> None \<Longrightarrow> x < aw_next_ticket w"
    and "aw_tasks w a = Some (RT_Waiting x) \<Longrightarrow> aw_flight_lock w = Some a"
    and "aw_tasks w a = Some (RT_Waiting x) \<Longrightarrow> in_flight w = Some x"
  using assms unfolding flight_ok_def by blast+

lemma holder_unique:
  assumes "flight_ok w" and "holds w a = Some x" and "holds w b = Some y"
  shows "b = a" and "y = x"
proof -
  show "y = x" using flight_okD(1) [OF assms(1,2)] flight_okD(1) [OF assms(1,3)] by simp
  then show "b = a" using flight_okD(2) [OF assms(1)] assms(2,3) by simp
qed

lemma set_task_simps [simp]:
  "holds (set_task tid ph w) a = (if a = tid then ticket_of ph else holds w a)"
  "aw_store (set_task tid ph w) = aw_store w" "aw_outcomes (set_task tid ph w) = aw_outcomes w"
  "aw_next_ticket (set_task tid ph w) = aw_next_ticket w" "aw_clears (set_task tid ph w) = aw_clears w"
  "aw_cancels (set_task tid ph w) = aw_cancels w" "aw_net (set_task tid ph w) = aw_net w"
  "aw_flight_lock (set_task tid ph w) = aw_flight_lock w" "aw_mutation_lock (set_task tid ph w) = aw_mutation_lock w"
  "aw_tasks (set_task tid ph w) = (aw_tasks w)(tid \<mapsto> ph)"
  by (simp_all add: holds_def set_task_def)

lemma holds_update [simp]:
  "holds (w\<lparr>aw_store := s\<rparr>) = holds w" "holds (w\<lparr>aw_outcomes := o'\<rparr>) = holds w"
  "holds (w\<lparr>aw_next_ticket := n\<rparr>) = holds w" "holds (w\<lparr>aw_flight_lock := l\<rparr>) = holds w"
  "holds (w\<lparr>aw_mutation_lock := l\<rparr>) = holds w" "holds (w\<lparr>aw_net := net\<rparr>) = holds w"
  "holds (w\<lparr>aw_clears := c\<rparr>) = holds w" "holds (w\<lparr>aw_cancels := c\<rparr>) = holds w"
  by (simp_all add: holds_def fun_eq_iff)

lemma clear_begin_simps:
  "clear_begin s = (had, s') \<Longrightarrow> ss_refresh_in_flight s' = ss_refresh_in_flight s"
  "clear_begin s = (had, s') \<Longrightarrow> ss_session s' = None"
  by (auto simp: clear_begin_def)

lemma clear_done_simps [simp]:
  "aw_clears (snd (clear_done had w)) = Suc (aw_clears w)" "aw_cancels (snd (clear_done had w)) = aw_cancels w"
  "aw_tasks (snd (clear_done had w)) = aw_tasks w" "aw_outcomes (snd (clear_done had w)) = aw_outcomes w"
  "aw_flight_lock (snd (clear_done had w)) = aw_flight_lock w" "holds (snd (clear_done had w)) = holds w"
  "aw_next_ticket (snd (clear_done had w)) = aw_next_ticket w" "in_flight (snd (clear_done had w)) = None"
  by (auto simp: clear_done_def clear_end_def Let_def split: prod.splits)

lemma clear_done_pair:
  assumes "clear_done had w = (m, w')"
  shows "aw_clears w' = Suc (aw_clears w)" "aw_cancels w' = aw_cancels w" "aw_tasks w' = aw_tasks w"
    "aw_flight_lock w' = aw_flight_lock w" "aw_outcomes w' = aw_outcomes w"
  using clear_done_simps [of had w] assms by simp_all

lemma set_session_pair: "set_session p s = (m, s') \<Longrightarrow> ss_refresh_in_flight s' = ss_refresh_in_flight s"
  using set_session_flight(1) [of p s] by simp

text \<open>When a call cannot take a step: a lock it needs is held, or nothing was sent to it.\<close>

fun blocked :: "auth_task \<Rightarrow> auth_world \<Rightarrow> bool" where
  "blocked RT_Start w \<longleftrightarrow> aw_flight_lock w \<noteq> None"
| "blocked (RT_Captured _) w \<longleftrightarrow> aw_flight_lock w \<noteq> None"
| "blocked (RT_Clearing _ _ _) w \<longleftrightarrow> aw_flight_lock w \<noteq> None"
| "blocked (RT_Sent _ _) w \<longleftrightarrow> aw_flight_lock w \<noteq> None"
| "blocked (SO_Clearing _) w \<longleftrightarrow> aw_flight_lock w \<noteq> None"
| "blocked (RT_Answered _ (Inr _)) w \<longleftrightarrow> aw_mutation_lock w \<noteq> None"
| "blocked (RT_Answered _ (Inl err)) w \<longleftrightarrow>
     is_permanent_refresh_failure (poly_display err) \<and> aw_mutation_lock w \<noteq> None"
| "blocked (SI_Start _) w \<longleftrightarrow> aw_mutation_lock w \<noteq> None"
| "blocked SO_Start w \<longleftrightarrow> aw_mutation_lock w \<noteq> None"
| "blocked (RT_Waiting tk) w \<longleftrightarrow> aw_outcomes w tk = None"
| "blocked (RT_Done _) w \<longleftrightarrow> True"
| "blocked (Mutation_Done _) w \<longleftrightarrow> True"
| "blocked Dropped w \<longleftrightarrow> True"
| "blocked _ w \<longleftrightarrow> False"

lemma task_step_blocked:
  assumes "aw_tasks w tid = Some ph"
  shows "task_step env args clk tid w = None \<longleftrightarrow> blocked ph w"
  using assms
  by (cases "args tid"; cases "(ph, w)" rule: blocked.cases)
    (simp_all add: task_step_def Let_def await_watch_def split: prod.split option.split sum.split)

text \<open>
  The shapes of a step: it moves on without touching tickets, the lock or the outcomes; it waits,
  wakes, claims, sends or gives back; or it completes a clear.
\<close>

definition quiet :: "auth_world \<Rightarrow> auth_world \<Rightarrow> bool" where
  "quiet w w1 \<longleftrightarrow> aw_tasks w1 = aw_tasks w \<and> in_flight w1 = in_flight w \<and> aw_outcomes w1 = aw_outcomes w
     \<and> aw_next_ticket w1 = aw_next_ticket w \<and> aw_flight_lock w1 = aw_flight_lock w
     \<and> aw_clears w1 = aw_clears w \<and> aw_cancels w1 = aw_cancels w
     \<and> (\<forall>a. aw_mutation_lock w = Some a \<longrightarrow> aw_mutation_lock w1 = Some a)"

lemma quietD:
  assumes "quiet w w1"
  shows "aw_tasks w1 = aw_tasks w" "in_flight w1 = in_flight w" "aw_outcomes w1 = aw_outcomes w"
    "aw_next_ticket w1 = aw_next_ticket w" "aw_flight_lock w1 = aw_flight_lock w"
    "aw_clears w1 = aw_clears w" "aw_cancels w1 = aw_cancels w" "holds w1 = holds w"
    "aw_mutation_lock w = Some a \<Longrightarrow> aw_mutation_lock w1 = Some a"
  using assms by (auto simp: quiet_def holds_def fun_eq_iff)

fun plain :: "auth_task \<Rightarrow> bool" where
  "plain (RT_Waiting _) \<longleftrightarrow> False"
| "plain (RT_Sent _ _) \<longleftrightarrow> False"
| "plain _ \<longleftrightarrow> True"

lemma plain_not [simp]: "plain ph \<Longrightarrow> ph \<noteq> RT_Waiting x" "plain ph \<Longrightarrow> \<not> sent (Some ph)"
  by (cases ph; simp)+

lemma task_step_cases:
  assumes "task_step env args clk tid w = Some w'"
  obtains (move) ph ph' w1 where "aw_tasks w tid = Some ph" "w' = set_task tid ph' w1" "quiet w w1"
      "ticket_of ph' = ticket_of ph" "plain ph" "plain ph'"
  | (wait) tk where "aw_tasks w tid = Some RT_Start" "aw_flight_lock w = None" "in_flight w = Some tk"
      "w' = set_task tid (RT_Waiting tk) (w\<lparr>aw_flight_lock := Some tid\<rparr>)"
  | (wake) tk result where "aw_tasks w tid = Some (RT_Waiting tk)" "aw_outcomes w tk \<noteq> None"
      "w' = set_task tid (RT_Done result) (w\<lparr>aw_flight_lock := None\<rparr>)"
  | (claim) session where "aw_tasks w tid = Some (RT_Captured session)" "aw_flight_lock w = None" "in_flight w = None"
      "w' = set_task tid (RT_Refreshing (aw_next_ticket w) session)
         (w\<lparr>aw_store := (aw_store w)\<lparr>ss_refresh_in_flight := Some (aw_next_ticket w)\<rparr>,
            aw_next_ticket := Suc (aw_next_ticket w)\<rparr>)"
  | (send) tk result where "aw_tasks w tid = Some (RT_Applied tk result)"
      "w' = set_task tid (RT_Sent tk result)
         (if has_receiver tk w then w\<lparr>aw_outcomes := (aw_outcomes w)(tk \<mapsto> map_err poly_display result)\<rparr> else w)"
  | (give) tk result where "aw_tasks w tid = Some (RT_Sent tk result)" "aw_flight_lock w = None"
      "w' = set_task tid (RT_Done result) (w\<lparr>aw_store := (aw_store w)\<lparr>ss_refresh_in_flight := None\<rparr>\<rparr>)"
  | (cleared) "aw_flight_lock w = None" "aw_clears w' = Suc (aw_clears w)" "aw_cancels w' = aw_cancels w"
proof -
  obtain mv force where a: "args tid = (mv, force)" by (cases "args tid")
  obtain ph where ph: "aw_tasks w tid = Some ph"
    using assms by (cases "aw_tasks w tid") (simp_all add: task_step_def a)
  note st = assms [unfolded task_step_def a ph Let_def, simplified]
  have nb: "\<not> blocked ph w" using task_step_blocked [OF ph] assms by fastforce
  note mv' = move [OF ph]
  show ?thesis
  proof (cases ph)
    case RT_Start
    then show ?thesis using st nb ph wait mv' [of RT_Reading w]
      by (cases "in_flight w") (auto simp: quiet_def)
  next
    case RT_Reading
    then show ?thesis using st mv' [of _ w]
      by (auto simp: quiet_def split: option.splits if_splits)
  next
    case RT_Expiring
    then show ?thesis using st mv' [of _ w] by (auto simp: quiet_def split: option.splits)
  next
    case RT_Recheck
    then show ?thesis using st mv' [of _ w] by (auto simp: quiet_def split: option.splits if_splits)
  next
    case (RT_Captured session)
    then show ?thesis using st nb ph claim mv' [of RT_Start w]
      by (cases "in_flight w") (auto simp: quiet_def)
  next
    case (RT_Refreshing tk session)
    obtain r n where "refresh_payload env (ac_unix clk) session (aw_net w) = (r, n)"
      by (cases "refresh_payload env (ac_unix clk) session (aw_net w)")
    then show ?thesis using st RT_Refreshing mv' [of "RT_Answered tk r" "w\<lparr>aw_net := n\<rparr>"] by (simp add: quiet_def)
  next
    case (RT_Answered tk ans)
    show ?thesis
    proof (cases ans)
      case (Inl err)
      obtain had s' where c: "clear_begin (aw_store w) = (had, s')" by (cases "clear_begin (aw_store w)")
      show ?thesis
      proof (cases "is_permanent_refresh_failure (poly_display err)")
        case True
        then show ?thesis using st nb RT_Answered Inl c clear_begin_simps(1) [OF c]
            mv' [of "RT_Clearing tk err had" "w\<lparr>aw_store := s', aw_mutation_lock := Some tid\<rparr>"]
          by (simp add: quiet_def)
      next
        case False
        then show ?thesis using st RT_Answered Inl
            mv' [of "RT_Applied tk (Inl err)" "w\<lparr>aw_store := (aw_store w)\<lparr>ss_last_failure_at := Some (ac_instant clk)\<rparr>\<rparr>"]
          by (simp add: quiet_def)
      qed
    next
      case (Inr payload)
      obtain m s' where c: "set_session payload (aw_store w) = (m, s')" by (cases "set_session payload (aw_store w)")
      then show ?thesis using st nb RT_Answered Inr set_session_pair [OF c]
          mv' [of "RT_Stored tk payload m" "w\<lparr>aw_store := s'\<rparr>"] by (simp add: quiet_def)
    qed
  next
    case (RT_Stored tk payload m)
    then show ?thesis using st mv' [of "RT_Applied tk (Inr (refresh_outcome payload m (aw_store w)))"
          "w\<lparr>aw_store := (aw_store w)\<lparr>ss_last_failure_at := None\<rparr>\<rparr>"] by (simp add: quiet_def)
  next
    case (RT_Clearing tk err had)
    then have "w' = set_task tid (RT_Applied tk (Inl err)) (snd (clear_done had w))" "aw_flight_lock w = None"
      using st nb by simp_all
    then show ?thesis using cleared by simp
  next
    case (RT_Applied tk result)
    then show ?thesis using st send ph by simp
  next
    case (RT_Sent tk result)
    then show ?thesis using st nb give ph by simp
  next
    case (RT_Waiting tk)
    then show ?thesis using st nb wake ph by auto
  next
    case (SI_Start payload)
    obtain m s' where c: "set_session payload (aw_store w) = (m, s')" by (cases "set_session payload (aw_store w)")
    then show ?thesis using st nb SI_Start set_session_pair [OF c]
        mv' [of "Mutation_Done m" "w\<lparr>aw_store := s'\<rparr>"] by (simp add: quiet_def)
  next
    case SO_Start
    obtain had s' where c: "clear_begin (aw_store w) = (had, s')" by (cases "clear_begin (aw_store w)")
    then show ?thesis using st nb SO_Start clear_begin_simps(1) [OF c]
        mv' [of "SO_Clearing had" "w\<lparr>aw_store := s', aw_mutation_lock := Some tid\<rparr>"] by (simp add: quiet_def)
  next
    case (SO_Clearing had)
    obtain m w1 where c: "clear_done had w = (m, w1)" by (cases "clear_done had w")
    then have "w' = set_task tid (Mutation_Done m) w1" "aw_flight_lock w = None"
      using st nb SO_Clearing by simp_all
    then show ?thesis using cleared clear_done_pair [OF c] by simp
  qed (use nb in simp_all)
qed

text \<open>Every other call keeps its phase.\<close>

lemma quiet_set_task:
  assumes "quiet w w1" and "aw_tasks w tid = Some ph" and "ticket_of ph' = ticket_of ph"
  shows "holds (set_task tid ph' w1) a = holds w a"
  using quietD(1) [OF assms(1)] assms(2,3) by (simp add: holds_def)

lemma flight_ok_same:
  assumes "flight_ok w" and "\<And>a. holds w' a = holds w a" and "in_flight w' = in_flight w"
    and "aw_outcomes w' = aw_outcomes w" and "aw_next_ticket w' = aw_next_ticket w"
    and "\<And>a. holds w a \<noteq> None \<Longrightarrow> sent (aw_tasks w a) \<Longrightarrow> sent (aw_tasks w' a)"
    and "\<And>a x. aw_tasks w' a = Some (RT_Waiting x) \<Longrightarrow> aw_flight_lock w' = Some a \<and> in_flight w' = Some x"
  shows "flight_ok w'"
proof (rule flight_okI)
  note ok = flight_okD [OF assms(1)]
  show "in_flight w' = Some x" if "holds w' a = Some x" for a x using ok(1) [of a x] that assms(2,3) by simp
  show "b = a" if "holds w' a = Some x" "holds w' b = Some x" for a b x using ok(2) [of a x b] that assms(2) by simp
  show "aw_outcomes w' x = None" if "holds w' a = Some x" "\<not> sent (aw_tasks w' a)" for a x
    using ok(3) [of a x] that assms(2) [of a] assms(4) assms(6) [of a] by auto
  show "x < aw_next_ticket w'" if "in_flight w' = Some x" for x using ok(4) [of x] that assms(3,5) by simp
  show "x < aw_next_ticket w'" if "aw_outcomes w' x \<noteq> None" for x using ok(5) [of x] that assms(4,5) by simp
qed (rule assms(7))

lemma task_step_flight:
  assumes "task_step env args clk tid w = Some w'" and "flight_ok w" and "aw_clears w' = aw_clears w"
  shows "flight_ok w'"
  using assms(1)
proof (cases rule: task_step_cases)
  case (move ph ph' w1)
  note q = quietD [OF move(3)]
  have "\<not> sent (aw_tasks w tid)" using move(1,5) by simp
  moreover have "aw_tasks w' a \<noteq> Some (RT_Waiting x)" if "a = tid" for a x using that move(2,6) by auto
  ultimately show ?thesis
    using flight_okD(6,7) [OF assms(2)] q
    by (intro flight_ok_same [OF assms(2)])
      (auto simp: move(2) quiet_set_task [OF move(3,1,4)] simp del: set_task_simps(1) split: if_splits)
next
  case (wait tk)
  have "aw_tasks w a \<noteq> Some (RT_Waiting x)" for a x using flight_okD(6) [OF assms(2), of a x] wait(2) by auto
  then show ?thesis using wait by (intro flight_ok_same [OF assms(2)]) (auto simp: holds_def split: if_splits)
next
  case (wake tk result)
  have "aw_tasks w a \<noteq> Some (RT_Waiting x)" if "a \<noteq> tid" for a x
    using flight_okD(6) [OF assms(2), of a x] flight_okD(6) [OF assms(2) wake(1)] that by auto
  then show ?thesis using wake by (intro flight_ok_same [OF assms(2)]) (auto simp: holds_def split: if_splits)
next
  case (claim session)
  then have "holds w a = None" for a using flight_okD(1) [OF assms(2), of a] by (cases "holds w a") auto
  moreover have "aw_tasks w a \<noteq> Some (RT_Waiting x)" for a x using flight_okD(6) [OF assms(2), of a x] claim(2) by auto
  moreover have "aw_outcomes w (aw_next_ticket w) = None" using flight_okD(5) [OF assms(2), of "aw_next_ticket w"] by blast
  ultimately show ?thesis
    using flight_okD(5) [OF assms(2)] by (intro flight_okI) (auto simp: claim(4) less_Suc_eq split: if_splits)
next
  case (send tk result)
  note ok = flight_okD [OF assms(2)]
  have h: "holds w tid = Some tk" by (simp add: holds_def send(1))
  have hs: "holds w' a = holds w a" for a using h by (simp add: send(2))
  have st: "sent (aw_tasks w' tid)" by (simp add: send(2))
  have same: "aw_flight_lock w' = aw_flight_lock w" "in_flight w' = in_flight w" "aw_next_ticket w' = aw_next_ticket w"
    by (simp_all add: send(2))
  have waits: "aw_tasks w a = Some (RT_Waiting x)" if "aw_tasks w' a = Some (RT_Waiting x)" for a x
    using that by (simp add: send(2) split: if_splits)
  have only: "a = tid \<and> x = tk" if "holds w a = Some x" for a x using holder_unique [OF assms(2) h that] by simp
  show ?thesis
  proof (rule flight_okI)
    show "aw_outcomes w' x = None" if "holds w' a = Some x" "\<not> sent (aw_tasks w' a)" for a x
      using that only [of a x] hs [of a] st by simp
    show "x < aw_next_ticket w'" if "aw_outcomes w' x \<noteq> None" for x
      using that ok(4) [OF ok(1) [OF h]] ok(5) [of x] same(3) by (auto simp: send(2) split: if_splits)
    show "aw_flight_lock w' = Some a \<and> in_flight w' = Some x" if "aw_tasks w' a = Some (RT_Waiting x)" for a x
      using waits [OF that] ok(6,7) [of a x] same by simp
  qed (use ok(1,2,4) in \<open>simp_all add: hs same\<close>)
next
  case (give tk result)
  note ok = flight_okD [OF assms(2)]
  have h: "holds w tid = Some tk" by (simp add: holds_def give(1))
  have "holds w a = None" if "a \<noteq> tid" for a
    using holder_unique(1) [OF assms(2) h, of a] that by (cases "holds w a") auto
  then have n: "holds w' a = None" for a by (simp add: give(3))
  have "aw_tasks w a \<noteq> Some (RT_Waiting x)" for a x using ok(6) [of a x] give(2) by auto
  then have nw: "aw_tasks w' a \<noteq> Some (RT_Waiting x)" for a x by (simp add: give(3))
  have same: "aw_outcomes w' = aw_outcomes w" "aw_next_ticket w' = aw_next_ticket w" "in_flight w' = None"
    by (simp_all add: give(3))
  show ?thesis by (rule flight_okI) (use ok(5) in \<open>simp_all add: n nw same\<close>)
next
  case cleared
  then show ?thesis using assms(3) by simp
qed

inductive_cases auth_stepE: "auth_step env args w w'"

lemma drop_task_simps [simp]:
  "aw_clears (drop_task tid w) = aw_clears w" "aw_cancels (drop_task tid w) = Suc (aw_cancels w)"
  "aw_store (drop_task tid w) = aw_store w" "aw_outcomes (drop_task tid w) = aw_outcomes w"
  "aw_next_ticket (drop_task tid w) = aw_next_ticket w"
  "aw_flight_lock (drop_task tid w) = release tid (aw_flight_lock w)"
  "aw_tasks (drop_task tid w) = (aw_tasks w)(tid \<mapsto> Dropped)"
  "holds (drop_task tid w) a = (if a = tid then None else holds w a)"
  by (simp_all add: drop_task_def)

lemma task_step_counters:
  assumes "task_step env args clk tid w = Some w'"
  shows "aw_clears w \<le> aw_clears w'" and "aw_cancels w' = aw_cancels w"
  using assms by (cases rule: task_step_cases; auto dest: quietD)+

lemma auth_step_counters:
  assumes "auth_step env args w w'"
  shows "aw_clears w \<le> aw_clears w'" and "aw_cancels w \<le> aw_cancels w'"
  using assms by (induction rule: auth_step.induct) (auto simp: task_step_counters)

lemma auth_run_counters:
  assumes "rtranclp (auth_step env args) w w'"
  shows "aw_clears w \<le> aw_clears w'" and "aw_cancels w \<le> aw_cancels w'"
  using assms by (induction rule: rtranclp_induct) (auto dest: auth_step_counters)

lemma spawn_flight:
  assumes "flight_ok w" and "aw_tasks w tid = None" and "ticket_of ph = None" and "\<And>x. ph \<noteq> RT_Waiting x"
  shows "flight_ok (set_task tid ph w)"
  using assms by (auto simp: flight_ok_def)

lemma drop_task_flight: "flight_ok w \<Longrightarrow> flight_ok (drop_task tid w)"
  by (auto simp: flight_ok_def release_def)

lemma auth_step_flight:
  assumes "auth_step env args w w'" and "flight_ok w" and "aw_clears w' = aw_clears w"
  shows "flight_ok w'"
  using assms
proof (induction rule: auth_step.induct)
  case (spawn w tid call payload)
  then show ?case by (intro spawn_flight) auto
qed (simp_all add: task_step_flight drop_task_flight)

text \<open>
  What holds in all states of a run whose counter did not move is proved step by step.
\<close>

lemma auth_run_invariant:
  fixes counter :: "auth_world \<Rightarrow> nat"
  assumes "rtranclp (auth_step env args) w w'" and "P w" and "counter w' = counter w"
    and mono: "\<And>x y. auth_step env args x y \<Longrightarrow> counter x \<le> counter y"
    and inv: "\<And>x y. auth_step env args x y \<Longrightarrow> P x \<Longrightarrow> counter y = counter x \<Longrightarrow> P y"
  shows "P w'"
  using assms(1,3)
proof (induction rule: rtranclp_induct)
  case base
  then show ?case using assms(2) by simp
next
  case (step y z)
  have "counter w \<le> counter y" using step(1) by (induction rule: rtranclp_induct) (auto dest: mono)
  then have "counter y = counter w" "counter z = counter y" using mono [OF step(2)] step(4) by simp_all
  then show ?case using inv [OF step(2)] step(3) by simp
qed

text \<open>
  C9: single flight. From the start of a session store, in every interleaving of refreshes,
  sign-ins, sign-outs and cancellations in which no clearing of a session completes, at most one
  call has taken the right to ask the server, and at most one call waits, for that very refresh.
\<close>

theorem refresh_single_flight:
  assumes "rtranclp (auth_step env args) (auth_init n) w" and "aw_clears w = 0"
  shows "(holds w a \<noteq> None \<longrightarrow> holds w b \<noteq> None \<longrightarrow> a = b)
     \<and> (aw_tasks w a = Some (RT_Waiting tk) \<longrightarrow> in_flight w = Some tk
          \<and> (aw_tasks w b = Some (RT_Waiting tk') \<longrightarrow> a = b))"
proof -
  have init: "flight_ok (auth_init n)" by (simp add: flight_ok_def auth_init_def holds_def session_store_new_def)
  have ok: "flight_ok w"
    by (rule auth_run_invariant [OF assms(1), where P = flight_ok and counter = aw_clears])
      (use init assms(2) in \<open>simp_all add: auth_step_counters auth_step_flight auth_init_def\<close>)
  have "a = b" if "holds w a \<noteq> None" "holds w b \<noteq> None"
    using that holder_unique(1) [OF ok, of a _ b] by (cases "holds w a"; cases "holds w b") auto
  moreover have "a = b" if "aw_tasks w a = Some (RT_Waiting tk)" "aw_tasks w b = Some (RT_Waiting tk')"
    using flight_okD(6) [OF ok that(1)] flight_okD(6) [OF ok that(2)] by simp
  ultimately show ?thesis using flight_okD(7) [OF ok, of a tk] by blast
qed

text \<open>A task run for some steps.\<close>

fun drive :: "net_env \<Rightarrow> (nat \<Rightarrow> u64 \<times> bool) \<Rightarrow> auth_clock \<Rightarrow> nat \<Rightarrow> nat \<Rightarrow> auth_world \<Rightarrow> auth_world" where
  "drive env args clk tid 0 w = w"
| "drive env args clk tid (Suc k) w =
     drive env args clk tid k (case task_step env args clk tid w of None \<Rightarrow> w | Some w' \<Rightarrow> w')"

lemma drive_numeral:
  "drive env args clk tid (numeral k) w =
     drive env args clk tid (pred_numeral k) (case task_step env args clk tid w of None \<Rightarrow> w | Some w' \<Rightarrow> w')"
  "drive env args clk tid 1 w = (case task_step env args clk tid w of None \<Rightarrow> w | Some w' \<Rightarrow> w')"
  by (simp_all add: numeral_eq_Suc)

lemma drive_reachable: "rtranclp (auth_step env args) w (drive env args clk tid k w)"
proof (induction k arbitrary: w)
  case (Suc k)
  let ?w = "case task_step env args clk tid w of None \<Rightarrow> w | Some w' \<Rightarrow> w'"
  have "rtranclp (auth_step env args) w ?w"
    by (cases "task_step env args clk tid w") (auto intro: auth_step.run)
  then show ?case using rtranclp_trans [OF _ Suc.IH [of ?w]] by simp
qed simp

lemma spawned_reachable:
  assumes "rtranclp (auth_step env args) v w" and "aw_tasks w tid = None"
    and "call = RT_Start \<or> call = SO_Start \<or> call = SI_Start p"
  shows "rtranclp (auth_step env args) v (drive env args clk tid k (set_task tid call w))"
  using rtranclp_trans [OF rtranclp.rtrancl_into_rtrancl [OF assms(1) auth_step.spawn [OF assms(2,3)]] drive_reachable] .

definition answering :: "http_response \<Rightarrow> net_env" where
  "answering answer = \<lparr>ne_config = \<lparr>supabase_url = ''u'', supabase_anon_key = ''k'', encryption_secret = None,
     storage_bucket = None\<rparr>, ne_server = (\<lambda>_ _. Inr answer), ne_codec = ref_codec, ne_uuid_v7 = (\<lambda>_. [])\<rparr>"

abbreviation forced :: "nat \<Rightarrow> u64 \<times> bool" where
  "forced \<equiv> \<lambda>_. (0, True)"

definition epoch :: auth_clock where
  "epoch = \<lparr>ac_unix = 0, ac_instant = 0\<rparr>"

definition idle_network :: network where
  "idle_network = \<lparr>net_echo = echo_default_window, net_now = 0, net_trace = []\<rparr>"

text \<open>Alice signs in (task 9) and asks for a refresh (task 0), which claims the flight.\<close>

definition alice_world :: "net_env \<Rightarrow> auth_world" where
  "alice_world env = drive env forced epoch 9 1 (set_task 9 (SI_Start (sample_session ''alice'')) (auth_init idle_network))"

definition refreshing_world :: "net_env \<Rightarrow> auth_world" where
  "refreshing_world env = drive env forced epoch 0 5 (set_task 0 RT_Start (alice_world env))"

text \<open>Two calls race; the first has claimed the refresh, the second waits for it.\<close>

definition racing_world :: "net_env \<Rightarrow> auth_world" where
  "racing_world env = drive env forced epoch 1 1 (set_task 1 RT_Start (refreshing_world env))"

lemma set_task_twice [simp]: "set_task tid ph (set_task tid ph' w) = set_task tid ph w"
  by (simp add: set_task_def)

lemma set_task_updates [simp]:
  "(set_task tid ph w)\<lparr>aw_store := s\<rparr> = set_task tid ph (w\<lparr>aw_store := s\<rparr>)"
  "(set_task tid ph w)\<lparr>aw_next_ticket := n\<rparr> = set_task tid ph (w\<lparr>aw_next_ticket := n\<rparr>)"
  "(set_task tid ph w)\<lparr>aw_flight_lock := l\<rparr> = set_task tid ph (w\<lparr>aw_flight_lock := l\<rparr>)"
  "(set_task tid ph w)\<lparr>aw_mutation_lock := l\<rparr> = set_task tid ph (w\<lparr>aw_mutation_lock := l\<rparr>)"
  "(set_task tid ph w)\<lparr>aw_net := net\<rparr> = set_task tid ph (w\<lparr>aw_net := net\<rparr>)"
  by (simp_all add: set_task_def)

text \<open>A forced refresh of a signed-in user that finds nothing in its way claims the flight.\<close>

lemma drive_refresh:
  assumes "aw_flight_lock w = None" and "in_flight w = None" and "ss_session (aw_store w) = Some p"
    and "ss_last_failure_at (aw_store w) = None"
  shows "drive env forced clk tid 5 (set_task tid RT_Start w) =
    set_task tid (RT_Refreshing (aw_next_ticket w) p)
      (w\<lparr>aw_store := (aw_store w)\<lparr>ss_refresh_in_flight := Some (aw_next_ticket w)\<rparr>,
         aw_next_ticket := Suc (aw_next_ticket w)\<rparr>)"
  by (simp add: drive_numeral task_step_def Let_def assms cooling_def)

lemma drive_wait:
  assumes "aw_flight_lock w = None" and "in_flight w = Some tk"
  shows "drive env args clk tid 1 (set_task tid RT_Start w) = set_task tid (RT_Waiting tk) (w\<lparr>aw_flight_lock := Some tid\<rparr>)"
  by (simp only: drive_numeral) (simp add: task_step_def Let_def assms split: prod.split)

definition alice :: SessionPayload where
  "alice = (sample_session ''alice'')\<lparr>sp_updated_at := 1\<rparr>"

definition alice_store :: SessionStore where
  "alice_store = snd (set_session (sample_session ''alice'') session_store_new)"

lemma alice_store:
  "ss_session alice_store = Some alice" "ss_refresh_in_flight alice_store = None" "ss_last_failure_at alice_store = None"
  by (simp_all add: alice_store_def alice_def set_session_def session_store_new_def Let_def)

lemma alice_eval:
  "alice_world env = (auth_init idle_network)\<lparr>aw_store := alice_store,
     aw_tasks := [9 \<mapsto> Mutation_Done (fst (set_session (sample_session ''alice'') session_store_new))]\<rparr>"
  unfolding alice_world_def
  by (simp only: drive_numeral) (simp add: task_step_def auth_init_def alice_store_def set_task_def split: prod.split)

lemma refreshing_eval:
  "refreshing_world env = set_task 0 (RT_Refreshing 0 alice)
     ((alice_world env)\<lparr>aw_store := alice_store\<lparr>ss_refresh_in_flight := Some 0\<rparr>, aw_next_ticket := 1\<rparr>)"
  unfolding refreshing_world_def
  by (subst drive_refresh [where p = alice]) (simp_all add: alice_eval auth_init_def alice_store)

lemma racing_eval:
  "racing_world env = set_task 1 (RT_Waiting 0) ((refreshing_world env)\<lparr>aw_flight_lock := Some 1\<rparr>)"
  unfolding racing_world_def
  by (subst drive_wait [where tk = 0]) (simp_all add: refreshing_eval alice_eval auth_init_def)

lemma racing_reachable: "rtranclp (auth_step env forced) (auth_init idle_network) (racing_world env)"
proof -
  have a: "rtranclp (auth_step env forced) (auth_init idle_network) (alice_world env)"
    unfolding alice_world_def by (rule spawned_reachable) (simp_all add: auth_init_def)
  have "rtranclp (auth_step env forced) (auth_init idle_network) (refreshing_world env)"
    unfolding refreshing_world_def by (rule spawned_reachable [OF a]) (simp_all add: alice_eval)
  then show ?thesis
    unfolding racing_world_def by (rule spawned_reachable) (simp_all add: refreshing_eval alice_eval)
qed

lemma racing_facts:
  "aw_tasks (racing_world env) 0 = Some (RT_Refreshing 0 alice)"
  "aw_tasks (racing_world env) 1 = Some (RT_Waiting 0)" "aw_clears (racing_world env) = 0"
  "holds (racing_world env) 0 = Some 0" "flight_ok (racing_world env)"
  "aw_mutation_lock (racing_world env) = None" "aw_outcomes (racing_world env) = Map.empty"
  by (simp_all add: racing_eval refreshing_eval alice_eval auth_init_def holds_def flight_ok_def)

definition server_down :: net_env where
  "server_down = answering \<lparr>resp_status = 503, resp_text = Inr []\<rparr>"

theorem refresh_single_flight_witness:
  "aw_tasks (racing_world server_down) 1 = Some (RT_Waiting 0) \<and> in_flight (racing_world server_down) = Some 0"
  using refresh_single_flight [OF racing_reachable racing_facts(3), of server_down 1 1 0] racing_facts(2) by simp

section \<open>A refresh that outlives its session\<close>

text \<open>
  C29: a refresh that completes after the sign-out signs the user in again. Whatever the state, if a
  call holds a successful answer and nobody is signed in any more, its next step stores the
  session of the user who left, under a new watermark, and announces a change of user.
\<close>

theorem refresh_resurrects_session:
  assumes "aw_tasks w tid = Some (RT_Answered tk (Inr payload))" and "ss_session (aw_store w) = None"
    and "task_step env args clk tid w = Some w'"
  shows "current_user_id (aw_store w') = Some (sp_user_id payload)
     \<and> ss_events (aw_store w') = ss_events (aw_store w) @ [SessionChanged (Some (sp_user_id payload)) Change_UserChanged]
     \<and> (ss_has_hook (aw_store w) \<longrightarrow> last (ss_hook_calls (aw_store w')) = Some (sp_user_id payload))"
proof -
  obtain mv force where a: "args tid = (mv, force)" by (cases "args tid")
  have "aw_store w' = snd (set_session payload (aw_store w))"
    using assms(3) by (auto simp: task_step_def a assms(1) Let_def split: prod.splits if_splits)
  then show ?thesis
    using assms(2) by (simp add: set_session_def Let_def current_user_id_def fire_user_change_hook_def
        publish_session_def publish_def)
qed

text \<open>Alice signs out while the server answers her refresh.\<close>

definition refreshed_answer :: http_response where
  "refreshed_answer = \<lparr>resp_status = 200, resp_text = Inr (ref_render (JObject
     [(''access_token'', JString ''new''), (''expires_at'', JInt 9999)]))\<rparr>"

definition answered_world :: auth_world where
  "answered_world = drive (answering refreshed_answer) forced epoch 0 1 (refreshing_world (answering refreshed_answer))"

definition signed_out_world :: auth_world where
  "signed_out_world = drive (answering refreshed_answer) forced epoch 2 2 (set_task 2 SO_Start answered_world)"

definition renewed :: SessionPayload where
  "renewed = \<lparr>sp_user_id = ''alice'', sp_access_token = ''new'', sp_refresh_token = ''rt'', sp_expires_at = 9999, sp_updated_at = 0\<rparr>"

lemma refreshed_payload_eval:
  "fst (refresh_payload (answering refreshed_answer) (ac_unix epoch) alice n) = Inr renewed"
proof -
  have wf: "json_storable 1 (JObject [(''access_token'', JString ''new''), (''expires_at'', JInt 9999)])"
    by (simp add: obj_ok_def)
  have "parse ref_codec (ref_render (JObject [(''access_token'', JString ''new''), (''expires_at'', JInt 9999)]))
      = Inr (JObject [(''access_token'', JString ''new''), (''expires_at'', JInt 9999)])"
    using codec_roundtrip [OF ref_codec_ok wf] by (simp add: ref_codec_def)
  then show ?thesis
    by (simp add: answering_def refresh_payload_def net_send_def refreshed_answer_def Let_def
        status_success_def resp_json_def refresh_response_from_json_def get_str_def opt_field_def
        refreshed_payload_def sample_session_def alice_def renewed_def)
qed

lemma answered_eval:
  "\<exists>n. answered_world = set_task 0 (RT_Answered 0 (Inr renewed)) ((refreshing_world (answering refreshed_answer))\<lparr>aw_net := n\<rparr>)"
proof -
  let ?w = "refreshing_world (answering refreshed_answer)"
  obtain n where n: "refresh_payload (answering refreshed_answer) (ac_unix epoch) alice (aw_net ?w) = (Inr renewed, n)"
    using refreshed_payload_eval [of "aw_net ?w"] by (metis prod.collapse)
  have t: "aw_tasks ?w 0 = Some (RT_Refreshing 0 alice)" by (simp add: refreshing_eval)
  have "answered_world = set_task 0 (RT_Answered 0 (Inr renewed)) (?w\<lparr>aw_net := n\<rparr>)"
    unfolding answered_world_def by (simp only: drive_numeral) (simp add: task_step_def t n)
  then show ?thesis by blast
qed

lemma clear_done_set_task:
  "clear_done had (set_task tid ph w) = (fst (clear_done had w), set_task tid ph (snd (clear_done had w)))"
  by (simp add: clear_done_def set_task_def split: prod.split)

lemma drive_sign_out:
  assumes "aw_mutation_lock w = None" and "aw_flight_lock w = None" and "clear_begin (aw_store w) = (had, s)"
  shows "drive env args clk tid 2 (set_task tid SO_Start w) =
    (let (m, w1) = clear_done had (w\<lparr>aw_store := s, aw_mutation_lock := Some tid\<rparr>) in set_task tid (Mutation_Done m) w1)"
  by (simp add: drive_numeral task_step_def Let_def assms clear_done_set_task split: prod.split)

lemma signed_out_facts:
  "aw_tasks signed_out_world 0 = Some (RT_Answered 0 (Inr renewed))"
  "ss_session (aw_store signed_out_world) = None" "aw_mutation_lock signed_out_world = None"
proof -
  obtain n where a: "answered_world = set_task 0 (RT_Answered 0 (Inr renewed))
      ((refreshing_world (answering refreshed_answer))\<lparr>aw_net := n\<rparr>)"
    using answered_eval by blast
  have l: "aw_mutation_lock answered_world = None" "aw_flight_lock answered_world = None"
    "aw_tasks answered_world 0 = Some (RT_Answered 0 (Inr renewed))"
    by (simp_all add: a refreshing_eval alice_eval auth_init_def)
  obtain had s where c: "clear_begin (aw_store answered_world) = (had, s)" by (cases "clear_begin (aw_store answered_world)")
  let ?w = "answered_world\<lparr>aw_store := s, aw_mutation_lock := Some 2\<rparr>"
  obtain m w1 where d: "clear_done had ?w = (m, w1)" by (cases "clear_done had ?w")
  have w: "signed_out_world = set_task 2 (Mutation_Done m) w1"
    unfolding signed_out_world_def drive_sign_out [OF l(1,2) c] d by simp
  have st: "aw_store w1 = snd (clear_end had s)" "aw_mutation_lock w1 = None"
    using d by (auto simp: clear_done_def split: prod.splits)
  show "aw_tasks signed_out_world 0 = Some (RT_Answered 0 (Inr renewed))"
    using clear_done_pair(3) [OF d] l(3) by (simp add: w)
  show "ss_session (aw_store signed_out_world) = None" "aw_mutation_lock signed_out_world = None"
    using clear_begin_simps(2) [OF c] by (simp_all add: w st clear_end_def Let_def)
qed

theorem refresh_resurrects_session_witness:
  "current_user_id (aw_store signed_out_world) = None
   \<and> current_user_id (aw_store (the (task_step (answering refreshed_answer) forced epoch 0 signed_out_world))) = Some ''alice''"
proof -
  have "task_step (answering refreshed_answer) forced epoch 0 signed_out_world \<noteq> None"
    using task_step_blocked [OF signed_out_facts(1), of "answering refreshed_answer" forced epoch] signed_out_facts(3) by simp
  then obtain w' where w': "task_step (answering refreshed_answer) forced epoch 0 signed_out_world = Some w'" by blast
  show ?thesis
    using refresh_resurrects_session [OF signed_out_facts(1,2) w'] signed_out_facts(2) w'
    by (simp add: current_user_id_def renewed_def)
qed

section \<open>A cancelled refresh\<close>

definition wedged :: "nat \<Rightarrow> auth_world \<Rightarrow> bool" where
  "wedged tk w \<longleftrightarrow> in_flight w = Some tk \<and> aw_outcomes w tk = None \<and> (\<forall>a. holds w a = None)"

lemma wedged_task_step:
  assumes "task_step env args clk tid w = Some w'" and "wedged tk w" and "aw_clears w' = aw_clears w"
  shows "wedged tk w'"
  using assms(1)
proof (cases rule: task_step_cases)
  case (move ph ph' w1)
  then show ?thesis using assms(2) quietD(2,3) [OF move(3)] quiet_set_task [OF move(3,1,4)]
    by (simp add: wedged_def)
next
  case (wait tk')
  then show ?thesis using assms(2) by (simp add: wedged_def)
next
  case (wake tk' result)
  then show ?thesis using assms(2) by (simp add: wedged_def)
next
  case (claim session)
  show ?thesis using assms(2) claim(3) by (simp add: wedged_def)
next
  case (send tk' result)
  have "holds w tid = Some tk'" by (simp add: holds_def send(1))
  then show ?thesis using assms(2) by (simp add: wedged_def)
next
  case (give tk' result)
  have "holds w tid = Some tk'" by (simp add: holds_def give(1))
  then show ?thesis using assms(2) by (simp add: wedged_def)
next
  case cleared
  then show ?thesis using assms(3) by simp
qed

lemma wedged_step:
  assumes "auth_step env args w w'" and "wedged tk w" and "aw_clears w' = aw_clears w"
  shows "wedged tk w'"
  using assms
  by (induction rule: auth_step.induct) (auto simp: wedged_task_step, auto simp: wedged_def)

text \<open>
  C30: a cancelled refresh blocks every later one. If the call that is asking the server is dropped
  (its future is cancelled) before it sent its outcome, then, until a clearing of the session
  completes, its ticket stays in flight: in every later state, a call that starts can do
  nothing but wait for it, and a call that waits for it cannot take a step.
\<close>

theorem cancelled_refresh_wedges:
  assumes "flight_ok w" and "holds w tid = Some tk" and "\<not> sent (aw_tasks w tid)"
    and "rtranclp (auth_step env args) (drop_task tid w) w'" and "aw_clears w' = aw_clears w"
  shows "(aw_tasks w' a = Some RT_Start \<longrightarrow> task_step env args clk a w' = None
            \<or> task_step env args clk a w' = Some (set_task a (RT_Waiting tk) (w'\<lparr>aw_flight_lock := Some a\<rparr>)))
     \<and> (aw_tasks w' a = Some (RT_Waiting tk) \<longrightarrow> task_step env args clk a w' = None)"
proof -
  note ok = flight_okD [OF assms(1)]
  have "holds w b = None" if "b \<noteq> tid" for b
    using holder_unique(1) [OF assms(1,2), of b] that by (cases "holds w b") auto
  then have "wedged tk (drop_task tid w)"
    using ok(1) [OF assms(2)] ok(3) [OF assms(2,3)] by (simp add: wedged_def)
  then have "wedged tk w'"
    using auth_run_invariant [OF assms(4), where P = "wedged tk" and counter = aw_clears] assms(5)
    by (simp add: auth_step_counters wedged_step)
  then show ?thesis
    by (cases "args a") (simp add: task_step_def wedged_def await_watch_def Let_def)
qed

theorem cancelled_refresh_wedges_witness:
  "task_step server_down forced epoch 1 (drop_task 0 (racing_world server_down)) = None"
  using cancelled_refresh_wedges [OF racing_facts(5,4) _ rtranclp.rtrancl_refl, where a = 1 and clk = epoch]
    racing_facts(1,2) by simp

section \<open>A rejected refresh with company\<close>

text \<open>
  The leader \<open>a\<close> is inside \<open>clear_session\<close>: it has the mutation lock and wants the lock of the
  flight. The waiting call \<open>b\<close> has that one and wants the outcome of the leader.
\<close>

definition deadlocked :: "nat \<Rightarrow> nat \<Rightarrow> nat \<Rightarrow> auth_world \<Rightarrow> bool" where
  "deadlocked a b tk w \<longleftrightarrow>
     (\<exists>err had. aw_tasks w a = Some (RT_Clearing tk err had)) \<and> aw_mutation_lock w = Some a
     \<and> aw_tasks w b = Some (RT_Waiting tk) \<and> aw_flight_lock w = Some b
     \<and> aw_outcomes w tk = None
     \<and> (\<forall>c x. aw_tasks w c = Some (RT_Waiting x) \<longrightarrow> c = b)
     \<and> (\<forall>c. holds w c = Some tk \<longrightarrow> c = a)"

lemma deadlockedI:
  assumes "aw_tasks w a = Some (RT_Clearing tk err had)" and "aw_mutation_lock w = Some a"
    and "aw_tasks w b = Some (RT_Waiting tk)" and "aw_flight_lock w = Some b" and "aw_outcomes w tk = None"
    and "\<And>c x. aw_tasks w c = Some (RT_Waiting x) \<Longrightarrow> c = b" and "\<And>c. holds w c = Some tk \<Longrightarrow> c = a"
  shows "deadlocked a b tk w"
  unfolding deadlocked_def using assms by blast

lemma deadlocked_task_step:
  assumes "task_step env args clk tid w = Some w'" and "deadlocked a b tk w"
  shows "deadlocked a b tk w'"
proof -
  obtain err had where d: "aw_tasks w a = Some (RT_Clearing tk err had)" "aw_mutation_lock w = Some a"
    "aw_tasks w b = Some (RT_Waiting tk)" "aw_flight_lock w = Some b" "aw_outcomes w tk = None"
    and only: "\<And>c x. aw_tasks w c = Some (RT_Waiting x) \<Longrightarrow> c = b" "\<And>c. holds w c = Some tk \<Longrightarrow> c = a"
    using assms(2) unfolding deadlocked_def by blast
  have na: "tid \<noteq> a" using task_step_blocked [OF d(1), of env args clk] d(4) assms(1) by auto
  have nb: "tid \<noteq> b" using task_step_blocked [OF d(3), of env args clk] d(5) assms(1) by auto
  show ?thesis using assms(1)
  proof (cases rule: task_step_cases)
    case (move ph ph' w1)
    note q = quietD [OF move(3)] and h = quiet_set_task [OF move(3,1,4)]
    have "aw_tasks w' a = Some (RT_Clearing tk err had)" "aw_mutation_lock w' = Some a"
      "aw_tasks w' b = Some (RT_Waiting tk)" "aw_flight_lock w' = Some b" "aw_outcomes w' tk = None"
      using d na nb q(1,3,5) q(9) [OF d(2)] by (simp_all add: move(2))
    moreover have "c = b" if "aw_tasks w' c = Some (RT_Waiting x)" for c x
      using that only(1) [of c x] move(2,6) q(1) by (cases "c = tid") auto
    moreover have "c = a" if "holds w' c = Some tk" for c using that only(2) [of c] h [of c] move(2) by simp
    ultimately show ?thesis by (rule deadlockedI)
  next
    case (wake tk' result)
    then show ?thesis using only(1) [OF wake(1)] nb by simp
  next
    case (send tk' result)
    have "tk' \<noteq> tk" using only(2) [of tid] na send(1) by (auto simp: holds_def)
    then have "aw_tasks w' a = Some (RT_Clearing tk err had)" "aw_mutation_lock w' = Some a"
      "aw_tasks w' b = Some (RT_Waiting tk)" "aw_flight_lock w' = Some b" "aw_outcomes w' tk = None"
      using d na nb by (simp_all add: send(2))
    moreover have "c = b" if "aw_tasks w' c = Some (RT_Waiting x)" for c x
      using that only(1) [of c x] by (cases "c = tid") (simp_all add: send(2) split: if_splits)
    moreover have "c = a" if "holds w' c = Some tk" for c
      using that only(2) [of c] \<open>tk' \<noteq> tk\<close> by (cases "c = tid") (simp_all add: send(2) split: if_splits)
    ultimately show ?thesis by (rule deadlockedI)
  qed (use d(4) in simp_all)
qed

lemma deadlocked_step:
  assumes "auth_step env args w w'" and "deadlocked a b tk w" and "aw_cancels w' = aw_cancels w"
  shows "deadlocked a b tk w'"
  using assms
proof (induction rule: auth_step.induct)
  case (spawn w tid call p)
  have n: "tid \<noteq> a" "tid \<noteq> b" using spawn(1,3) by (auto simp: deadlocked_def)
  have c: "ticket_of call = None" "\<And>x. call \<noteq> RT_Waiting x" using spawn(2) by auto
  show ?case using spawn(3) n c by (simp add: deadlocked_def)
qed (simp_all add: deadlocked_task_step)

text \<open>
  C23: a rejected refresh token with two callers hangs the store. If one call waits for a refresh
  and the server answers it with a permanent rejection, the step that begins to clear the
  session deadlocks: in every later state without cancellations neither call ever takes another
  step, and no refresh, sign-in or sign-out that is called gets past its first lock.
\<close>

theorem rejected_refresh_deadlocks:
  assumes "flight_ok w" and "aw_tasks w b = Some (RT_Waiting tk)"
    and "aw_tasks w a = Some (RT_Answered tk (Inl err))" and "is_permanent_refresh_failure (poly_display err)"
    and "task_step env args clk a w = Some w1"
    and "rtranclp (auth_step env args) w1 w'" and "aw_cancels w' = aw_cancels w"
  shows "aw_tasks w' b = Some (RT_Waiting tk)
     \<and> (\<forall>c. c = a \<or> c = b \<or> aw_tasks w' c \<in> {Some RT_Start, Some SO_Start, Some (SI_Start p)}
          \<longrightarrow> task_step env args clk' c w' = None)"
proof -
  note ok = flight_okD [OF assms(1)]
  have h: "holds w a = Some tk" by (simp add: holds_def assms(3))
  have ab: "a \<noteq> b" using assms(2,3) by auto
  obtain mv force where x: "args a = (mv, force)" by (cases "args a")
  obtain had s' where w1: "w1 = set_task a (RT_Clearing tk err had) (w\<lparr>aw_store := s', aw_mutation_lock := Some a\<rparr>)"
    using assms(3,4,5) by (auto simp: task_step_def x Let_def split: prod.splits if_splits)
  have only: "c = b" if "aw_tasks w c = Some (RT_Waiting y)" for c y
    using ok(6) [OF that] ok(6) [OF assms(2)] by simp
  have tickets: "c = a" if "holds w c = Some tk" for c using holder_unique(1) [OF assms(1) h that] .
  have "deadlocked a b tk w1"
  proof (rule deadlockedI)
    show "aw_tasks w1 a = Some (RT_Clearing tk err had)" "aw_mutation_lock w1 = Some a"
      "aw_tasks w1 b = Some (RT_Waiting tk)" "aw_flight_lock w1 = Some b" "aw_outcomes w1 tk = None"
      using assms(2,3) ok(6) [OF assms(2)] ok(3) [OF h] ab by (simp_all add: w1)
    show "c = b" if "aw_tasks w1 c = Some (RT_Waiting x)" for c x
      using that only [of c x] by (cases "c = a") (simp_all add: w1)
    show "c = a" if "holds w1 c = Some tk" for c
      using that tickets [of c] by (cases "c = a") (simp_all add: w1)
  qed
  moreover have "aw_cancels w1 = aw_cancels w" by (simp add: w1)
  ultimately have dl: "deadlocked a b tk w'"
    using auth_run_invariant [OF assms(6), where P = "deadlocked a b tk" and counter = aw_cancels] assms(7)
    by (simp add: auth_step_counters deadlocked_step)
  obtain err' had' where d: "aw_tasks w' a = Some (RT_Clearing tk err' had')" "aw_mutation_lock w' = Some a"
    "aw_tasks w' b = Some (RT_Waiting tk)" "aw_flight_lock w' = Some b" "aw_outcomes w' tk = None"
    using dl by (auto simp: deadlocked_def)
  have stuck: "task_step env args clk' c w' = None" if "aw_tasks w' c = Some ph" "blocked ph w'" for c ph
    using task_step_blocked [OF that(1)] that(2) by simp
  have "task_step env args clk' c w' = None"
    if c: "c = a \<or> c = b \<or> aw_tasks w' c \<in> {Some RT_Start, Some SO_Start, Some (SI_Start p)}" for c
  proof -
    consider "c = a" | "c = b" | "aw_tasks w' c = Some RT_Start" | "aw_tasks w' c = Some SO_Start"
      | "aw_tasks w' c = Some (SI_Start p)" using c by blast
    then show ?thesis
      by cases (use stuck [OF d(1)] stuck [OF d(3)] d(2,4,5) in \<open>simp_all add: stuck\<close>)
  qed
  then show ?thesis using d(3) by blast
qed

definition rejected_answer :: http_response where
  "rejected_answer = \<lparr>resp_status = 400, resp_text = Inr ''invalid_grant''\<rparr>"

definition rejection :: PolyError where
  "rejection = Poly_Other ''session refresh failed: HTTP 400: invalid_grant''"

lemma rejection: "is_permanent_refresh_failure (poly_display rejection)"
  by (simp add: rejection_def is_permanent_refresh_failure_def)

lemma rejected_failure: "refresh_failure rejected_answer = rejection"
  by code_simp

lemma rejected_eval: "fst (refresh_payload (answering rejected_answer) now alice n) = Inl rejection"
proof -
  have "\<not> status_success (resp_status rejected_answer)" by (simp add: rejected_answer_def status_success_def)
  then show ?thesis
    by (simp add: answering_def refresh_payload_def net_send_def Let_def rejected_failure)
qed

text \<open>Alice's refresh is rejected while a second call waits for it.\<close>

theorem rejected_refresh_deadlocks_witness:
  "\<exists>n w1. task_step (answering rejected_answer) forced epoch 0
         (set_task 0 (RT_Answered 0 (Inl rejection)) ((racing_world (answering rejected_answer))\<lparr>aw_net := n\<rparr>)) = Some w1
     \<and> task_step (answering rejected_answer) forced epoch 0 w1 = None
     \<and> task_step (answering rejected_answer) forced epoch 1 w1 = None"
proof -
  let ?env = "answering rejected_answer" and ?w = "racing_world (answering rejected_answer)"
  obtain n where n: "refresh_payload ?env (ac_unix epoch) alice (aw_net ?w) = (Inl rejection, n)"
    using rejected_eval [of "ac_unix epoch" "aw_net ?w"] by (metis prod.collapse)
  let ?v = "set_task 0 (RT_Answered 0 (Inl rejection)) (?w\<lparr>aw_net := n\<rparr>)"
  have "task_step ?env forced epoch 0 ?w = Some ?v"
    by (simp add: task_step_def racing_facts(1) n)
  then have "auth_step ?env forced ?w ?v" by (rule auth_step.run)
  then have ok: "flight_ok ?v" using auth_step_flight racing_facts(5) by fastforce
  have v: "aw_tasks ?v 1 = Some (RT_Waiting 0)" "aw_tasks ?v 0 = Some (RT_Answered 0 (Inl rejection))"
    "aw_mutation_lock ?v = None" using racing_facts(2,6) by simp_all
  have "task_step ?env forced epoch 0 ?v \<noteq> None"
    using task_step_blocked [OF v(2), of ?env forced epoch] v(3) by simp
  then obtain w1 where w1: "task_step ?env forced epoch 0 ?v = Some w1" by blast
  have "aw_cancels w1 = aw_cancels ?v" by (rule task_step_counters(2) [OF w1])
  from rejected_refresh_deadlocks [OF ok v(1,2) rejection w1 rtranclp.rtrancl_refl this, where clk' = epoch]
  show ?thesis using w1 by blast
qed

end
