(* ===== verification/LocalStore.thy ===== *)
theory LocalStore
  imports DbManager Errors Json
begin

text \<open>
  \<open>crates/polybase/src/persistence.rs\<close>, the local-mirror trait: its operations as a record
  of functions on a store state (what a trait object holds), the no-op implementation, and the
  contract a mirror owes its callers as the locale \<open>local_store\<close>.
\<close>

record VersionRow =
  vr_id :: string
  vr_version :: i64
  vr_deleted :: bool

type_synonym Record = obj

type_synonym ('a, 's) store_call = "'s \<Rightarrow> (PolyError + 'a) \<times> 's"

record 's LocalStore =
  ls_switch_user :: "string \<Rightarrow> (unit, 's) store_call"
  ls_read_versions :: "string \<Rightarrow> string list \<Rightarrow> (VersionRow list, 's) store_call"
  ls_read_record :: "string \<Rightarrow> string \<Rightarrow> (Record option, 's) store_call"
  ls_read_all_ids :: "string \<Rightarrow> (string list, 's) store_call"
  ls_upsert_record :: "string \<Rightarrow> Record \<Rightarrow> (unit, 's) store_call"
  ls_mark_deleted :: "string \<Rightarrow> string \<Rightarrow> i64 \<Rightarrow> (unit, 's) store_call"
  ls_hard_delete :: "string \<Rightarrow> string \<Rightarrow> (unit, 's) store_call"

definition NullLocalStore :: "unit LocalStore" where
  "NullLocalStore =
     \<lparr>ls_switch_user = (\<lambda>_ s. (Inr (), s)), ls_read_versions = (\<lambda>_ _ s. (Inr [], s)),
      ls_read_record = (\<lambda>_ _ s. (Inr None, s)), ls_read_all_ids = (\<lambda>_ s. (Inr [], s)),
      ls_upsert_record = (\<lambda>_ _ s. (Inr (), s)), ls_mark_deleted = (\<lambda>_ _ _ s. (Inr (), s)),
      ls_hard_delete = (\<lambda>_ _ s. (Inr (), s))\<rparr>"

section \<open>The contract of a mirror\<close>

text \<open>
  \<open>view\<close> is what the store holds under a table and an id. \<open>stored\<close> is the value a
  column gives back for what was written to it: a mirror may change representations (SQLite
  keeps booleans as 0 and 1), but column by column and independently of everything else.
\<close>

definition written :: "(string \<Rightarrow> json \<Rightarrow> json) \<Rightarrow> Record \<Rightarrow> Record \<Rightarrow> bool" where
  "written conv rec row \<longleftrightarrow> (\<forall>k v. obj_get rec k = Some v \<longrightarrow> obj_get row k = Some (conv k v))"

definition kept :: "Record \<Rightarrow> Record option \<Rightarrow> Record \<Rightarrow> bool" where
  "kept rec old row \<longleftrightarrow>
     (case old of None \<Rightarrow> True
      | Some r \<Rightarrow> (\<forall>k. obj_get rec k = None \<longrightarrow> obj_get row k = obj_get r k))"

locale local_store =
  fixes ops :: "'s LocalStore"
    and ok :: "'s \<Rightarrow> bool"
    and view :: "'s \<Rightarrow> string \<Rightarrow> string \<Rightarrow> Record option"
    and stored :: "'s \<Rightarrow> string \<Rightarrow> string \<Rightarrow> json \<Rightarrow> json"
  assumes read_ok: "ok s \<Longrightarrow> ls_read_record ops t i s = (Inr row, s') \<Longrightarrow> row = view s t i"
    and read_frame: "ok s \<Longrightarrow> ls_read_record ops t i s = (res, s') \<Longrightarrow> ok s' \<and> view s' = view s \<and> stored s' = stored s"
    and upsert_ok: "ok s \<Longrightarrow> get_str rec ''id'' = Some i \<Longrightarrow> ls_upsert_record ops t rec s = (Inr (), s')
        \<Longrightarrow> \<exists>row. view s' t i = Some row \<and> written (stored s t) rec row \<and> kept rec (view s t i) row"
    and upsert_frame: "ok s \<Longrightarrow> get_str rec ''id'' = Some i \<Longrightarrow> ls_upsert_record ops t rec s = (r, s')
        \<Longrightarrow> ok s' \<and> stored s' = stored s \<and> (t' \<noteq> t \<or> j \<noteq> i \<longrightarrow> view s' t' j = view s t' j)"
    and upsert_err: "ok s \<Longrightarrow> ls_upsert_record ops t rec s = (Inl e, s') \<Longrightarrow> view s' = view s"
    and mark_ok: "ok s \<Longrightarrow> ls_mark_deleted ops t i v s = (Inr (), s') \<Longrightarrow> view s t i = Some old
        \<Longrightarrow> \<exists>row. view s' t i = Some row
              \<and> written (stored s t) [(''deleted'', JInt 1), (''version'', json_of_i64 v)] row
              \<and> kept [(''deleted'', JInt 1), (''version'', json_of_i64 v)] (Some old) row"
    and mark_missing: "ok s \<Longrightarrow> ls_mark_deleted ops t i v s = (r, s') \<Longrightarrow> view s t i = None \<Longrightarrow> view s' t i = None"
    and mark_frame: "ok s \<Longrightarrow> ls_mark_deleted ops t i v s = (r, s')
        \<Longrightarrow> ok s' \<and> stored s' = stored s \<and> (t' \<noteq> t \<or> j \<noteq> i \<longrightarrow> view s' t' j = view s t' j)"
    and hard_ok: "ok s \<Longrightarrow> ls_hard_delete ops t i s = (Inr (), s') \<Longrightarrow> view s' t i = None"
    and hard_frame: "ok s \<Longrightarrow> ls_hard_delete ops t i s = (r, s')
        \<Longrightarrow> ok s' \<and> stored s' = stored s \<and> (t' \<noteq> t \<or> j \<noteq> i \<longrightarrow> view s' t' j = view s t' j)"
begin

lemma read_after_upsert:
  assumes "ok s" and "get_str rec ''id'' = Some i" and "ls_upsert_record ops t rec s = (Inr (), s1)"
    and "ls_read_record ops t i s1 = (Inr res, s2)"
  obtains row where "res = Some row" "written (stored s t) rec row" "kept rec (view s t i) row"
proof -
  have ok1: "ok s1" using upsert_frame [OF assms(1-3), of t i] by simp
  show ?thesis using upsert_ok [OF assms(1-3)] read_ok [OF ok1 assms(4)] that by auto
qed

lemma read_after_mark:
  assumes "ok s" and "view s t i = Some old" and "ls_mark_deleted ops t i v s = (Inr (), s1)"
    and "ls_read_record ops t i s1 = (Inr res, s2)"
  obtains row where "res = Some row"
    "written (stored s t) [(''deleted'', JInt 1), (''version'', json_of_i64 v)] row"
    "kept [(''deleted'', JInt 1), (''version'', json_of_i64 v)] (Some old) row"
proof -
  have ok1: "ok s1" using mark_frame [OF assms(1,3), of t i] by simp
  show ?thesis using mark_ok [OF assms(1,3,2)] read_ok [OF ok1 assms(4)] that by auto
qed

lemma read_after_other_upsert:
  assumes "ok s" and "get_str rec ''id'' = Some i" and "ls_upsert_record ops t rec s = (r, s1)"
    and "ls_read_record ops t' j s1 = (Inr res, s2)" and "t' \<noteq> t \<or> j \<noteq> i"
  shows "res = view s t' j"
proof -
  have ok1: "ok s1" using upsert_frame [OF assms(1-3), of t' j] by simp
  show ?thesis using read_ok [OF ok1 assms(4)] upsert_frame [OF assms(1-3), of t' j] assms(5) by simp
qed

end

end
