(* ===== verification/Coordinator.thy ===== *)
theory Coordinator
  imports Registry Push Auth LocalStore OfflineQueue
begin

text \<open>
  \<open>crates/polybase/src/sync/coordinator.rs\<close>: every write goes to the local mirror, then to
  the network, then, if the network may recover, to the offline queue. The state is what the
  shared \<open>Arc\<close> holds; the mirror and the queue are trait objects, so the environment
  carries their operations and the state their states. The id functions of \<open>kvs.rs\<close> the
  coordinator calls are here.
\<close>

section \<open>The ids of the kvs table\<close>

definition KVS_TABLE :: string where
  "KVS_TABLE = ''kvs''"

definition encode_id :: "string \<Rightarrow> string \<Rightarrow> string" where
  "encode_id namespace key = namespace @ ''::'' @ key"

text \<open>\<open>split_once("::")\<close>: at the first occurrence.\<close>

definition decode_id :: "string \<Rightarrow> (string \<times> string) option" where
  "decode_id i = split_once i ''::''"

section \<open>State\<close>

record ('s, 'q) coord_env =
  cv_net :: net_env
  cv_cipher :: cipher_env
  cv_clock :: clock
  cv_now_micros :: i64
  cv_local :: "'s LocalStore"
  cv_enqueue :: "QueuedOperation \<Rightarrow> 'q \<Rightarrow> (OfflineQueueError + unit) \<times> 'q"
  cv_depth :: "'q \<Rightarrow> (OfflineQueueError + nat) \<times> 'q"

record ('s, 'q) Coordinator =
  cd_registry :: Registry
  cd_session :: "SessionPayload option"
  cd_network :: network
  cd_queue :: 'q
  cd_events :: EventBus
  cd_encryption :: "Encryption option"
  cd_local :: 's

type_synonym ('s, 'q, 'a) coord_call = "('s, 'q) Coordinator \<Rightarrow> (PolyError + 'a) \<times> ('s, 'q) Coordinator"

definition coordinator_new ::
  "SessionPayload option \<Rightarrow> Registry \<Rightarrow> 'q \<Rightarrow> EventBus \<Rightarrow> Encryption option \<Rightarrow> 's \<Rightarrow> ('s, 'q) Coordinator" where
  "coordinator_new session registry queue events encryption local =
     \<lparr>cd_registry = registry, cd_session = session,
      cd_network = \<lparr>net_echo = echo_default_window, net_now = 0, net_trace = []\<rparr>,
      cd_queue = queue, cd_events = events, cd_encryption = encryption, cd_local = local\<rparr>"

definition cd_publish :: "PolyEvent \<Rightarrow> ('s, 'q) Coordinator \<Rightarrow> ('s, 'q) Coordinator" where
  "cd_publish event c = c\<lparr>cd_events := publish event (cd_events c)\<rparr>"

definition write_path_for :: "string \<Rightarrow> ('s, 'q) Coordinator \<Rightarrow> WritePath option" where
  "write_path_for table c = map_option write_path (config_for_table (cd_registry c) table)"

definition publish_kvs_event :: "obj \<Rightarrow> bool \<Rightarrow> ('s, 'q) Coordinator \<Rightarrow> ('s, 'q) Coordinator" where
  "publish_kvs_event rec deleted c =
     (case (get_str rec ''namespace'', get_str rec ''key'') of
        (Some namespace, Some key) \<Rightarrow> cd_publish (KvsChanged namespace key deleted) c
      | _ \<Rightarrow> c)"

fun is_transient :: "PolyError \<Rightarrow> bool" where
  "is_transient (Poly_Edge (Edge_Transient f m)) \<longleftrightarrow> True"
| "is_transient (Poly_Edge (Edge_Forbidden f m)) \<longleftrightarrow> True"
| "is_transient (Poly_Push (Push_Transient t m)) \<longleftrightarrow> True"
| "is_transient (Poly_Http m) \<longleftrightarrow> True"
| "is_transient _ \<longleftrightarrow> False"

fun is_version_regression :: "PolyError \<Rightarrow> bool" where
  "is_version_regression (Poly_Push pe) \<longleftrightarrow> push_is_version_regression pe"
| "is_version_regression (Poly_Edge ee) \<longleftrightarrow> edge_is_version_regression ee"
| "is_version_regression _ \<longleftrightarrow> False"

section \<open>Persisting a change\<close>

text \<open>The call the write path of the entity asks for.\<close>

definition dispatch_write ::
  "net_env \<Rightarrow> EntityConfig \<Rightarrow> string \<Rightarrow> obj \<Rightarrow> string \<Rightarrow> string option \<Rightarrow> string \<Rightarrow> network
   \<Rightarrow> (PolyError + unit) \<times> network" where
  "dispatch_write env config table rec entity_id op token n =
     (case write_path config of
        PostgREST \<Rightarrow> pusher_upsert env table rec (conflict_target config) token n
      | Edge function default_op \<Rightarrow>
          (case edge_call env Inr (with_op (unwrap_or default_op op) (edge_request_new function (JObject rec)))
                  token (net_mark table entity_id n) of
             (Inl e, n') \<Rightarrow> (Inl e, n')
           | (Inr _, n') \<Rightarrow> (Inr (), n')))"

text \<open>Queueing an operation for replay and announcing the depth.\<close>

definition enqueue_for_replay ::
  "('s, 'q) coord_env \<Rightarrow> QueuedOperation \<Rightarrow> ('s, 'q, unit) coord_call" where
  "enqueue_for_replay env queued c =
     (case cv_enqueue env queued (cd_queue c) of
        (Inl e, q) \<Rightarrow> (Inl (Poly_OfflineQueue e), c\<lparr>cd_queue := q\<rparr>)
      | (Inr _, q) \<Rightarrow>
          (case cv_depth env q of
             (d, q') \<Rightarrow>
               (Inr (), cd_publish (OfflineQueueChanged (case d of Inl _ \<Rightarrow> 0 | Inr depth \<Rightarrow> depth) False)
                  (c\<lparr>cd_queue := q'\<rparr>))))"

definition queued_write :: "('s, 'q) coord_env \<Rightarrow> string \<Rightarrow> string \<Rightarrow> QueuedOperationKind \<Rightarrow> PolyError \<Rightarrow> QueuedOperation" where
  "queued_write env table entity_id kind err =
     \<lparr>op_table = table, op_entity_id = entity_id, op_kind = kind, op_queued_at_micros = cv_now_micros env,
      op_retry_count = 0, op_last_error = Some (poly_display err)\<rparr>"

definition kvs_notice :: "string \<Rightarrow> obj \<Rightarrow> ('s, 'q) Coordinator \<Rightarrow> ('s, 'q) Coordinator" where
  "kvs_notice table rec c = (if table = KVS_TABLE then publish_kvs_event rec False c else c)"

definition settle_write ::
  "('s, 'q) coord_env \<Rightarrow> string \<Rightarrow> string \<Rightarrow> obj \<Rightarrow> PolyError + unit \<Rightarrow> ('s, 'q, unit) coord_call" where
  "settle_write env table entity_id rec result c =
     (case result of
        Inr _ \<Rightarrow> (Inr (), kvs_notice table rec c)
      | Inl (Poly_Push (SameVersionMutationIgnored _)) \<Rightarrow> (Inr (), kvs_notice table rec c)
      | Inl err \<Rightarrow>
          (if is_transient err then
             (case enqueue_for_replay env (queued_write env table entity_id (Write (JObject rec)) err) c of
                (Inl e, c') \<Rightarrow> (Inl e, c')
              | (Inr _, c') \<Rightarrow> (Inr (), kvs_notice table rec c'))
           else (Inl err, if is_version_regression err
                          then cd_publish (VersionRegressionDetected table entity_id) c else c)))"

definition persist_change_with_op ::
  "('s, 'q) coord_env \<Rightarrow> string \<Rightarrow> obj \<Rightarrow> string option \<Rightarrow> ('s, 'q, unit) coord_call" where
  "persist_change_with_op env table rec op c =
     (case config_for_table (cd_registry c) table of
        None \<Rightarrow> (Inl (Poly_Registry (TableNotRegistered table)), c)
      | Some config \<Rightarrow>
          (case get_str rec ''id'' of
             None \<Rightarrow> (Inl (Poly_Registry (MissingField table ''id'')), c)
           | Some entity_id \<Rightarrow>
               (case cd_session c of
                  None \<Rightarrow> (Inl NoSession, c)
                | Some session \<Rightarrow>
                    (case serialize_for_remote (cv_cipher env) (cd_encryption c) (sp_user_id session) config rec of
                       Inl e \<Rightarrow> (Inl (Poly_Registry e), c)
                     | Inr remote \<Rightarrow>
                         (case ls_upsert_record (cv_local env) table (map_remote_to_local config remote) (cd_local c) of
                            (Inl e, l) \<Rightarrow> (Inl e, c\<lparr>cd_local := l\<rparr>)
                          | (Inr _, l) \<Rightarrow>
                              (case dispatch_write (cv_net env) config table remote entity_id op
                                      (sp_access_token session) (cd_network c) of
                                 (result, n) \<Rightarrow>
                                   settle_write env table entity_id remote result
                                     (c\<lparr>cd_local := l, cd_network := n\<rparr>)))))))"

definition persist_change :: "('s, 'q) coord_env \<Rightarrow> string \<Rightarrow> obj \<Rightarrow> ('s, 'q, unit) coord_call" where
  "persist_change env table rec = persist_change_with_op env table rec None"

section \<open>Deleting\<close>

definition delete_payload :: "string \<Rightarrow> i64 \<Rightarrow> json" where
  "delete_payload entity_id version =
     JObject (obj_of_list [(''id'', JString entity_id), (''version'', json_of_i64 version), (''deleted'', JBool True)])"

definition dispatch_delete ::
  "net_env \<Rightarrow> EntityConfig \<Rightarrow> string \<Rightarrow> string \<Rightarrow> i64 \<Rightarrow> json \<Rightarrow> string \<Rightarrow> network
   \<Rightarrow> (PolyError + unit) \<times> network" where
  "dispatch_delete env config table entity_id version updated_at token n =
     (case write_path config of
        PostgREST \<Rightarrow> pusher_update_tombstone env table entity_id version updated_at token n
      | Edge function _ \<Rightarrow>
          (case edge_call env Inr (with_op ''delete'' (edge_request_new function (delete_payload entity_id version)))
                  token (net_mark table entity_id n) of
             (Inl e, n') \<Rightarrow> (Inl e, n')
           | (Inr _, n') \<Rightarrow> (Inr (), n')))"

definition settle_delete ::
  "('s, 'q) coord_env \<Rightarrow> string \<Rightarrow> string \<Rightarrow> i64 \<Rightarrow> PolyError + unit \<Rightarrow> ('s, 'q, unit) coord_call" where
  "settle_delete env table entity_id version result c =
     (case result of
        Inr _ \<Rightarrow>
          (Inr (), (case (if table = KVS_TABLE then decode_id entity_id else None) of
                      Some (namespace, key) \<Rightarrow> cd_publish (KvsChanged namespace key True) c
                    | None \<Rightarrow> c))
      | Inl (Poly_Push (SameVersionMutationIgnored _)) \<Rightarrow> (Inr (), c)
      | Inl err \<Rightarrow>
          (if is_transient err then
             enqueue_for_replay env (queued_write env table entity_id (Tombstone version) err) c
           else (Inl err, if is_version_regression err
                          then cd_publish (VersionRegressionDetected table entity_id) c else c)))"

definition coordinator_delete ::
  "('s, 'q) coord_env \<Rightarrow> string \<Rightarrow> string \<Rightarrow> i64 \<Rightarrow> ('s, 'q, unit) coord_call" where
  "coordinator_delete env table entity_id version c =
     (case config_for_table (cd_registry c) table of
        None \<Rightarrow> (Inl (Poly_Registry (TableNotRegistered table)), c)
      | Some config \<Rightarrow>
          (case cd_session c of
             None \<Rightarrow> (Inl NoSession, c)
           | Some session \<Rightarrow>
               (case ls_mark_deleted (cv_local env) table entity_id version (cd_local c) of
                  (Inl e, l) \<Rightarrow> (Inl e, c\<lparr>cd_local := l\<rparr>)
                | (Inr _, l) \<Rightarrow>
                    (case dispatch_delete (cv_net env) config table entity_id version
                            (tombstone_updated_at_value (cv_clock env) config) (sp_access_token session)
                            (cd_network c) of
                       (result, n) \<Rightarrow>
                         settle_delete env table entity_id version result
                           (c\<lparr>cd_local := l, cd_network := n\<rparr>)))))"

section \<open>Incoming rows\<close>

fun decrypt_cols ::
  "crypto \<Rightarrow> Encryption \<Rightarrow> uuid \<Rightarrow> ColumnDef list \<Rightarrow> obj \<Rightarrow> (PolyError \<times> obj) + obj" where
  "decrypt_cols cr enc u [] rec = Inr rec"
| "decrypt_cols cr enc u (column # cols) rec =
     (if \<not> encrypted column then decrypt_cols cr enc u cols rec
      else
        (let key = effective_remote_name column
         in case obj_get rec key of
              Some (JString t) \<Rightarrow>
                (if is_encrypted t then
                   (case decrypt cr enc t u of
                      Inl e \<Rightarrow> Inl (Poly_Encryption e, rec)
                    | Inr plain \<Rightarrow> decrypt_cols cr enc u cols (obj_insert key (JString plain) rec))
                 else decrypt_cols cr enc u cols rec)
            | _ \<Rightarrow> decrypt_cols cr enc u cols rec))"

text \<open>The record is changed in place: on an error the columns decrypted so far stay decrypted.\<close>

definition decrypt_record_columns ::
  "crypto \<Rightarrow> EntityConfig \<Rightarrow> obj \<Rightarrow> Encryption \<Rightarrow> string \<Rightarrow> (PolyError \<times> obj) + obj" where
  "decrypt_record_columns cr config rec enc uid =
     decrypt_cols cr enc (key_user_uuid cr uid) (columns config) rec"

definition decode_remote_record ::
  "('s, 'q) coord_env \<Rightarrow> string \<Rightarrow> obj \<Rightarrow> string \<Rightarrow> ('s, 'q) Coordinator \<Rightarrow> (PolyError \<times> obj) + obj" where
  "decode_remote_record env table rec uid c =
     (case cd_encryption c of
        None \<Rightarrow> Inr rec
      | Some enc \<Rightarrow>
          (case config_for_table (cd_registry c) table of
             None \<Rightarrow> Inr rec
           | Some config \<Rightarrow> decrypt_record_columns (ce_crypto (cv_cipher env)) config rec enc uid))"

definition apply_remote_record ::
  "('s, 'q) coord_env \<Rightarrow> string \<Rightarrow> obj \<Rightarrow> string \<Rightarrow> ('s, 'q, unit) coord_call" where
  "apply_remote_record env table rec uid c =
     (case config_for_table (cd_registry c) table of
        None \<Rightarrow> (Inl (Poly_Registry (TableNotRegistered table)), c)
      | Some config \<Rightarrow>
          (case (case cd_encryption c of
                   None \<Rightarrow> Inr rec
                 | Some enc \<Rightarrow> decrypt_record_columns (ce_crypto (cv_cipher env)) config rec enc uid) of
             Inl (e, _) \<Rightarrow> (Inl e, c)
           | Inr plain \<Rightarrow>
               (let deleted = unwrap_or False (get_bool plain ''deleted'')
                in case ls_upsert_record (cv_local env) table (map_remote_to_local config plain) (cd_local c) of
                     (Inl e, l) \<Rightarrow> (Inl e, c\<lparr>cd_local := l\<rparr>)
                   | (Inr _, l) \<Rightarrow>
                       (Inr (), if table = KVS_TABLE
                                then publish_kvs_event plain deleted (c\<lparr>cd_local := l\<rparr>)
                                else c\<lparr>cd_local := l\<rparr>))))"

section \<open>Reconcile and reads\<close>

definition remote_version_triple :: "json \<Rightarrow> VersionTriple option" where
  "remote_version_triple row =
     (case as_object row of
        None \<Rightarrow> None
      | Some m \<Rightarrow>
          (case get_str m ''id'' of
             None \<Rightarrow> None
           | Some i \<Rightarrow> Some \<lparr>vt_id = i, vt_version = unwrap_or 0 (get_i64 m ''version''),
                             vt_deleted = unwrap_or False (get_bool m ''deleted'')\<rparr>))"

definition reconcile_plan_for ::
  "('s, 'q) coord_env \<Rightarrow> string \<Rightarrow> VersionTriple list \<Rightarrow> ('s, 'q, ReconcilePlan) coord_call" where
  "reconcile_plan_for env table local_versions c =
     (case config_for_table (cd_registry c) table of
        None \<Rightarrow> (Inl (Poly_Registry (TableNotRegistered table)), c)
      | Some _ \<Rightarrow>
          (case cd_session c of
             None \<Rightarrow> (Inl NoSession, c)
           | Some session \<Rightarrow>
               (case puller_read_versions (cv_net env) table (sp_access_token session) (cd_network c) of
                  (Inl e, n) \<Rightarrow> (Inl e, c\<lparr>cd_network := n\<rparr>)
                | (Inr rows, n) \<Rightarrow>
                    (Inr (make_plan local_versions (List.map_filter remote_version_triple rows)),
                     c\<lparr>cd_network := n\<rparr>))))"

definition read_record :: "('s, 'q) coord_env \<Rightarrow> string \<Rightarrow> string \<Rightarrow> ('s, 'q, Record option) coord_call" where
  "read_record env table i c =
     (case ls_read_record (cv_local env) table i (cd_local c) of (r, l) \<Rightarrow> (r, c\<lparr>cd_local := l\<rparr>))"

definition read_all_ids :: "('s, 'q) coord_env \<Rightarrow> string \<Rightarrow> ('s, 'q, string list) coord_call" where
  "read_all_ids env table c =
     (case ls_read_all_ids (cv_local env) table (cd_local c) of (r, l) \<Rightarrow> (r, c\<lparr>cd_local := l\<rparr>))"

definition read_versions :: "('s, 'q) coord_env \<Rightarrow> string \<Rightarrow> string list \<Rightarrow> ('s, 'q, VersionRow list) coord_call" where
  "read_versions env table ids c =
     (case ls_read_versions (cv_local env) table ids (cd_local c) of (r, l) \<Rightarrow> (r, c\<lparr>cd_local := l\<rparr>))"

section \<open>Payloads\<close>

lemma set_obj_insert: "set (obj_insert k v m) \<subseteq> insert (k, v) (set m)"
  by (induction m) (auto split: if_split_asm)

lemma storable_insert_str:
  "json_storable d (JObject m) \<Longrightarrow> json_storable d (JObject (obj_insert k (JString x) m))"
  using set_obj_insert [of k "JString x" m] by auto

lemma encrypt_cols_storable:
  "encrypt_cols env enc u table cols m = Inr m' \<Longrightarrow> json_storable d (JObject m) \<Longrightarrow> json_storable d (JObject m')"
proof (induction env enc u table cols m rule: encrypt_cols.induct)
  case (2 env enc u table col cols m)
  then show ?case
    using storable_insert_str [of d m "effective_remote_name col"]
    by (auto simp: Let_def simp del: json_storable_simps split: if_splits option.splits json.splits sum.splits)
qed simp

lemma serialize_storable:
  "serialize_for_remote env encr uid config rec = Inr remote \<Longrightarrow> json_storable d (JObject rec)
   \<Longrightarrow> json_storable d (JObject remote)"
  using encrypt_cols_storable storable_insert_str
  by (fastforce simp: serialize_for_remote_def simp del: json_storable_simps
      split: sum.splits option.splits)

text \<open>A configuration under which the id of a payload is the id of its mirror row.\<close>

definition id_mapped :: "EntityConfig \<Rightarrow> bool" where
  "id_mapped config \<longleftrightarrow> mapping_ok config
     \<and> (\<exists>c \<in> set (columns config). remote_name c = Some ''id'' \<and> local_name c = ''id'')
     \<and> ''id'' \<notin> encrypted_keys (columns config) \<and> injected_user_id_column config \<noteq> Some ''id''"

lemma serialize_id:
  assumes "id_mapped config" and "serialize_for_remote env encr uid config rec = Inr remote"
  shows "get_str remote ''id'' = get_str rec ''id''"
proof (cases encr)
  case None
  then show ?thesis using assms by (auto simp: serialize_for_remote_def get_str_def id_mapped_def split: option.splits)
next
  case (Some enc)
  then show ?thesis using serialize_get [of env enc uid config rec remote "''id''"] assms
    by (simp add: get_str_def id_mapped_def)
qed

lemma local_id: "id_mapped config \<Longrightarrow> get_str (map_remote_to_local config r) ''id'' = get_str r ''id''"
proof -
  assume c: "id_mapped config"
  then obtain col where col: "col \<in> set (columns config)" "remote_name col = Some ''id''" "local_name col = ''id''"
    by (auto simp: id_mapped_def)
  have "mapping_ok config" using c by (simp add: id_mapped_def)
  from map_remote_to_local_get [OF this col(1,2), of r] col(3) show ?thesis by (simp add: get_str_def)
qed

section \<open>What the network sees\<close>

lemma edge_call_trace:
  "net_trace (snd (edge_call env decode req token n)) = net_trace n @ [Sent (edge_http_request env req token)]
   \<and> net_echo (snd (edge_call env decode req token n)) = net_echo n"
proof -
  obtain r n' where s: "net_send env (edge_http_request env req token) n = (r, n')"
    by (cases "net_send env (edge_http_request env req token) n")
  have "net_trace n' = net_trace n @ [Sent (edge_http_request env req token)]" "net_echo n' = net_echo n"
    using net_send_trace [of env "edge_http_request env req token" n] s by simp_all
  moreover have "snd (edge_call env decode req token n) = n'"
    by (simp add: edge_call_def s split: sum.split)
  ultimately show ?thesis by simp
qed

definition echo_first :: "string \<Rightarrow> network \<Rightarrow> network \<Rightarrow> bool" where
  "echo_first table n n' \<longleftrightarrow> net_trace n' = net_trace n
     \<or> (\<exists>i req. net_trace n' = net_trace n @ [Marked table i, Sent req] \<and> net_echo n' = mark_pushed table i (net_now n) (net_echo n))"

lemma send_after_mark:
  "net_send env req (net_mark table i n) = (r, n') \<Longrightarrow> echo_first table n n'"
  using net_send_trace [of env req "net_mark table i n"] by (auto simp: echo_first_def)

lemma edge_dispatch_echo:
  "echo_first table n (snd (edge_call env decode req token (net_mark table i n)))"
  using edge_call_trace [of env decode req token "net_mark table i n"] by (auto simp: echo_first_def)

lemma dispatch_write_echo: "echo_first table n (snd (dispatch_write env config table rec i op token n))"
proof (cases "write_path config")
  case PostgREST
  have "echo_first table n (snd (pusher_upsert env table rec (conflict_target config) token n))"
    by (auto simp: pusher_upsert_def Let_def split: option.split prod.split sum.split
        dest: send_after_mark) (simp add: echo_first_def)
  then show ?thesis by (simp add: dispatch_write_def PostgREST)
next
  case (Edge f d)
  let ?c = "edge_call env Inr (with_op (unwrap_or d op) (edge_request_new f (JObject rec))) token (net_mark table i n)"
  have "snd (dispatch_write env config table rec i op token n) = snd ?c"
    by (simp add: dispatch_write_def Edge split: prod.split sum.split)
  then show ?thesis using edge_dispatch_echo by simp
qed

text \<open>The one request of a write or a deletion, and what its answer says.\<close>

definition write_request :: "net_env \<Rightarrow> EntityConfig \<Rightarrow> string \<Rightarrow> obj \<Rightarrow> string option \<Rightarrow> string \<Rightarrow> http_request" where
  "write_request env config table rec op token =
     (case write_path config of
        PostgREST \<Rightarrow> upsert_request env table (JArray [JObject rec]) (conflict_target config) token
      | Edge f d \<Rightarrow> edge_http_request env (with_op (unwrap_or d op) (edge_request_new f (JObject rec))) token)"

definition delete_request :: "net_env \<Rightarrow> EntityConfig \<Rightarrow> string \<Rightarrow> string \<Rightarrow> i64 \<Rightarrow> json \<Rightarrow> string \<Rightarrow> http_request" where
  "delete_request env config table i v at token =
     (case write_path config of
        PostgREST \<Rightarrow> patch_request env table i (tombstone_body v at) token
      | Edge f d \<Rightarrow> edge_http_request env (with_op ''delete'' (edge_request_new f (delete_payload i v))) token)"

definition server_answer :: "net_env \<Rightarrow> http_request \<Rightarrow> network \<Rightarrow> string + http_response" where
  "server_answer env req n = ne_server env (sent_requests (net_trace n)) req"

definition answered_success :: "string + http_response \<Rightarrow> bool" where
  "answered_success answer \<longleftrightarrow> (\<exists>resp. answer = Inr resp \<and> status_success (resp_status resp))"

definition answered_same_version :: "string + http_response \<Rightarrow> bool" where
  "answered_same_version answer \<longleftrightarrow> (\<exists>resp. answer = Inr resp \<and> \<not> status_success (resp_status resp)
     \<and> is_same_version_mutation_message (text_or_default resp))"

text \<open>What a call makes of the benign refusal: the record is dropped, and the call reports \<open>Ok\<close>.\<close>

definition same_version_ignored :: "PolyError + unit \<Rightarrow> bool" where
  "same_version_ignored result \<longleftrightarrow> (\<exists>t. result = Inl (Poly_Push (SameVersionMutationIgnored t)))"

lemma server_answer_mark [simp]: "server_answer env req (net_mark table i n) = server_answer env req n"
  by (simp add: server_answer_def)

lemma rejected_not_ignored: "rejected table resp \<noteq> Poly_Push (SameVersionMutationIgnored t)"
  by (simp add: rejected_def classify_push_error_message_def)

lemma dispatch_write_answer:
  assumes "get_str rec ''id'' = Some i" and "fst (dispatch_write env config table rec i op token n) = result"
  shows "result = Inr u \<Longrightarrow> answered_success (server_answer env (write_request env config table rec op token) n)"
    and "same_version_ignored result \<Longrightarrow> write_path config = PostgREST
      \<and> answered_same_version (server_answer env (write_request env config table rec op token) n)"
proof -
  have "(result = Inr u \<longrightarrow> answered_success (server_answer env (write_request env config table rec op token) n))
    \<and> (same_version_ignored result \<longrightarrow> write_path config = PostgREST
      \<and> answered_same_version (server_answer env (write_request env config table rec op token) n))"
  proof (cases "write_path config")
    case PostgREST
    then show ?thesis
      using assms rejected_not_ignored
      by (auto simp: dispatch_write_def write_request_def pusher_upsert_def net_send_def server_answer_def Let_def answered_success_def
          answered_same_version_def same_version_ignored_def split: sum.splits if_splits)
  next
    case (Edge f d)
    let ?c = "edge_call env Inr (with_op (unwrap_or d op) (edge_request_new f (JObject rec))) token (net_mark table i n)"
    have "result = (case fst ?c of Inl e \<Rightarrow> Inl e | Inr x \<Rightarrow> Inr ())"
      using assms(2) by (auto simp: dispatch_write_def Edge split: prod.splits sum.splits)
    then show ?thesis
      using edge_call_ok [of env Inr _ token "net_mark table i n"] edge_call_error [of env Inr _ token "net_mark table i n"]
      by (auto simp: write_request_def Edge server_answer_def answered_success_def same_version_ignored_def split: sum.splits)
  qed
  then show "result = Inr u \<Longrightarrow> answered_success (server_answer env (write_request env config table rec op token) n)"
    and "same_version_ignored result \<Longrightarrow> write_path config = PostgREST
      \<and> answered_same_version (server_answer env (write_request env config table rec op token) n)" by blast+
qed

text \<open>A deletion is never refused as a same-version mutation: such an answer is an error there.\<close>

lemma dispatch_delete_answer:
  assumes "fst (dispatch_delete env config table i v at token n) = result"
  shows "result = Inr u \<Longrightarrow> answered_success (server_answer env (delete_request env config table i v at token) n)"
    and "\<not> same_version_ignored result"
proof -
  have "(result = Inr u \<longrightarrow> answered_success (server_answer env (delete_request env config table i v at token) n))
    \<and> \<not> same_version_ignored result"
  proof (cases "write_path config")
    case PostgREST
    then show ?thesis
      using assms rejected_not_ignored
      by (auto simp: dispatch_delete_def delete_request_def pusher_update_tombstone_def net_send_def server_answer_def Let_def answered_success_def
          same_version_ignored_def split: sum.splits if_splits)
  next
    case (Edge f d)
    let ?c = "edge_call env Inr (with_op ''delete'' (edge_request_new f (delete_payload i v))) token (net_mark table i n)"
    have "result = (case fst ?c of Inl e \<Rightarrow> Inl e | Inr x \<Rightarrow> Inr ())"
      using assms by (auto simp: dispatch_delete_def Edge split: prod.splits sum.splits)
    then show ?thesis
      using edge_call_ok [of env Inr _ token "net_mark table i n"] edge_call_error [of env Inr _ token "net_mark table i n"]
      by (auto simp: delete_request_def Edge server_answer_def answered_success_def same_version_ignored_def split: sum.splits)
  qed
  then show "result = Inr u \<Longrightarrow> answered_success (server_answer env (delete_request env config table i v at token) n)"
    and "\<not> same_version_ignored result" by blast+
qed

text \<open>A deletion whose answer is a success with a readable body is not retried.\<close>

definition answered_readable :: "string + http_response \<Rightarrow> bool" where
  "answered_readable answer \<longleftrightarrow> (\<exists>resp body. answer = Inr resp \<and> status_success (resp_status resp) \<and> resp_text resp = Inr body)"

lemma dispatch_delete_answered:
  assumes "answered_readable (server_answer env (delete_request env config table i v at token) n)"
    and "fst (dispatch_delete env config table i v at token n) = Inl err"
  shows "\<not> is_transient err"
proof (cases "write_path config")
  case PostgREST
  then show ?thesis
    using assms by (auto simp: dispatch_delete_def delete_request_def pusher_update_tombstone_def net_send_def server_answer_def Let_def answered_readable_def)
next
  case (Edge f d)
  let ?req = "with_op ''delete'' (edge_request_new f (delete_payload i v))"
  obtain resp body where a: "server_answer env (edge_http_request env ?req token) n = Inr resp"
    "status_success (resp_status resp)" "resp_text resp = Inr body"
    using assms(1) by (auto simp: answered_readable_def delete_request_def Edge)
  obtain e where e: "err = Poly_Edge e" "edge_response env Inr (er_function ?req) (resp_status resp) body = Inl e"
    using assms(2) a [unfolded server_answer_def]
    by (cases "edge_response env Inr (er_function ?req) (resp_status resp) body")
      (auto simp: dispatch_delete_def Edge edge_call_def net_send_def server_answer_def split: sum.splits)
  then have "\<not> edge_is_transient e"
    using edge_response_transient [of env "Inr :: json \<Rightarrow> string + json" "er_function ?req" "resp_status resp" body]
      success_not_server [OF a(2)] by blast
  then show ?thesis using e(1) by (cases e) simp_all
qed

text \<open>A write that is dispatched marks its own row.\<close>

lemma dispatch_write_marks:
  assumes "get_str rec ''id'' = Some i"
  shows "net_echo (snd (dispatch_write env config table rec i op token n)) = mark_pushed table i (net_now n) (net_echo n)"
proof (cases "write_path config")
  case PostgREST
  obtain r n' where s: "net_send env (upsert_request env table (JArray [JObject rec]) (conflict_target config) token) (net_mark table i n) = (r, n')"
    by (cases "net_send env (upsert_request env table (JArray [JObject rec]) (conflict_target config) token) (net_mark table i n)")
  then have "net_echo n' = mark_pushed table i (net_now n) (net_echo n)"
    using net_send_trace(2) [of env "upsert_request env table (JArray [JObject rec]) (conflict_target config) token" "net_mark table i n"]
    by simp
  then show ?thesis using assms s by (simp add: dispatch_write_def PostgREST pusher_upsert_def Let_def split: sum.split)
next
  case (Edge f d)
  let ?c = "edge_call env Inr (with_op (unwrap_or d op) (edge_request_new f (JObject rec))) token (net_mark table i n)"
  have "snd (dispatch_write env config table rec i op token n) = snd ?c"
    by (simp add: dispatch_write_def Edge split: prod.split sum.split)
  then show ?thesis
    using edge_call_trace [of env Inr "with_op (unwrap_or d op) (edge_request_new f (JObject rec))" token "net_mark table i n"] by simp
qed

lemma dispatch_delete_echo: "echo_first table n (snd (dispatch_delete env config table i v at token n))"
proof (cases "write_path config")
  case PostgREST
  have "echo_first table n (snd (pusher_update_tombstone env table i v at token n))"
    by (auto simp: pusher_update_tombstone_def Let_def split: prod.split sum.split dest: send_after_mark)
  then show ?thesis by (simp add: dispatch_delete_def PostgREST)
next
  case (Edge f d)
  let ?c = "edge_call env Inr (with_op ''delete'' (edge_request_new f (delete_payload i v))) token (net_mark table i n)"
  have "snd (dispatch_delete env config table i v at token n) = snd ?c"
    by (simp add: dispatch_delete_def Edge split: prod.split sum.split)
  then show ?thesis using edge_dispatch_echo by simp
qed

lemma coordinator_frames [simp]:
  "cd_network (cd_publish e c) = cd_network c" "cd_queue (cd_publish e c) = cd_queue c"
  "cd_local (cd_publish e c) = cd_local c" "cd_events (cd_publish e c) = cd_events c @ [e]"
  "cd_network (publish_kvs_event rec d c) = cd_network c" "cd_queue (publish_kvs_event rec d c) = cd_queue c"
  "cd_local (publish_kvs_event rec d c) = cd_local c"
  "cd_network (kvs_notice table rec c) = cd_network c" "cd_queue (kvs_notice table rec c) = cd_queue c"
  "cd_local (kvs_notice table rec c) = cd_local c"
  "cd_registry (cd_publish e c) = cd_registry c" "cd_encryption (cd_publish e c) = cd_encryption c"
  "cd_registry (kvs_notice table rec c) = cd_registry c" "cd_encryption (kvs_notice table rec c) = cd_encryption c"
  by (simp_all add: cd_publish_def publish_def publish_kvs_event_def kvs_notice_def split: option.split)

lemma enqueue_for_replay_frames:
  "enqueue_for_replay env op c = (r, c') \<Longrightarrow> cd_network c' = cd_network c \<and> cd_local c' = cd_local c
     \<and> cd_registry c' = cd_registry c \<and> cd_encryption c' = cd_encryption c"
  by (auto simp: enqueue_for_replay_def split: prod.splits sum.splits)

section \<open>Incoming rows in the mirror\<close>

lemma decrypt_cols_other:
  "decrypt_cols cr enc u cols m = Inr plain \<Longrightarrow> k \<notin> encrypted_keys cols \<Longrightarrow> obj_get plain k = obj_get m k"
proof (induction cols arbitrary: m)
  case (Cons col cols)
  then show ?case
    by (auto simp: encrypted_keys_def Let_def split: if_splits option.splits json.splits sum.splits)
qed simp

lemma decode_id:
  assumes "id_mapped config" and "config_for_table (cd_registry c) table = Some config"
    and "decode_remote_record env table rec uid c = Inr plain"
  shows "get_str plain ''id'' = get_str rec ''id''"
  using assms decrypt_cols_other [of "ce_crypto (cv_cipher env)" _ "key_user_uuid (ce_crypto (cv_cipher env)) uid" "columns config" rec plain "''id''"]
  by (auto simp: decode_remote_record_def decrypt_record_columns_def id_mapped_def get_str_def split: option.splits)

text \<open>An incoming row is decoded, mapped and stored; nothing is sent and nothing is queued.\<close>

lemma apply_cases:
  assumes "apply_remote_record env table rec uid c = (Inr (), c')"
  obtains config plain l where "config_for_table (cd_registry c) table = Some config"
    "decode_remote_record env table rec uid c = Inr plain"
    "ls_upsert_record (cv_local env) table (map_remote_to_local config plain) (cd_local c) = (Inr (), l)"
    "cd_local c' = l" "cd_queue c' = cd_queue c" "cd_network c' = cd_network c"
  using assms
  by (auto simp: apply_remote_record_def decode_remote_record_def Let_def
      split: option.splits sum.splits prod.splits if_splits)

section \<open>Outcomes\<close>

lemma settle_write_cases:
  assumes "settle_write env table i rec result c = (r, c')"
  obtains (settled) "result = Inr () \<or> same_version_ignored result" "r = Inr ()" "c' = kvs_notice table rec c"
  | (queued) err c1 where "result = Inl err" "is_transient err" "r = Inr ()"
      "enqueue_for_replay env (queued_write env table i (Write (JObject rec)) err) c = (Inr (), c1)"
      "c' = kvs_notice table rec c1"
  | (full) err e where "result = Inl err" "is_transient err" "r = Inl e"
      "enqueue_for_replay env (queued_write env table i (Write (JObject rec)) err) c = (Inl e, c')"
  | (rejected) err where "result = Inl err" "\<not> is_transient err" "\<not> same_version_ignored result" "r = Inl err"
      "c' = (if is_version_regression err then cd_publish (VersionRegressionDetected table i) c else c)"
proof (cases "result = Inr () \<or> same_version_ignored result")
  case True
  then show ?thesis using settled assms
    by (auto simp: settle_write_def same_version_ignored_def split: sum.splits PolyError.splits PushError.splits)
next
  case False
  then obtain err where err: "result = Inl err" by (cases result) (auto simp: same_version_ignored_def)
  have st: "settle_write env table i rec result c =
      (if is_transient err then
             (case enqueue_for_replay env (queued_write env table i (Write (JObject rec)) err) c of
                (Inl e, c') \<Rightarrow> (Inl e, c')
              | (Inr _, c') \<Rightarrow> (Inr (), kvs_notice table rec c'))
           else (Inl err, if is_version_regression err
                          then cd_publish (VersionRegressionDetected table i) c else c))"
    using False by (auto simp: settle_write_def same_version_ignored_def err split: PolyError.splits PushError.splits)
  show ?thesis
  proof (cases "is_transient err")
    case True
    obtain q c1 where q: "enqueue_for_replay env (queued_write env table i (Write (JObject rec)) err) c = (q, c1)"
      by (cases "enqueue_for_replay env (queued_write env table i (Write (JObject rec)) err) c")
    show ?thesis
    proof (cases q)
      case (Inl e)
      then have "r = Inl e" "c' = c1" using assms [unfolded st] True q by simp_all
      then show ?thesis using full [OF err True] q Inl by simp
    next
      case (Inr x)
      then have "r = Inr ()" "c' = kvs_notice table rec c1" using assms [unfolded st] True q by simp_all
      then show ?thesis using queued [OF err True] q Inr by simp
    qed
  next
    case f: False
    have "\<not> same_version_ignored result" using \<open>\<not> (result = Inr () \<or> same_version_ignored result)\<close> by simp
    then show ?thesis using assms rejected [OF err f] f by (simp add: st)
  qed
qed

lemma settle_delete_cases:
  assumes "settle_delete env table i v result c = (r, c')"
  obtains (settled) "result = Inr () \<or> same_version_ignored result" "r = Inr ()" "cd_queue c' = cd_queue c" "cd_local c' = cd_local c" "cd_network c' = cd_network c"
      "cd_registry c' = cd_registry c" "cd_encryption c' = cd_encryption c"
  | (queued) err where "result = Inl err" "is_transient err"
      "enqueue_for_replay env (queued_write env table i (Tombstone v) err) c = (r, c')"
  | (rejected) err where "result = Inl err" "\<not> is_transient err" "\<not> same_version_ignored result" "r = Inl err"
      "c' = (if is_version_regression err then cd_publish (VersionRegressionDetected table i) c else c)"
proof (cases "result = Inr () \<or> same_version_ignored result")
  case True
  then show ?thesis using settled assms
    by (auto simp: settle_delete_def same_version_ignored_def split: sum.splits PolyError.splits PushError.splits option.splits if_splits)
next
  case False
  then obtain err where err: "result = Inl err" by (cases result) (auto simp: same_version_ignored_def)
  have st: "settle_delete env table i v result c =
      (if is_transient err then enqueue_for_replay env (queued_write env table i (Tombstone v) err) c
       else (Inl err, if is_version_regression err then cd_publish (VersionRegressionDetected table i) c else c))"
    using False by (auto simp: settle_delete_def same_version_ignored_def err split: PolyError.splits PushError.splits)
  show ?thesis using assms [unfolded st] err False queued rejected by (cases "is_transient err") auto
qed

text \<open>What a call that got as far as the mirror did.\<close>

lemma persist_cases:
  assumes "persist_change_with_op env table rec op c = (r, c')"
  obtains (refused) e where "r = Inl e" "c' = c"
  | (mirror) config session i remote e l where "config_for_table (cd_registry c) table = Some config"
      "get_str rec ''id'' = Some i" "cd_session c = Some session"
      "serialize_for_remote (cv_cipher env) (cd_encryption c) (sp_user_id session) config rec = Inr remote"
      "ls_upsert_record (cv_local env) table (map_remote_to_local config remote) (cd_local c) = (Inl e, l)"
      "r = Inl e" "c' = c\<lparr>cd_local := l\<rparr>"
  | (written) config session i remote l result n where "config_for_table (cd_registry c) table = Some config"
      "get_str rec ''id'' = Some i" "cd_session c = Some session"
      "serialize_for_remote (cv_cipher env) (cd_encryption c) (sp_user_id session) config rec = Inr remote"
      "ls_upsert_record (cv_local env) table (map_remote_to_local config remote) (cd_local c) = (Inr (), l)"
      "dispatch_write (cv_net env) config table remote i op (sp_access_token session) (cd_network c) = (result, n)"
      "settle_write env table i remote result (c\<lparr>cd_local := l, cd_network := n\<rparr>) = (r, c')"
proof -
  consider (none) "config_for_table (cd_registry c) table = None \<or> get_str rec ''id'' = None \<or> cd_session c = None"
    | (some) config i session where "config_for_table (cd_registry c) table = Some config"
      "get_str rec ''id'' = Some i" "cd_session c = Some session"
    by (cases "config_for_table (cd_registry c) table"; cases "get_str rec ''id''"; cases "cd_session c") auto
  then show ?thesis
  proof cases
    case none
    then have "\<exists>e. r = Inl e \<and> c' = c"
      using assms by (auto simp: persist_change_with_op_def split: option.splits)
    then show ?thesis using refused by blast
  next
    case some
    note def = persist_change_with_op_def some
    show ?thesis
    proof (cases "serialize_for_remote (cv_cipher env) (cd_encryption c) (sp_user_id session) config rec")
      case (Inl e)
      then show ?thesis using assms refused [of "Poly_Registry e"] by (auto simp: def)
    next
      case (Inr remote)
      obtain q l where u: "ls_upsert_record (cv_local env) table (map_remote_to_local config remote) (cd_local c) = (q, l)"
        by (cases "ls_upsert_record (cv_local env) table (map_remote_to_local config remote) (cd_local c)")
      obtain result n where d: "dispatch_write (cv_net env) config table remote i op (sp_access_token session) (cd_network c) = (result, n)"
        by (cases "dispatch_write (cv_net env) config table remote i op (sp_access_token session) (cd_network c)")
      show ?thesis
      proof (cases q)
        case (Inl e)
        then show ?thesis using mirror [OF some Inr] u assms by (simp add: def Inr)
      next
        case (Inr x)
        then show ?thesis using written [OF some \<open>serialize_for_remote _ _ _ _ _ = Inr remote\<close> _ d] u assms
          by (simp add: def \<open>serialize_for_remote _ _ _ _ _ = Inr remote\<close> d)
      qed
    qed
  qed
qed

lemma delete_cases:
  assumes "coordinator_delete env table i v c = (r, c')"
  obtains (refused) e where "r = Inl e" "c' = c"
  | (mirror) e l where "ls_mark_deleted (cv_local env) table i v (cd_local c) = (Inl e, l)" "r = Inl e" "c' = c\<lparr>cd_local := l\<rparr>"
  | (marked) config session l result n where "config_for_table (cd_registry c) table = Some config"
      "cd_session c = Some session" "ls_mark_deleted (cv_local env) table i v (cd_local c) = (Inr (), l)"
      "dispatch_delete (cv_net env) config table i v (tombstone_updated_at_value (cv_clock env) config)
         (sp_access_token session) (cd_network c) = (result, n)"
      "settle_delete env table i v result (c\<lparr>cd_local := l, cd_network := n\<rparr>) = (r, c')"
proof -
  consider (none) "config_for_table (cd_registry c) table = None \<or> cd_session c = None"
    | (some) config session where "config_for_table (cd_registry c) table = Some config" "cd_session c = Some session"
    by (cases "config_for_table (cd_registry c) table"; cases "cd_session c") auto
  then show ?thesis
  proof cases
    case none
    then have "\<exists>e. r = Inl e \<and> c' = c"
      using assms by (auto simp: coordinator_delete_def split: option.splits)
    then show ?thesis using refused by blast
  next
    case some
    note def = coordinator_delete_def some
    obtain q l where u: "ls_mark_deleted (cv_local env) table i v (cd_local c) = (q, l)"
      by (cases "ls_mark_deleted (cv_local env) table i v (cd_local c)")
    obtain result n where d: "dispatch_delete (cv_net env) config table i v (tombstone_updated_at_value (cv_clock env) config)
         (sp_access_token session) (cd_network c) = (result, n)"
      by (cases "dispatch_delete (cv_net env) config table i v (tombstone_updated_at_value (cv_clock env) config)
         (sp_access_token session) (cd_network c)")
    show ?thesis
    proof (cases q)
      case (Inl e)
      then show ?thesis using mirror u assms by (simp add: def)
    next
      case (Inr x)
      then show ?thesis using marked [OF some _ d] u assms by (simp add: def d)
    qed
  qed
qed

text \<open>An acknowledged call has sent its one request.\<close>

lemma dispatch_write_sends:
  assumes "get_str rec ''id'' = Some i"
  shows "net_trace (snd (dispatch_write env config table rec i op token n))
    = net_trace n @ [Marked table i, Sent (write_request env config table rec op token)]"
proof (cases "write_path config")
  case PostgREST
  have "net_trace (snd (pusher_upsert env table rec (conflict_target config) token n)) =
      net_trace n @ [Marked table i, Sent (upsert_request env table (JArray [JObject rec]) (conflict_target config) token)]"
    using assms by (auto simp: pusher_upsert_def Let_def net_send_def split: sum.splits)
  then show ?thesis by (simp add: dispatch_write_def write_request_def PostgREST)
next
  case (Edge f d)
  let ?c = "edge_call env Inr (with_op (unwrap_or d op) (edge_request_new f (JObject rec))) token (net_mark table i n)"
  have "snd (dispatch_write env config table rec i op token n) = snd ?c"
    by (simp add: dispatch_write_def Edge split: prod.split sum.split)
  then show ?thesis using edge_call_trace [of env Inr _ token "net_mark table i n"] by (simp add: write_request_def Edge)
qed

lemma dispatch_delete_sends:
  "net_trace (snd (dispatch_delete env config table i v at token n))
    = net_trace n @ [Marked table i, Sent (delete_request env config table i v at token)]"
proof (cases "write_path config")
  case PostgREST
  have "net_trace (snd (pusher_update_tombstone env table i v at token n)) =
      net_trace n @ [Marked table i, Sent (patch_request env table i (tombstone_body v at) token)]"
    by (auto simp: pusher_update_tombstone_def Let_def net_send_def split: sum.splits)
  then show ?thesis by (simp add: dispatch_delete_def delete_request_def PostgREST)
next
  case (Edge f d)
  let ?c = "edge_call env Inr (with_op ''delete'' (edge_request_new f (delete_payload i v))) token (net_mark table i n)"
  have "snd (dispatch_delete env config table i v at token n) = snd ?c"
    by (simp add: dispatch_delete_def Edge split: prod.split sum.split)
  then show ?thesis using edge_call_trace [of env Inr _ token "net_mark table i n"] by (simp add: delete_request_def Edge)
qed

lemma persist_sends:
  assumes "persist_change_with_op env table rec op c = (Inr (), c')"
    and "config_for_table (cd_registry c) table = Some config" and "id_mapped config" and "cd_session c = Some session"
    and "serialize_for_remote (cv_cipher env) (cd_encryption c) (sp_user_id session) config rec = Inr remote"
  shows "sent_requests (net_trace (cd_network c'))
    = sent_requests (net_trace (cd_network c)) @ [write_request (cv_net env) config table remote op (sp_access_token session)]"
  using assms(1)
proof (cases rule: persist_cases)
  case (written config' session' i remote' l result n)
  have same: "config' = config" "session' = session" "remote' = remote" using assms(2,4,5) written(1,3,4) by simp_all
  have "get_str remote ''id'' = Some i" using serialize_id [OF assms(3,5)] written(2) by simp
  from dispatch_write_sends [OF this] written(6)
  have "net_trace n = net_trace (cd_network c) @ [Marked table i,
      Sent (write_request (cv_net env) config table remote op (sp_access_token session))]"
    by (metis same snd_conv)
  moreover have "cd_network c' = n"
    using written(7) by (cases rule: settle_write_cases) (auto dest: enqueue_for_replay_frames)
  ultimately show ?thesis by simp
qed simp_all

lemma delete_sends:
  assumes "coordinator_delete env table i v c = (Inr (), c')"
    and "config_for_table (cd_registry c) table = Some config" and "cd_session c = Some session"
  shows "sent_requests (net_trace (cd_network c')) = sent_requests (net_trace (cd_network c))
    @ [delete_request (cv_net env) config table i v (tombstone_updated_at_value (cv_clock env) config) (sp_access_token session)]"
  using assms(1)
proof (cases rule: delete_cases)
  case (marked config' session' l result n)
  have same: "config' = config" "session' = session" using assms(2,3) marked(1,2) by simp_all
  have "net_trace n = net_trace (cd_network c) @ [Marked table i,
      Sent (delete_request (cv_net env) config table i v (tombstone_updated_at_value (cv_clock env) config) (sp_access_token session))]"
    using dispatch_delete_sends marked(4) by (metis same snd_conv)
  moreover have "cd_network c' = n"
    using marked(5) by (cases rule: settle_delete_cases) (auto dest: enqueue_for_replay_frames)
  ultimately show ?thesis by simp
qed simp_all

section \<open>The guarantees, over any mirror and any queue\<close>

definition wired ::
  "'s LocalStore \<Rightarrow> (QueuedOperation \<Rightarrow> 'q \<Rightarrow> (OfflineQueueError + unit) \<times> 'q)
   \<Rightarrow> ('q \<Rightarrow> (OfflineQueueError + nat) \<times> 'q) \<Rightarrow> ('s, 'q) coord_env \<Rightarrow> bool" where
  "wired ops enqueue depth env \<longleftrightarrow> cv_local env = ops \<and> cv_enqueue env = enqueue \<and> cv_depth env = depth"

text \<open>
  What a write that returned \<open>Ok\<close> has come to. The server answered its request with a success and
  nothing was queued; or the server refused the record as a mutation of a version it already has, and
  the record was dropped: it is not queued and not at the server; or the request failed for a reason
  that may pass, and the write is the pending operation of its row.
\<close>

definition write_outcome ::
  "string + http_response \<Rightarrow> PolyError + unit \<Rightarrow> (PolyError \<Rightarrow> QueuedOperation) \<Rightarrow> (string \<times> string \<rightharpoonup> QueuedOperation)
   \<Rightarrow> (string \<times> string \<rightharpoonup> QueuedOperation) \<Rightarrow> bool" where
  "write_outcome answer result queued q q' \<longleftrightarrow>
     (result = Inr () \<and> answered_success answer \<and> q' = q)
     \<or> (same_version_ignored result \<and> answered_same_version answer \<and> q' = q)
     \<or> (\<exists>err. result = Inl err \<and> is_transient err \<and> q' = q(op_key (queued err) \<mapsto> queued err))"

text \<open>The same for a deletion, which has no benign refusal.\<close>

definition delete_outcome ::
  "string + http_response \<Rightarrow> PolyError + unit \<Rightarrow> (PolyError \<Rightarrow> QueuedOperation) \<Rightarrow> (string \<times> string \<rightharpoonup> QueuedOperation)
   \<Rightarrow> (string \<times> string \<rightharpoonup> QueuedOperation) \<Rightarrow> bool" where
  "delete_outcome answer result queued q q' \<longleftrightarrow>
     (result = Inr () \<and> answered_success answer \<and> q' = q)
     \<or> (\<exists>err. result = Inl err \<and> is_transient err \<and> q' = q(op_key (queued err) \<mapsto> queued err))"

text \<open>What the mirror has of a row after a deletion: the tombstone, if it had the row at all.\<close>

definition tombstoned :: "(string \<Rightarrow> json \<Rightarrow> json) \<Rightarrow> i64 \<Rightarrow> Record option \<Rightarrow> Record option \<Rightarrow> bool" where
  "tombstoned conv v old new \<longleftrightarrow>
     (case old of
        None \<Rightarrow> new = None
      | Some r \<Rightarrow> (let marks = [(''deleted'', JInt 1), (''version'', json_of_i64 v)]
                   in \<exists>row. new = Some row \<and> written conv marks row \<and> kept marks (Some r) row))"

text \<open>A mirror and a queue that keep their contracts; any queue will do for what \<open>Ok\<close> guarantees.\<close>

locale coordinator_queue =
  mirror: local_store ops ok view stored + queue: offline_queue enqueue snapshot finalize depth inv qview retried
  for ops :: "'s LocalStore" and ok view stored
    and enqueue :: "QueuedOperation \<Rightarrow> 'q \<Rightarrow> (OfflineQueueError + unit) \<times> 'q"
    and snapshot finalize depth inv qview retried
begin

lemma enqueue_ok:
  assumes "wired ops enqueue depth env" and "inv (cd_queue c)" and "kind_ok (op_kind op)"
    and "enqueue_for_replay env op c = (Inr (), c')"
  shows "qview (cd_queue c') = (qview (cd_queue c))(op_key op \<mapsto> op)"
proof -
  obtain r q where e: "enqueue op (cd_queue c) = (r, q)" by (cases "enqueue op (cd_queue c)")
  then have r: "r = Inr ()" using assms(1,4) by (auto simp: enqueue_for_replay_def wired_def split: sum.splits prod.splits)
  have q: "inv q" "qview q = (qview (cd_queue c))(op_key op \<mapsto> op)"
    using queue.enqueue_inv [OF assms(2,3)] queue.enqueue_view [OF assms(2,3)] e r by simp_all
  obtain d q' where d: "depth q = (d, q')" by (cases "depth q")
  have "cd_queue c' = q'" using assms(1,4) e r d by (auto simp: enqueue_for_replay_def wired_def)
  then show ?thesis using queue.depth_inv [OF q(1)] q(2) d by simp
qed

lemma enqueue_keeps:
  assumes "wired ops enqueue depth env" and "inv (cd_queue c)" and "kind_ok (op_kind op)"
    and "enqueue_for_replay env op c = (r, c')"
  shows "inv (cd_queue c')"
proof -
  obtain x q where e: "enqueue op (cd_queue c) = (x, q)" by (cases "enqueue op (cd_queue c)")
  then have q: "inv q" using queue.enqueue_inv [OF assms(2,3)] by simp
  obtain d q' where d: "depth q = (d, q')" by (cases "depth q")
  then have "inv q'" using queue.depth_inv [OF q] by simp
  then show ?thesis using assms(1,4) e d q by (cases x) (auto simp: enqueue_for_replay_def wired_def)
qed

lemma persist_keeps_queue:
  assumes "wired ops enqueue depth env" and "inv (cd_queue c)" and "record_ok rec"
    and "persist_change_with_op env table rec op c = (r, c')"
  shows "inv (cd_queue c')"
  using assms(4)
proof (cases rule: persist_cases)
  case (written config session i remote l result n)
  have can: "kind_ok (op_kind (queued_write env table i (Write (JObject remote)) err))" for err
    using serialize_storable [OF written(4) assms(3)] by (simp add: queued_write_def kind_ok_def)
  from written(7) show ?thesis
  proof (cases rule: settle_write_cases)
    case (queued err c1)
    then show ?thesis using enqueue_keeps [OF assms(1) _ can queued(4)] assms(2) by simp
  next
    case (full err e)
    then show ?thesis using enqueue_keeps [OF assms(1) _ can full(4)] assms(2) by simp
  qed (use assms(2) in simp_all)
qed (use assms(2) in simp_all)

lemma persist_ok:
  assumes "wired ops enqueue depth env" and "ok (cd_local c)" and "inv (cd_queue c)"
    and "\<And>config. config_for_table (cd_registry c) table = Some config \<Longrightarrow> id_mapped config"
    and "record_ok rec" and "persist_change_with_op env table rec op c = (Inr (), c')"
  shows "\<exists>config session i remote row.
      config_for_table (cd_registry c) table = Some config \<and> cd_session c = Some session \<and> get_str rec ''id'' = Some i
      \<and> serialize_for_remote (cv_cipher env) (cd_encryption c) (sp_user_id session) config rec = Inr remote
      \<and> view (cd_local c') table i = Some row
      \<and> written (stored (cd_local c) table) (map_remote_to_local config remote) row
      \<and> write_outcome
          (server_answer (cv_net env) (write_request (cv_net env) config table remote op (sp_access_token session)) (cd_network c))
          (fst (dispatch_write (cv_net env) config table remote i op (sp_access_token session) (cd_network c)))
          (queued_write env table i (Write (JObject remote))) (qview (cd_queue c)) (qview (cd_queue c'))"
  using assms(6)
proof (cases rule: persist_cases)
  case (written config session i remote l result n)
  have im: "id_mapped config" using assms(4) written(1) by simp
  have idl: "get_str (map_remote_to_local config remote) ''id'' = Some i"
    using local_id [OF im] serialize_id [OF im written(4)] written(2) by simp
  have ops: "cv_local env = ops" using assms(1) by (simp add: wired_def)
  obtain row where row: "view l table i = Some row" "LocalStore.written (stored (cd_local c) table) (map_remote_to_local config remote) row"
    using mirror.upsert_ok [OF assms(2) idl] written(5) ops by fastforce
  have can: "kind_ok (op_kind (queued_write env table i (Write (JObject remote)) err))" for err
    using serialize_storable [OF written(4) assms(5)] by (simp add: queued_write_def kind_ok_def)
  have key: "op_key (queued_write env table i k err) = (table, i)" for k err
    by (simp add: queued_write_def op_key_def)
  have d: "fst (dispatch_write (cv_net env) config table remote i op (sp_access_token session) (cd_network c)) = result"
    using written(6) by simp
  have "get_str remote ''id'' = Some i" using serialize_id [OF im written(4)] written(2) by simp
  note answer = dispatch_write_answer [OF this d]
  have "cd_local c' = l \<and> write_outcome
      (server_answer (cv_net env) (write_request (cv_net env) config table remote op (sp_access_token session)) (cd_network c))
      result (queued_write env table i (Write (JObject remote))) (qview (cd_queue c)) (qview (cd_queue c'))"
    using written(7)
  proof (cases rule: settle_write_cases)
    case settled
    then show ?thesis using answer by (auto simp: write_outcome_def)
  next
    case (queued err c1)
    then show ?thesis
      using enqueue_ok [OF assms(1) _ can queued(4)] enqueue_for_replay_frames [OF queued(4)] assms(3)
      by (auto simp: write_outcome_def)
  qed simp_all
  then show ?thesis using written row by auto
qed simp_all

lemma persist_mirror_ok:
  assumes "wired ops enqueue depth env" and "ok (cd_local c)"
    and "\<And>config. config_for_table (cd_registry c) table = Some config \<Longrightarrow> id_mapped config"
    and "persist_change_with_op env table rec op c = (r, c')"
  shows "ok (cd_local c')"
  using assms(4)
proof (cases rule: persist_cases)
  case refused
  then show ?thesis using assms(2) by simp
next
  case (mirror config session i remote e l)
  have im: "id_mapped config" using assms(3) mirror(1) by simp
  have "get_str (map_remote_to_local config remote) ''id'' = Some i"
    using local_id [OF im] serialize_id [OF im mirror(4)] mirror(2) by simp
  then show ?thesis using mirror.upsert_frame [OF assms(2)] mirror(5,7) assms(1) by (auto simp: wired_def)
next
  case (written config session i remote l result n)
  have im: "id_mapped config" using assms(3) written(1) by simp
  have i: "get_str (map_remote_to_local config remote) ''id'' = Some i"
    using local_id [OF im] serialize_id [OF im written(4)] written(2) by simp
  have "cv_local env = ops" using assms(1) by (simp add: wired_def)
  then have "ok l" using mirror.upsert_frame [OF assms(2) i] written(5) by fastforce
  moreover have "cd_local c' = l"
    using written(7) by (cases rule: settle_write_cases) (auto dest: enqueue_for_replay_frames)
  ultimately show ?thesis by simp
qed

lemma delete_ok:
  assumes "wired ops enqueue depth env" and "ok (cd_local c)" and "inv (cd_queue c)"
    and "coordinator_delete env table i v c = (Inr (), c')"
  shows "\<exists>config session. config_for_table (cd_registry c) table = Some config \<and> cd_session c = Some session
      \<and> tombstoned (stored (cd_local c) table) v (view (cd_local c) table i) (view (cd_local c') table i)
      \<and> delete_outcome
          (server_answer (cv_net env) (delete_request (cv_net env) config table i v
             (tombstone_updated_at_value (cv_clock env) config) (sp_access_token session)) (cd_network c))
          (fst (dispatch_delete (cv_net env) config table i v (tombstone_updated_at_value (cv_clock env) config)
             (sp_access_token session) (cd_network c)))
          (queued_write env table i (Tombstone v)) (qview (cd_queue c)) (qview (cd_queue c'))"
  using assms(4)
proof (cases rule: delete_cases)
  case (marked config session l result n)
  have ops: "cv_local env = ops" using assms(1) by (simp add: wired_def)
  have mk: "ls_mark_deleted ops table i v (cd_local c) = (Inr (), l)" using marked(3) ops by simp
  have row: "tombstoned (stored (cd_local c) table) v (view (cd_local c) table i) (view l table i)"
    using mirror.mark_ok [OF assms(2) mk] mirror.mark_missing [OF assms(2) mk]
    by (auto simp: tombstoned_def Let_def split: option.split)
  have can: "kind_ok (op_kind (queued_write env table i (Tombstone v) err))" for err
    by (simp add: queued_write_def kind_ok_def)
  have d: "fst (dispatch_delete (cv_net env) config table i v (tombstone_updated_at_value (cv_clock env) config)
      (sp_access_token session) (cd_network c)) = result"
    using marked(4) by simp
  note answer = dispatch_delete_answer [OF d]
  have "cd_local c' = l \<and> delete_outcome
      (server_answer (cv_net env) (delete_request (cv_net env) config table i v
         (tombstone_updated_at_value (cv_clock env) config) (sp_access_token session)) (cd_network c))
      result (queued_write env table i (Tombstone v)) (qview (cd_queue c)) (qview (cd_queue c'))"
    using marked(5)
  proof (cases rule: settle_delete_cases)
    case settled
    then show ?thesis using answer by (auto simp: delete_outcome_def)
  next
    case (queued err)
    then show ?thesis
      using enqueue_ok [OF assms(1) _ can queued(3)] enqueue_for_replay_frames [OF queued(3)] assms(3)
      by (auto simp: delete_outcome_def)
  qed simp_all
  then show ?thesis using marked row d by auto
qed simp_all

lemma delete_keeps_queue:
  assumes "wired ops enqueue depth env" and "inv (cd_queue c)" and "coordinator_delete env table i v c = (r, c')"
  shows "inv (cd_queue c')"
  using assms(3)
proof (cases rule: delete_cases)
  case (marked config session l result n)
  have can: "kind_ok (op_kind (queued_write env table i (Tombstone v) err))" for err
    by (simp add: queued_write_def kind_ok_def)
  from marked(5) show ?thesis
  proof (cases rule: settle_delete_cases)
    case (queued err)
    then show ?thesis using enqueue_keeps [OF assms(1) _ can queued(3)] assms(2) by simp
  qed (use assms(2) in simp_all)
qed (use assms(2) in simp_all)

lemma apply_ok:
  assumes "wired ops enqueue depth env" and "ok (cd_local c)"
    and "\<And>config. config_for_table (cd_registry c) table = Some config \<Longrightarrow> id_mapped config"
    and "get_str rec ''id'' = Some i" and "apply_remote_record env table rec uid c = (Inr (), c')"
  shows "\<exists>config plain row. config_for_table (cd_registry c) table = Some config
      \<and> decode_remote_record env table rec uid c = Inr plain \<and> view (cd_local c') table i = Some row
      \<and> written (stored (cd_local c) table) (map_remote_to_local config plain) row
      \<and> ok (cd_local c') \<and> cd_queue c' = cd_queue c \<and> cd_network c' = cd_network c"
proof -
  from apply_cases [OF assms(5)] obtain config plain l where a: "config_for_table (cd_registry c) table = Some config"
    "decode_remote_record env table rec uid c = Inr plain"
    "ls_upsert_record ops table (map_remote_to_local config plain) (cd_local c) = (Inr (), l)"
    "cd_local c' = l" "cd_queue c' = cd_queue c" "cd_network c' = cd_network c"
    using assms(1) by (metis wired_def)
  have i: "get_str (map_remote_to_local config plain) ''id'' = Some i"
    using local_id decode_id [OF _ a(1,2)] assms(3) [OF a(1)] assms(4) by simp
  have "ok l" using mirror.upsert_frame [OF assms(2) i a(3)] by blast
  then show ?thesis using mirror.upsert_ok [OF assms(2) i a(3)] a by blast
qed

end

text \<open>With a queue that undoes a failed enqueue, an error leaves what is pending as it was.\<close>

locale coordinator =
  coordinator_queue ops ok view stored enqueue snapshot finalize depth inv qview bump_retry
  + retrying: retrying_queue enqueue snapshot finalize depth inv qview
  for ops :: "'s LocalStore" and ok view stored
    and enqueue :: "QueuedOperation \<Rightarrow> 'q \<Rightarrow> (OfflineQueueError + unit) \<times> 'q"
    and snapshot finalize depth inv qview
begin

lemma enqueue_err:
  assumes "wired ops enqueue depth env" and "inv (cd_queue c)" and "enqueue_for_replay env op c = (Inl e, c')"
  shows "qview (cd_queue c') = qview (cd_queue c)"
proof -
  obtain r q where e: "enqueue op (cd_queue c) = (r, q)" by (cases "enqueue op (cd_queue c)")
  then obtain x where "r = Inl x" "cd_queue c' = q"
    using assms(1,3) by (auto simp: enqueue_for_replay_def wired_def split: sum.splits prod.splits)
  then show ?thesis using retrying.enqueue_atomic [OF assms(2), of op x] e by simp
qed

lemma persist_err:
  assumes "wired ops enqueue depth env" and "inv (cd_queue c)"
    and "persist_change_with_op env table rec op c = (Inl e, c')"
  shows "qview (cd_queue c') = qview (cd_queue c)"
    and "cd_events c' = cd_events c \<or>
      (is_version_regression e \<and> (\<exists>i. get_str rec ''id'' = Some i
        \<and> cd_events c' = cd_events c @ [VersionRegressionDetected table i]))"
  using assms(3)
proof (atomize (full), cases rule: persist_cases)
  case (written config session i remote l result n)
  from written(7) show "qview (cd_queue c') = qview (cd_queue c) \<and> (cd_events c' = cd_events c \<or>
      (is_version_regression e \<and> (\<exists>i. get_str rec ''id'' = Some i
        \<and> cd_events c' = cd_events c @ [VersionRegressionDetected table i])))"
  proof (cases rule: settle_write_cases)
    case (full err e')
    then have "cd_events c' = cd_events c"
      by (auto simp: enqueue_for_replay_def split: sum.splits prod.splits)
    then show ?thesis using enqueue_err [OF assms(1) _ full(4)] assms(2) by simp
  next
    case (rejected err)
    then show ?thesis using written(2) by simp
  qed simp_all
qed simp_all

end

end
