(* ===== verification/SqliteStore.thy ===== *)
theory SqliteStore
  imports LocalStore
begin

text \<open>
  \<open>crates/polybase-sqlite/src/store.rs\<close>: the SQLite mirror. A database maps table names to
  a schema and rows; a row gives each column of the schema a storage class value. The statements
  of the file are executed as SQLite documents them: an unknown table or column or an empty
  \<open>SET\<close> list is an error, values are converted by the column's affinity, \<open>NOT NULL\<close>
  is checked on the row to insert before the conflict clause applies, and uniqueness makes the
  statement fail as a whole. Conversions by affinity and the float conversions belong to SQLite
  and \<open>serde_json\<close> and are parameters. Tables without triggers, foreign keys and generated
  columns; names are compared exactly. Each statement can fail (\<open>dm_faults\<close>).
\<close>

section \<open>Values\<close>

datatype sqlval =
    SqlNull
  | SqlInteger i64
  | SqlReal u64
  | SqlText string
  | SqlBlob string

record sqlite_env =
  se_codec :: json_codec
  se_affinity :: "string \<Rightarrow> sqlval \<Rightarrow> sqlval"
  se_f64_of_int :: "int \<Rightarrow> u64"
  se_f64_finite :: "u64 \<Rightarrow> bool"

text \<open>What SQLite documents of the affinities the code's tables use.\<close>

definition affinity_ok :: "sqlite_env \<Rightarrow> bool" where
  "affinity_ok env \<longleftrightarrow>
     (\<forall>ty v. se_affinity env ty v = SqlNull \<longleftrightarrow> v = SqlNull)
     \<and> (\<forall>s. se_affinity env ''TEXT'' (SqlText s) = SqlText s)
     \<and> (\<forall>n. se_affinity env ''TEXT'' (SqlInteger n) = SqlText (dec_int (sint n)))
     \<and> (\<forall>n. se_affinity env ''INTEGER'' (SqlInteger n) = SqlInteger n)"

definition bind_json_value :: "sqlite_env \<Rightarrow> json \<Rightarrow> sqlval" where
  "bind_json_value env value =
     (case value of
        JNull \<Rightarrow> SqlNull
      | JBool b \<Rightarrow> SqlInteger (if b then 1 else 0)
      | JInt n \<Rightarrow> (case as_i64 (JInt n) of
                     Some i \<Rightarrow> SqlInteger i
                   | None \<Rightarrow> SqlReal (se_f64_of_int env n))
      | JFloat f \<Rightarrow> SqlReal f
      | JString s \<Rightarrow> SqlText s
      | other \<Rightarrow> SqlText (render (se_codec env) other))"

definition value_of_column :: "sqlite_env \<Rightarrow> sqlval \<Rightarrow> json" where
  "value_of_column env raw =
     (case raw of
        SqlNull \<Rightarrow> JNull
      | SqlInteger n \<Rightarrow> json_of_i64 n
      | SqlReal f \<Rightarrow> (if se_f64_finite env f then JFloat f else JNull)
      | SqlBlob _ \<Rightarrow> JNull
      | SqlText s \<Rightarrow> JString s)"

section \<open>Tables\<close>

record sql_column =
  sc_name :: string
  sc_type :: string
  sc_not_null :: bool
  sc_default :: sqlval

type_synonym sql_row = "(string \<times> sqlval) list"

record sql_table =
  st_columns :: "sql_column list"
  st_uniques :: "string list list"
  st_rows :: "sql_row list"

type_synonym sqlite_db = "string \<rightharpoonup> sql_table"

definition row_to_record :: "sqlite_env \<Rightarrow> sql_row \<Rightarrow> Record" where
  "row_to_record env row = obj_of_list (map (\<lambda>(c, raw). (c, value_of_column env raw)) row)"

definition column_type :: "sql_table \<Rightarrow> string \<Rightarrow> string" where
  "column_type t c =
     (case find (\<lambda>col. sc_name col = c) (st_columns t) of None \<Rightarrow> [] | Some col \<Rightarrow> sc_type col)"

definition has_columns :: "sql_table \<Rightarrow> string list \<Rightarrow> bool" where
  "has_columns t cs \<longleftrightarrow> list_all (\<lambda>c. c \<in> sc_name ` set (st_columns t)) cs"

definition cell :: "sql_row \<Rightarrow> string \<Rightarrow> sqlval" where
  "cell row c = unwrap_or SqlNull (map_of row c)"

definition id_key :: "sqlite_env \<Rightarrow> sql_table \<Rightarrow> string \<Rightarrow> sqlval" where
  "id_key env t i = se_affinity env (column_type t ''id'') (SqlText i)"

definition id_is :: "sqlval \<Rightarrow> sql_row \<Rightarrow> bool" where
  "id_is v row \<longleftrightarrow> v \<noteq> SqlNull \<and> cell row ''id'' = v"

text \<open>No other row agrees on all columns of a uniqueness constraint; a NULL agrees with nothing.\<close>

definition clashes :: "string list list \<Rightarrow> sql_row list \<Rightarrow> sql_row \<Rightarrow> bool" where
  "clashes uniques others row \<longleftrightarrow>
     list_ex (\<lambda>u. list_ex (\<lambda>r. list_all (\<lambda>c. cell row c \<noteq> SqlNull \<and> cell r c = cell row c) u) others) uniques"

definition new_row :: "sqlite_env \<Rightarrow> sql_table \<Rightarrow> Record \<Rightarrow> sql_row" where
  "new_row env t rec =
     map (\<lambda>col. (sc_name col,
            (case obj_get rec (sc_name col) of
               None \<Rightarrow> sc_default col
             | Some v \<Rightarrow> se_affinity env (sc_type col) (bind_json_value env v)))) (st_columns t)"

definition set_cells :: "sql_row \<Rightarrow> string list \<Rightarrow> sql_row \<Rightarrow> sql_row" where
  "set_cells excluded cs row = map (\<lambda>(c, old). (c, if c \<in> set cs then cell excluded c else old)) row"

section \<open>Statements\<close>

text \<open>One statement on the active user's pool.\<close>

definition pool_required :: PolyError where
  "pool_required = Poly_Local ''no active user pool''"

definition open_db :: "sqlite_db DbManager \<Rightarrow> string \<Rightarrow> sqlite_db" where
  "open_db m dir = (case dm_dirs m dir of Some (Some d) \<Rightarrow> d | _ \<Rightarrow> dm_empty_db m)"

definition run_statement ::
  "(sqlite_db \<Rightarrow> string + 'a \<times> sqlite_db) \<Rightarrow> sqlite_db DbManager \<Rightarrow> (PolyError + 'a) \<times> sqlite_db DbManager" where
  "run_statement f m =
     (case manager_pool m of
        None \<Rightarrow> (Inl pool_required, m)
      | Some dir \<Rightarrow>
          (case db_fault m of
             (Some e, m1) \<Rightarrow> (Inl (Poly_Local e), m1)
           | (None, m1) \<Rightarrow>
               (case f (open_db m1 dir) of
                  Inl e \<Rightarrow> (Inl (Poly_Local e), m1)
                | Inr (a, d) \<Rightarrow> (Inr a, m1\<lparr>dm_dirs := (dm_dirs m1)(dir \<mapsto> Some d)\<rparr>))))"

definition with_table :: "string \<Rightarrow> string list \<Rightarrow> (sql_table \<Rightarrow> string + 'a) \<Rightarrow> sqlite_db \<Rightarrow> string + 'a" where
  "with_table table cs f d =
     (case d table of
        None \<Rightarrow> Inl (''no such table: '' @ table)
      | Some t \<Rightarrow> (if has_columns t cs then f t else Inl ''no such column''))"

definition query :: "string \<Rightarrow> string list \<Rightarrow> (sql_table \<Rightarrow> string + 'a) \<Rightarrow> sqlite_db \<Rightarrow> string + 'a \<times> sqlite_db" where
  "query table cs f d =
     (case with_table table cs f d of Inl e \<Rightarrow> Inl e | Inr a \<Rightarrow> Inr (a, d))"

definition change :: "string \<Rightarrow> string list \<Rightarrow> (sql_table \<Rightarrow> string + sql_row list) \<Rightarrow> sqlite_db \<Rightarrow> string + unit \<times> sqlite_db" where
  "change table cs f d =
     (case with_table table cs (\<lambda>t. case f t of Inl e \<Rightarrow> Inl e | Inr rows \<Rightarrow> Inr (t\<lparr>st_rows := rows\<rparr>)) d of
        Inl e \<Rightarrow> Inl e
      | Inr t \<Rightarrow> Inr ((), d(table \<mapsto> t)))"

text \<open>\<open>INSERT INTO t (..) VALUES (..) ON CONFLICT(id) DO UPDATE SET ..\<close>.\<close>

definition upsert_rows :: "sqlite_env \<Rightarrow> Record \<Rightarrow> sql_table \<Rightarrow> string + sql_row list" where
  "upsert_rows env rec t =
     (let row = new_row env t rec;
          hit = id_is (cell row ''id'');
          others = filter (\<lambda>r. \<not> hit r) (st_rows t)
      in if [''id''] \<notin> set (st_uniques t) then
           Inl ''ON CONFLICT clause does not match any PRIMARY KEY or UNIQUE constraint''
         else if list_ex (\<lambda>col. sc_not_null col \<and> cell row (sc_name col) = SqlNull) (st_columns t) then
           Inl ''NOT NULL constraint failed''
         else
           (case find hit (st_rows t) of
              None \<Rightarrow>
                (if clashes (st_uniques t) (st_rows t) row then Inl ''UNIQUE constraint failed''
                 else Inr (st_rows t @ [row]))
            | Some old \<Rightarrow>
                (let row' = set_cells row (filter (\<lambda>c. c \<noteq> ''id'') (obj_keys rec)) old
                 in if clashes (st_uniques t) others row' then Inl ''UNIQUE constraint failed''
                    else Inr (map (\<lambda>r. if hit r then row' else r) (st_rows t)))))"

definition store_upsert_record :: "sqlite_env \<Rightarrow> string \<Rightarrow> Record \<Rightarrow> (unit, sqlite_db DbManager) store_call" where
  "store_upsert_record env table rec m =
     (case manager_pool m of
        None \<Rightarrow> (Inl pool_required, m)
      | Some _ \<Rightarrow>
          (if rec = [] then (Inr (), m)
           else run_statement
             (if filter (\<lambda>c. c \<noteq> ''id'') (obj_keys rec) = [] then (\<lambda>_. Inl ''incomplete input'')
              else change table (obj_keys rec) (upsert_rows env rec)) m))"

definition row_version :: "sqlite_env \<Rightarrow> sql_row \<Rightarrow> string + VersionRow" where
  "row_version env row =
     (case (cell row ''id'', cell row ''version'', cell row ''deleted'') of
        (SqlText i, SqlInteger v, SqlInteger d) \<Rightarrow> Inr \<lparr>vr_id = i, vr_version = v, vr_deleted = (d \<noteq> 0)\<rparr>
      | _ \<Rightarrow> Inl ''error occurred while decoding column'')"

definition store_read_versions :: "sqlite_env \<Rightarrow> string \<Rightarrow> string list \<Rightarrow> (VersionRow list, sqlite_db DbManager) store_call" where
  "store_read_versions env table ids m =
     (if ids = [] then (Inr [], m)
      else run_statement
        (query table [''id'', ''version'', ''deleted'']
           (\<lambda>t. collect_results (map (row_version env)
                  (filter (\<lambda>r. list_ex (\<lambda>i. id_is (id_key env t i) r) ids) (st_rows t))))) m)"

definition store_read_record :: "sqlite_env \<Rightarrow> string \<Rightarrow> string \<Rightarrow> (Record option, sqlite_db DbManager) store_call" where
  "store_read_record env table i =
     run_statement (query table [''id'']
       (\<lambda>t. Inr (map_option (row_to_record env) (find (id_is (id_key env t i)) (st_rows t)))))"

definition row_id :: "sql_row \<Rightarrow> string + string" where
  "row_id row = (case cell row ''id'' of SqlText i \<Rightarrow> Inr i | _ \<Rightarrow> Inl ''error occurred while decoding column'')"

definition store_read_all_ids :: "string \<Rightarrow> (string list, sqlite_db DbManager) store_call" where
  "store_read_all_ids table = run_statement (query table [''id''] (\<lambda>t. collect_results (map row_id (st_rows t))))"

text \<open>\<open>UPDATE t SET deleted = 1, version = ? WHERE id = ?\<close> and \<open>DELETE FROM t WHERE id = ?\<close>.\<close>

definition marked :: "sqlite_env \<Rightarrow> sql_table \<Rightarrow> i64 \<Rightarrow> sql_row \<Rightarrow> sql_row" where
  "marked env t version = set_cells
     [(''deleted'', se_affinity env (column_type t ''deleted'') (SqlInteger 1)),
      (''version'', se_affinity env (column_type t ''version'') (SqlInteger version))] [''deleted'', ''version'']"

definition mark_rows :: "sqlite_env \<Rightarrow> string \<Rightarrow> i64 \<Rightarrow> sql_table \<Rightarrow> string + sql_row list" where
  "mark_rows env i version t = Inr (map (\<lambda>r. if id_is (id_key env t i) r then marked env t version r else r) (st_rows t))"

definition drop_rows :: "sqlite_env \<Rightarrow> string \<Rightarrow> sql_table \<Rightarrow> string + sql_row list" where
  "drop_rows env i t = Inr (filter (\<lambda>r. \<not> id_is (id_key env t i) r) (st_rows t))"

definition store_mark_deleted :: "sqlite_env \<Rightarrow> string \<Rightarrow> string \<Rightarrow> i64 \<Rightarrow> (unit, sqlite_db DbManager) store_call" where
  "store_mark_deleted env table i version =
     run_statement (change table [''id'', ''deleted'', ''version''] (mark_rows env i version))"

definition store_hard_delete :: "sqlite_env \<Rightarrow> string \<Rightarrow> string \<Rightarrow> (unit, sqlite_db DbManager) store_call" where
  "store_hard_delete env table i = run_statement (change table [''id''] (drop_rows env i))"

definition store_switch_user :: "string \<Rightarrow> (unit, sqlite_db DbManager) store_call" where
  "store_switch_user user_id m =
     (case manager_switch_user user_id m of
        (r, m') \<Rightarrow> (map_err (\<lambda>e. Poly_Local (db_error_display e)) r, m'))"

definition SqliteLocalStore :: "sqlite_env \<Rightarrow> sqlite_db DbManager LocalStore" where
  "SqliteLocalStore env =
     \<lparr>ls_switch_user = store_switch_user, ls_read_versions = store_read_versions env,
      ls_read_record = store_read_record env, ls_read_all_ids = store_read_all_ids,
      ls_upsert_record = store_upsert_record env, ls_mark_deleted = store_mark_deleted env,
      ls_hard_delete = store_hard_delete env\<rparr>"

section \<open>Rows\<close>

definition table_ok :: "sql_table \<Rightarrow> bool" where
  "table_ok t \<longleftrightarrow> distinct (map sc_name (st_columns t)) \<and> column_type t ''id'' = ''TEXT''
     \<and> list_all (\<lambda>r. map fst r = map sc_name (st_columns t)) (st_rows t)"

definition db_ok :: "sqlite_db \<Rightarrow> bool" where
  "db_ok d \<longleftrightarrow> (\<forall>t \<in> ran d. table_ok t)"

definition lookup_row :: "sqlite_env \<Rightarrow> sql_table \<Rightarrow> string \<Rightarrow> sql_row option" where
  "lookup_row env t i = find (id_is (id_key env t i)) (st_rows t)"

definition column_value :: "sqlite_env \<Rightarrow> sql_table \<Rightarrow> string \<Rightarrow> json \<Rightarrow> sqlval" where
  "column_value env t k v = se_affinity env (column_type t k) (bind_json_value env v)"

lemma row_record_get:
  "distinct (map fst row) \<Longrightarrow>
   obj_get (row_to_record env row) k = map_option (value_of_column env) (map_of row k)"
proof -
  assume d: "distinct (map fst row)"
  let ?f = "\<lambda>(c, raw). (c, value_of_column env raw)"
  have m: "map fst (map ?f row) = map fst row" by (induction row) auto
  have "obj_get (row_to_record env row) k = map_of (map ?f row) k"
    using map_of_rev [of "map ?f row"] d by (simp only: m row_to_record_def map_of_obj_of_list)
  also have "\<dots> = map_option (value_of_column env) (map_of row k)"
    by (induction row) auto
  finally show ?thesis .
qed

lemma map_of_cell: "k \<in> fst ` set row \<Longrightarrow> map_of row k = Some (cell row k)"
  by (cases "map_of row k") (auto simp: cell_def map_of_eq_None_iff)

lemma fst_set_cells [simp]: "map fst (set_cells e cs row) = map fst row"
  by (induction row) (auto simp: set_cells_def)

lemma map_of_set_cells:
  "map_of (set_cells e cs row) k = map_option (\<lambda>old. if k \<in> set cs then cell e k else old) (map_of row k)"
  by (induction row) (auto simp: set_cells_def)

lemma cell_set_cells: "k \<in> fst ` set row \<Longrightarrow> cell (set_cells e cs row) k = (if k \<in> set cs then cell e k else cell row k)"
  by (cases "map_of row k") (auto simp: cell_def map_of_set_cells map_of_eq_None_iff)

lemma cell_set_cells_other: "k \<notin> set cs \<Longrightarrow> cell (set_cells e cs row) k = cell row k"
  by (cases "map_of row k") (simp_all add: cell_def map_of_set_cells)

lemma fst_new_row [simp]: "map fst (new_row env t rec) = map sc_name (st_columns t)"
  by (simp add: new_row_def)

lemma map_of_columns:
  "distinct (map sc_name cols) \<Longrightarrow> col \<in> set cols \<Longrightarrow>
   map_of (map (\<lambda>c. (sc_name c, f c)) cols) (sc_name col) = Some (f col)"
  by (induction cols) (auto simp: image_iff)

lemma find_column:
  "distinct (map sc_name cols) \<Longrightarrow> col \<in> set cols \<Longrightarrow> find (\<lambda>c. sc_name c = sc_name col) cols = Some col"
  by (induction cols) (auto simp: image_iff)

lemma column_type_eq:
  "distinct (map sc_name (st_columns t)) \<Longrightarrow> col \<in> set (st_columns t) \<Longrightarrow> column_type t (sc_name col) = sc_type col"
  by (simp add: column_type_def find_column)

lemma cell_new_row:
  assumes "table_ok t" and "obj_get rec k = Some v" and "k \<in> sc_name ` set (st_columns t)"
  shows "cell (new_row env t rec) k = column_value env t k v"
proof -
  obtain col where c: "col \<in> set (st_columns t)" "k = sc_name col" using assms(3) by auto
  have d: "distinct (map sc_name (st_columns t))" using assms(1) by (simp add: table_ok_def)
  show ?thesis
    using map_of_columns [OF d c(1), of "\<lambda>col. case obj_get rec (sc_name col) of None \<Rightarrow> sc_default col
        | Some v \<Rightarrow> se_affinity env (sc_type col) (bind_json_value env v)"]
      assms(2) column_type_eq [OF d c(1)]
    by (simp add: cell_def new_row_def c(2) column_value_def)
qed

lemma id_key_TEXT: "affinity_ok env \<Longrightarrow> table_ok t \<Longrightarrow> id_key env t i = SqlText i"
  by (simp add: id_key_def table_ok_def affinity_ok_def)

lemma column_type_rows [simp]: "column_type (t\<lparr>st_rows := rows\<rparr>) c = column_type t c"
  by (simp add: column_type_def)

lemma id_key_rows [simp]: "id_key env (t\<lparr>st_rows := rows\<rparr>) i = id_key env t i"
  by (simp add: id_key_def)

lemma id_is_SqlText: "id_is (SqlText i) r \<longleftrightarrow> cell r ''id'' = SqlText i"
  by (auto simp: id_is_def)

lemma find_map_other:
  assumes "\<And>r. p r \<longleftrightarrow> p (f r)" and "\<And>r. p r \<Longrightarrow> f r = r"
  shows "find p (map f rows) = find p rows"
proof (induction rows)
  case (Cons r rows)
  then show ?case using assms(1) [of r] assms(2) [of r] by (cases "p r") simp_all
qed simp

lemma find_map_hit:
  assumes "\<And>r. q r \<Longrightarrow> q (f r)" and "\<And>r. \<not> q r \<Longrightarrow> f r = r"
  shows "find q (map f rows) = map_option f (find q rows)"
proof (induction rows)
  case (Cons r rows)
  then show ?case using assms(1) [of r] assms(2) [of r] by (cases "q r") simp_all
qed simp

lemma find_append: "find p (xs @ ys) = (case find p xs of None \<Rightarrow> find p ys | Some x \<Rightarrow> Some x)"
  by (induction xs) auto

lemma find_filter_other: "(\<And>r. p r \<Longrightarrow> q r) \<Longrightarrow> find p (filter q rows) = find p rows"
  by (induction rows) auto

lemma find_filter_not: "find p (filter (\<lambda>r. \<not> p r) rows) = None"
  by (induction rows) auto

lemma find_SomeD: "find p xs = Some x \<Longrightarrow> x \<in> set xs \<and> p x"
  by (induction xs) (auto split: if_splits)

section \<open>The upsert\<close>

lemma upsert_rows_correct:
  assumes ok: "table_ok t" and aff: "affinity_ok env" and i: "get_str rec ''id'' = Some i"
    and cols: "has_columns t (obj_keys rec)" and up: "upsert_rows env rec t = Inr rows"
  shows "table_ok (t\<lparr>st_rows := rows\<rparr>)"
    and "j \<noteq> i \<Longrightarrow> lookup_row env (t\<lparr>st_rows := rows\<rparr>) j = lookup_row env t j"
    and "\<exists>row. lookup_row env (t\<lparr>st_rows := rows\<rparr>) i = Some row
        \<and> (\<forall>k v. obj_get rec k = Some v \<longrightarrow> cell row k = column_value env t k v)
        \<and> (\<forall>old k. lookup_row env t i = Some old \<longrightarrow> obj_get rec k = None \<longrightarrow> cell row k = cell old k)"
proof -
  let ?row = "new_row env t rec" and ?t = "t\<lparr>st_rows := rows\<rparr>"
  let ?cs = "filter (\<lambda>c. c \<noteq> ''id'') (obj_keys rec)"
  have named: "k \<in> sc_name ` set (st_columns t)" if "obj_get rec k = Some v" for k v
    using map_of_SomeD [OF that] cols by (force simp: has_columns_def list_all_iff obj_keys_def)
  have rid: "obj_get rec ''id'' = Some (JString i)"
    using i by (auto simp: get_str_def bind_eq_Some_conv elim: as_str.elims)
  have cells: "cell ?row k = column_value env t k v" if "obj_get rec k = Some v" for k v
    using cell_new_row [OF ok that named [OF that]] .
  have key: "cell ?row ''id'' = SqlText i"
    using cells [OF rid] ok aff by (simp add: column_value_def bind_json_value_def table_ok_def affinity_ok_def)
  note ids = id_key_TEXT [OF aff ok]
  have fsts: "map fst r = map sc_name (st_columns t)" if "r \<in> set (st_rows t)" for r
    using ok that by (simp add: table_ok_def list_all_iff)
  show "table_ok ?t" and "j \<noteq> i \<Longrightarrow> lookup_row env ?t j = lookup_row env t j"
    and "\<exists>row. lookup_row env ?t i = Some row
        \<and> (\<forall>k v. obj_get rec k = Some v \<longrightarrow> cell row k = column_value env t k v)
        \<and> (\<forall>old k. lookup_row env t i = Some old \<longrightarrow> obj_get rec k = None \<longrightarrow> cell row k = cell old k)"
  proof (atomize (full), cases "find (id_is (SqlText i)) (st_rows t)")
    case None
    then have rows: "rows = st_rows t @ [?row]"
      using up key by (auto simp: upsert_rows_def Let_def split: if_splits)
    show "table_ok ?t \<and> (j \<noteq> i \<longrightarrow> lookup_row env ?t j = lookup_row env t j) \<and>
      (\<exists>row. lookup_row env ?t i = Some row
        \<and> (\<forall>k v. obj_get rec k = Some v \<longrightarrow> cell row k = column_value env t k v)
        \<and> (\<forall>old k. lookup_row env t i = Some old \<longrightarrow> obj_get rec k = None \<longrightarrow> cell row k = cell old k))"
      using ok None cells
      by (auto simp: table_ok_def rows lookup_row_def ids find_append id_is_SqlText key split: option.split)
  next
    case (Some old)
    let ?f = "\<lambda>r. if id_is (SqlText i) r then set_cells ?row ?cs old else r"
    have rows: "rows = map ?f (st_rows t)"
      using up key Some by (auto simp: upsert_rows_def Let_def split: if_splits)
    have old: "old \<in> set (st_rows t)" "cell old ''id'' = SqlText i"
      using find_SomeD [OF Some] by (simp_all add: id_is_SqlText)
    have oldid: "cell (set_cells ?row ?cs old) ''id'' = SqlText i"
      using old(2) by (simp add: cell_set_cells_other)
    have hit: "lookup_row env ?t i = Some (set_cells ?row ?cs old)"
      using find_map_hit [of "id_is (SqlText i)" ?f "st_rows t"] Some oldid find_SomeD [OF Some]
      by (simp add: lookup_row_def ids rows id_is_SqlText)
    have other: "j \<noteq> i \<longrightarrow> lookup_row env ?t j = lookup_row env t j"
      using find_map_other [of "id_is (SqlText j)" ?f "st_rows t"] oldid
      by (auto simp: lookup_row_def ids rows id_is_SqlText)
    have "cell (set_cells ?row ?cs old) k = column_value env t k v" if "obj_get rec k = Some v" for k v
    proof (cases "k = ''id''")
      case True
      then show ?thesis using that oldid cells [OF that] key by simp
    next
      case False
      moreover have "k \<in> set (obj_keys rec)" using that by (force simp: obj_keys_def dest: map_of_SomeD)
      moreover have "k \<in> fst ` set old"
        using named [OF that] fsts [OF old(1)] by (metis image_set)
      ultimately show ?thesis using cells [OF that] by (simp add: cell_set_cells)
    qed
    moreover have "cell (set_cells ?row ?cs old) k = cell old k" if "obj_get rec k = None" for k
      using that by (auto intro!: cell_set_cells_other simp: obj_keys_def map_of_eq_None_iff)
    moreover have "table_ok ?t"
      using ok fsts [OF old(1)] by (auto simp: table_ok_def rows list_all_iff)
    ultimately show "table_ok ?t \<and> (j \<noteq> i \<longrightarrow> lookup_row env ?t j = lookup_row env t j) \<and>
      (\<exists>row. lookup_row env ?t i = Some row
        \<and> (\<forall>k v. obj_get rec k = Some v \<longrightarrow> cell row k = column_value env t k v)
        \<and> (\<forall>old k. lookup_row env t i = Some old \<longrightarrow> obj_get rec k = None \<longrightarrow> cell row k = cell old k))"
      using hit other Some by (auto simp: lookup_row_def ids)
  qed
qed

lemma record_cells:
  assumes "table_ok t" and "r \<in> set (st_rows t)"
  shows "obj_get (row_to_record env r) k =
     (if k \<in> sc_name ` set (st_columns t) then Some (value_of_column env (cell r k)) else None)"
proof -
  have f: "map fst r = map sc_name (st_columns t)" using assms by (simp add: table_ok_def list_all_iff)
  then have fs: "fst ` set r = sc_name ` set (st_columns t)" by (metis image_set)
  have "obj_get (row_to_record env r) k = map_option (value_of_column env) (map_of r k)"
    using assms(1) by (intro row_record_get) (simp add: f table_ok_def)
  then show ?thesis
    using map_of_cell [of k r] fs map_of_eq_None_iff [of r k]
    by (cases "k \<in> fst ` set r") simp_all
qed

section \<open>The mirror contract\<close>

definition active_db :: "sqlite_db DbManager \<Rightarrow> sqlite_db option" where
  "active_db m = map_option (open_db m) (dm_pool m)"

definition store_ok :: "sqlite_db DbManager \<Rightarrow> bool" where
  "store_ok m \<longleftrightarrow> (\<forall>d \<in> set_option (active_db m). db_ok d)"

definition store_table :: "sqlite_db DbManager \<Rightarrow> string \<Rightarrow> sql_table option" where
  "store_table m t = Option.bind (active_db m) (\<lambda>d. d t)"

definition store_view :: "sqlite_env \<Rightarrow> sqlite_db DbManager \<Rightarrow> string \<Rightarrow> string \<Rightarrow> Record option" where
  "store_view env m t i =
     Option.bind (store_table m t) (\<lambda>tb. map_option (row_to_record env) (lookup_row env tb i))"

definition store_stored :: "sqlite_env \<Rightarrow> sqlite_db DbManager \<Rightarrow> string \<Rightarrow> string \<Rightarrow> json \<Rightarrow> json" where
  "store_stored env m t k v =
     (case store_table m t of None \<Rightarrow> v | Some tb \<Rightarrow> value_of_column env (column_value env tb k v))"

lemma run_statement_cases:
  assumes "run_statement f m = (r, m')"
  obtains (err) e where "r = Inl e" "active_db m' = active_db m"
  | (ran) d a d' where "r = Inr a" "active_db m = Some d" "f d = Inr (a, d')" "active_db m' = Some d'"
proof (cases "dm_pool m")
  case None
  then show ?thesis using assms err [of pool_required] by (auto simp: run_statement_def manager_pool_def)
next
  case (Some dir)
  obtain flt m1 where flt: "db_fault m = (flt, m1)" by (cases "db_fault m")
  then have m1: "dm_pool m1 = Some dir" "open_db m1 = open_db m"
    using Some by (auto simp: db_fault_alt open_db_def fun_eq_iff split: option.split)
  show ?thesis
  proof (cases flt)
    case (Some e)
    then show ?thesis using assms err [of "Poly_Local e"] m1 flt \<open>dm_pool m = Some dir\<close>
      by (simp add: run_statement_def manager_pool_def active_db_def)
  next
    case None
    show ?thesis
    proof (cases "f (open_db m dir)")
      case (Inl e)
      then show ?thesis using assms err [of "Poly_Local e"] m1 flt None \<open>dm_pool m = Some dir\<close>
        by (simp add: run_statement_def manager_pool_def active_db_def)
    next
      case (Inr p)
      obtain a d' where p: "p = (a, d')" by (cases p)
      have "r = Inr a" "m' = m1\<lparr>dm_dirs := (dm_dirs m1)(dir \<mapsto> Some d')\<rparr>"
        using assms m1 flt None Inr p \<open>dm_pool m = Some dir\<close>
        by (simp_all add: run_statement_def manager_pool_def)
      moreover from this have "active_db m' = Some d'"
        using m1 by (simp add: active_db_def open_db_def)
      moreover have "active_db m = Some (open_db m dir)" using \<open>dm_pool m = Some dir\<close> by (simp add: active_db_def)
      ultimately show ?thesis using ran Inr p by simp
    qed
  qed
qed

lemma store_same:
  "active_db m' = active_db m \<Longrightarrow>
   store_ok m' = store_ok m \<and> store_view env m' = store_view env m \<and> store_stored env m' = store_stored env m"
  by (simp add: store_ok_def store_view_def store_stored_def store_table_def fun_eq_iff)

text \<open>A statement that only looks.\<close>

lemma query_cases:
  assumes "run_statement (query table cs f) m = (r, m')"
  shows "active_db m' = active_db m"
    and "r = Inr a \<Longrightarrow> \<exists>t. store_table m table = Some t \<and> has_columns t cs \<and> f t = Inr a"
  using assms
  by (auto elim!: run_statement_cases simp: query_def with_table_def store_table_def
      split: sum.splits option.splits if_splits)

text \<open>A statement that changes the rows of one table, at one id.\<close>

lemma change_cases:
  assumes "run_statement (change table cs f) m = (r, m')"
  obtains (err) e where "r = Inl e" "active_db m' = active_db m"
  | (ran) t rows d where "r = Inr ()" "active_db m = Some d" "d table = Some t" "store_table m table = Some t"
      "has_columns t cs" "f t = Inr rows" "active_db m' = Some (d(table \<mapsto> t\<lparr>st_rows := rows\<rparr>))"
  using assms
proof (cases rule: run_statement_cases)
  case err
  then show ?thesis using that(1) by simp
next
  case (ran d a d')
  then obtain t rows where "d table = Some t" "has_columns t cs" "f t = Inr rows" "d' = d(table \<mapsto> t\<lparr>st_rows := rows\<rparr>)"
    by (auto simp: change_def with_table_def split: option.splits if_splits sum.splits)
  then show ?thesis using that(2) [of d t rows] ran by (simp add: store_table_def)
qed

lemma change_frame:
  assumes "store_ok m" and "run_statement (change table cs f) m = (r, m')"
    and "\<And>t rows. table_ok t \<Longrightarrow> has_columns t cs \<Longrightarrow> f t = Inr rows \<Longrightarrow>
          table_ok (t\<lparr>st_rows := rows\<rparr>) \<and> (\<forall>j. j \<noteq> i \<longrightarrow> lookup_row env (t\<lparr>st_rows := rows\<rparr>) j = lookup_row env t j)"
  shows "store_ok m' \<and> store_stored env m' = store_stored env m
     \<and> (t' \<noteq> table \<or> j \<noteq> i \<longrightarrow> store_view env m' t' j = store_view env m t' j)"
  using assms(2)
proof (cases rule: change_cases)
  case (err e)
  then show ?thesis using store_same [of m' m env] assms(1) by simp
next
  case (ran t rows d)
  have t: "table_ok t" using assms(1) ran by (auto simp: store_ok_def db_ok_def intro: ranI)
  note new = assms(3) [OF t ran(5,6)]
  have "store_ok m'"
    using assms(1) ran new by (auto simp: store_ok_def db_ok_def ran_def)
  moreover have "store_stored env m' = store_stored env m"
    using ran by (auto simp: store_stored_def store_table_def fun_eq_iff column_value_def)
  moreover have "t' \<noteq> table \<or> j \<noteq> i \<longrightarrow> store_view env m' t' j = store_view env m t' j"
    using ran new by (auto simp: store_view_def store_table_def)
  ultimately show ?thesis by blast
qed

lemma change_view:
  assumes "store_ok m" and "run_statement (change table cs f) m = (Inr (), m')"
  obtains t rows where "table_ok t" "store_table m table = Some t" "has_columns t cs" "f t = Inr rows"
    "store_view env m table i = map_option (row_to_record env) (lookup_row env t i)"
    "store_view env m' table i = map_option (row_to_record env) (lookup_row env (t\<lparr>st_rows := rows\<rparr>) i)"
  using assms(2)
proof (cases rule: change_cases)
  case (ran t rows d)
  then have "table_ok t" using assms(1) by (auto simp: store_ok_def db_ok_def intro: ranI)
  then show ?thesis using that [of t rows] ran by (simp add: store_view_def store_table_def)
qed simp

section \<open>Marking and removing\<close>

lemma mark_rows_correct:
  assumes ok: "table_ok t" and aff: "affinity_ok env" and rows: "mark_rows env i version t = Inr rows"
  shows "table_ok (t\<lparr>st_rows := rows\<rparr>)"
    and "j \<noteq> i \<Longrightarrow> lookup_row env (t\<lparr>st_rows := rows\<rparr>) j = lookup_row env t j"
    and "lookup_row env (t\<lparr>st_rows := rows\<rparr>) i = map_option (marked env t version) (lookup_row env t i)"
proof -
  let ?f = "\<lambda>r. if id_is (SqlText i) r then marked env t version r else r"
  note ids = id_key_TEXT [OF aff ok]
  have rows: "rows = map ?f (st_rows t)" using rows by (simp add: mark_rows_def ids)
  have id: "cell (marked env t version r) ''id'' = cell r ''id''" for r
    by (simp add: marked_def cell_set_cells_other)
  have "map fst (marked env t version r) = map fst r" for r by (simp add: marked_def)
  then show "table_ok (t\<lparr>st_rows := rows\<rparr>)" using ok by (auto simp: table_ok_def rows list_all_iff)
  show "j \<noteq> i \<Longrightarrow> lookup_row env (t\<lparr>st_rows := rows\<rparr>) j = lookup_row env t j"
    using find_map_other [of "id_is (SqlText j)" ?f "st_rows t"] id
    by (auto simp: lookup_row_def ids rows id_is_SqlText)
  show "lookup_row env (t\<lparr>st_rows := rows\<rparr>) i = map_option (marked env t version) (lookup_row env t i)"
  proof -
    have "find (id_is (SqlText i)) (map ?f (st_rows t)) = map_option ?f (find (id_is (SqlText i)) (st_rows t))"
      by (rule find_map_hit) (simp_all add: id id_is_SqlText)
    moreover have "map_option ?f (find (id_is (SqlText i)) (st_rows t))
        = map_option (marked env t version) (find (id_is (SqlText i)) (st_rows t))"
      using find_SomeD [of "id_is (SqlText i)" "st_rows t"] by (cases "find (id_is (SqlText i)) (st_rows t)") auto
    ultimately show ?thesis by (simp add: lookup_row_def ids rows)
  qed
qed

lemma drop_rows_correct:
  assumes ok: "table_ok t" and aff: "affinity_ok env" and rows: "drop_rows env i t = Inr rows"
  shows "table_ok (t\<lparr>st_rows := rows\<rparr>)"
    and "j \<noteq> i \<Longrightarrow> lookup_row env (t\<lparr>st_rows := rows\<rparr>) j = lookup_row env t j"
    and "lookup_row env (t\<lparr>st_rows := rows\<rparr>) i = None"
proof -
  note ids = id_key_TEXT [OF aff ok]
  have rows: "rows = filter (\<lambda>r. \<not> id_is (SqlText i) r) (st_rows t)"
    using rows by (simp add: drop_rows_def ids)
  show "table_ok (t\<lparr>st_rows := rows\<rparr>)" using ok by (auto simp: table_ok_def rows list_all_iff)
  show "j \<noteq> i \<Longrightarrow> lookup_row env (t\<lparr>st_rows := rows\<rparr>) j = lookup_row env t j"
    by (auto simp: lookup_row_def ids rows id_is_SqlText intro!: find_filter_other)
  show "lookup_row env (t\<lparr>st_rows := rows\<rparr>) i = None"
    by (simp add: lookup_row_def ids rows find_filter_not)
qed

lemma written_kept:
  assumes "table_ok t" and "has_columns t (obj_keys rec)"
    and "old' = lookup_row env t i" and "table_ok (t\<lparr>st_rows := rows\<rparr>)" and "lookup_row env (t\<lparr>st_rows := rows\<rparr>) i = Some row"
    and "\<And>k v. obj_get rec k = Some v \<Longrightarrow> cell row k = column_value env t k v"
    and "\<And>old k. old' = Some old \<Longrightarrow> obj_get rec k = None \<Longrightarrow> cell row k = cell old k"
  shows "written (\<lambda>k v. value_of_column env (column_value env t k v)) rec (row_to_record env row)
     \<and> kept rec (map_option (row_to_record env) old') (row_to_record env row)"
proof -
  have row: "row \<in> set (st_rows (t\<lparr>st_rows := rows\<rparr>))" using find_SomeD assms(5) unfolding lookup_row_def by fast
  have get: "obj_get (row_to_record env row) k =
     (if k \<in> sc_name ` set (st_columns t) then Some (value_of_column env (cell row k)) else None)" for k
    using record_cells [OF assms(4) row] by simp
  have named: "k \<in> sc_name ` set (st_columns t)" if "obj_get rec k = Some v" for k v
    using map_of_SomeD [OF that] assms(2) by (force simp: has_columns_def list_all_iff obj_keys_def)
  have "written (\<lambda>k v. value_of_column env (column_value env t k v)) rec (row_to_record env row)"
    using named assms(6) by (auto simp: written_def get)
  moreover have "kept rec (map_option (row_to_record env) old') (row_to_record env row)"
  proof (cases old')
    case (Some old)
    then have "old \<in> set (st_rows t)" using find_SomeD assms(3) unfolding lookup_row_def by metis
    then show ?thesis using Some assms(7) by (auto simp: kept_def get record_cells [OF assms(1)])
  qed (simp add: kept_def)
  ultimately show ?thesis ..
qed


lemma store_stored_table:
  "store_table m t = Some tb \<Longrightarrow>
   store_stored env m t = (\<lambda>k v. value_of_column env (column_value env tb k v))"
  by (simp add: store_stored_def fun_eq_iff)

lemma bind_json_value_ints [simp]:
  "bind_json_value env (json_of_i64 v) = SqlInteger v" "bind_json_value env (JInt 1) = SqlInteger 1"
proof -
  have "as_i64 (JInt (sint v)) = Some v" using as_i64_json_of_i64 [of v] by (simp add: json_of_i64_def)
  then show "bind_json_value env (json_of_i64 v) = SqlInteger v"
    by (simp add: bind_json_value_def json_of_i64_def del: as_i64.simps)
qed (simp add: bind_json_value_def)

lemma cell_Cons: "cell ((k, v) # row) k' = (if k' = k then v else cell row k')"
  by (simp add: cell_def)

lemma cell_marked:
  "k \<in> fst ` set r \<Longrightarrow> cell (marked env t v r) k =
     (if k = ''deleted'' then column_value env t k (JInt 1)
      else if k = ''version'' then column_value env t k (json_of_i64 v) else cell r k)"
  by (simp add: marked_def cell_set_cells cell_Cons column_value_def)

lemma store_upsert_run:
  "get_str rec ''id'' = Some i \<Longrightarrow> store_upsert_record env t rec s =
     (if filter (\<lambda>c. c \<noteq> ''id'') (obj_keys rec) = [] then run_statement (\<lambda>_. Inl ''incomplete input'') s
      else run_statement (change t (obj_keys rec) (upsert_rows env rec)) s)"
  by (auto simp: store_upsert_record_def run_statement_def get_str_def split: option.split)

definition mirror_ok :: "sqlite_env \<Rightarrow> sqlite_db DbManager \<Rightarrow> bool" where
  "mirror_ok env m \<longleftrightarrow> affinity_ok env \<and> store_ok m"

lemma upsert_row_law:
  assumes "affinity_ok env" and "get_str rec ''id'' = Some i" and "table_ok t"
    and "has_columns t (obj_keys rec)" and "upsert_rows env rec t = Inr rows"
  shows "table_ok (t\<lparr>st_rows := rows\<rparr>)
     \<and> (\<forall>j. j \<noteq> i \<longrightarrow> lookup_row env (t\<lparr>st_rows := rows\<rparr>) j = lookup_row env t j)"
  using upsert_rows_correct(1,2) [OF assms(3,1,2,4,5)] by blast

lemma mark_row_law:
  assumes "affinity_ok env" and "table_ok t" and "mark_rows env i v t = Inr rows"
  shows "table_ok (t\<lparr>st_rows := rows\<rparr>)
     \<and> (\<forall>j. j \<noteq> i \<longrightarrow> lookup_row env (t\<lparr>st_rows := rows\<rparr>) j = lookup_row env t j)"
  using mark_rows_correct(1,2) [OF assms(2,1,3)] by blast

lemma drop_row_law:
  assumes "affinity_ok env" and "table_ok t" and "drop_rows env i t = Inr rows"
  shows "table_ok (t\<lparr>st_rows := rows\<rparr>)
     \<and> (\<forall>j. j \<noteq> i \<longrightarrow> lookup_row env (t\<lparr>st_rows := rows\<rparr>) j = lookup_row env t j)"
  using drop_rows_correct(1,2) [OF assms(2,1,3)] by blast

section \<open>The laws of the mirror\<close>

lemma mirror_okD: "mirror_ok env s \<Longrightarrow> affinity_ok env" "mirror_ok env s \<Longrightarrow> store_ok s"
  by (simp_all add: mirror_ok_def)

lemma store_read_frame:
  assumes "mirror_ok env s" and "store_read_record env t i s = (res, s')"
  shows "mirror_ok env s' \<and> store_view env s' = store_view env s \<and> store_stored env s' = store_stored env s"
  using store_same [OF query_cases(1) [OF assms(2) [unfolded store_read_record_def]], of env] assms(1)
  by (simp add: mirror_ok_def)

lemma store_read_ok:
  assumes "store_read_record env t i s = (Inr row, s')"
  shows "row = store_view env s t i"
  using query_cases(2) [OF assms [unfolded store_read_record_def] refl]
  by (auto simp: store_view_def lookup_row_def)

lemma change_law:
  assumes "mirror_ok env s" and "run_statement (change t cs f) s = (r, s')"
    and "\<And>tb rows. table_ok tb \<Longrightarrow> has_columns tb cs \<Longrightarrow> f tb = Inr rows \<Longrightarrow>
          table_ok (tb\<lparr>st_rows := rows\<rparr>) \<and> (\<forall>j. j \<noteq> i \<longrightarrow> lookup_row env (tb\<lparr>st_rows := rows\<rparr>) j = lookup_row env tb j)"
  shows "mirror_ok env s' \<and> store_stored env s' = store_stored env s
     \<and> (t' \<noteq> t \<or> j \<noteq> i \<longrightarrow> store_view env s' t' j = store_view env s t' j)"
proof -
  have "store_ok s' \<and> store_stored env s' = store_stored env s
     \<and> (t' \<noteq> t \<or> j \<noteq> i \<longrightarrow> store_view env s' t' j = store_view env s t' j)"
    by (rule change_frame [OF mirror_okD(2) [OF assms(1)] assms(2)]) (rule assms(3))
  with mirror_okD(1) [OF assms(1)] show ?thesis unfolding mirror_ok_def by blast
qed

lemma store_upsert_frame:
  assumes "mirror_ok env s" and "get_str rec ''id'' = Some i" and "store_upsert_record env t rec s = (r, s')"
  shows "mirror_ok env s' \<and> store_stored env s' = store_stored env s
     \<and> (t' \<noteq> t \<or> j \<noteq> i \<longrightarrow> store_view env s' t' j = store_view env s t' j)"
proof (cases "filter (\<lambda>c. c \<noteq> ''id'') (obj_keys rec) = []")
  case True
  then have "run_statement (\<lambda>_. Inl ''incomplete input'' :: string + unit \<times> sqlite_db) s = (r, s')"
    using assms(2,3) by (simp add: store_upsert_run)
  then have "active_db s' = active_db s" by (cases rule: run_statement_cases) simp_all
  then show ?thesis using store_same [of s' s env] assms(1) by (simp add: mirror_ok_def)
next
  case False
  then have "run_statement (change t (obj_keys rec) (upsert_rows env rec)) s = (r, s')"
    using assms(2,3) by (simp only: store_upsert_run [OF assms(2)] if_False)
  then show ?thesis
    by (rule change_law [OF assms(1)]) (rule upsert_row_law [OF mirror_okD(1) [OF assms(1)] assms(2)])
qed

lemma run_statement_err: "run_statement f s = (Inl e, s') \<Longrightarrow> active_db s' = active_db s"
  by (erule run_statement_cases) simp_all

lemma store_upsert_err:
  assumes "store_upsert_record env t rec s = (Inl e, s')"
  shows "store_view env s' = store_view env s"
proof -
  have "s' = s \<or> (\<exists>f :: sqlite_db \<Rightarrow> string + unit \<times> sqlite_db. run_statement f s = (Inl e, s'))"
    using assms unfolding store_upsert_record_def by (cases "manager_pool s"; cases "rec = []") auto
  then have "active_db s' = active_db s" using run_statement_err by fastforce
  then show ?thesis using store_same [of s' s env] by simp
qed

lemma store_upsert_ok:
  assumes "mirror_ok env s" and "get_str rec ''id'' = Some i" and "store_upsert_record env t rec s = (Inr (), s')"
  shows "\<exists>row. store_view env s' t i = Some row \<and> written (store_stored env s t) rec row
     \<and> kept rec (store_view env s t i) row"
proof -
  note aff = mirror_okD(1) [OF assms(1)] and ok = mirror_okD(2) [OF assms(1)]
  have run: "run_statement (change t (obj_keys rec) (upsert_rows env rec)) s = (Inr (), s')"
  proof (cases "filter (\<lambda>c. c \<noteq> ''id'') (obj_keys rec) = []")
    case True
    then have "run_statement (\<lambda>_. Inl ''incomplete input'' :: string + unit \<times> sqlite_db) s = (Inr (), s')"
      using assms(3) by (simp only: store_upsert_run [OF assms(2)] refl if_True)
    then show ?thesis by (rule run_statement_cases) simp_all
  qed (use assms(3) in \<open>simp only: store_upsert_run [OF assms(2)] if_False\<close>)
  obtain tb rows where tb: "table_ok tb" "store_table s t = Some tb" "has_columns tb (obj_keys rec)"
      "upsert_rows env rec tb = Inr rows"
      "store_view env s t i = map_option (row_to_record env) (lookup_row env tb i)"
      "store_view env s' t i = map_option (row_to_record env) (lookup_row env (tb\<lparr>st_rows := rows\<rparr>) i)"
    by (rule change_view [OF ok run, where env = env and i = i])
  note new = upsert_rows_correct [OF tb(1) aff assms(2) tb(3,4)]
  obtain row where row: "lookup_row env (tb\<lparr>st_rows := rows\<rparr>) i = Some row"
      "\<And>k v. obj_get rec k = Some v \<Longrightarrow> cell row k = column_value env tb k v"
      "\<And>old k. lookup_row env tb i = Some old \<Longrightarrow> obj_get rec k = None \<Longrightarrow> cell row k = cell old k"
    using new(3) by blast
  show ?thesis
    using written_kept [OF tb(1,3) refl new(1) row] row(1) tb(5,6) by (simp add: store_stored_table [OF tb(2)])
qed

lemma store_mark_frame:
  assumes "mirror_ok env s" and "store_mark_deleted env t i v s = (r, s')"
  shows "mirror_ok env s' \<and> store_stored env s' = store_stored env s
     \<and> (t' \<noteq> t \<or> j \<noteq> i \<longrightarrow> store_view env s' t' j = store_view env s t' j)"
  by (rule change_law [OF assms(1) assms(2) [unfolded store_mark_deleted_def]])
    (rule mark_row_law [OF mirror_okD(1) [OF assms(1)]])

lemma store_mark_view:
  assumes "mirror_ok env s" and "store_mark_deleted env t i v s = (Inr (), s')"
  shows "store_view env s t i = None \<longrightarrow> store_view env s' t i = None"
    and "store_view env s t i = Some old \<Longrightarrow> \<exists>row. store_view env s' t i = Some row
       \<and> written (store_stored env s t) [(''deleted'', JInt 1), (''version'', json_of_i64 v)] row
       \<and> kept [(''deleted'', JInt 1), (''version'', json_of_i64 v)] (Some old) row"
proof -
  let ?rec = "[(''deleted'', JInt 1), (''version'', json_of_i64 v)]"
  note aff = mirror_okD(1) [OF assms(1)] and ok = mirror_okD(2) [OF assms(1)]
  obtain tb rows where tb: "table_ok tb" "store_table s t = Some tb" "has_columns tb [''id'', ''deleted'', ''version'']"
      "mark_rows env i v tb = Inr rows"
      "store_view env s t i = map_option (row_to_record env) (lookup_row env tb i)"
      "store_view env s' t i = map_option (row_to_record env) (lookup_row env (tb\<lparr>st_rows := rows\<rparr>) i)"
    by (rule change_view [OF ok assms(2) [unfolded store_mark_deleted_def], where env = env and i = i])
  note new = mark_rows_correct [OF tb(1) aff tb(4)]
  show "store_view env s t i = None \<longrightarrow> store_view env s' t i = None" using tb(5,6) new(3) by simp
  assume "store_view env s t i = Some old"
  then obtain r where r: "lookup_row env tb i = Some r" "old = row_to_record env r" using tb(5) by auto
  then have "r \<in> set (st_rows tb)" using find_SomeD unfolding lookup_row_def by fast
  then have "map fst r = map sc_name (st_columns tb)" using tb(1) by (simp add: table_ok_def list_all_iff)
  then have "fst ` set r = sc_name ` set (st_columns tb)" by (metis image_set)
  then have cells: "cell (marked env tb v r) k = column_value env tb k x" if "obj_get ?rec k = Some x" for k x
    using that tb(3) by (auto simp: cell_marked has_columns_def split: if_splits)
  have others: "cell (marked env tb v r) k = cell r k" if "obj_get ?rec k = None" for k
    using that by (simp add: marked_def cell_set_cells_other split: if_splits)
  have hc: "has_columns tb (obj_keys ?rec)" using tb(3) by (simp add: has_columns_def obj_keys_def)
  have hit: "lookup_row env (tb\<lparr>st_rows := rows\<rparr>) i = Some (marked env tb v r)" using new(3) r(1) by simp
  have "written (\<lambda>k v. value_of_column env (column_value env tb k v)) ?rec (row_to_record env (marked env tb v r))
      \<and> kept ?rec (map_option (row_to_record env) (Some r)) (row_to_record env (marked env tb v r))"
    by (rule written_kept [OF tb(1) hc r(1) [symmetric] new(1) hit cells]) (use others in auto)
  then show "\<exists>row. store_view env s' t i = Some row \<and> written (store_stored env s t) ?rec row \<and> kept ?rec (Some old) row"
    using hit tb(6) r(2) by (simp add: store_stored_table [OF tb(2)])
qed

lemma store_mark_missing:
  assumes "mirror_ok env s" and "store_mark_deleted env t i v s = (r, s')" and "store_view env s t i = None"
  shows "store_view env s' t i = None"
proof (cases r)
  case (Inl e)
  then have "active_db s' = active_db s"
    using assms(2) run_statement_err unfolding store_mark_deleted_def by blast
  then show ?thesis using store_same [of s' s env] assms(3) by simp
next
  case (Inr u)
  then show ?thesis using store_mark_view(1) [of env s t i v s'] assms by simp
qed

lemma store_hard_frame:
  assumes "mirror_ok env s" and "store_hard_delete env t i s = (r, s')"
  shows "mirror_ok env s' \<and> store_stored env s' = store_stored env s
     \<and> (t' \<noteq> t \<or> j \<noteq> i \<longrightarrow> store_view env s' t' j = store_view env s t' j)"
  by (rule change_law [OF assms(1) assms(2) [unfolded store_hard_delete_def]])
    (rule drop_row_law [OF mirror_okD(1) [OF assms(1)]])

lemma store_hard_ok:
  assumes "mirror_ok env s" and "store_hard_delete env t i s = (Inr (), s')"
  shows "store_view env s' t i = None"
  by (rule change_view [OF mirror_okD(2) [OF assms(1)] assms(2) [unfolded store_hard_delete_def], where env = env and i = i])
    (simp add: drop_rows_correct(3) [OF _ mirror_okD(1) [OF assms(1)]])

lemmas store_ops = SqliteLocalStore_def LocalStore.select_convs

interpretation sqlite_mirror: local_store "SqliteLocalStore env" "mirror_ok env" "store_view env" "store_stored env"
  for env
proof (unfold_locales; unfold store_ops)
qed (rule store_read_ok store_read_frame store_upsert_ok store_upsert_frame store_upsert_err
      store_mark_view(2) store_mark_missing store_mark_frame store_hard_ok store_hard_frame; assumption)+

section \<open>The bundled migration\<close>

text \<open>
  \<open>migrations/0001_kvs.sql\<close>: the \<open>kvs\<close> table. The default of \<open>updated_at\<close> is
  the time SQLite evaluates it at.
\<close>

definition kvs_table :: "string \<Rightarrow> sql_table" where
  "kvs_table now =
     \<lparr>st_columns =
        [\<lparr>sc_name = ''id'', sc_type = ''TEXT'', sc_not_null = False, sc_default = SqlNull\<rparr>,
         \<lparr>sc_name = ''namespace'', sc_type = ''TEXT'', sc_not_null = True, sc_default = SqlNull\<rparr>,
         \<lparr>sc_name = ''key'', sc_type = ''TEXT'', sc_not_null = True, sc_default = SqlNull\<rparr>,
         \<lparr>sc_name = ''value'', sc_type = ''TEXT'', sc_not_null = True, sc_default = SqlNull\<rparr>,
         \<lparr>sc_name = ''version'', sc_type = ''INTEGER'', sc_not_null = True, sc_default = SqlInteger 1\<rparr>,
         \<lparr>sc_name = ''deleted'', sc_type = ''INTEGER'', sc_not_null = True, sc_default = SqlInteger 0\<rparr>,
         \<lparr>sc_name = ''updated_at'', sc_type = ''TEXT'', sc_not_null = True, sc_default = SqlText now\<rparr>],
      st_uniques = [[''id''], [''namespace'', ''key'']], st_rows = []\<rparr>"

definition kvs_migration :: "string \<Rightarrow> sqlite_db \<Rightarrow> sqlite_db" where
  "kvs_migration now d = (case d ''kvs'' of None \<Rightarrow> d(''kvs'' \<mapsto> kvs_table now) | Some _ \<Rightarrow> d)"

lemma kvs_table_ok: "table_ok (kvs_table now)"
  by (simp add: table_ok_def kvs_table_def column_type_def)

text \<open>Affinities that do what SQLite documents for texts and integers.\<close>

definition toy_affinity :: "string \<Rightarrow> sqlval \<Rightarrow> sqlval" where
  "toy_affinity ty v =
     (case v of SqlInteger n \<Rightarrow> (if ty = ''TEXT'' then SqlText (dec_int (sint n)) else v) | _ \<Rightarrow> v)"

definition toy_sqlite :: sqlite_env where
  "toy_sqlite = \<lparr>se_codec = ref_codec, se_affinity = toy_affinity, se_f64_of_int = word_of_int, se_f64_finite = (\<lambda>_. True)\<rparr>"

lemma toy_affinity_ok: "affinity_ok toy_sqlite"
  by (auto simp: affinity_ok_def toy_sqlite_def toy_affinity_def split: sqlval.splits if_splits)

definition kvs_manager :: "sqlite_db DbManager" where
  "kvs_manager = \<lparr>dm_user_id = Some ''u1'', dm_pool = Some ''u1'',
     dm_dirs = [''u1'' \<mapsto> Some (kvs_migration ''now'' Map.empty)], dm_empty_db = Map.empty,
     dm_polybase_migrator = Some (\<lambda>d. Inr (kvs_migration ''now'' d)), dm_app_migrator = None, dm_faults = []\<rparr>"

lemma kvs_manager_ok: "mirror_ok toy_sqlite kvs_manager"
  using kvs_table_ok
  by (auto simp: mirror_ok_def toy_affinity_ok store_ok_def active_db_def kvs_manager_def open_db_def
      kvs_migration_def db_ok_def)

section \<open>Properties\<close>

text \<open>
  C13: the mirror reads back what was written. After a successful upsert of a record with an id, a
  read of that id gives a row in which every column of the record holds what the column makes of
  the written value and every other column is as before; no other row changes. A failed upsert
  changes no row at all.
\<close>

theorem store_read_after_write:
  assumes "mirror_ok env s" and "get_str rec ''id'' = Some i" and "store_upsert_record env t rec s = (r, s1)"
    and "store_read_record env t' j s1 = (Inr res, s2)"
  shows "(r = Inr () \<and> t' = t \<and> j = i \<longrightarrow>
           (\<exists>row. res = Some row \<and> written (store_stored env s t) rec row \<and> kept rec (store_view env s t i) row))
       \<and> (r \<noteq> Inr () \<or> t' \<noteq> t \<or> j \<noteq> i \<longrightarrow> res = store_view env s t' j)"
proof -
  have up: "ls_upsert_record (SqliteLocalStore env) t rec s = (r, s1)"
    and rd: "ls_read_record (SqliteLocalStore env) t' j s1 = (Inr res, s2)"
    using assms(3,4) by (simp_all add: store_ops)
  show ?thesis
  proof (cases r)
    case (Inl e)
    have "mirror_ok env s1" using sqlite_mirror.upsert_frame [OF assms(1,2) up] by blast
    then show ?thesis
      using Inl sqlite_mirror.upsert_err [OF assms(1)] up sqlite_mirror.read_ok [OF _ rd] by auto
  next
    case (Inr u)
    then show ?thesis
      using sqlite_mirror.read_after_upsert [OF assms(1,2), of t s1 res s2] up rd
        sqlite_mirror.read_after_other_upsert [OF assms(1,2) up rd] by (cases "t' = t \<and> j = i") auto
  qed
qed

definition sample_row :: Record where
  "sample_row = obj_of_list [(''id'', JString ''a::b''), (''namespace'', JString ''a''), (''key'', JString ''b''),
     (''value'', JString ''x''), (''version'', JInt 1), (''deleted'', JBool False)]"

lemmas store_eval = store_upsert_record_def store_read_record_def run_statement_def manager_pool_def
  query_def change_def with_table_def upsert_rows_def Let_def open_db_def db_fault_def take_fault_def
  kvs_manager_def kvs_migration_def kvs_table_def has_columns_def obj_keys_def new_row_def
  cell_def id_is_def id_key_def clashes_def set_cells_def column_type_def bind_json_value_def
  toy_sqlite_def toy_affinity_def

theorem store_read_after_write_witness:
  "\<exists>row. fst (store_read_record toy_sqlite ''kvs'' ''a::b''
      (snd (store_upsert_record toy_sqlite ''kvs'' sample_row kvs_manager))) = Inr (Some row)
    \<and> obj_get row ''deleted'' = Some (JInt 0)"
proof -
  have id: "get_str sample_row ''id'' = Some ''a::b''" by (simp add: get_str_def sample_row_def obj_of_list_def)
  obtain r s1 where up: "store_upsert_record toy_sqlite ''kvs'' sample_row kvs_manager = (r, s1)"
    by (cases "store_upsert_record toy_sqlite ''kvs'' sample_row kvs_manager")
  have r: "r = Inr ()" using up by (simp add: store_eval sample_row_def obj_of_list_def)
  obtain res s2 where rd: "store_read_record toy_sqlite ''kvs'' ''a::b'' s1 = (res, s2)"
    by (cases "store_read_record toy_sqlite ''kvs'' ''a::b'' s1")
  obtain x where x: "res = Inr x"
    using up rd by (auto simp: store_eval sample_row_def obj_of_list_def)
  have st: "store_stored toy_sqlite kvs_manager ''kvs'' ''deleted'' (JBool False) = JInt 0"
    by (simp add: store_stored_def store_table_def active_db_def column_value_def value_of_column_def json_of_i64_def store_eval)
  have "obj_get sample_row ''deleted'' = Some (JBool False)" by (simp add: sample_row_def obj_of_list_def)
  with store_read_after_write [OF kvs_manager_ok id up rd [unfolded x]] r x rd up st
  show ?thesis by (auto simp: written_def)
qed

text \<open>
  A record that has only an id can never be stored: whatever the mirror holds, the upsert is
  an error, because its \<open>DO UPDATE SET\<close> list is empty.
\<close>

theorem store_id_only_rejected:
  "\<exists>e. fst (store_upsert_record env table [(''id'', v)] m) = Inl e"
  by (auto simp: store_upsert_record_def run_statement_def obj_keys_def split: option.split prod.split)

end
