(* ===== verification/Sync.thy ===== *)
theory Sync
  imports Coordinator SqliteStore SqliteQueue
begin

text \<open>
  The coordinator over the implementations the workspace ships: the SQLite mirror and the SQLite
  offline queue. The guarantees proved over the trait contracts become statements about them.
\<close>

interpretation sqlite_sync: coordinator "SqliteLocalStore env" "mirror_ok env" "store_view env" "store_stored env"
  sqlite_enqueue sqlite_snapshot sqlite_finalize sqlite_depth sqlite_ok sqlite_view
  for env
  by (intro coordinator.intro coordinator_queue.intro sqlite_mirror.local_store_axioms sqlite.offline_queue_axioms
      sqlite.retrying_queue_axioms)

type_synonym sqlite_coordinator = "(sqlite_db DbManager, SqliteQueue) Coordinator"

definition sqlite_wired :: "sqlite_env \<Rightarrow> (sqlite_db DbManager, SqliteQueue) coord_env \<Rightarrow> bool" where
  "sqlite_wired senv env \<longleftrightarrow> wired (SqliteLocalStore senv) sqlite_enqueue sqlite_depth env"

section \<open>A small installation\<close>

text \<open>One table with an id and a body, its configuration, a signed-in user, and a server.\<close>

definition notes_table :: sql_table where
  "notes_table =
     \<lparr>st_columns =
        [\<lparr>sc_name = ''id'', sc_type = ''TEXT'', sc_not_null = False, sc_default = SqlNull\<rparr>,
         \<lparr>sc_name = ''body'', sc_type = ''TEXT'', sc_not_null = False, sc_default = SqlNull\<rparr>,
         \<lparr>sc_name = ''version'', sc_type = ''INTEGER'', sc_not_null = False, sc_default = SqlNull\<rparr>,
         \<lparr>sc_name = ''deleted'', sc_type = ''INTEGER'', sc_not_null = False, sc_default = SqlNull\<rparr>],
      st_uniques = [[''id'']], st_rows = [[(''id'', SqlText ''n0''), (''body'', SqlNull), (''version'', SqlInteger 1), (''deleted'', SqlInteger 0)]]\<rparr>"

definition notes_config :: EntityConfig where
  "notes_config =
     with_columns [column_synced ''id'' ''id'' ''id'' ''TEXT'' ''string'' False,
                   column_synced ''body'' ''body'' ''body'' ''TEXT'' ''string'' True]
       (entity_synced ''notes'' ''Note'')"

definition notes_manager :: "sqlite_db DbManager" where
  "notes_manager = kvs_manager\<lparr>dm_dirs := [''u1'' \<mapsto> Some [''notes'' \<mapsto> notes_table]]\<rparr>"

definition notes_coordinator :: sqlite_coordinator where
  "notes_coordinator =
     \<lparr>cd_registry = registry_new\<lparr>by_table := [(''notes'', notes_config)]\<rparr>, cd_session = Some (sample_session ''u1''),
      cd_network = fresh_network, cd_queue = sqlite_fresh, cd_events = [], cd_encryption = None,
      cd_local = notes_manager\<rparr>"

lemma notes_coordinator_new:
  "notes_coordinator = coordinator_new (Some (sample_session ''u1'')) (registry_new\<lparr>by_table := [(''notes'', notes_config)]\<rparr>)
     sqlite_fresh [] None notes_manager"
  by (simp add: notes_coordinator_def coordinator_new_def fresh_network_def)

definition notes_env :: "string + http_response \<Rightarrow> (sqlite_db DbManager, SqliteQueue) coord_env" where
  "notes_env answer =
     \<lparr>cv_net = const_env answer, cv_cipher = toy_env, cv_clock = \<lparr>now_rfc3339 = ''now'', now_millis = 0\<rparr>,
      cv_now_micros = 7, cv_local = SqliteLocalStore toy_sqlite, cv_enqueue = sqlite_enqueue, cv_depth = sqlite_depth\<rparr>"

definition a_note :: obj where
  "a_note = [(''body'', JString ''hi''), (''id'', JString ''n1'')]"

lemma notes_wired: "sqlite_wired toy_sqlite (notes_env answer)"
  by (simp add: sqlite_wired_def wired_def notes_env_def)

lemma notes_mirror_ok: "mirror_ok toy_sqlite (cd_local notes_coordinator)"
  by (simp add: mirror_ok_def toy_affinity_ok store_ok_def active_db_def notes_coordinator_def notes_manager_def
      kvs_manager_def open_db_def db_ok_def table_ok_def notes_table_def column_type_def)

lemma notes_queue_ok: "sqlite_ok (cd_queue notes_coordinator)"
  by (simp add: notes_coordinator_def)

lemma notes_lookup: "config_for_table (cd_registry notes_coordinator) table = (if table = ''notes'' then Some notes_config else None)"
  by (simp add: notes_coordinator_def config_for_table_def)

lemmas notes_config_defs = notes_config_def with_columns_def column_synced_def entity_synced_def

lemma notes_id_mapped: "id_mapped notes_config"
  by (simp add: id_mapped_def mapping_ok_def notes_config_defs remote_local_def local_remote_def
      List.map_filter_simps encrypted_keys_def injected_user_id_column_def effective_remote_name_def)

definition noted :: obj where
  "noted = [(''body'', JString ''hi''), (''id'', JString ''n1''), (''user_id'', JString ''u1'')]"

lemma note_serialized: "serialize_for_remote toy_env None ''u1'' notes_config a_note = Inr noted"
  by (simp add: serialize_for_remote_def notes_config_defs injected_user_id_column_def a_note_def noted_def)

lemma note_stored:
  "ls_upsert_record (SqliteLocalStore toy_sqlite) ''notes'' (map_remote_to_local notes_config noted) notes_manager
   = (Inr (), snd (store_upsert_record toy_sqlite ''notes'' (map_remote_to_local notes_config noted) notes_manager))"
  by (simp add: store_ops store_eval map_remote_to_local_def notes_config_defs noted_def notes_manager_def notes_table_def)

lemma note_persisted:
  "persist_change_with_op (notes_env answer) ''notes'' a_note None notes_coordinator =
   (let (result, n) = pusher_upsert (const_env answer) ''notes'' noted ''id'' ''at'' fresh_network
    in settle_write (notes_env answer) ''notes'' ''n1'' noted result
         (notes_coordinator\<lparr>cd_local := snd (store_upsert_record toy_sqlite ''notes''
             (map_remote_to_local notes_config noted) notes_manager), cd_network := n\<rparr>))"
proof -
  have "get_str a_note ''id'' = Some ''n1''" by (simp add: a_note_def get_str_def)
  moreover have "cd_session notes_coordinator = Some (sample_session ''u1'')" "sp_user_id (sample_session ''u1'') = ''u1''"
    "sp_access_token (sample_session ''u1'') = ''at''" "cd_encryption notes_coordinator = None"
    "cd_local notes_coordinator = notes_manager" "cd_network notes_coordinator = fresh_network"
    by (simp_all add: notes_coordinator_def sample_session_def)
  moreover have "cv_cipher (notes_env answer) = toy_env" "cv_local (notes_env answer) = SqliteLocalStore toy_sqlite"
    "cv_net (notes_env answer) = const_env answer" by (simp_all add: notes_env_def)
  moreover have "write_path notes_config = PostgREST" "conflict_target notes_config = ''id''"
    by (simp_all add: notes_config_defs)
  ultimately show ?thesis
    by (simp add: persist_change_with_op_def notes_lookup note_serialized note_stored dispatch_write_def split: prod.split)
qed

lemma note_offline: "pusher_upsert (const_env (Inl ''offline'')) ''notes'' noted ''id'' ''at'' fresh_network =
  (Inl (Poly_Http ''offline''), snd (pusher_upsert (const_env (Inl ''offline'')) ''notes'' noted ''id'' ''at'' fresh_network))"
  by (simp add: pusher_upsert_def noted_def get_str_def net_send_def const_env_def Let_def)

lemma notes_enqueue:
  "cd_queue c = sqlite_fresh \<Longrightarrow> fst (enqueue_for_replay (notes_env a) op c) = Inr ()"
  by (simp add: enqueue_for_replay_def notes_env_def sqlite_enqueue_def sqlite_fresh_def take_fault_def sqlite_depth_def)

lemma settle_offline:
  "cd_queue c = sqlite_fresh \<Longrightarrow> fst (settle_write (notes_env a) table i rec (Inl (Poly_Http m)) c) = Inr ()"
  using notes_enqueue [of c a "queued_write (notes_env a) table i (Write (JObject rec)) (Poly_Http m)"]
  by (auto simp: settle_write_def split: prod.split sum.split)

lemma note_queued: "fst (persist_change_with_op (notes_env (Inl ''offline'')) ''notes'' a_note None notes_coordinator) = Inr ()"
proof -
  obtain n where n: "pusher_upsert (const_env (Inl ''offline'')) ''notes'' noted ''id'' ''at'' fresh_network = (Inl (Poly_Http ''offline''), n)"
    using note_offline by metis
  show ?thesis unfolding note_persisted n by (simp add: settle_offline notes_coordinator_def)
qed

section \<open>Writing\<close>

text \<open>
  C1: what an acknowledged change has come to. When \<open>persist_change\<close> returns \<open>Ok\<close>, the
  local mirror holds the serialised record under its id, exactly one request carried that record, and
  one of three things is true: the server answered the request with a success, and the queue is as
  before; on the PostgREST path the server refused the record as a mutation of the version it already
  has, and the record is dropped, neither at the server nor queued; or the request failed for a passing
  reason, and the queue holds the write, with the payload that was sent, as the pending operation of the row.
\<close>

theorem persist_change_outcomes:
  assumes "sqlite_wired senv env" and "mirror_ok senv (cd_local c)" and "sqlite_ok (cd_queue c)"
    and "\<And>config. config_for_table (cd_registry c) table = Some config \<Longrightarrow> id_mapped config"
    and "record_ok rec" and "persist_change_with_op env table rec op c = (Inr (), c')"
  shows "\<exists>config session i remote row.
      config_for_table (cd_registry c) table = Some config \<and> cd_session c = Some session \<and> get_str rec ''id'' = Some i
      \<and> serialize_for_remote (cv_cipher env) (cd_encryption c) (sp_user_id session) config rec = Inr remote
      \<and> store_view senv (cd_local c') table i = Some row
      \<and> written (store_stored senv (cd_local c) table) (map_remote_to_local config remote) row
      \<and> sent_requests (net_trace (cd_network c'))
          = sent_requests (net_trace (cd_network c)) @ [write_request (cv_net env) config table remote op (sp_access_token session)]
      \<and> write_outcome
          (server_answer (cv_net env) (write_request (cv_net env) config table remote op (sp_access_token session)) (cd_network c))
          (fst (dispatch_write (cv_net env) config table remote i op (sp_access_token session) (cd_network c)))
          (queued_write env table i (Write (JObject remote))) (sqlite_view (cd_queue c)) (sqlite_view (cd_queue c'))"
  using sqlite_sync.persist_ok [OF assms(1) [unfolded sqlite_wired_def] assms(2-6)] persist_sends [OF assms(6)] assms(4)
  by fastforce

theorem persist_change_outcomes_witness:
  "\<exists>row. store_view toy_sqlite (cd_local (snd (persist_change_with_op (notes_env (Inl ''offline'')) ''notes'' a_note None
      notes_coordinator))) ''notes'' ''n1'' = Some row"
proof -
  obtain c' where c': "persist_change_with_op (notes_env (Inl ''offline'')) ''notes'' a_note None notes_coordinator = (Inr (), c')"
    using note_queued by (metis prod.collapse)
  have im: "\<And>config. config_for_table (cd_registry notes_coordinator) ''notes'' = Some config \<Longrightarrow> id_mapped config"
    using notes_id_mapped by (simp add: notes_lookup)
  have can: "record_ok a_note" by (simp add: a_note_def obj_ok_def)
  have "get_str a_note ''id'' = Some ''n1''" by (simp add: a_note_def get_str_def)
  then show ?thesis
    using persist_change_outcomes [OF notes_wired notes_mirror_ok notes_queue_ok im can c'] c' by auto
qed

text \<open>
  A change that was refused leaves no trace in the queue. When \<open>persist_change\<close> returns an
  error, every pending operation is as before, and nothing is announced except, for a version
  regression, that the row needs to be pulled.
\<close>

theorem persist_change_refused:
  assumes "sqlite_wired senv env" and "sqlite_ok (cd_queue c)"
    and "persist_change_with_op env table rec op c = (Inl e, c')"
  shows "sqlite_view (cd_queue c') = sqlite_view (cd_queue c)
     \<and> (cd_events c' = cd_events c \<or> (is_version_regression e \<and> (\<exists>i. get_str rec ''id'' = Some i
        \<and> cd_events c' = cd_events c @ [VersionRegressionDetected table i])))"
  using sqlite_sync.persist_err [OF assms(1) [unfolded sqlite_wired_def] assms(2,3)] by blast

theorem persist_change_refused_witness:
  "sqlite_view (cd_queue (snd (persist_change_with_op (notes_env (Inr \<lparr>resp_status = 400,
      resp_text = Inr ''version regression''\<rparr>)) ''notes'' a_note None notes_coordinator))) = Map.empty"
proof -
  let ?resp = "\<lparr>resp_status = 400, resp_text = Inr ''version regression''\<rparr> :: http_response"
  let ?p = "pusher_upsert (const_env (Inr ?resp)) ''notes'' noted ''id'' ''at'' fresh_network"
  have marker: "is_version_regression_message (text_or_default ?resp)"
    "\<not> is_same_version_mutation_message (text_or_default ?resp)"
    by (simp_all add: text_or_default_def is_version_regression_message_def is_same_version_mutation_message_def
        to_ascii_lowercase_def ascii_lower_def VERSION_REGRESSION_MARKER_def SAME_VERSION_MUTATION_MARKER_def starts_with_def)
  have "fst ?p = Inl (rejected ''notes'' ?resp)"
    using marker by (simp add: pusher_upsert_def noted_def get_str_def net_send_def const_env_def Let_def status_success_def)
  then obtain n where n: "?p = (Inl (rejected ''notes'' ?resp), n)" by (metis prod.collapse)
  have perm: "rejected ''notes'' ?resp = Poly_Push (Push_Permanent ''notes'' (http_message 400 ''version regression''))"
    using rejected_permanent [OF permanent_same_version(2) [OF marker(1)], of "''notes''"] by (simp add: text_or_default_def)
  have "\<exists>e. fst (persist_change_with_op (notes_env (Inr ?resp)) ''notes'' a_note None notes_coordinator) = Inl e"
    unfolding note_persisted n perm by (simp add: settle_write_def)
  then obtain e c' where c': "persist_change_with_op (notes_env (Inr ?resp)) ''notes'' a_note None notes_coordinator = (Inl e, c')"
    by (metis prod.collapse)
  show ?thesis
    using persist_change_refused [OF notes_wired notes_queue_ok c'] c' by (simp add: notes_coordinator_def)
qed

text \<open>
  C2: what an acknowledged deletion has come to. When \<open>delete\<close> returns \<open>Ok\<close>, the mirror has marked
  the row as deleted at the given version and kept its other columns, or still has no such row; exactly one request carried the
  tombstone; and either the server answered it with a success (which PostgREST also gives to a PATCH
  that matches no row) and the queue is as before, a pending write of the row included, or the request
  failed for a passing reason and the tombstone is the pending operation of the row.
\<close>

theorem delete_outcomes:
  assumes "sqlite_wired senv env" and "mirror_ok senv (cd_local c)" and "sqlite_ok (cd_queue c)"
    and "coordinator_delete env table i v c = (Inr (), c')"
  shows "\<exists>config session req. config_for_table (cd_registry c) table = Some config \<and> cd_session c = Some session
      \<and> req = delete_request (cv_net env) config table i v (tombstone_updated_at_value (cv_clock env) config) (sp_access_token session)
      \<and> tombstoned (store_stored senv (cd_local c) table) v (store_view senv (cd_local c) table i) (store_view senv (cd_local c') table i)
      \<and> sent_requests (net_trace (cd_network c')) = sent_requests (net_trace (cd_network c)) @ [req]
      \<and> delete_outcome (server_answer (cv_net env) req (cd_network c))
          (fst (dispatch_delete (cv_net env) config table i v (tombstone_updated_at_value (cv_clock env) config)
             (sp_access_token session) (cd_network c)))
          (queued_write env table i (Tombstone v)) (sqlite_view (cd_queue c)) (sqlite_view (cd_queue c'))"
  using sqlite_sync.delete_ok [OF assms(1) [unfolded sqlite_wired_def] assms(2-4)] delete_sends [OF assms(4)]
  by fastforce

lemma note_deleted:
  "fst (coordinator_delete (notes_env (Inl ''offline'')) ''notes'' ''n0'' 5 notes_coordinator) = Inr ()"
proof -
  have m: "fst (ls_mark_deleted (cv_local (notes_env (Inl ''offline''))) ''notes'' ''n0'' 5 (cd_local notes_coordinator)) = Inr ()"
    by (simp add: notes_env_def store_ops store_mark_deleted_def mark_rows_def store_eval notes_coordinator_def
        notes_manager_def notes_table_def)
  then obtain l where l: "ls_mark_deleted (cv_local (notes_env (Inl ''offline''))) ''notes'' ''n0'' 5 (cd_local notes_coordinator) = (Inr (), l)"
    by (metis prod.collapse)
  have d: "fst (dispatch_delete (cv_net (notes_env (Inl ''offline''))) notes_config ''notes'' ''n0'' 5 at token n)
      = Inl (Poly_Http ''offline'')" for at token n
    by (simp add: dispatch_delete_def notes_config_defs pusher_update_tombstone_def net_send_def notes_env_def const_env_def Let_def)
  have "fst (settle_delete (notes_env (Inl ''offline'')) ''notes'' ''n0'' 5 (Inl (Poly_Http ''offline'')) c) = Inr ()"
    if "cd_queue c = sqlite_fresh" for c
    using notes_enqueue [OF that] by (simp add: settle_delete_def)
  then have st: "fst (settle_delete (notes_env (Inl ''offline'')) ''notes'' ''n0'' 5 (Inl (Poly_Http ''offline''))
      (notes_coordinator\<lparr>cd_local := l, cd_network := n\<rparr>)) = Inr ()" for n
    by (simp add: notes_coordinator_def)
  obtain n where n: "dispatch_delete (cv_net (notes_env (Inl ''offline''))) notes_config ''notes'' ''n0'' 5
      (tombstone_updated_at_value (cv_clock (notes_env (Inl ''offline''))) notes_config)
      (sp_access_token (sample_session ''u1'')) (cd_network notes_coordinator) = (Inl (Poly_Http ''offline''), n)"
    using d by (metis prod.collapse)
  have s: "cd_session notes_coordinator = Some (sample_session ''u1'')" by (simp add: notes_coordinator_def)
  show ?thesis using st [of n] by (simp add: coordinator_delete_def notes_lookup s l n)
qed

theorem delete_outcomes_witness:
  "\<exists>c' err. coordinator_delete (notes_env (Inl ''offline'')) ''notes'' ''n0'' 5 notes_coordinator = (Inr (), c')
     \<and> sqlite_view (cd_queue c') (''notes'', ''n0'') = Some (queued_write (notes_env (Inl ''offline'')) ''notes'' ''n0'' (Tombstone 5) err)"
proof -
  let ?env = "notes_env (Inl ''offline'')"
  obtain c' where c': "coordinator_delete ?env ''notes'' ''n0'' 5 notes_coordinator = (Inr (), c')"
    using note_deleted by (metis prod.collapse)
  have refused: "\<not> answered_success (server_answer (cv_net ?env) req n)" for req n
    by (simp add: notes_env_def const_env_def server_answer_def answered_success_def)
  show ?thesis using delete_outcomes [OF notes_wired notes_mirror_ok notes_queue_ok c'] c' refused
    by (auto simp: delete_outcome_def queued_write_def op_key_def)
qed

text \<open>
  C18: a deletion made online leaves the write of the row that is still queued. A record is written while the
  server cannot be reached, so its write is queued; then the server is back, the row is deleted, and the
  server answers the tombstone with a success (a PATCH that matches no row, as the insert was never
  sent). Both calls return \<open>Ok\<close> and the mirror has the row deleted, but the next replay is handed the
  write of the live record and no tombstone.
\<close>

theorem online_delete_keeps_queued_write:
  assumes wired: "sqlite_wired senv env" "sqlite_wired senv env'" and "mirror_ok senv (cd_local c)" and "sqlite_ok (cd_queue c)"
    and mapped: "\<And>config. config_for_table (cd_registry c) table = Some config \<Longrightarrow> id_mapped config"
    and rec: "record_ok rec" "get_str rec ''id'' = Some i"
    and offline: "\<And>sent req. \<exists>m. ne_server (cv_net env) sent req = Inl m"
    and persisted: "persist_change_with_op env table rec op c = (Inr (), c1)"
    and online: "\<And>sent req. answered_readable (ne_server (cv_net env') sent req)"
    and deleted: "coordinator_delete env' table i v c1 = (Inr (), c2)"
    and replay: "sqlite_snapshot (cd_queue c2) = (Inr ops, q)"
  shows "\<exists>config session remote err row.
      config_for_table (cd_registry c) table = Some config \<and> cd_session c = Some session
      \<and> serialize_for_remote (cv_cipher env) (cd_encryption c) (sp_user_id session) config rec = Inr remote
      \<and> {w \<in> set ops. op_key w = (table, i)} = {queued_write env table i (Write (JObject remote)) err}
      \<and> store_view senv (cd_local c2) table i = Some row
      \<and> written (store_stored senv (cd_local c1) table) [(''deleted'', JInt 1), (''version'', json_of_i64 v)] row"
proof -
  note w = wired [unfolded sqlite_wired_def]
  obtain config session i' remote row0 where p: "config_for_table (cd_registry c) table = Some config" "cd_session c = Some session"
    "serialize_for_remote (cv_cipher env) (cd_encryption c) (sp_user_id session) config rec = Inr remote"
    "store_view senv (cd_local c1) table i' = Some row0" "get_str rec ''id'' = Some i'"
    and o: "write_outcome
          (server_answer (cv_net env) (write_request (cv_net env) config table remote op (sp_access_token session)) (cd_network c))
          (fst (dispatch_write (cv_net env) config table remote i' op (sp_access_token session) (cd_network c)))
          (queued_write env table i' (Write (JObject remote))) (sqlite_view (cd_queue c)) (sqlite_view (cd_queue c1))"
    using sqlite_sync.persist_ok [OF w(1) assms(3,4) mapped rec(1) persisted]
    by - (drule meta_mp, assumption, elim exE conjE, rule that)
  have i: "i' = i" using p(5) rec(2) by simp
  have "\<not> answered_success (server_answer (cv_net env) req n) \<and> \<not> answered_same_version (server_answer (cv_net env) req n)" for req n
  proof -
    obtain m where "server_answer (cv_net env) req n = Inl m"
      using offline [of "sent_requests (net_trace n)" req] by (auto simp: server_answer_def)
    then show ?thesis by (simp add: answered_success_def answered_same_version_def)
  qed
  then obtain err where "sqlite_view (cd_queue c1) = (sqlite_view (cd_queue c))
      (op_key (queued_write env table i (Write (JObject remote)) err) \<mapsto> queued_write env table i (Write (JObject remote)) err)"
    using o unfolding write_outcome_def i by blast
  then have q1: "sqlite_view (cd_queue c1) (table, i) = Some (queued_write env table i (Write (JObject remote)) err)"
    by (simp add: queued_write_def op_key_def)
  have ok1: "mirror_ok senv (cd_local c1)" "sqlite_ok (cd_queue c1)"
    using sqlite_sync.persist_mirror_ok [OF w(1) assms(3) mapped persisted] sqlite_sync.persist_keeps_queue [OF w(1) assms(4) rec(1) persisted]
    by simp_all
  obtain config' session' where "config_for_table (cd_registry c1) table = Some config'" "cd_session c1 = Some session'" and d:
    "tombstoned (store_stored senv (cd_local c1) table) v (store_view senv (cd_local c1) table i) (store_view senv (cd_local c2) table i)"
    and o': "delete_outcome (server_answer (cv_net env') (delete_request (cv_net env') config' table i v
             (tombstone_updated_at_value (cv_clock env') config') (sp_access_token session')) (cd_network c1))
          (fst (dispatch_delete (cv_net env') config' table i v (tombstone_updated_at_value (cv_clock env') config')
             (sp_access_token session') (cd_network c1)))
          (queued_write env' table i (Tombstone v)) (sqlite_view (cd_queue c1)) (sqlite_view (cd_queue c2))"
    using sqlite_sync.delete_ok [OF w(2) ok1 deleted] by (elim exE conjE) (rule that)
  have "answered_readable (server_answer (cv_net env') req n)" for req n using online by (simp add: server_answer_def)
  note answered = dispatch_delete_answered [OF this]
  have same: "sqlite_view (cd_queue c2) = sqlite_view (cd_queue c1)"
    using o' answered unfolding delete_outcome_def by blast
  have "sqlite_ok (cd_queue c2)" by (rule sqlite_sync.delete_keeps_queue [OF w(2) ok1(2) deleted])
  then have "distinct (map op_key ops)" "map_of (keyed ops) (table, i) = Some (queued_write env table i (Write (JObject remote)) err)"
    using sqlite.snapshot_ok [of "cd_queue c2" ops] replay same q1 by simp_all
  then have "{x \<in> set ops. op_key x = (table, i)} = {queued_write env table i (Write (JObject remote)) err}"
    by (rule keyed_singleton)
  moreover obtain row where "store_view senv (cd_local c2) table i = Some row"
    "written (store_stored senv (cd_local c1) table) [(''deleted'', JInt 1), (''version'', json_of_i64 v)] row"
    using d p(4) by (auto simp: i tombstoned_def Let_def)
  ultimately show ?thesis using p(1-3)
    by - (rule exI [of _ config], rule exI [of _ session], rule exI [of _ remote], rule exI [of _ err], rule exI [of _ row], intro conjI)
qed

lemma note_queued_state:
  "\<exists>c1 rows. persist_change_with_op (notes_env (Inl ''offline'')) ''notes'' a_note None notes_coordinator = (Inr (), c1)
     \<and> cd_local c1 = snd (store_upsert_record toy_sqlite ''notes'' (map_remote_to_local notes_config noted) notes_manager)
     \<and> cd_session c1 = cd_session notes_coordinator \<and> cd_registry c1 = cd_registry notes_coordinator
     \<and> sq_pool (cd_queue c1) = Some rows \<and> sq_faults (cd_queue c1) = []"
proof -
  have kvs: "''notes'' \<noteq> KVS_TABLE" by (simp add: KVS_TABLE_def)
  show ?thesis unfolding note_persisted
    by (subst note_offline)
      (simp add: settle_write_def enqueue_for_replay_def notes_env_def notes_coordinator_def sqlite_enqueue_def sqlite_fresh_def
        take_fault_def sqlite_depth_def kvs_notice_def kvs cd_publish_def publish_def)
qed

abbreviation "online_env \<equiv> notes_env (Inr \<lparr>resp_status = 204, resp_text = Inr []\<rparr>)"

lemma note_deleted_online:
  assumes "cd_local c1 = snd (store_upsert_record toy_sqlite ''notes'' (map_remote_to_local notes_config noted) notes_manager)"
    and "cd_session c1 = cd_session notes_coordinator" and "cd_registry c1 = cd_registry notes_coordinator"
  shows "\<exists>c2. coordinator_delete online_env ''notes'' ''n1'' 2 c1 = (Inr (), c2) \<and> cd_queue c2 = cd_queue c1"
proof -
  have "fst (ls_mark_deleted (cv_local online_env) ''notes'' ''n1'' 2 (cd_local c1)) = Inr ()"
    by (simp add: assms(1) notes_env_def store_ops store_eval store_mark_deleted_def mark_rows_def map_remote_to_local_def
        notes_config_defs noted_def notes_manager_def notes_table_def)
  then obtain l where l: "ls_mark_deleted (cv_local online_env) ''notes'' ''n1'' 2 (cd_local c1) = (Inr (), l)"
    by (metis prod.collapse)
  have kvs: "''notes'' \<noteq> KVS_TABLE" by (simp add: KVS_TABLE_def)
  have d: "\<exists>n'. dispatch_delete (cv_net online_env) notes_config ''notes'' ''n1'' 2 at token n = (Inr (), n')" for at token n
    by (simp add: dispatch_delete_def notes_config_defs pusher_update_tombstone_def net_send_def notes_env_def const_env_def Let_def
        status_success_def)
  show ?thesis
    using d [of "tombstone_updated_at_value (cv_clock online_env) notes_config" "sp_access_token (sample_session ''u1'')" "cd_network c1"] l kvs
    by (auto simp: coordinator_delete_def assms(2,3) notes_lookup settle_delete_def) (simp add: notes_coordinator_def settle_delete_def)
qed

theorem online_delete_keeps_queued_write_witness:
  "\<exists>c1 c2 ops q err. persist_change_with_op (notes_env (Inl ''offline'')) ''notes'' a_note None notes_coordinator = (Inr (), c1)
     \<and> coordinator_delete online_env ''notes'' ''n1'' 2 c1 = (Inr (), c2) \<and> sqlite_snapshot (cd_queue c2) = (Inr ops, q)
     \<and> {w \<in> set ops. op_key w = (''notes'', ''n1'')} = {queued_write (notes_env (Inl ''offline'')) ''notes'' ''n1'' (Write (JObject noted)) err}"
proof -
  obtain c1 rows where c1: "persist_change_with_op (notes_env (Inl ''offline'')) ''notes'' a_note None notes_coordinator = (Inr (), c1)"
    "cd_local c1 = snd (store_upsert_record toy_sqlite ''notes'' (map_remote_to_local notes_config noted) notes_manager)"
    "cd_session c1 = cd_session notes_coordinator" "cd_registry c1 = cd_registry notes_coordinator"
    "sq_pool (cd_queue c1) = Some rows" "sq_faults (cd_queue c1) = []"
    using note_queued_state by blast
  obtain c2 where c2: "coordinator_delete online_env ''notes'' ''n1'' 2 c1 = (Inr (), c2)" "cd_queue c2 = cd_queue c1"
    using note_deleted_online [OF c1(2-4)] by blast
  have rec: "record_ok a_note" "get_str a_note ''id'' = Some ''n1''" by (simp_all add: a_note_def obj_ok_def get_str_def)
  have "sqlite_ok (cd_queue c1)"
    by (rule sqlite_sync.persist_keeps_queue [OF notes_wired [unfolded sqlite_wired_def] notes_queue_ok rec(1) c1(1)])
  then obtain ops q where snap: "sqlite_snapshot (cd_queue c2) = (Inr ops, q)"
    using sqlite_snapshot_fine [OF _ c1(5,6)] c2(2) by auto
  have im: "\<And>config. config_for_table (cd_registry notes_coordinator) ''notes'' = Some config \<Longrightarrow> id_mapped config"
    using notes_id_mapped by (simp add: notes_lookup)
  have off: "\<exists>m. ne_server (cv_net (notes_env (Inl ''offline''))) sent req = Inl m" for sent req
    by (simp add: notes_env_def const_env_def)
  have on: "answered_readable (ne_server (cv_net online_env) sent req)" for sent req
    by (simp add: notes_env_def const_env_def answered_readable_def status_success_def)
  obtain remote err where r: "serialize_for_remote toy_env None ''u1'' notes_config a_note = Inr remote"
    "{w \<in> set ops. op_key w = (''notes'', ''n1'')} = {queued_write (notes_env (Inl ''offline'')) ''notes'' ''n1'' (Write (JObject remote)) err}"
    using online_delete_keeps_queued_write [OF notes_wired notes_wired notes_mirror_ok notes_queue_ok im rec off c1(1) on c2(1) snap]
    by (auto simp: notes_lookup) (auto simp: notes_coordinator_def notes_env_def sample_session_def)
  then show ?thesis using c1(1) c2(1) snap note_serialized by auto
qed

section \<open>Order of effects\<close>

lemma settle_write_network:
  "settle_write env table i rec result c = (r, c') \<Longrightarrow> cd_network c' = cd_network c \<and> cd_local c' = cd_local c"
  by (erule settle_write_cases) (auto dest: enqueue_for_replay_frames)

lemma settle_delete_network:
  "settle_delete env table i v result c = (r, c') \<Longrightarrow> cd_network c' = cd_network c \<and> cd_local c' = cd_local c"
  by (erule settle_delete_cases) (auto dest: enqueue_for_replay_frames)

lemma echo_first_refl [simp]: "echo_first table n n"
  by (simp add: echo_first_def)

text \<open>
  C4: mirror first, then echo, then network. A write or a deletion reaches the network only after
  the local mirror has taken it, with at most one request, and right before that request the row
  has been marked in the echo tracker; when the mirror refuses, the error is the mirror's and
  nothing is sent.
\<close>

theorem local_then_echo_then_network:
  assumes "persist_change_with_op env table rec op c = (r, c')" and "coordinator_delete env table i v c = (r2, c2)"
  shows "echo_first table (cd_network c) (cd_network c')
     \<and> (net_trace (cd_network c') \<noteq> net_trace (cd_network c) \<longrightarrow>
          (\<exists>loc. ls_upsert_record (cv_local env) table loc (cd_local c) = (Inr (), cd_local c')))
     \<and> echo_first table (cd_network c) (cd_network c2)
     \<and> (net_trace (cd_network c2) \<noteq> net_trace (cd_network c) \<longrightarrow>
          ls_mark_deleted (cv_local env) table i v (cd_local c) = (Inr (), cd_local c2))"
proof -
  have "echo_first table (cd_network c) (cd_network c')
     \<and> (net_trace (cd_network c') \<noteq> net_trace (cd_network c) \<longrightarrow>
          (\<exists>loc. ls_upsert_record (cv_local env) table loc (cd_local c) = (Inr (), cd_local c')))"
    using assms(1)
  proof (cases rule: persist_cases)
    case (written config session j remote l result n)
    have "echo_first table (cd_network c) n"
      using dispatch_write_echo [of table "cd_network c" "cv_net env" config remote j op "sp_access_token session"]
        written(6) by simp
    then show ?thesis using settle_write_network [OF written(7)] written(5) by auto
  qed simp_all
  moreover have "echo_first table (cd_network c) (cd_network c2)
     \<and> (net_trace (cd_network c2) \<noteq> net_trace (cd_network c) \<longrightarrow>
          ls_mark_deleted (cv_local env) table i v (cd_local c) = (Inr (), cd_local c2))"
    using assms(2)
  proof (cases rule: delete_cases)
    case (marked config session l result n)
    have "echo_first table (cd_network c) n"
      using dispatch_delete_echo [of table "cd_network c" "cv_net env" config i v _ "sp_access_token session"]
        marked(4) by (metis snd_conv)
    then show ?thesis using settle_delete_network [OF marked(5)] marked(3) by auto
  qed simp_all
  ultimately show ?thesis by blast
qed

theorem local_then_echo_then_network_witness:
  "echo_first ''notes'' fresh_network (cd_network (snd (persist_change_with_op (notes_env (Inl ''offline'')) ''notes''
     a_note None notes_coordinator)))"
proof -
  obtain r c' where p: "persist_change_with_op (notes_env (Inl ''offline'')) ''notes'' a_note None notes_coordinator = (r, c')"
    by (metis surj_pair)
  obtain r2 c2 where d: "coordinator_delete (notes_env (Inl ''offline'')) ''notes'' ''n0'' 5 notes_coordinator = (r2, c2)"
    by (metis surj_pair)
  have "cd_network notes_coordinator = fresh_network" by (simp add: notes_coordinator_def)
  then show ?thesis using local_then_echo_then_network [OF p d] p by simp
qed

section \<open>Encryption across devices\<close>

definition unseal_value :: "crypto \<Rightarrow> Encryption \<Rightarrow> uuid \<Rightarrow> json \<Rightarrow> json" where
  "unseal_value cr enc u v =
     (case v of
        JString t \<Rightarrow> (if is_encrypted t then (case decrypt cr enc t u of Inl _ \<Rightarrow> v | Inr p \<Rightarrow> JString p) else v)
      | _ \<Rightarrow> v)"

definition readable :: "crypto \<Rightarrow> Encryption \<Rightarrow> uuid \<Rightarrow> json option \<Rightarrow> bool" where
  "readable cr enc u v \<longleftrightarrow>
     (\<forall>t. v = Some (JString t) \<longrightarrow> is_encrypted t \<longrightarrow> (\<exists>p. decrypt cr enc t u = Inr p \<and> \<not> is_encrypted p))"

lemma decrypt_cols_get:
  assumes "\<And>k. k \<in> encrypted_keys cols \<Longrightarrow> readable cr enc u (obj_get m k)"
  shows "\<exists>plain. decrypt_cols cr enc u cols m = Inr plain \<and>
     (\<forall>k. obj_get plain k = (if k \<in> encrypted_keys cols then map_option (unseal_value cr enc u) (obj_get m k)
                             else obj_get m k))"
  using assms
proof (induction cols arbitrary: m)
  case Nil
  then show ?case by (simp add: encrypted_keys_def)
next
  case (Cons col cols)
  let ?key = "effective_remote_name col"
  have keys: "encrypted_keys (col # cols) = (if encrypted col then insert ?key (encrypted_keys cols) else encrypted_keys cols)"
    by (auto simp: encrypted_keys_def)
  show ?case
  proof (cases "encrypted col \<and> (\<exists>t. obj_get m ?key = Some (JString t) \<and> is_encrypted t)")
    case True
    then obtain t where t: "encrypted col" "obj_get m ?key = Some (JString t)" "is_encrypted t" by auto
    then obtain p where p: "decrypt cr enc t u = Inr p" "\<not> is_encrypted p"
      using Cons.prems [of ?key] by (auto simp: keys readable_def)
    let ?m = "obj_insert ?key (JString p) m"
    have "readable cr enc u (obj_get ?m k)" if "k \<in> encrypted_keys cols" for k
      using Cons.prems [of k] that p(2) by (auto simp: keys readable_def)
    then obtain plain where plain: "decrypt_cols cr enc u cols ?m = Inr plain"
      "\<And>k. obj_get plain k = (if k \<in> encrypted_keys cols then map_option (unseal_value cr enc u) (obj_get ?m k) else obj_get ?m k)"
      using Cons.IH [of ?m] by auto
    have "unseal_value cr enc u (JString t) = JString p" "unseal_value cr enc u (JString p) = JString p"
      using t p by (simp_all add: unseal_value_def)
    then show ?thesis using plain t p by (simp add: keys Let_def)
  next
    case False
    then have skip: "decrypt_cols cr enc u (col # cols) m = decrypt_cols cr enc u cols m"
      by (auto simp: Let_def split: option.split json.split)
    have same: "map_option (unseal_value cr enc u) (obj_get m ?key) = obj_get m ?key" if "encrypted col"
      using False that by (cases "obj_get m ?key") (auto simp: unseal_value_def split: json.split)
    have "\<And>k. k \<in> encrypted_keys cols \<Longrightarrow> readable cr enc u (obj_get m k)" using Cons.prems by (simp add: keys)
    from Cons.IH [OF this] obtain plain where plain: "decrypt_cols cr enc u cols m = Inr plain"
      "\<And>k. obj_get plain k = (if k \<in> encrypted_keys cols then map_option (unseal_value cr enc u) (obj_get m k) else obj_get m k)"
      by blast
    have "obj_get plain ?key = map_option (unseal_value cr enc u) (obj_get m ?key)" if "encrypted col"
      using plain(2) [of ?key] same [OF that] by simp
    then show ?thesis using plain unfolding skip by (simp add: keys)
  qed
qed

lemma unseal_seal:
  assumes "crypto_ok (ce_crypto env)" and "length (ce_nonce env k) = 12"
    and "\<And>s. v = JString s \<Longrightarrow> str_ok s \<and> \<not> is_encrypted s"
  shows "readable (ce_crypto env) enc u (Some (seal_value env enc u k v))
     \<and> unseal_value (ce_crypto env) enc u (seal_value env enc u k v) = v"
proof (cases v)
  case (JString s)
  then have s: "str_ok s" "\<not> is_encrypted s" using assms(3) by auto
  show ?thesis
  proof (cases "encrypt (ce_crypto env) enc (ce_nonce env k) s u")
    case (Inl e)
    then show ?thesis using s JString by (simp add: seal_value_def unseal_value_def readable_def)
  next
    case (Inr ct)
    have "decrypt (ce_crypto env) enc ct u = Inr s"
      by (rule decrypt_encrypt [OF assms(1) s(1) assms(2) Inr])
    then show ?thesis using s JString Inr encrypt_is_encrypted [OF Inr]
      by (auto simp: seal_value_def unseal_value_def readable_def decrypt_def)
  qed
qed (simp_all add: seal_value_def unseal_value_def readable_def)

text \<open>
  What one device writes, another reads. A row serialised for the remote decodes, for the same
  user and secret, to the record that was written: every field but the injected user column comes
  back, encrypted or not, provided the strings under encrypted columns are text and do not
  themselves begin like ciphertext.
\<close>

theorem decode_inverts_serialize:
  assumes "cd_encryption c = Some enc" and "config_for_table (cd_registry c) table = Some config"
    and "crypto_ok (ce_crypto (cv_cipher env))" and "\<And>k. length (ce_nonce (cv_cipher env) k) = 12"
    and "serialize_for_remote (cv_cipher env) (Some enc) uid config rec = Inr remote"
    and "\<And>k s. k \<in> encrypted_keys (columns config) \<Longrightarrow> obj_get rec k = Some (JString s) \<Longrightarrow> str_ok s \<and> \<not> is_encrypted s"
    and "\<And>uc. injected_user_id_column config = Some uc \<Longrightarrow> uc \<notin> encrypted_keys (columns config)"
  shows "\<exists>plain. decode_remote_record env table remote uid c = Inr plain
     \<and> (\<forall>k. injected_user_id_column config \<noteq> Some k \<longrightarrow> obj_get plain k = obj_get rec k)"
proof -
  let ?cr = "ce_crypto (cv_cipher env)"
  let ?u = "key_user_uuid ?cr uid"
  have get: "obj_get remote k = map_option (seal_value (cv_cipher env) enc ?u k) (obj_get rec k)"
    if "k \<in> encrypted_keys (columns config)" for k
    using serialize_get [OF assms(5), of k] assms(7) that by auto
  have inv: "readable ?cr enc ?u (obj_get remote k)
      \<and> map_option (unseal_value ?cr enc ?u) (obj_get remote k) = obj_get rec k"
    if "k \<in> encrypted_keys (columns config)" for k
  proof (cases "obj_get rec k")
    case None
    then show ?thesis using get [OF that] by (simp add: readable_def)
  next
    case (Some v)
    then have "\<And>s. v = JString s \<Longrightarrow> str_ok s \<and> \<not> is_encrypted s" using assms(6) [OF that] by simp
    from unseal_seal [where k = k and enc = enc and u = ?u, OF assms(3,4) this] show ?thesis using get [OF that] Some by simp
  qed
  obtain plain where plain: "decrypt_cols ?cr enc ?u (columns config) remote = Inr plain"
    "\<And>k. obj_get plain k = (if k \<in> encrypted_keys (columns config)
        then map_option (unseal_value ?cr enc ?u) (obj_get remote k) else obj_get remote k)"
    using decrypt_cols_get [of "columns config" ?cr enc ?u remote] inv by auto
  have "obj_get plain k = obj_get rec k" if "injected_user_id_column config \<noteq> Some k" for k
    using plain(2) [of k] inv [of k] serialize_get [OF assms(5), of k] that by auto
  then show ?thesis
    using plain(1) by (simp add: decode_remote_record_def assms(1,2) decrypt_record_columns_def)
qed

theorem decode_inverts_serialize_witness:
  "\<exists>remote plain. serialize_for_remote toy_env (Some toy_encryption) ''u1'' notes_config a_note = Inr remote
     \<and> decode_remote_record (notes_env (Inl ''offline'')) ''notes'' remote ''u1''
         (notes_coordinator\<lparr>cd_encryption := Some toy_encryption\<rparr>) = Inr plain
     \<and> obj_get plain ''body'' = Some (JString ''hi'')"
proof -
  let ?c = "notes_coordinator\<lparr>cd_encryption := Some toy_encryption\<rparr>" and ?env = "notes_env (Inl ''offline'')"
  obtain remote where remote: "serialize_for_remote toy_env (Some toy_encryption) ''u1'' notes_config a_note = Inr remote"
    by (simp add: serialize_for_remote_def notes_config_defs effective_remote_name_def Let_def a_note_def
        encrypt_def derive_key_def toy_env_def toy_crypto_def is_encrypted_def starts_with_def
        STRING_ENCRYPTION_PREFIX_def)
  have cfg: "config_for_table (cd_registry ?c) ''notes'' = Some notes_config" using notes_lookup by simp
  have env: "cv_cipher ?env = toy_env" by (simp add: notes_env_def)
  have keys: "encrypted_keys (columns notes_config) = {''body''}"
    by (simp add: encrypted_keys_def notes_config_defs effective_remote_name_def)
  have inj: "injected_user_id_column notes_config = Some ''user_id''"
    by (simp add: injected_user_id_column_def notes_config_defs)
  have "\<exists>plain. decode_remote_record ?env ''notes'' remote ''u1'' ?c = Inr plain
     \<and> (\<forall>k. injected_user_id_column notes_config \<noteq> Some k \<longrightarrow> obj_get plain k = obj_get a_note k)"
    by (rule decode_inverts_serialize [where enc = toy_encryption and config = notes_config])
      (use remote cfg in \<open>auto simp: env keys inj a_note_def str_ok_def as_bytes_def is_encrypted_def starts_with_def
        STRING_ENCRYPTION_PREFIX_def\<close>)
  then show ?thesis using remote by (auto simp: inj a_note_def)
qed

end
