(* ===== verification/Kvs.thy ===== *)
theory Kvs
  imports Sync
begin

text \<open>
  \<open>crates/polybase/src/kvs.rs\<close>: the typed key-value store over the coordinator. Values are
  given as JSON (what \<open>serde_json::to_value\<close> made of them) and the deserialiser of the
  caller's type is an argument of \<open>kvs_get\<close>.
\<close>

record KvsChange =
  kc_namespace :: string
  kc_key :: string
  kc_deleted :: bool

definition kvs_entity_config :: EntityConfig where
  "kvs_entity_config =
     with_conflict_target ''id,user_id''
       (with_include_user_id True
          (with_user_id_column ''user_id''
             (with_columns
                [column_synced ''id'' ''id'' ''id'' ''TEXT'' ''string'' False,
                 column_synced ''namespace'' ''namespace'' ''namespace'' ''TEXT'' ''string'' False,
                 column_synced ''key'' ''key'' ''key'' ''TEXT'' ''string'' False,
                 column_synced ''value'' ''value'' ''value'' ''TEXT'' ''jsonb'' False,
                 column_synced ''version'' ''version'' ''version'' ''INTEGER'' ''integer'' False,
                 column_synced ''deleted'' ''deleted'' ''deleted'' ''INTEGER'' ''boolean'' False,
                 column_synced ''updated_at'' ''updated_at'' ''updated_at'' ''TEXT'' ''string'' False]
                (entity_synced KVS_TABLE ''Kvs''))))"

definition kvs_register :: "Registry \<Rightarrow> Registry option" where
  "kvs_register r = (if is_registered_table r KVS_TABLE then Some r else register kvs_entity_config r)"

definition row_deleted :: "Record \<Rightarrow> bool" where
  "row_deleted row =
     unwrap_or False
       (map_option (\<lambda>v. case as_bool v of Some b \<Rightarrow> b | None \<Rightarrow> unwrap_or 0 (as_i64 v) \<noteq> 0)
          (obj_get row ''deleted''))"

text \<open>\<open>serde_json::from_str(text).unwrap_or(Value::String(text))\<close>.\<close>

definition text_value :: "json_codec \<Rightarrow> string \<Rightarrow> json" where
  "text_value codec t = (case parse codec t of Inr w \<Rightarrow> w | Inl _ \<Rightarrow> JString t)"

definition kvs_get ::
  "('s, 'q) coord_env \<Rightarrow> (json \<Rightarrow> string + 'a) \<Rightarrow> string \<Rightarrow> string \<Rightarrow> ('s, 'q, 'a option) coord_call" where
  "kvs_get env decode namespace key c =
     (case read_record env KVS_TABLE (encode_id namespace key) c of
        (Inl e, c') \<Rightarrow> (Inl e, c')
      | (Inr None, c') \<Rightarrow> (Inr None, c')
      | (Inr (Some row), c') \<Rightarrow>
          (if row_deleted row then (Inr None, c')
           else
             (case obj_get row ''value'' of
                None \<Rightarrow> (Inr None, c')
              | Some raw \<Rightarrow>
                  (case decode (case raw of
                                  JString t \<Rightarrow> text_value (ne_codec (cv_net env)) t
                                | other \<Rightarrow> other) of
                     Inl e \<Rightarrow> (Inl (Poly_Json e), c')
                   | Inr typed \<Rightarrow> (Inr (Some typed), c')))))"

definition row_version_number :: "Record \<Rightarrow> i64" where
  "row_version_number row =
     unwrap_or 0 (Option.bind (obj_get row ''version'')
       (\<lambda>v. or_else (as_i64 v) (Option.bind (as_str v) parse_i64)))"

definition next_version_for :: "('s, 'q) coord_env \<Rightarrow> string \<Rightarrow> ('s, 'q, i64) coord_call" where
  "next_version_for env i c =
     (case read_record env KVS_TABLE i c of
        (Inl e, c') \<Rightarrow> (Inl e, c')
      | (Inr None, c') \<Rightarrow> (Inr 1, c')
      | (Inr (Some row), c') \<Rightarrow> (Inr (row_version_number row + 1), c'))"

definition kvs_record :: "clock \<Rightarrow> string \<Rightarrow> string \<Rightarrow> json \<Rightarrow> i64 \<Rightarrow> obj" where
  "kvs_record clk namespace key v version =
     obj_of_list
       [(''id'', JString (encode_id namespace key)), (''namespace'', JString namespace), (''key'', JString key),
        (''value'', v), (''version'', json_of_i64 version), (''deleted'', JBool False),
        (''updated_at'', JString (now_rfc3339 clk))]"

definition kvs_set :: "('s, 'q) coord_env \<Rightarrow> string \<Rightarrow> string \<Rightarrow> json \<Rightarrow> ('s, 'q, unit) coord_call" where
  "kvs_set env namespace key v c =
     (case next_version_for env (encode_id namespace key) c of
        (Inl e, c') \<Rightarrow> (Inl e, c')
      | (Inr next_version, c') \<Rightarrow>
          persist_change env KVS_TABLE (kvs_record (cv_clock env) namespace key v next_version) c')"

definition kvs_delete :: "('s, 'q) coord_env \<Rightarrow> string \<Rightarrow> string \<Rightarrow> ('s, 'q, unit) coord_call" where
  "kvs_delete env namespace key c =
     (case next_version_for env (encode_id namespace key) c of
        (Inl e, c') \<Rightarrow> (Inl e, c')
      | (Inr next_version, c') \<Rightarrow>
          coordinator_delete env KVS_TABLE (encode_id namespace key) next_version c')"

text \<open>What a subscriber that keeps up receives.\<close>

fun kvs_change_of :: "PolyEvent \<Rightarrow> KvsChange option" where
  "kvs_change_of (KvsChanged namespace key deleted) =
     Some \<lparr>kc_namespace = namespace, kc_key = key, kc_deleted = deleted\<rparr>"
| "kvs_change_of _ = None"

definition kvs_changes :: "EventBus \<Rightarrow> KvsChange list" where
  "kvs_changes events = List.map_filter kvs_change_of events"

section \<open>Ids\<close>

lemma split_once_None: "split_once s pat = None \<Longrightarrow> pat \<noteq> [] \<Longrightarrow> \<not> contains_sub s pat"
  by (induction s pat rule: split_once.induct) (auto split: if_splits)

lemma split_prefix:
  "split_once (u @ ''::'' @ v) ''::'' = Some (u, v) \<longleftrightarrow> \<not> contains_sub u ''::'' \<and> \<not> ends_with u '':''"
proof (induction u)
  case Nil
  then show ?case by (simp add: starts_with_def ends_with_def)
next
  case (Cons c u)
  show ?case
  proof (cases u)
    case Nil
    then show ?thesis by (auto simp: starts_with_def ends_with_def)
  next
    case (Cons d w)
    have sw: "starts_with (u @ x) '':'' \<longleftrightarrow> starts_with u '':''" for x
      by (simp add: Cons starts_with_def)
    have ew: "ends_with (c # u) '':'' \<longleftrightarrow> ends_with u '':''"
      by (cases "rev w") (simp_all add: Cons ends_with_def starts_with_def)
    show ?thesis using Cons.IH by (auto simp: sw ew map_option_case split: option.splits)
  qed
qed

text \<open>
  Which keys survive their id. Decoding the id of a namespace and a key gives them back exactly
  when the namespace contains no \<open>::\<close> and does not end in a colon; the key may be anything.
\<close>

theorem kvs_id_roundtrip:
  "decode_id (encode_id namespace key) = Some (namespace, key)
     \<longleftrightarrow> \<not> contains_sub namespace ''::'' \<and> \<not> ends_with namespace '':''"
  using split_prefix [of namespace key] by (simp add: decode_id_def encode_id_def)

section \<open>Reading and writing through the SQLite mirror\<close>

lemma read_record_cases:
  assumes "sqlite_wired senv env" and "mirror_ok senv (cd_local c)" and "read_record env t i c = (r, c')"
  shows "\<And>row. r = Inr row \<Longrightarrow> row = store_view senv (cd_local c) t i"
    and "mirror_ok senv (cd_local c')" and "store_view senv (cd_local c') = store_view senv (cd_local c)"
    and "store_stored senv (cd_local c') = store_stored senv (cd_local c)"
    and "c' = c\<lparr>cd_local := cd_local c'\<rparr>"
proof -
  obtain q l where l: "store_read_record senv t i (cd_local c) = (q, l)"
    by (cases "store_read_record senv t i (cd_local c)")
  then have c': "r = q" "c' = c\<lparr>cd_local := l\<rparr>"
    using assms(1,3) by (simp_all add: read_record_def sqlite_wired_def wired_def store_ops)
  note fr = store_read_frame [OF assms(2) l]
  show "\<And>row. r = Inr row \<Longrightarrow> row = store_view senv (cd_local c) t i"
    using store_read_ok [of senv t i "cd_local c"] l c' by simp
  show "mirror_ok senv (cd_local c')" "store_view senv (cd_local c') = store_view senv (cd_local c)"
    "store_stored senv (cd_local c') = store_stored senv (cd_local c)" "c' = c\<lparr>cd_local := cd_local c'\<rparr>"
    using fr c' by simp_all
qed

definition next_version_of :: "Record option \<Rightarrow> i64" where
  "next_version_of row = (case row of None \<Rightarrow> 1 | Some r \<Rightarrow> row_version_number r + 1)"

lemma next_version_view:
  assumes "sqlite_wired senv env" and "mirror_ok senv (cd_local c)" and "next_version_for env i c = (Inr n, c')"
  shows "n = next_version_of (store_view senv (cd_local c) KVS_TABLE i)"
    and "mirror_ok senv (cd_local c')" and "store_view senv (cd_local c') = store_view senv (cd_local c)"
    and "store_stored senv (cd_local c') = store_stored senv (cd_local c)" and "c' = c\<lparr>cd_local := cd_local c'\<rparr>"
proof -
  obtain r c1 where r: "read_record env KVS_TABLE i c = (r, c1)" by (cases "read_record env KVS_TABLE i c")
  then obtain row where row: "r = Inr row" "c1 = c'" "n = next_version_of row"
    using assms(3) by (auto simp: next_version_for_def next_version_of_def split: sum.splits option.splits)
  note rd = read_record_cases [OF assms(1,2) r]
  show "n = next_version_of (store_view senv (cd_local c) KVS_TABLE i)" using rd(1) row by simp
  show "mirror_ok senv (cd_local c')" "store_view senv (cd_local c') = store_view senv (cd_local c)"
    "store_stored senv (cd_local c') = store_stored senv (cd_local c)" "c' = c\<lparr>cd_local := cd_local c'\<rparr>"
    using rd(2-5) row(2) by simp_all
qed

text \<open>The mirror has the \<open>kvs\<close> table of the bundled migration, the registry its configuration.\<close>

definition kvs_ready :: "sqlite_env \<Rightarrow> (sqlite_db DbManager, SqliteQueue) coord_env \<Rightarrow> sqlite_coordinator \<Rightarrow> bool" where
  "kvs_ready senv env c \<longleftrightarrow>
     sqlite_wired senv env \<and> mirror_ok senv (cd_local c) \<and> sqlite_ok (cd_queue c)
     \<and> config_for_table (cd_registry c) KVS_TABLE = Some kvs_entity_config
     \<and> (\<exists>t. store_table (cd_local c) KVS_TABLE = Some t
          \<and> column_type t ''value'' = ''TEXT'' \<and> column_type t ''version'' = ''INTEGER''
          \<and> column_type t ''deleted'' = ''INTEGER'')"

lemmas kvs_config_defs = kvs_entity_config_def with_conflict_target_def with_include_user_id_def
  with_user_id_column_def with_columns_def column_synced_def entity_synced_def

lemma kvs_id_mapped: "id_mapped kvs_entity_config"
  by (simp add: id_mapped_def mapping_ok_def kvs_config_defs remote_local_def local_remote_def
      List.map_filter_simps encrypted_keys_def injected_user_id_column_def effective_remote_name_def)

lemma kvs_no_encryption: "encrypted_keys (columns kvs_entity_config) = {}"
  by (simp add: kvs_config_defs encrypted_keys_def)

lemma kvs_serialized:
  assumes "serialize_for_remote cenv encr uid kvs_entity_config rec = Inr remote" and "k \<noteq> ''user_id''"
  shows "obj_get remote k = obj_get rec k"
proof (cases encr)
  case None
  then show ?thesis using assms
    by (auto simp: serialize_for_remote_def injected_user_id_column_def kvs_config_defs)
next
  case (Some enc)
  then show ?thesis using serialize_get [of cenv enc uid kvs_entity_config rec remote k] assms
    by (simp add: kvs_no_encryption) (simp add: injected_user_id_column_def kvs_config_defs)
qed

lemma kvs_local:
  assumes "k \<in> {''id'', ''namespace'', ''key'', ''value'', ''version'', ''deleted'', ''updated_at''}"
  shows "obj_get (map_remote_to_local kvs_entity_config r) k = obj_get r k"
proof -
  have ok: "mapping_ok kvs_entity_config" using kvs_id_mapped by (simp add: id_mapped_def)
  have "(Some k, k) \<in> set (map (\<lambda>col. (remote_name col, local_name col)) (columns kvs_entity_config))"
    using assms by (elim insertE emptyE) (simp_all add: kvs_config_defs)
  then obtain col where col: "col \<in> set (columns kvs_entity_config)" "remote_name col = Some k" "local_name col = k"
    by (auto simp: set_map)
  from map_remote_to_local_get [OF ok col(1,2), of r] col(3) show ?thesis by simp
qed

lemma kvs_stored:
  assumes "kvs_ready senv env c"
  shows "store_stored senv (cd_local c) KVS_TABLE ''version'' (json_of_i64 n) = json_of_i64 n"
    and "store_stored senv (cd_local c) KVS_TABLE ''deleted'' (JBool False) = JInt 0"
    and "store_stored senv (cd_local c) KVS_TABLE ''deleted'' (JInt 1) = JInt 1"
    and "store_stored senv (cd_local c) KVS_TABLE ''value'' v = value_of_column senv (se_affinity senv ''TEXT'' (bind_json_value senv v))"
proof -
  obtain t where t: "store_table (cd_local c) KVS_TABLE = Some t" "column_type t ''value'' = ''TEXT''"
    "column_type t ''version'' = ''INTEGER''" "column_type t ''deleted'' = ''INTEGER''"
    and aff: "affinity_ok senv"
    using assms by (auto simp: kvs_ready_def mirror_ok_def)
  note s = store_stored_table [OF t(1), of senv] column_value_def t(2-4)
  have aff': "se_affinity senv ''INTEGER'' (SqlInteger k) = SqlInteger k" for k using aff by (simp add: affinity_ok_def)
  show "store_stored senv (cd_local c) KVS_TABLE ''version'' (json_of_i64 n) = json_of_i64 n"
    "store_stored senv (cd_local c) KVS_TABLE ''deleted'' (JBool False) = JInt 0"
    "store_stored senv (cd_local c) KVS_TABLE ''deleted'' (JInt 1) = JInt 1"
    "store_stored senv (cd_local c) KVS_TABLE ''value'' v = value_of_column senv (se_affinity senv ''TEXT'' (bind_json_value senv v))"
    using sint_i64_bounds [of n]
    by (simp_all add: s bind_json_value_def json_of_i64_def aff' value_of_column_def)
qed

lemma kvs_record_get:
  "obj_get (kvs_record clk ns k v n) ''id'' = Some (JString (encode_id ns k))"
  "obj_get (kvs_record clk ns k v n) ''value'' = Some v"
  "obj_get (kvs_record clk ns k v n) ''version'' = Some (json_of_i64 n)"
  "obj_get (kvs_record clk ns k v n) ''deleted'' = Some (JBool False)"
  "obj_get (kvs_record clk ns k v n) ''namespace'' = Some (JString ns)"
  "obj_get (kvs_record clk ns k v n) ''key'' = Some (JString k)"
  by (simp_all add: kvs_record_def obj_of_list_def)

lemma kvs_record_storable: "json_storable 123 v \<Longrightarrow> record_ok (kvs_record clk ns k v n)"
  by (simp add: kvs_record_def obj_of_list_def obj_ok_def)

text \<open>What the mirror holds after an acknowledged \<open>set\<close>.\<close>

lemma kvs_set_row:
  assumes "kvs_ready senv env c" and "json_storable 123 v" and "kvs_set env ns k v c = (Inr (), c')"
  obtains row where "store_view senv (cd_local c') KVS_TABLE (encode_id ns k) = Some row"
    "obj_get row ''version'' = Some (json_of_i64 (next_version_of (store_view senv (cd_local c) KVS_TABLE (encode_id ns k))))"
    "obj_get row ''deleted'' = Some (JInt 0)"
    "obj_get row ''value'' = Some (value_of_column senv (se_affinity senv ''TEXT'' (bind_json_value senv v)))"
    "mirror_ok senv (cd_local c')"
proof -
  let ?i = "encode_id ns k"
  have w: "sqlite_wired senv env" and m: "mirror_ok senv (cd_local c)" and q: "sqlite_ok (cd_queue c)"
    and cfg: "config_for_table (cd_registry c) KVS_TABLE = Some kvs_entity_config"
    using assms(1) by (simp_all add: kvs_ready_def)
  obtain n c1 where n: "next_version_for env ?i c = (Inr n, c1)"
    using assms(3) by (auto simp: kvs_set_def split: prod.splits sum.splits)
  note nv = next_version_view [OF w m n]
  have set: "persist_change_with_op env KVS_TABLE (kvs_record (cv_clock env) ns k v n) None c1 = (Inr (), c')"
    using assms(3) n by (simp add: kvs_set_def persist_change_def)
  have c1: "cd_registry c1 = cd_registry c" "cd_queue c1 = cd_queue c" by (subst nv(5), simp)+
  have im: "\<And>config. config_for_table (cd_registry c1) KVS_TABLE = Some config \<Longrightarrow> id_mapped config"
    using cfg c1 kvs_id_mapped by simp
  have q1: "sqlite_ok (cd_queue c1)" using q c1 by simp
  let ?rec = "kvs_record (cv_clock env) ns k v n"
  have "\<exists>config session i remote row.
      config_for_table (cd_registry c1) KVS_TABLE = Some config \<and> cd_session c1 = Some session
      \<and> get_str ?rec ''id'' = Some i
      \<and> serialize_for_remote (cv_cipher env) (cd_encryption c1) (sp_user_id session) config ?rec = Inr remote
      \<and> store_view senv (cd_local c') KVS_TABLE i = Some row
      \<and> written (store_stored senv (cd_local c1) KVS_TABLE) (map_remote_to_local config remote) row
      \<and> write_outcome
          (server_answer (cv_net env) (write_request (cv_net env) config KVS_TABLE remote None (sp_access_token session)) (cd_network c1))
          (fst (dispatch_write (cv_net env) config KVS_TABLE remote i None (sp_access_token session) (cd_network c1)))
          (queued_write env KVS_TABLE i (Write (JObject remote))) (sqlite_view (cd_queue c1)) (sqlite_view (cd_queue c'))"
    by (rule sqlite_sync.persist_ok [OF w [unfolded sqlite_wired_def] nv(2) q1 im kvs_record_storable [OF assms(2)] set])
  then obtain config i remote row and session :: SessionPayload where p: "config_for_table (cd_registry c1) KVS_TABLE = Some config"
      "get_str ?rec ''id'' = Some i"
      "serialize_for_remote (cv_cipher env) (cd_encryption c1) (sp_user_id session) config ?rec = Inr remote"
      "store_view senv (cd_local c') KVS_TABLE i = Some row"
      "written (store_stored senv (cd_local c1) KVS_TABLE) (map_remote_to_local config remote) row"
    by blast
  have i: "i = ?i" using p(2) by (simp add: get_str_def kvs_record_get)
  have config: "config = kvs_entity_config" using p(1) cfg c1 by simp
  have val: "obj_get row x = Some (store_stored senv (cd_local c) KVS_TABLE x y)"
    if rec: "obj_get ?rec x = Some y" and x: "x \<in> {''value'', ''version'', ''deleted''}" for x y
  proof -
    have "x \<noteq> ''user_id''" "x \<in> {''id'', ''namespace'', ''key'', ''value'', ''version'', ''deleted'', ''updated_at''}"
      using x by auto
    then have "obj_get (map_remote_to_local config remote) x = Some y"
      using kvs_local [of x remote] kvs_serialized [OF p(3) [unfolded config], of x] rec by (simp add: config)
    then show ?thesis using p(5) nv(4) by (simp add: written_def)
  qed
  have row: "obj_get row ''version'' = Some (json_of_i64 n)" "obj_get row ''deleted'' = Some (JInt 0)"
    "obj_get row ''value'' = Some (value_of_column senv (se_affinity senv ''TEXT'' (bind_json_value senv v)))"
    using val [OF kvs_record_get(3)] val [OF kvs_record_get(4)] val [OF kvs_record_get(2)]
    by (simp_all add: kvs_stored [OF assms(1)])
  have ok: "mirror_ok senv (cd_local c')"
    by (rule sqlite_sync.persist_mirror_ok [OF w [unfolded sqlite_wired_def] nv(2) im set])
  show ?thesis by (rule that [OF _ _ row(2,3) ok]) (use p(4) i nv(1) row(1) in simp_all)
qed

lemma row_version_json: "obj_get row ''version'' = Some (json_of_i64 n) \<Longrightarrow> row_version_number row = n"
  using as_i64_json_of_i64 [of n] by (simp add: row_version_number_def)

text \<open>
  Versions go up by one. After an acknowledged \<open>set\<close> the next version of the key is one more
  than the version the \<open>set\<close> wrote (in the wrapping arithmetic of a release build).
\<close>

theorem kvs_set_bumps_version:
  assumes "kvs_ready senv env c" and "json_storable 123 v" and "kvs_set env ns k v c = (Inr (), c')"
    and "next_version_for env (encode_id ns k) c = (Inr n, c1)" and "next_version_for env (encode_id ns k) c' = (Inr m, c2)"
  shows "m = n + 1"
proof -
  have w: "sqlite_wired senv env" and ok: "mirror_ok senv (cd_local c)" using assms(1) by (simp_all add: kvs_ready_def)
  obtain row where row: "store_view senv (cd_local c') KVS_TABLE (encode_id ns k) = Some row"
    "obj_get row ''version'' = Some (json_of_i64 (next_version_of (store_view senv (cd_local c) KVS_TABLE (encode_id ns k))))"
    "mirror_ok senv (cd_local c')"
    using kvs_set_row [OF assms(1-3)] by blast
  show ?thesis
    using next_version_view(1) [OF w ok assms(4)] next_version_view(1) [OF w row(3) assms(5)] row(1) row_version_json [OF row(2)]
    by (simp add: next_version_of_def)
qed


fun text_storable :: "json \<Rightarrow> bool" where
  "text_storable (JInt n) \<longleftrightarrow> as_i64 (JInt n) \<noteq> None"
| "text_storable (JFloat f) \<longleftrightarrow> False"
| "text_storable v \<longleftrightarrow> json_storable 123 v"


lemma dec_bit [simp]: "dec_int 1 = ''1''" "dec_int 0 = ''0''"
  by code_simp+


lemma kvs_delete_row:
  assumes "kvs_ready senv env c" and "kvs_delete env ns k c = (Inr (), c')"
  shows "mirror_ok senv (cd_local c')"
    and "store_view senv (cd_local c') KVS_TABLE (encode_id ns k) = Some row \<Longrightarrow> obj_get row ''deleted'' = Some (JInt 1)"
proof -
  let ?i = "encode_id ns k"
  have w: "sqlite_wired senv env" and m: "mirror_ok senv (cd_local c)" using assms(1) by (simp_all add: kvs_ready_def)
  obtain n c1 where n: "next_version_for env ?i c = (Inr n, c1)"
    using assms(2) by (auto simp: kvs_delete_def split: prod.splits sum.splits)
  note nv = next_version_view [OF w m n]
  have del: "coordinator_delete env KVS_TABLE ?i n c1 = (Inr (), c')" using assms(2) n by (simp add: kvs_delete_def)
  have ops: "cv_local env = SqliteLocalStore senv" using w by (simp add: sqlite_wired_def wired_def)
  obtain l where l: "ls_mark_deleted (SqliteLocalStore senv) KVS_TABLE ?i n (cd_local c1) = (Inr (), l)" "cd_local c' = l"
    using del
  proof (cases rule: delete_cases)
    case (marked config session l result net)
    have "cd_local c' = l"
      using marked(5) by (cases rule: settle_delete_cases) (auto dest: enqueue_for_replay_frames)
    then show ?thesis using that marked(3) ops by simp
  qed simp_all
  show "mirror_ok senv (cd_local c')" using sqlite_mirror.mark_frame [OF nv(2) l(1)] l(2) by blast
  assume row: "store_view senv (cd_local c') KVS_TABLE ?i = Some row"
  then obtain old where old: "store_view senv (cd_local c1) KVS_TABLE ?i = Some old"
    using sqlite_mirror.mark_missing [OF nv(2) l(1)] l(2) by (cases "store_view senv (cd_local c1) KVS_TABLE ?i") auto
  from sqlite_mirror.mark_ok [OF nv(2) l(1) old] row l(2)
  have "written (store_stored senv (cd_local c1) KVS_TABLE) [(''deleted'', JInt 1), (''version'', json_of_i64 n)] row" by auto
  then have "obj_get row ''deleted'' = Some (store_stored senv (cd_local c1) KVS_TABLE ''deleted'' (JInt 1))"
    by (simp add: written_def)
  then show "obj_get row ''deleted'' = Some (JInt 1)" using kvs_stored(3) [OF assms(1)] nv(4) by simp
qed

text \<open>
  A deleted key reads as absent. After an acknowledged \<open>delete\<close>, a \<open>get\<close> whose read of
  the mirror succeeds returns nothing, whether or not the key had a row and whether or not the
  server was reached.
\<close>

theorem kvs_delete_get:
  assumes "kvs_ready senv env c" and "kvs_delete env ns k c = (Inr (), c')"
    and "read_record env KVS_TABLE (encode_id ns k) c' = (Inr found, c2)"
  shows "kvs_get env decode ns k c' = (Inr None, c2)"
proof -
  have w: "sqlite_wired senv env" using assms(1) by (simp add: kvs_ready_def)
  note row = kvs_delete_row [OF assms(1,2)]
  have "found = store_view senv (cd_local c') KVS_TABLE (encode_id ns k)"
    by (rule read_record_cases(1) [OF w row(1) assms(3)]) simp
  then show ?thesis using row(2) assms(3)
    by (cases "store_view senv (cd_local c') KVS_TABLE (encode_id ns k)") (simp_all add: kvs_get_def row_deleted_def)
qed

section \<open>Notifications\<close>

lemma kvs_changes_append: "kvs_changes (es @ [e]) = kvs_changes es @ (case kvs_change_of e of None \<Rightarrow> [] | Some x \<Rightarrow> [x])"
  by (simp add: kvs_changes_def List.map_filter_def split: option.split)

text \<open>Queueing a write announces the depth, never a key.\<close>

lemma enqueue_for_replay_kvs:
  "enqueue_for_replay env op c = (r, c') \<Longrightarrow> kvs_changes (cd_events c') = kvs_changes (cd_events c)"
  by (auto simp: enqueue_for_replay_def kvs_changes_append split: sum.splits prod.splits)

lemma next_version_frames:
  "next_version_for env i c = (r, c1) \<Longrightarrow> \<exists>l. c1 = c\<lparr>cd_local := l\<rparr>"
  by (auto simp: next_version_for_def read_record_def split: prod.splits sum.splits option.splits)

lemma kvs_set_announces:
  assumes "config_for_table (cd_registry c) KVS_TABLE = Some kvs_entity_config" and "kvs_set env ns k v c = (Inr (), c')"
  shows "kvs_changes (cd_events c') = kvs_changes (cd_events c) @ [\<lparr>kc_namespace = ns, kc_key = k, kc_deleted = False\<rparr>]"
proof -
  obtain n c1 where n: "next_version_for env (encode_id ns k) c = (Inr n, c1)"
    using assms(2) by (auto simp: kvs_set_def split: prod.splits sum.splits)
  then obtain l1 where c1: "c1 = c\<lparr>cd_local := l1\<rparr>" using next_version_frames by blast
  let ?rec = "kvs_record (cv_clock env) ns k v n"
  have "persist_change_with_op env KVS_TABLE ?rec None c1 = (Inr (), c')"
    using assms(2) n by (simp add: kvs_set_def persist_change_def)
  then show ?thesis
  proof (cases rule: persist_cases)
    case (written config session i remote l result net)
    have "config = kvs_entity_config" using written(1) assms(1) c1 by simp
    then have "get_str remote ''namespace'' = Some ns" "get_str remote ''key'' = Some k"
      using kvs_serialized [of "cv_cipher env" "cd_encryption c1" "sp_user_id session" ?rec remote] written(4)
      by (simp_all add: get_str_def kvs_record_get)
    then have notice: "kvs_notice KVS_TABLE remote x = cd_publish (KvsChanged ns k False) x" for x :: "('a, 'b) Coordinator"
      by (simp add: kvs_notice_def publish_kvs_event_def)
    from written(7) show ?thesis
    proof (cases rule: settle_write_cases)
      case settled
      then show ?thesis using c1 by (simp add: notice kvs_changes_append)
    next
      case (queued err c2)
      then show ?thesis using c1 enqueue_for_replay_kvs [OF queued(4)] by (simp add: notice kvs_changes_append)
    qed simp_all
  qed simp_all
qed

lemma kvs_queued_delete_silent:
  assumes "kvs_delete env ns k c = (Inr (), c')" and "cd_queue c' \<noteq> cd_queue c"
  shows "kvs_changes (cd_events c') = kvs_changes (cd_events c)"
proof -
  obtain n c1 where n: "next_version_for env (encode_id ns k) c = (Inr n, c1)"
    using assms(1) by (auto simp: kvs_delete_def split: prod.splits sum.splits)
  then obtain l1 where c1: "c1 = c\<lparr>cd_local := l1\<rparr>" using next_version_frames by blast
  have "coordinator_delete env KVS_TABLE (encode_id ns k) n c1 = (Inr (), c')"
    using assms(1) n by (simp add: kvs_delete_def)
  then show ?thesis
  proof (cases rule: delete_cases)
    case (marked config session l result net)
    from marked(5) show ?thesis
    proof (cases rule: settle_delete_cases)
      case settled
      then show ?thesis using assms(2) c1 by simp
    next
      case (queued err)
      then show ?thesis using enqueue_for_replay_kvs [OF queued(3)] c1 by simp
    qed simp_all
  qed simp_all
qed

section \<open>A small installation\<close>

definition kvs_coordinator :: sqlite_coordinator where
  "kvs_coordinator = notes_coordinator
     \<lparr>cd_registry := registry_new\<lparr>by_table := [(KVS_TABLE, kvs_entity_config)]\<rparr>, cd_local := kvs_manager\<rparr>"

lemma kvs_installation: "kvs_ready toy_sqlite (notes_env answer) kvs_coordinator"
  using notes_wired [of answer] kvs_manager_ok notes_queue_ok
  by (simp add: kvs_ready_def kvs_coordinator_def config_for_table_def)
     (simp add: store_table_def active_db_def kvs_manager_def open_db_def kvs_migration_def kvs_table_def KVS_TABLE_def column_type_def)

definition kvs_sent :: obj where
  "kvs_sent = [(''deleted'', JBool False), (''id'', JString ''a::b''), (''key'', JString ''b''), (''namespace'', JString ''a''),
     (''updated_at'', JString ''now''), (''user_id'', JString ''u1''), (''value'', JObject []), (''version'', JInt 1)]"

lemma kvs_sent: "serialize_for_remote toy_env None ''u1'' kvs_entity_config (kvs_record (cv_clock (notes_env answer)) ''a'' ''b'' (JObject []) 1) = Inr kvs_sent"
  by (simp add: serialize_for_remote_def kvs_config_defs injected_user_id_column_def kvs_record_def obj_of_list_def notes_env_def kvs_sent_def encode_id_def json_of_i64_def)

lemma kvs_first: "next_version_for (notes_env answer) (encode_id ''a'' ''b'') kvs_coordinator = (Inr 1, kvs_coordinator)"
  by (simp add: next_version_for_def read_record_def notes_env_def store_ops store_eval store_read_record_def kvs_coordinator_def kvs_manager_def kvs_migration_def kvs_table_def KVS_TABLE_def lookup_row_def)

definition kvs_written :: "sqlite_db DbManager" where
  "kvs_written = snd (store_upsert_record toy_sqlite KVS_TABLE (map_remote_to_local kvs_entity_config kvs_sent) kvs_manager)"

lemma kvs_row: "map_remote_to_local kvs_entity_config kvs_sent = [(''deleted'', JBool False), (''id'', JString ''a::b''), (''key'', JString ''b''), (''namespace'', JString ''a''),
     (''updated_at'', JString ''now''), (''value'', JObject []), (''version'', JInt 1)]"
  by (simp add: map_remote_to_local_def kvs_config_defs kvs_sent_def)

lemma kvs_upsert: "store_upsert_record toy_sqlite KVS_TABLE (map_remote_to_local kvs_entity_config kvs_sent) kvs_manager = (Inr (), kvs_written)"
  unfolding kvs_written_def kvs_row
  by (simp add: store_eval KVS_TABLE_def)

lemma kvs_reread: "\<exists>found m. store_read_record toy_sqlite KVS_TABLE (encode_id ''a'' ''b'') kvs_written = (Inr found, m)"
  unfolding kvs_written_def kvs_row
  by (simp add: store_eval kvs_manager_def kvs_migration_def kvs_table_def KVS_TABLE_def encode_id_def lookup_row_def)

lemma kvs_offline:
  "\<exists>n. dispatch_write (const_env (Inl ''offline'')) kvs_entity_config KVS_TABLE kvs_sent i op tok net = (Inl (Poly_Http ''offline''), n)"
  by (simp add: dispatch_write_def kvs_config_defs pusher_upsert_def kvs_sent_def get_str_def net_send_def const_env_def Let_def)

lemma kvs_set_offline:
  "\<exists>c'. kvs_set (notes_env (Inl ''offline'')) ''a'' ''b'' (JObject []) kvs_coordinator = (Inr (), c') \<and> cd_local c' = kvs_written"
proof -
  let ?env = "notes_env (Inl ''offline'')"
  obtain n where n: "dispatch_write (const_env (Inl ''offline'')) kvs_entity_config KVS_TABLE kvs_sent (encode_id ''a'' ''b'') None ''at'' fresh_network
      = (Inl (Poly_Http ''offline''), n)"
    using kvs_offline by blast
  have c: "config_for_table (cd_registry kvs_coordinator) KVS_TABLE = Some kvs_entity_config"
    "cd_session kvs_coordinator = Some (sample_session ''u1'')" "cd_encryption kvs_coordinator = None"
    "cd_local kvs_coordinator = kvs_manager" "cd_network kvs_coordinator = fresh_network"
    "cd_queue kvs_coordinator = sqlite_fresh"
    by (simp_all add: kvs_coordinator_def notes_coordinator_def config_for_table_def)
  have e: "cv_cipher ?env = toy_env" "cv_local ?env = SqliteLocalStore toy_sqlite" "cv_net ?env = const_env (Inl ''offline'')"
    by (simp_all add: notes_env_def)
  have s: "sp_user_id (sample_session ''u1'') = ''u1''" "sp_access_token (sample_session ''u1'') = ''at''"
    by (simp_all add: sample_session_def)
  let ?c = "kvs_coordinator\<lparr>cd_local := kvs_written, cd_network := n\<rparr>"
  have set: "kvs_set ?env ''a'' ''b'' (JObject []) kvs_coordinator
      = settle_write ?env KVS_TABLE (encode_id ''a'' ''b'') kvs_sent (Inl (Poly_Http ''offline'')) ?c"
    using kvs_sent [of "Inl ''offline''"] kvs_upsert
    by (simp add: kvs_set_def kvs_first persist_change_def persist_change_with_op_def c e s get_str_def kvs_record_get
        store_ops n)
  obtain c' where c': "settle_write ?env KVS_TABLE (encode_id ''a'' ''b'') kvs_sent (Inl (Poly_Http ''offline'')) ?c = (Inr (), c')"
    using settle_offline [of ?c "Inl ''offline''" KVS_TABLE "encode_id ''a'' ''b''" kvs_sent "''offline''"] c(6) by (cases "settle_write ?env KVS_TABLE (encode_id ''a'' ''b'') kvs_sent (Inl (Poly_Http ''offline'')) ?c") simp
  have "cd_local c' = kvs_written"
    using c' by (cases rule: settle_write_cases) (auto dest: enqueue_for_replay_frames)
  then show ?thesis using set c' by simp
qed

lemma kvs_mark:
  "\<exists>m. store_mark_deleted toy_sqlite KVS_TABLE (encode_id ''a'' ''b'') 1 kvs_manager = (Inr (), m)
     \<and> (\<exists>found m'. store_read_record toy_sqlite KVS_TABLE (encode_id ''a'' ''b'') m = (Inr found, m'))"
  by (simp add: store_mark_deleted_def mark_rows_def store_eval KVS_TABLE_def lookup_row_def)

lemma notes_enqueue_queue:
  "cd_queue c = sqlite_fresh \<Longrightarrow> cd_queue (snd (enqueue_for_replay (notes_env a) op c)) \<noteq> sqlite_fresh"
  by (simp add: enqueue_for_replay_def notes_env_def sqlite_enqueue_def sqlite_fresh_def take_fault_def sqlite_depth_def
      insert_or_replace_def)

lemma kvs_delete_offline:
  "\<exists>c'. kvs_delete (notes_env (Inl ''offline'')) ''a'' ''b'' kvs_coordinator = (Inr (), c')
     \<and> (\<exists>found m. store_read_record toy_sqlite KVS_TABLE (encode_id ''a'' ''b'') (cd_local c') = (Inr found, m))
     \<and> cd_queue c' \<noteq> cd_queue kvs_coordinator"
proof -
  let ?env = "notes_env (Inl ''offline'')" and ?i = "encode_id ''a'' ''b''"
  let ?at = "tombstone_updated_at_value (cv_clock ?env) kvs_entity_config"
  obtain m found m' where m: "store_mark_deleted toy_sqlite KVS_TABLE ?i 1 kvs_manager = (Inr (), m)"
    "store_read_record toy_sqlite KVS_TABLE ?i m = (Inr found, m')"
    using kvs_mark by blast
  obtain n where n: "dispatch_delete (const_env (Inl ''offline'')) kvs_entity_config KVS_TABLE ?i 1 ?at ''at'' fresh_network
      = (Inl (Poly_Http ''offline''), n)"
    by (simp add: dispatch_delete_def kvs_config_defs pusher_update_tombstone_def net_send_def const_env_def Let_def)
  have c: "config_for_table (cd_registry kvs_coordinator) KVS_TABLE = Some kvs_entity_config"
    "cd_session kvs_coordinator = Some (sample_session ''u1'')" "cd_queue kvs_coordinator = sqlite_fresh"
    "cd_local kvs_coordinator = kvs_manager" "cd_network kvs_coordinator = fresh_network"
    by (simp_all add: kvs_coordinator_def notes_coordinator_def config_for_table_def)
  have e: "cv_local ?env = SqliteLocalStore toy_sqlite" "cv_net ?env = const_env (Inl ''offline'')"
    by (simp_all add: notes_env_def)
  have s: "sp_access_token (sample_session ''u1'') = ''at''" by (simp add: sample_session_def)
  let ?c = "kvs_coordinator\<lparr>cd_local := m, cd_network := n\<rparr>"
  let ?op = "queued_write ?env KVS_TABLE ?i (Tombstone 1) (Poly_Http ''offline'')"
  have del: "kvs_delete ?env ''a'' ''b'' kvs_coordinator = enqueue_for_replay ?env ?op ?c"
    by (simp add: kvs_delete_def kvs_first coordinator_delete_def c e s store_ops m(1) n settle_delete_def)
  obtain c' where c': "enqueue_for_replay ?env ?op ?c = (Inr (), c')"
    using notes_enqueue [of ?c "Inl ''offline''" ?op] c(3) by (cases "enqueue_for_replay ?env ?op ?c") simp
  have "cd_queue c' \<noteq> sqlite_fresh" using notes_enqueue_queue [of ?c "Inl ''offline''" ?op] c' c(3) by simp
  moreover have "cd_local c' = m" using enqueue_for_replay_frames [OF c'] by simp
  ultimately show ?thesis using del c' c(3) m(2) by auto
qed

text \<open>
  Who hears of a write. With the key-value table registered, every acknowledged \<open>set\<close> gives
  the subscribers of \<open>changes\<close> exactly one change, offline or not; an acknowledged
  \<open>delete\<close> that went to the offline queue gives them none.
\<close>

theorem kvs_notifications:
  assumes "config_for_table (cd_registry c) KVS_TABLE = Some kvs_entity_config"
  shows "(\<forall>c'. kvs_set env ns k v c = (Inr (), c') \<longrightarrow>
            kvs_changes (cd_events c') = kvs_changes (cd_events c) @ [\<lparr>kc_namespace = ns, kc_key = k, kc_deleted = False\<rparr>])
       \<and> (\<forall>c'. kvs_delete env ns k c = (Inr (), c') \<and> cd_queue c' \<noteq> cd_queue c \<longrightarrow>
            kvs_changes (cd_events c') = kvs_changes (cd_events c))"
  using kvs_set_announces [OF assms] kvs_queued_delete_silent by blast

section \<open>Witnesses\<close>

lemma kvs_sample: "text_storable (JObject [])" "json_storable 123 (JObject [])" "ne_codec (cv_net (notes_env a)) = se_codec toy_sqlite"
    "codec_ok (se_codec toy_sqlite)" "sqlite_wired toy_sqlite (notes_env a)"
  using notes_wired by (simp_all add: notes_env_def const_env_def toy_sqlite_def obj_ok_def)

lemma notes_read:
  "store_read_record toy_sqlite KVS_TABLE i (cd_local c) = (r, m)
   \<Longrightarrow> read_record (notes_env a) KVS_TABLE i c = (r, c\<lparr>cd_local := m\<rparr>)"
  by (simp add: read_record_def notes_env_def store_ops)


theorem kvs_set_bumps_version_witness:
  "\<exists>c' c2. kvs_set (notes_env (Inl ''offline'')) ''a'' ''b'' (JObject []) kvs_coordinator = (Inr (), c')
     \<and> next_version_for (notes_env (Inl ''offline'')) (encode_id ''a'' ''b'') c' = (Inr 2, c2)"
proof -
  obtain c' where c': "kvs_set (notes_env (Inl ''offline'')) ''a'' ''b'' (JObject []) kvs_coordinator = (Inr (), c')"
    "cd_local c' = kvs_written" using kvs_set_offline by blast
  obtain found m where rd: "store_read_record toy_sqlite KVS_TABLE (encode_id ''a'' ''b'') (cd_local c') = (Inr found, m)"
    using kvs_reread c'(2) by auto
  obtain n c2 where n: "next_version_for (notes_env (Inl ''offline'')) (encode_id ''a'' ''b'') c' = (Inr n, c2)"
    using notes_read [OF rd] by (cases found) (auto simp: next_version_for_def)
  show ?thesis using kvs_set_bumps_version [OF kvs_installation kvs_sample(2) c'(1) kvs_first n] c'(1) n by auto
qed

theorem kvs_delete_get_witness:
  "\<exists>c' c2. kvs_delete (notes_env (Inl ''offline'')) ''a'' ''b'' kvs_coordinator = (Inr (), c')
     \<and> kvs_get (notes_env (Inl ''offline'')) Inr ''a'' ''b'' c' = (Inr None, c2)"
proof -
  obtain c' found m where c': "kvs_delete (notes_env (Inl ''offline'')) ''a'' ''b'' kvs_coordinator = (Inr (), c')"
    "store_read_record toy_sqlite KVS_TABLE (encode_id ''a'' ''b'') (cd_local c') = (Inr found, m)"
    using kvs_delete_offline by blast
  show ?thesis using kvs_delete_get [OF kvs_installation c'(1) notes_read [OF c'(2)], where decode = Inr] c'(1) by auto
qed

theorem kvs_notifications_witness:
  "\<exists>c'. kvs_delete (notes_env (Inl ''offline'')) ''a'' ''b'' kvs_coordinator = (Inr (), c')
     \<and> kvs_changes (cd_events c') = kvs_changes (cd_events kvs_coordinator)"
proof -
  obtain c' where c': "kvs_delete (notes_env (Inl ''offline'')) ''a'' ''b'' kvs_coordinator = (Inr (), c')"
    "cd_queue c' \<noteq> cd_queue kvs_coordinator" using kvs_delete_offline by blast
  have "config_for_table (cd_registry kvs_coordinator) KVS_TABLE = Some kvs_entity_config"
    by (simp add: kvs_coordinator_def config_for_table_def)
  from kvs_notifications [OF this, of "notes_env (Inl ''offline'')" "''a''" "''b''"] c' show ?thesis by auto
qed

end
