(* ===== verification/Realtime.thy ===== *)
theory Realtime
  imports Auth Complex_Main
begin

text \<open>
  \<open>crates/polybase/src/realtime/mod.rs\<close>: the realtime subscriber. The supervisor is a function of
  the answers its surroundings give in each round; a connection is the state its four tasks
  share, stepped by the events that reach them. Durations and instants are nanoseconds; the
  fractions of the jitter are exact. Sockets and channels are what is put into and taken out of them.
\<close>

section \<open>Types\<close>

record RealtimeChange =
  rc_table :: string
  rc_op :: RealtimeOp
  rc_record :: "obj option"
  rc_old_record :: "obj option"

definition change_entity_id :: "RealtimeChange \<Rightarrow> string option" where
  "change_entity_id c =
     Option.bind (or_else (rc_record c) (rc_old_record c)) (\<lambda>data. get_str data ''id'')"

text \<open>
  The next change of a subscription, and what its receiver is told later: \<open>None\<close> while it waits.
\<close>

fun subscription_next :: "RealtimeChange bus_recv list \<Rightarrow> (RealtimeChange option \<times> RealtimeChange bus_recv list) option" where
  "subscription_next [] = None"
| "subscription_next (Received change # rs) = Some (Some change, rs)"
| "subscription_next (Lagged skipped # rs) = subscription_next rs"
| "subscription_next (Bus_closed # rs) = Some (None, rs)"

lemma subscription_next_skips:
  "subscription_next (map Lagged ns @ Received change # rs) = Some (Some change, rs)"
  by (induction ns) simp_all

datatype DisconnectReason = ChannelClosed | WebsocketError | HeartbeatTimeout | LivenessTimeout | Manual

datatype LifecycleEvent = Connected | Disconnected DisconnectReason | Reconnected

fun reason_as_str :: "DisconnectReason \<Rightarrow> string" where
  "reason_as_str ChannelClosed = ''channel_closed''"
| "reason_as_str WebsocketError = ''websocket_error''"
| "reason_as_str HeartbeatTimeout = ''heartbeat_timeout''"
| "reason_as_str LivenessTimeout = ''liveness_timeout''"
| "reason_as_str Manual = ''manual''"

datatype RealtimeError =
    ConnectFailed string
  | SubscribeFailed string
  | AlreadySubscribed
  | Realtime_Closed
  | AuthRefreshFailed string

fun realtime_display :: "RealtimeError \<Rightarrow> string" where
  "realtime_display (ConnectFailed m) = ''realtime connect failed: '' @ m"
| "realtime_display (SubscribeFailed m) = ''realtime subscribe failed: '' @ m"
| "realtime_display AlreadySubscribed = ''realtime already subscribed''"
| "realtime_display Realtime_Closed = ''realtime channel closed''"
| "realtime_display (AuthRefreshFailed m) = ''realtime auth refresh failed: '' @ m"

record TransportConfig =
  tc_heartbeat_interval :: nat
  tc_heartbeat_reply_timeout :: nat
  tc_liveness_timeout :: nat
  tc_liveness_probe_timeout :: nat
  tc_initial_reconnect_delay :: nat
  tc_backoff_ladder :: "nat list"
  tc_backoff_jitter :: rat

definition ms :: "nat \<Rightarrow> nat" where
  "ms n = n * 1000000"

definition secs :: "nat \<Rightarrow> nat" where
  "secs n = n * 1000000000"

definition transport_default :: TransportConfig where
  "transport_default =
     \<lparr>tc_heartbeat_interval = secs 20, tc_heartbeat_reply_timeout = secs 10, tc_liveness_timeout = secs 30,
      tc_liveness_probe_timeout = secs 5, tc_initial_reconnect_delay = ms 250,
      tc_backoff_ladder = [ms 500, secs 1, secs 2, secs 5, secs 10, secs 30], tc_backoff_jitter = 20 / 100\<rparr>"

section \<open>The transport\<close>

record SupervisorHandle =
  sh_url :: string
  sh_tables :: "string list"

record SupabaseRealtimeTransport =
  rt_supabase_url :: string
  rt_anon_key :: string
  rt_config :: TransportConfig
  rt_handle :: "SupervisorHandle option"

definition transport_with_config :: "string \<Rightarrow> string \<Rightarrow> TransportConfig \<Rightarrow> SupabaseRealtimeTransport" where
  "transport_with_config url key config =
     \<lparr>rt_supabase_url = url, rt_anon_key = key, rt_config = config, rt_handle = None\<rparr>"

definition transport_new :: "string \<Rightarrow> string \<Rightarrow> SupabaseRealtimeTransport" where
  "transport_new url key = transport_with_config url key transport_default"

definition websocket_url :: "SupabaseRealtimeTransport \<Rightarrow> string" where
  "websocket_url t =
     (let base = trim_end_slash (rt_supabase_url t);
          ws_base = (case strip_prefix base ''https://'' of
                       Some rest \<Rightarrow> ''wss://'' @ rest
                     | None \<Rightarrow> (case strip_prefix base ''http://'' of
                                  Some rest \<Rightarrow> ''ws://'' @ rest
                                | None \<Rightarrow> ''wss://'' @ base))
      in ws_base @ ''/realtime/v1/websocket?apikey='' @ rt_anon_key t @ ''&vsn=2.0.0'')"

definition transport_subscribe ::
  "string list \<Rightarrow> SupabaseRealtimeTransport \<Rightarrow> (RealtimeError + unit) \<times> SupabaseRealtimeTransport" where
  "transport_subscribe tables t =
     (case rt_handle t of
        Some _ \<Rightarrow> (Inl AlreadySubscribed, t)
      | None \<Rightarrow> (Inr (), t\<lparr>rt_handle := Some \<lparr>sh_url = websocket_url t, sh_tables = tables\<rparr>\<rparr>))"

definition transport_unsubscribe ::
  "SupabaseRealtimeTransport \<Rightarrow> (RealtimeError + unit) \<times> SupabaseRealtimeTransport" where
  "transport_unsubscribe t = (Inr (), t\<lparr>rt_handle := None\<rparr>)"

definition is_subscribed :: "SupabaseRealtimeTransport \<Rightarrow> bool" where
  "is_subscribed t \<longleftrightarrow> rt_handle t \<noteq> None"

section \<open>Backoff\<close>

definition backoff_base :: "u32 \<Rightarrow> TransportConfig \<Rightarrow> nat" where
  "backoff_base consecutive_failures config =
     (if consecutive_failures = 0 then tc_initial_reconnect_delay config
      else
        (let idx = unat (consecutive_failures - 1);
             last = length (tc_backoff_ladder config) - 1;
             clamped = min idx last
         in if clamped < length (tc_backoff_ladder config) then tc_backoff_ladder config ! clamped else secs 30))"

text \<open>The draw stands for \<open>gen_range(-jitter..jitter)\<close>.\<close>

definition apply_jitter :: "nat \<Rightarrow> rat \<Rightarrow> rat \<Rightarrow> nat" where
  "apply_jitter base jitter draw =
     (if jitter \<le> 0 then base else nat \<lfloor>max (of_nat base * (1 + draw)) 0\<rfloor>)"

definition draw_ok :: "rat \<Rightarrow> rat \<Rightarrow> bool" where
  "draw_ok jitter draw \<longleftrightarrow> - min jitter 1 \<le> draw \<and> draw < min jitter 1"

definition compute_backoff_delay :: "u32 \<Rightarrow> TransportConfig \<Rightarrow> rat \<Rightarrow> nat" where
  "compute_backoff_delay consecutive_failures config draw =
     apply_jitter (backoff_base consecutive_failures config) (tc_backoff_jitter config) draw"

section \<open>The supervisor\<close>

text \<open>
  How a pause ends: its time is up, the shutdown value changed (to the value read), or the sender
  of the shutdown channel is gone, which every wait on the channel reports at once.
\<close>

datatype sleep_end = Slept | Woken bool | Sender_gone

text \<open>What one round of the loop is answered.\<close>

record round =
  rd_shutdown :: bool
  rd_fresh :: "PolyError + EnsureFreshResult option"
  rd_connect :: "RealtimeError + DisconnectReason"
  rd_draw :: rat
  rd_sleep :: sleep_end

record Supervisor =
  sv_failures :: u32
  sv_had_prior :: bool
  sv_lifecycle :: "LifecycleEvent list"
  sv_tokens :: "string list"
  sv_delays :: "nat list"

definition supervisor_start :: Supervisor where
  "supervisor_start = \<lparr>sv_failures = 0, sv_had_prior = False, sv_lifecycle = [], sv_tokens = [], sv_delays = []\<rparr>"

definition announce :: "LifecycleEvent \<Rightarrow> Supervisor \<Rightarrow> Supervisor" where
  "announce e s = s\<lparr>sv_lifecycle := sv_lifecycle s @ [e]\<rparr>"

definition fail_once :: "Supervisor \<Rightarrow> Supervisor" where
  "fail_once s = s\<lparr>sv_failures := u32_saturating_inc (sv_failures s)\<rparr>"

definition sleep_with_backoff :: "TransportConfig \<Rightarrow> round \<Rightarrow> Supervisor \<Rightarrow> bool \<times> Supervisor" where
  "sleep_with_backoff config r s =
     (let delay = compute_backoff_delay (sv_failures s) config (rd_draw r)
      in case rd_sleep r of
           Slept \<Rightarrow> (False, s\<lparr>sv_delays := sv_delays s @ [delay]\<rparr>)
         | Woken shutdown \<Rightarrow> (shutdown, s)
         | Sender_gone \<Rightarrow> (False, s))"

text \<open>One turn of the loop: whether it ends there, and the state after it.\<close>

definition supervisor_round :: "TransportConfig \<Rightarrow> round \<Rightarrow> Supervisor \<Rightarrow> bool \<times> Supervisor" where
  "supervisor_round config r s =
     (if rd_shutdown r then (True, s)
      else
        (case rd_fresh r of
           Inr (Some fresh) \<Rightarrow>
             (let s1 = s\<lparr>sv_tokens := sv_tokens s @ [sp_access_token (efr_session fresh)]\<rparr>
              in case rd_connect r of
                   Inr reason \<Rightarrow>
                     (let event = (if sv_had_prior s1 then Reconnected else Connected);
                          s2 = (announce event (s1\<lparr>sv_failures := 0\<rparr>))\<lparr>sv_had_prior := True\<rparr>;
                          s3 = announce (Disconnected reason) s2
                      in if reason = Manual then (True, s3) else sleep_with_backoff config r s3)
                 | Inl _ \<Rightarrow> sleep_with_backoff config r (fail_once s1))
         | _ \<Rightarrow>
             (case sleep_with_backoff config r s of
                (True, s1) \<Rightarrow> (True, s1)
              | (False, s1) \<Rightarrow> (False, fail_once s1))))"

fun supervisor_run :: "TransportConfig \<Rightarrow> round list \<Rightarrow> Supervisor \<Rightarrow> bool \<times> Supervisor" where
  "supervisor_run config [] s = (False, s)"
| "supervisor_run config (r # rs) s =
     (case supervisor_round config r s of
        (True, s') \<Rightarrow> (True, s')
      | (False, s') \<Rightarrow> supervisor_run config rs s')"

section \<open>Frames\<close>

definition build_phoenix_array :: "string option \<Rightarrow> string \<Rightarrow> string \<Rightarrow> string \<Rightarrow> json \<Rightarrow> json" where
  "build_phoenix_array join_ref ref_field topic event payload =
     JArray [(case join_ref of None \<Rightarrow> JNull | Some s \<Rightarrow> JString s), JString ref_field, JString topic,
             JString event, payload]"

definition parse_phoenix_message :: "json_codec \<Rightarrow> string \<Rightarrow> (string \<times> string \<times> json \<times> string option) option" where
  "parse_phoenix_message codec msg =
     (case parse codec msg of
        Inr (JArray [_, ref_value, topic_value, event_value, payload]) \<Rightarrow>
          (case (as_str topic_value, as_str event_value) of
             (Some topic, Some event) \<Rightarrow> Some (topic, event, payload, as_str ref_value)
           | _ \<Rightarrow> None)
      | _ \<Rightarrow> None)"

definition parse_op :: "string \<Rightarrow> RealtimeOp option" where
  "parse_op t =
     (if t = ''INSERT'' then Some Op_Insert else if t = ''UPDATE'' then Some Op_Update
      else if t = ''DELETE'' then Some Op_Delete else None)"

definition parse_postgres_changes :: "json \<Rightarrow> RealtimeChange option" where
  "parse_postgres_changes payload =
     Option.bind (value_get payload ''data'') (\<lambda>data.
     Option.bind (Option.bind (value_get data ''table'') as_str) (\<lambda>table.
     Option.bind (Option.bind (value_get data ''type'') as_str) (\<lambda>type_str.
     Option.bind (parse_op type_str) (\<lambda>op.
       Some \<lparr>rc_table = table, rc_op = op,
             rc_record = Option.bind (value_get data ''record'') as_object,
             rc_old_record = Option.bind (value_get data ''old_record'') as_object\<rparr>))))"

section \<open>A connection\<close>

text \<open>
  The state the read, write, heartbeat and liveness tasks of one socket share. A heartbeat or a
  probe waits for its reply until it checks the tracker; the instants of the ticks and checks
  are those of the timers. \<open>cn_writable\<close> says that the write task still drains the outbound
  queue; when it has stopped, sending to the queue fails.
\<close>

datatype beat_phase = Beat_Idle u64 | Beat_Pending string u64 | Beat_Stopped

datatype ws_frame = Text string | Ping | Pong | Close | Other_frame | Ws_error | Eof

record Connection =
  cn_tracker :: "string \<rightharpoonup> nat"
  cn_last_inbound :: nat
  cn_outgoing :: "json list"
  cn_changes :: "RealtimeChange list"
  cn_disconnects :: "DisconnectReason list"
  cn_reading :: bool
  cn_writable :: bool
  cn_heartbeat :: beat_phase
  cn_liveness :: beat_phase

definition join_payload :: "string list \<Rightarrow> string \<Rightarrow> json" where
  "join_payload tables access_token =
     JObject (obj_of_list
       [(''config'', JObject (obj_of_list
           [(''broadcast'', JObject (obj_of_list [(''ack'', JBool False), (''self'', JBool False)])),
            (''presence'', JObject (obj_of_list [(''enabled'', JBool False)])),
            (''postgres_changes'', JArray (map (\<lambda>table. JObject (obj_of_list
               [(''event'', JString ''*''), (''schema'', JString ''public''), (''table'', JString table)])) tables)),
            (''private'', JBool False)])),
        (''access_token'', JString access_token)])"

definition connection_open :: "string list \<Rightarrow> string \<Rightarrow> nat \<Rightarrow> Connection" where
  "connection_open tables access_token now =
     \<lparr>cn_tracker = Map.empty, cn_last_inbound = now,
      cn_outgoing = [build_phoenix_array (Some ''1'') ''join-1'' ''realtime:polybase-sync'' ''phx_join''
                       (join_payload tables access_token)],
      cn_changes = [], cn_disconnects = [], cn_reading = True, cn_writable = True,
      cn_heartbeat = Beat_Idle 100, cn_liveness = Beat_Idle 5000\<rparr>"

definition cn_report :: "DisconnectReason \<Rightarrow> Connection \<Rightarrow> Connection" where
  "cn_report reason c = c\<lparr>cn_disconnects := cn_disconnects c @ [reason]\<rparr>"

definition stop_reading :: "Connection \<Rightarrow> Connection" where
  "stop_reading c = c\<lparr>cn_reading := False\<rparr>"

definition payload_status :: "json \<Rightarrow> string option" where
  "payload_status payload = Option.bind (value_get payload ''status'') as_str"

definition read_event :: "string \<Rightarrow> json \<Rightarrow> string option \<Rightarrow> Connection \<Rightarrow> Connection" where
  "read_event event payload frame_ref c =
     (if event = ''postgres_changes'' then
        (case parse_postgres_changes payload of
           None \<Rightarrow> c | Some change \<Rightarrow> c\<lparr>cn_changes := cn_changes c @ [change]\<rparr>)
      else if event = ''phx_reply'' then
        (case frame_ref of None \<Rightarrow> c | Some ref_id \<Rightarrow> c\<lparr>cn_tracker := (cn_tracker c)(ref_id := None)\<rparr>)
      else if event = ''system'' then
        (if unwrap_or ''unknown'' (payload_status payload) \<noteq> ''ok''
         then stop_reading (cn_report ChannelClosed c) else c)
      else if event = ''phx_error'' \<or> event = ''phx_close'' then stop_reading (cn_report ChannelClosed c)
      else c)"

definition read_frame :: "json_codec \<Rightarrow> nat \<Rightarrow> ws_frame \<Rightarrow> Connection \<Rightarrow> Connection" where
  "read_frame codec now frame c =
     (if \<not> cn_reading c then c
      else
        (case frame of
           Text text \<Rightarrow>
             (let c1 = c\<lparr>cn_last_inbound := now\<rparr>
              in case parse_phoenix_message codec text of
                   None \<Rightarrow> c1
                 | Some (_, event, payload, frame_ref) \<Rightarrow> read_event event payload frame_ref c1)
         | Ping \<Rightarrow> c\<lparr>cn_last_inbound := now\<rparr>
         | Pong \<Rightarrow> c\<lparr>cn_last_inbound := now\<rparr>
         | Close \<Rightarrow> stop_reading (cn_report ChannelClosed c)
         | Other_frame \<Rightarrow> c
         | Ws_error \<Rightarrow> stop_reading (cn_report WebsocketError c)
         | Eof \<Rightarrow> stop_reading c))"

definition heartbeat_frame :: "string \<Rightarrow> json" where
  "heartbeat_frame ref_id = build_phoenix_array None ref_id ''phoenix'' ''heartbeat'' (JObject [])"

text \<open>Sending a heartbeat or a probe: the phase its task goes to, and the state.\<close>

definition send_beat :: "string \<Rightarrow> u64 \<Rightarrow> nat \<Rightarrow> Connection \<Rightarrow> beat_phase \<times> Connection" where
  "send_beat ref_id next_ref now c =
     (let c1 = c\<lparr>cn_tracker := (cn_tracker c)(ref_id \<mapsto> now)\<rparr>
      in if cn_writable c
         then (Beat_Pending ref_id next_ref, c1\<lparr>cn_outgoing := cn_outgoing c1 @ [heartbeat_frame ref_id]\<rparr>)
         else (Beat_Stopped, c1))"

definition heartbeat_tick :: "nat \<Rightarrow> Connection \<Rightarrow> Connection" where
  "heartbeat_tick now c =
     (case cn_heartbeat c of
        Beat_Idle next_ref \<Rightarrow>
          (case send_beat (''hb-'' @ dec (unat next_ref)) (next_ref + 1) now c of
             (phase, c1) \<Rightarrow> c1\<lparr>cn_heartbeat := phase\<rparr>)
      | _ \<Rightarrow> c)"

definition heartbeat_check :: "Connection \<Rightarrow> Connection" where
  "heartbeat_check c =
     (case cn_heartbeat c of
        Beat_Pending ref_id next_ref \<Rightarrow>
          (if cn_tracker c ref_id \<noteq> None
           then (cn_report HeartbeatTimeout c)\<lparr>cn_heartbeat := Beat_Stopped\<rparr>
           else c\<lparr>cn_heartbeat := Beat_Idle next_ref\<rparr>)
      | _ \<Rightarrow> c)"

definition liveness_tick :: "TransportConfig \<Rightarrow> nat \<Rightarrow> Connection \<Rightarrow> Connection" where
  "liveness_tick config now c =
     (case cn_liveness c of
        Beat_Idle next_ref \<Rightarrow>
          (if now - cn_last_inbound c < tc_liveness_timeout config then c
           else
             (case send_beat (''live-'' @ dec (unat next_ref)) (next_ref + 1) now c of
                (phase, c1) \<Rightarrow> c1\<lparr>cn_liveness := phase\<rparr>))
      | _ \<Rightarrow> c)"

definition liveness_check :: "Connection \<Rightarrow> Connection" where
  "liveness_check c =
     (case cn_liveness c of
        Beat_Pending ref_id next_ref \<Rightarrow>
          (if cn_tracker c ref_id \<noteq> None
           then (cn_report LivenessTimeout c)\<lparr>cn_liveness := Beat_Stopped\<rparr>
           else c\<lparr>cn_liveness := Beat_Idle next_ref\<rparr>)
      | _ \<Rightarrow> c)"

datatype conn_event =
    Inbound nat ws_frame
  | Heartbeat_tick nat
  | Heartbeat_check
  | Liveness_tick nat
  | Liveness_check
  | Write_failed

fun conn_step :: "json_codec \<Rightarrow> TransportConfig \<Rightarrow> conn_event \<Rightarrow> Connection \<Rightarrow> Connection" where
  "conn_step codec config (Inbound now frame) c = read_frame codec now frame c"
| "conn_step codec config (Heartbeat_tick now) c = heartbeat_tick now c"
| "conn_step codec config Heartbeat_check c = heartbeat_check c"
| "conn_step codec config (Liveness_tick now) c = liveness_tick config now c"
| "conn_step codec config Liveness_check c = liveness_check c"
| "conn_step codec config Write_failed c = c\<lparr>cn_writable := False\<rparr>"

definition conn_run :: "json_codec \<Rightarrow> TransportConfig \<Rightarrow> conn_event list \<Rightarrow> Connection \<Rightarrow> Connection" where
  "conn_run codec config es c = fold (conn_step codec config) es c"

text \<open>
  \<open>Connection::run\<close> without a shutdown: the first reason reported, or the channel closing when
  every task that could report one has stopped; nothing while it still waits.
\<close>

definition connection_outcome :: "Connection \<Rightarrow> DisconnectReason option" where
  "connection_outcome c =
     (case cn_disconnects c of
        reason # _ \<Rightarrow> Some reason
      | [] \<Rightarrow> (if \<not> cn_reading c \<and> cn_heartbeat c = Beat_Stopped \<and> cn_liveness c = Beat_Stopped
               then Some ChannelClosed else None))"

text \<open>With the shutdown channel: a signalled shutdown is \<open>Manual\<close>, its closing ends the connection.\<close>

definition connection_run :: "bool option \<Rightarrow> Connection \<Rightarrow> DisconnectReason option" where
  "connection_run shutdown c =
     (case shutdown of
        None \<Rightarrow> connection_outcome c
      | Some signalled \<Rightarrow> Some (if signalled then Manual else ChannelClosed))"

section \<open>Lifecycle\<close>

text \<open>
  A log of complete sessions: a connection (the first one is \<open>Connected\<close>), then its end, and
  nothing after a manual end.
\<close>

fun session_log :: "bool \<Rightarrow> LifecycleEvent list \<Rightarrow> bool" where
  "session_log had [] \<longleftrightarrow> True"
| "session_log had (e # Disconnected reason # es) \<longleftrightarrow>
     e = (if had then Reconnected else Connected) \<and> (reason = Manual \<longrightarrow> es = []) \<and> session_log True es"
| "session_log had _ \<longleftrightarrow> False"

lemma session_frames [simp]:
  "sv_lifecycle (announce e s) = sv_lifecycle s @ [e]" "sv_had_prior (announce e s) = sv_had_prior s"
  "sv_failures (announce e s) = sv_failures s" "sv_delays (announce e s) = sv_delays s"
  "sv_lifecycle (fail_once s) = sv_lifecycle s" "sv_had_prior (fail_once s) = sv_had_prior s"
  "sv_delays (fail_once s) = sv_delays s"
  by (simp_all add: announce_def fail_once_def)

text \<open>What a round adds to the log: nothing, or one session.\<close>

lemma round_log:
  assumes "supervisor_round config r s = (stop, s')"
  obtains (quiet) "sv_lifecycle s' = sv_lifecycle s" "sv_had_prior s' = sv_had_prior s"
  | (session) reason where "sv_had_prior s'" "reason = Manual \<Longrightarrow> stop"
      "sv_lifecycle s' = sv_lifecycle s @ [if sv_had_prior s then Reconnected else Connected, Disconnected reason]"
proof (cases "rd_shutdown r \<or> (\<forall>fresh. rd_fresh r \<noteq> Inr (Some fresh)) \<or> (\<exists>e. rd_connect r = Inl e)")
  case True
  then have "sv_lifecycle s' = sv_lifecycle s \<and> sv_had_prior s' = sv_had_prior s"
    using assms by (auto simp: supervisor_round_def sleep_with_backoff_def Let_def split: if_splits sum.splits option.splits bool.splits sleep_end.splits)
  then show ?thesis using quiet by simp
next
  case False
  then obtain fresh reason where f: "rd_fresh r = Inr (Some fresh)" "rd_connect r = Inr reason" "\<not> rd_shutdown r"
    by (cases "rd_connect r") auto
  then show ?thesis using assms session [of reason]
    by (auto simp: supervisor_round_def sleep_with_backoff_def Let_def split: if_splits sleep_end.splits)
qed

lemma run_log:
  "supervisor_run config rs s = (stop, s') \<Longrightarrow>
     \<exists>es. sv_lifecycle s' = sv_lifecycle s @ es \<and> session_log (sv_had_prior s) es"
proof (induction rs arbitrary: s)
  case (Cons r rs)
  obtain b s1 where r: "supervisor_round config r s = (b, s1)" by (cases "supervisor_round config r s")
  show ?case
  proof (cases b)
    case True
    then have "s' = s1" using Cons.prems r by simp
    from r show ?thesis
    proof (cases rule: round_log)
      case quiet
      then show ?thesis using \<open>s' = s1\<close> by (intro exI [of _ "[]"]) simp
    next
      case (session reason)
      then show ?thesis using \<open>s' = s1\<close> by simp
    qed
  next
    case False
    then have "supervisor_run config rs s1 = (stop, s')" using Cons.prems r by simp
    then obtain es where es: "sv_lifecycle s' = sv_lifecycle s1 @ es" "session_log (sv_had_prior s1) es"
      using Cons.IH by blast
    from r show ?thesis
    proof (cases rule: round_log)
      case quiet
      then show ?thesis using es by simp
    next
      case (session reason)
      then show ?thesis using es False by auto
    qed
  qed
qed simp

text \<open>
  C16: what a subscriber hears of the connection. Whatever the surroundings answer, the lifecycle
  events are complete sessions in order: the first connection is announced as \<open>Connected\<close> and
  every later one as \<open>Reconnected\<close>, each is followed by exactly one \<open>Disconnected\<close>, and a
  manual end is the last event.
\<close>

theorem realtime_lifecycle:
  "session_log False (sv_lifecycle (snd (supervisor_run config rounds supervisor_start)))"
  using run_log [of config rounds supervisor_start] by (cases "supervisor_run config rounds supervisor_start")
    (auto simp: supervisor_start_def)

section \<open>Delays\<close>

lemma jitter_bounds:
  assumes "draw_ok j draw" and "0 < j" and "j \<le> 1"
  shows "(1 - j) * of_nat base - 1 < (of_nat (apply_jitter base j draw) :: rat)"
    and "(of_nat (apply_jitter base j draw) :: rat) \<le> (1 + j) * of_nat base"
proof -
  let ?x = "of_nat base * (1 + draw) :: rat"
  have d: "- j \<le> draw" "draw \<le> j" using assms by (simp_all add: draw_ok_def)
  have pos: "0 \<le> ?x" using d assms(3) by simp
  have eq: "(of_nat (apply_jitter base j draw) :: rat) = of_int \<lfloor>?x\<rfloor>"
    using assms(2) pos by (simp add: apply_jitter_def max_def of_nat_nat)
  have "(1 - j) * of_nat base \<le> ?x" using d(1) by (simp add: mult.commute mult_left_mono)
  then show "(1 - j) * of_nat base - 1 < (of_nat (apply_jitter base j draw) :: rat)"
    unfolding eq using floor_correct [of ?x] by linarith
  have "?x \<le> (1 + j) * of_nat base" using d(2) by (simp add: mult.commute mult_left_mono)
  then show "(of_nat (apply_jitter base j draw) :: rat) \<le> (1 + j) * of_nat base"
    unfolding eq using floor_correct [of ?x] by linarith
qed

lemma backoff_base_in:
  "backoff_base n config \<in> insert (tc_initial_reconnect_delay config) (insert (secs 30) (set (tc_backoff_ladder config)))"
  by (auto simp: backoff_base_def Let_def)

lemma default_base: "ms 250 \<le> backoff_base n transport_default" "backoff_base n transport_default \<le> secs 30"
  using backoff_base_in [of n transport_default] by (auto simp: transport_default_def ms_def secs_def)

lemma round_delays:
  assumes "supervisor_round config r s = (stop, s')"
  shows "\<exists>ns. sv_delays s' = sv_delays s @ map (\<lambda>n. compute_backoff_delay n config (rd_draw r)) ns"
proof -
  have "sv_delays s' = sv_delays s \<or> (\<exists>n. sv_delays s' = sv_delays s @ [compute_backoff_delay n config (rd_draw r)])"
    using assms by (auto simp: supervisor_round_def sleep_with_backoff_def Let_def split: if_splits sum.splits option.splits bool.splits sleep_end.splits)
  then show ?thesis by (metis append_Nil2 list.simps(8) list.simps(9))
qed

lemma run_delays:
  "supervisor_run config rs s = (stop, s') \<Longrightarrow> d \<in> set (sv_delays s') \<Longrightarrow>
     d \<in> set (sv_delays s) \<or> (\<exists>r \<in> set rs. \<exists>n. d = compute_backoff_delay n config (rd_draw r))"
proof (induction rs arbitrary: s)
  case (Cons r rs)
  obtain b s1 where r: "supervisor_round config r s = (b, s1)" by (cases "supervisor_round config r s")
  obtain ns where ns: "sv_delays s1 = sv_delays s @ map (\<lambda>n. compute_backoff_delay n config (rd_draw r)) ns"
    using round_delays [OF r] by blast
  have "d \<in> set (sv_delays s1) \<or> (\<exists>r \<in> set rs. \<exists>n. d = compute_backoff_delay n config (rd_draw r))"
    using Cons.prems Cons.IH [of s1] r by (cases b) auto
  then show ?case using ns by auto
qed simp

text \<open>
  C33: pauses are neither too short nor endless. With the default configuration, every pause
  between two attempts that nothing cuts short, whatever failed before and however the jitter is
  drawn, lasts between 200 milliseconds and 36 seconds.
\<close>

theorem realtime_delay_bounds:
  assumes "\<forall>r \<in> set rounds. draw_ok (tc_backoff_jitter transport_default) (rd_draw r)"
    and "d \<in> set (sv_delays (snd (supervisor_run transport_default rounds supervisor_start)))"
  shows "ms 200 \<le> d \<and> d \<le> secs 36"
proof -
  obtain r n where r: "r \<in> set rounds" "d = compute_backoff_delay n transport_default (rd_draw r)"
    using run_delays [of transport_default rounds supervisor_start _ _ d] assms(2)
    by (cases "supervisor_run transport_default rounds supervisor_start") (auto simp: supervisor_start_def)
  let ?b = "backoff_base n transport_default" and ?j = "tc_backoff_jitter transport_default"
  have j: "?j = 1 / 5" by (simp add: transport_default_def)
  have draw: "draw_ok (1 / 5) (rd_draw r)" using assms(1) r(1) j by simp
  have fifth: "0 < (1 / 5 :: rat)" "1 / 5 \<le> (1 :: rat)" by simp_all
  note jb = jitter_bounds [OF draw fifth, of ?b]
  have d: "d = apply_jitter ?b (1 / 5) (rd_draw r)" by (simp add: r(2) compute_backoff_delay_def j)
  have lo: "(250000000 :: rat) \<le> of_nat ?b"
    using of_nat_mono [OF default_base(1) [of n], where 'a = rat] by (simp add: ms_def)
  have hi: "(of_nat ?b :: rat) \<le> 30000000000"
    using of_nat_mono [OF default_base(2) [of n], where 'a = rat] by (simp add: secs_def)
  have "4 / 5 * of_nat ?b - 1 < (of_nat d :: rat)" "of_nat d \<le> 6 / 5 * (of_nat ?b :: rat)"
    using jb unfolding d by simp_all
  then have "(199999999 :: rat) < of_nat d" "(of_nat d :: rat) \<le> 36000000000" using lo hi by auto
  then have "(of_nat 199999999 :: rat) < of_nat d" "(of_nat d :: rat) \<le> of_nat 36000000000" by simp_all
  then have "199999999 < d" "d \<le> 36000000000" by (simp_all only: of_nat_less_iff of_nat_le_iff)
  then show ?thesis by (simp add: ms_def secs_def)
qed

definition failing_round :: round where
  "failing_round = \<lparr>rd_shutdown = False, rd_fresh = Inr None, rd_connect = Inl (ConnectFailed []), rd_draw = 0,
     rd_sleep = Slept\<rparr>"

theorem realtime_delay_bounds_witness:
  "sv_delays (snd (supervisor_run transport_default [failing_round] supervisor_start)) = [ms 250]
   \<and> ms 200 \<le> ms 250 \<and> ms 250 \<le> secs 36"
proof -
  have f: "sv_delays (snd (supervisor_run transport_default [failing_round] supervisor_start)) = [ms 250]"
    by (simp add: failing_round_def supervisor_round_def sleep_with_backoff_def compute_backoff_delay_def apply_jitter_def
        backoff_base_def supervisor_start_def transport_default_def fail_once_def ms_def)
  have "\<forall>r \<in> set [failing_round]. draw_ok (tc_backoff_jitter transport_default) (rd_draw r)"
    by (simp add: failing_round_def draw_ok_def transport_default_def)
  from realtime_delay_bounds [OF this, of "ms 250"] f show ?thesis by simp
qed

text \<open>
  The rounds after the transport was dropped without \<open>unsubscribe\<close>: the shutdown value is still
  false, a connection ends at once (\<open>connection_run\<close> on the closed channel) and so does a pause.
\<close>

definition orphan_round :: "round \<Rightarrow> bool" where
  "orphan_round r \<longleftrightarrow> \<not> rd_shutdown r \<and> (\<exists>fresh. rd_fresh r = Inr (Some fresh))
     \<and> (\<exists>c. rd_connect r = Inr (the (connection_run (Some False) c))) \<and> rd_sleep r = Sender_gone"

lemma orphan_step:
  assumes "orphan_round r"
  obtains s' where "supervisor_round config r s = (False, s')" "sv_delays s' = sv_delays s"
    "length (sv_tokens s') = Suc (length (sv_tokens s))"
proof -
  obtain fresh where f: "rd_fresh r = Inr (Some fresh)" using assms by (auto simp: orphan_round_def)
  have c: "rd_connect r = Inr ChannelClosed"
    using assms by (cases "rd_connect r") (auto simp: orphan_round_def connection_run_def)
  have "\<not> rd_shutdown r" "rd_sleep r = Sender_gone" using assms by (simp_all add: orphan_round_def)
  then show ?thesis using f c that by (simp add: supervisor_round_def sleep_with_backoff_def announce_def)
qed

text \<open>
  C31: a transport that is dropped without being unsubscribed leaves a reconnect storm. Its
  supervisor never stops, and opens one connection per round of its loop without a single pause
  in between, for any number of rounds.
\<close>

theorem orphan_storm:
  assumes "\<forall>r \<in> set rounds. orphan_round r"
  shows "\<not> fst (supervisor_run config rounds s)
    \<and> sv_delays (snd (supervisor_run config rounds s)) = sv_delays s
    \<and> length (sv_tokens (snd (supervisor_run config rounds s))) = length (sv_tokens s) + length rounds"
  using assms
proof (induction rounds arbitrary: s)
  case (Cons r rounds)
  have "orphan_round r" using Cons.prems by simp
  then obtain s' where "supervisor_round config r s = (False, s')" "sv_delays s' = sv_delays s"
    "length (sv_tokens s') = Suc (length (sv_tokens s))" by (rule orphan_step)
  then show ?case using Cons.IH [of s'] Cons.prems by simp
qed simp

definition storm_round :: round where
  "storm_round = \<lparr>rd_shutdown = False, rd_fresh = Inr (Some \<lparr>efr_session = \<lparr>sp_user_id = [], sp_access_token = ''t'',
       sp_refresh_token = [], sp_expires_at = 0, sp_updated_at = 0\<rparr>, efr_refreshed = False\<rparr>), rd_connect = Inr ChannelClosed, rd_draw = 0,
     rd_sleep = Sender_gone\<rparr>"

theorem orphan_storm_witness:
  "length (sv_tokens (snd (supervisor_run transport_default (replicate 1000 storm_round) supervisor_start))) = 1000"
proof -
  have "orphan_round storm_round" by (simp add: orphan_round_def storm_round_def connection_run_def)
  then have "\<forall>r \<in> set (replicate 1000 storm_round). orphan_round r" by simp
  from orphan_storm [OF this, of transport_default supervisor_start] show ?thesis by (simp add: supervisor_start_def)
qed

section \<open>Frames and delivery\<close>

lemma phoenix_roundtrip:
  assumes "codec_ok codec" and "json_storable 126 payload"
  shows "parse_phoenix_message codec (render codec (build_phoenix_array join_ref ref_field topic event payload))
    = Some (topic, event, payload, Some ref_field)"
proof -
  have "json_storable 127 (build_phoenix_array join_ref ref_field topic event payload)"
    using assms(2) by (simp add: build_phoenix_array_def split: option.split)
  then show ?thesis
    using codec_roundtrip [OF assms(1)] by (simp add: parse_phoenix_message_def del: json_storable_simps) (simp add: build_phoenix_array_def)
qed

text \<open>What a frame delivers, and which frames end the reading.\<close>

definition frame_change :: "json_codec \<Rightarrow> ws_frame \<Rightarrow> RealtimeChange option" where
  "frame_change codec frame =
     (case frame of
        Text text \<Rightarrow>
          (case parse_phoenix_message codec text of
             Some (_, event, payload, _) \<Rightarrow>
               (if event = ''postgres_changes'' then parse_postgres_changes payload else None)
           | None \<Rightarrow> None)
      | _ \<Rightarrow> None)"

definition closes :: "json_codec \<Rightarrow> ws_frame \<Rightarrow> bool" where
  "closes codec frame \<longleftrightarrow>
     (case frame of
        Text text \<Rightarrow>
          (case parse_phoenix_message codec text of
             Some (_, event, payload, _) \<Rightarrow>
               event = ''phx_error'' \<or> event = ''phx_close''
               \<or> event = ''system'' \<and> payload_status payload \<noteq> Some ''ok''
           | None \<Rightarrow> False)
      | Close \<Rightarrow> True | Ws_error \<Rightarrow> True | Eof \<Rightarrow> True | _ \<Rightarrow> False)"

fun frames_of :: "conn_event list \<Rightarrow> ws_frame list" where
  "frames_of [] = []"
| "frames_of (Inbound now frame # es) = frame # frames_of es"
| "frames_of (_ # es) = frames_of es"

lemma unknown_status: "unwrap_or ''unknown'' st \<noteq> ''ok'' \<longleftrightarrow> st \<noteq> Some ''ok''"
  by (cases st) simp_all

lemma read_frame_reads:
  assumes "cn_reading c"
  shows "cn_reading (read_frame codec now frame c) \<longleftrightarrow> \<not> closes codec frame"
    and "cn_changes (read_frame codec now frame c) = cn_changes c @ (case frame_change codec frame of None \<Rightarrow> [] | Some x \<Rightarrow> [x])"
  using assms
  by (auto simp: read_frame_def closes_def frame_change_def read_event_def stop_reading_def cn_report_def Let_def unknown_status
      split: ws_frame.splits option.splits)

lemma beat_frames [simp]:
  "cn_reading (heartbeat_tick now c) = cn_reading c" "cn_changes (heartbeat_tick now c) = cn_changes c"
  "cn_reading (heartbeat_check c) = cn_reading c" "cn_changes (heartbeat_check c) = cn_changes c"
  "cn_reading (liveness_tick config now c) = cn_reading c" "cn_changes (liveness_tick config now c) = cn_changes c"
  "cn_reading (liveness_check c) = cn_reading c" "cn_changes (liveness_check c) = cn_changes c"
  by (auto simp: heartbeat_tick_def heartbeat_check_def liveness_tick_def liveness_check_def send_beat_def cn_report_def
      Let_def split: beat_phase.split)

lemma conn_run_simps [simp]:
  "conn_run codec config [] c = c"
  "conn_run codec config (e # es) c = conn_run codec config es (conn_step codec config e c)"
  "conn_run codec config (es @ fs) c = conn_run codec config fs (conn_run codec config es c)"
  by (simp_all add: conn_run_def)

lemma stopped_run: "\<not> cn_reading c \<Longrightarrow> cn_changes (conn_run codec config es c) = cn_changes c"
proof (induction es arbitrary: c)
  case (Cons e es)
  then show ?case by (cases e) (simp_all add: read_frame_def)
qed simp

lemma reading_delivers:
  assumes "cn_reading c"
  shows "cn_changes (conn_run codec config es c) = cn_changes c
     @ List.map_filter (frame_change codec) (takeWhile (\<lambda>frame. \<not> closes codec frame) (frames_of es))"
  using assms
proof (induction es arbitrary: c)
  case (Cons e es)
  show ?case
  proof (cases e)
    case (Inbound now frame)
    let ?c = "read_frame codec now frame c"
    have none: "frame_change codec frame = None" if "closes codec frame"
      using that by (auto simp: closes_def frame_change_def split: ws_frame.splits option.splits)
    show ?thesis
      using Inbound read_frame_reads [OF Cons.prems, of codec now frame] Cons.IH [of ?c] stopped_run [of ?c] none
      by (cases "closes codec frame") (auto simp: List.map_filter_simps split: option.split)
  qed (use Cons in simp_all)
qed (simp add: List.map_filter_simps)

text \<open>
  Deliveries are exactly the decoded changes, in order. However frames, timers and failures
  of the writer interleave, a fresh connection delivers the changes of the frames
  it received up to the first frame that closes it, each once and in the order received.
\<close>

theorem realtime_delivers:
  "cn_changes (conn_run codec config es (connection_open tables access_token started))
     = List.map_filter (frame_change codec) (takeWhile (\<lambda>frame. \<not> closes codec frame) (frames_of es))"
  using reading_delivers [of "connection_open tables access_token started" codec config es] by (simp add: connection_open_def)

section \<open>Heartbeats\<close>

definition is_reply :: "json_codec \<Rightarrow> string \<Rightarrow> ws_frame \<Rightarrow> bool" where
  "is_reply codec ref_id frame \<longleftrightarrow>
     (case frame of
        Text text \<Rightarrow>
          (case parse_phoenix_message codec text of
             Some (_, event, _, frame_ref) \<Rightarrow> event = ''phx_reply'' \<and> frame_ref = Some ref_id
           | None \<Rightarrow> False)
      | _ \<Rightarrow> False)"

text \<open>A reply with the reference is read while the events happen.\<close>

fun reply_read :: "json_codec \<Rightarrow> TransportConfig \<Rightarrow> string \<Rightarrow> conn_event list \<Rightarrow> Connection \<Rightarrow> bool" where
  "reply_read codec config ref_id [] c \<longleftrightarrow> False"
| "reply_read codec config ref_id (e # es) c \<longleftrightarrow>
     (case e of Inbound now frame \<Rightarrow> cn_reading c \<and> is_reply codec ref_id frame | _ \<Rightarrow> False)
     \<or> reply_read codec config ref_id es (conn_step codec config e c)"

lemma read_frame_tracker:
  "cn_tracker (read_frame codec now frame c) ref_id =
     (if cn_reading c \<and> is_reply codec ref_id frame then None else cn_tracker c ref_id)"
  by (auto simp: read_frame_def is_reply_def read_event_def stop_reading_def cn_report_def Let_def
      split: ws_frame.splits option.splits)

lemma read_frame_beats [simp]:
  "cn_heartbeat (read_frame codec now frame c) = cn_heartbeat c" "cn_liveness (read_frame codec now frame c) = cn_liveness c"
  "cn_writable (read_frame codec now frame c) = cn_writable c"
  by (auto simp: read_frame_def read_event_def stop_reading_def cn_report_def Let_def split: ws_frame.splits option.splits)

text \<open>While a heartbeat is pending, only a reply changes what the tracker says of it.\<close>

lemma pending_step:
  assumes "\<And>k. ref_id \<noteq> ''live-'' @ k" and "cn_heartbeat c = Beat_Pending ref_id m" and "e \<noteq> Heartbeat_check"
  shows "cn_heartbeat (conn_step codec config e c) = Beat_Pending ref_id m"
    and "cn_tracker (conn_step codec config e c) ref_id =
      (case e of Inbound now frame \<Rightarrow> if cn_reading c \<and> is_reply codec ref_id frame then None else cn_tracker c ref_id
       | _ \<Rightarrow> cn_tracker c ref_id)"
  using assms
  by (cases e; auto simp: read_frame_tracker heartbeat_tick_def liveness_tick_def liveness_check_def send_beat_def cn_report_def
      Let_def split: beat_phase.splits)+

lemma pending_run:
  assumes other: "\<And>k. ref_id \<noteq> ''live-'' @ k" and "cn_heartbeat c = Beat_Pending ref_id m" and "Heartbeat_check \<notin> set es" and "cn_tracker c ref_id = Some t"
  shows "cn_heartbeat (conn_run codec config es c) = Beat_Pending ref_id m
    \<and> (cn_tracker (conn_run codec config es c) ref_id = None \<longleftrightarrow> reply_read codec config ref_id es c)"
proof -
  have gone: "cn_tracker (conn_run codec config es c) ref_id = None \<and> cn_heartbeat (conn_run codec config es c) = Beat_Pending ref_id m"
    if "cn_heartbeat c = Beat_Pending ref_id m" "Heartbeat_check \<notin> set es" "cn_tracker c ref_id = None" for es c
    using that
  proof (induction es arbitrary: c)
    case (Cons e es)
    then have e: "e \<noteq> Heartbeat_check" by auto
    show ?case using Cons pending_step [OF other Cons.prems(1) e, of codec config]
      by (auto split: conn_event.splits if_splits)
  qed simp
  show ?thesis using assms(2-)
  proof (induction es arbitrary: c t)
    case (Cons e es)
    then have e: "e \<noteq> Heartbeat_check" by auto
    note st = pending_step [OF other Cons.prems(1) e, of codec config]
    let ?c = "conn_step codec config e c"
    show ?case
    proof (cases "cn_tracker ?c ref_id")
      case None
      then have "reply_read codec config ref_id (e # es) c"
        using st(2) Cons.prems(3) by (auto split: conn_event.splits if_splits)
      then show ?thesis using gone [OF st(1) _ None] Cons.prems(2) by simp
    next
      case (Some t')
      then have "\<not> (case e of Inbound now frame \<Rightarrow> cn_reading c \<and> is_reply codec ref_id frame | _ \<Rightarrow> False)"
        using st(2) by (auto split: conn_event.splits if_splits)
      then show ?thesis using Cons.IH [OF st(1) _ Some] Cons.prems(2) by simp
    qed
  qed simp
qed

text \<open>
  C32: a heartbeat times out exactly when nobody answered it. Whatever happens on the connection
  between a heartbeat and its check, probes of the liveness task included, the check reports a
  timeout if and only if no reply with the reference of that very heartbeat was read.
\<close>

theorem heartbeat_timeout_exact:
  assumes "cn_heartbeat c = Beat_Idle n" and "cn_writable c" and "Heartbeat_check \<notin> set es"
  shows "cn_disconnects (conn_run codec config (Heartbeat_tick now # es @ [Heartbeat_check]) c)
    = cn_disconnects (conn_run codec config (Heartbeat_tick now # es) c)
      @ (if reply_read codec config (''hb-'' @ dec (unat n)) es (heartbeat_tick now c) then [] else [HeartbeatTimeout])"
proof -
  let ?c = "heartbeat_tick now c" and ?r = "''hb-'' @ dec (unat n)"
  have c: "cn_heartbeat ?c = Beat_Pending ?r (n + 1)" "cn_tracker ?c ?r = Some now"
    using assms(1,2) by (simp_all add: heartbeat_tick_def send_beat_def Let_def)
  show ?thesis
    using pending_run [OF _ c(1) assms(3) c(2), of codec config]
    by (auto simp: heartbeat_check_def cn_report_def split: if_splits)
qed

text \<open>The reply to the first heartbeat arrives.\<close>

definition first_reply :: string where
  "first_reply = ref_render (build_phoenix_array None ''hb-100'' ''phoenix'' ''phx_reply'' (JObject []))"

theorem heartbeat_timeout_exact_witness:
  "cn_disconnects (conn_run ref_codec transport_default
     [Heartbeat_tick 1, Inbound 2 (Text first_reply), Heartbeat_check] (connection_open [] [] 0)) = []"
proof -
  let ?c = "connection_open [] [] 0"
  have p: "parse_phoenix_message ref_codec first_reply = Some (''phoenix'', ''phx_reply'', JObject [], Some ''hb-100'')"
    using phoenix_roundtrip [OF ref_codec_ok, of "JObject []" None "''hb-100''" "''phoenix''" "''phx_reply''"]
    by (simp add: first_reply_def ref_codec_def obj_ok_def)
  have d: "dec (unat (100 :: u64)) = ''100''" "dec 100 = ''100''" by code_simp+
  have c: "cn_heartbeat ?c = Beat_Idle 100" "cn_writable ?c" "cn_reading ?c" "cn_disconnects ?c = []"
    by (simp_all add: connection_open_def)
  have "reply_read ref_codec transport_default (''hb-'' @ dec (unat (100 :: u64))) [Inbound 2 (Text first_reply)] (heartbeat_tick 1 ?c)"
    using c by (simp add: d is_reply_def p)
  moreover have "cn_disconnects (conn_run ref_codec transport_default [Heartbeat_tick 1, Inbound 2 (Text first_reply)] ?c) = []"
    using c by (simp add: heartbeat_tick_def send_beat_def Let_def read_frame_def p read_event_def split: option.split)
  ultimately show ?thesis
    using heartbeat_timeout_exact [OF c(1,2), of "[Inbound 2 (Text first_reply)]" ref_codec transport_default 1] by simp
qed

text \<open>
  A dead writer can go unnoticed. If the write task stops while the socket is still being
  read and nothing is pending, the next heartbeat and the next probe end their tasks without a
  report: from then on no timer ends the connection, only a frame that closes it would.
\<close>

theorem dead_writer_unnoticed:
  assumes "cn_disconnects c = []" and "cn_reading c" and "cn_heartbeat c = Beat_Idle n" and "cn_liveness c = Beat_Idle m"
    and "tc_liveness_timeout config \<le> later - cn_last_inbound c" and "frames_of es = []"
  shows "connection_outcome (conn_run codec config (Write_failed # Heartbeat_tick now # Liveness_tick later # es) c) = None"
proof -
  have silent: "cn_disconnects (conn_run codec config es c) = [] \<and> cn_reading (conn_run codec config es c)"
    if "cn_disconnects c = []" "cn_reading c" "cn_heartbeat c = Beat_Stopped" "cn_liveness c = Beat_Stopped" "frames_of es = []" for es c
    using that
  proof (induction es arbitrary: c)
    case (Cons e es)
    then show ?case by (cases e) (simp_all add: heartbeat_tick_def heartbeat_check_def liveness_tick_def liveness_check_def)
  qed simp
  let ?c = "conn_run codec config [Write_failed, Heartbeat_tick now, Liveness_tick later] c"
  have "cn_disconnects ?c = [] \<and> cn_reading ?c \<and> cn_heartbeat ?c = Beat_Stopped \<and> cn_liveness ?c = Beat_Stopped"
    using assms(1-5) by (simp add: heartbeat_tick_def liveness_tick_def send_beat_def Let_def)
  then show ?thesis using silent [of ?c es] assms(6) by (simp add: connection_outcome_def)
qed

theorem dead_writer_unnoticed_witness:
  "connection_outcome (conn_run ref_codec transport_default
     [Write_failed, Heartbeat_tick (secs 20), Liveness_tick (secs 30), Heartbeat_tick (secs 40), Heartbeat_check, Liveness_check]
     (connection_open [] [] 0)) = None"
  using dead_writer_unnoticed [of "connection_open [] [] 0" 100 5000 transport_default "secs 30"
      "[Heartbeat_tick (secs 40), Heartbeat_check, Liveness_check]" ref_codec "secs 20"]
  by (simp add: connection_open_def transport_default_def)

end
