(* ===== verification/Storage.thy ===== *)
theory Storage
  imports Edge Encryption
begin

text \<open>
  \<open>crates/polybase/src/storage.rs\<close>: one bucket of the storage service. Bodies are bytes here,
  so requests extend those of \<open>Http\<close> by a byte body, and a response carries its bytes and the text
  they read as. The service is a function of the requests before and the new one.
\<close>

section \<open>Types\<close>

record ObjectMetadata =
  om_size :: "nat option"
  om_mimetype :: "string option"

record ObjectEntry =
  oe_name :: string
  oe_id :: "string option"
  oe_metadata :: "ObjectMetadata option"
  oe_created_at :: "string option"
  oe_updated_at :: "string option"

record ListSort =
  ls_column :: string
  ls_order :: string

record ListOptions =
  lo_limit :: "u32 option"
  lo_offset :: "u32 option"
  lo_search :: "string option"
  lo_sort_by :: "ListSort option"

record storage_request = http_request +
  req_bytes :: "bytes option"

record storage_response =
  sr_status :: nat
  sr_bytes :: "string + bytes"
  sr_text :: "string + string"

record storage_env =
  sg_config :: ClientConfig
  sg_server :: "storage_request list \<Rightarrow> storage_request \<Rightarrow> string + storage_response"
  sg_codec :: json_codec
  sg_crypto :: crypto

record Bucket =
  bk_bucket :: string
  bk_encryption :: "(Encryption \<times> uuid) option"

definition bucket_new :: "string \<Rightarrow> Bucket" where
  "bucket_new bucket = \<lparr>bk_bucket = bucket, bk_encryption = None\<rparr>"

definition with_encryption :: "Encryption \<Rightarrow> uuid \<Rightarrow> Bucket \<Rightarrow> Bucket" where
  "with_encryption encryption user_id b = b\<lparr>bk_encryption := Some (encryption, user_id)\<rparr>"

definition bucket_is_encrypted :: "Bucket \<Rightarrow> bool" where
  "bucket_is_encrypted b \<longleftrightarrow> bk_encryption b \<noteq> None"

section \<open>Encryption\<close>

definition storage_failed :: "Bucket \<Rightarrow> string \<Rightarrow> string \<Rightarrow> PolyError" where
  "storage_failed b path message = Poly_Storage (Storage_Failed (bk_bucket b) path message)"

definition maybe_encrypt :: "crypto \<Rightarrow> bytes \<Rightarrow> Bucket \<Rightarrow> string \<Rightarrow> bytes \<Rightarrow> PolyError + bytes" where
  "maybe_encrypt cr nonce b path bs =
     (case bk_encryption b of
        None \<Rightarrow> Inr bs
      | Some (enc, user) \<Rightarrow>
          map_err (\<lambda>e. storage_failed b path (''encrypt: '' @ encryption_display e)) (encrypt_data cr enc nonce bs user))"

definition maybe_decrypt :: "crypto \<Rightarrow> Bucket \<Rightarrow> string \<Rightarrow> bytes \<Rightarrow> PolyError + bytes" where
  "maybe_decrypt cr b path bs =
     (case bk_encryption b of
        None \<Rightarrow> Inr bs
      | Some (enc, user) \<Rightarrow>
          (if \<not> is_data_encrypted bs then Inr bs
           else map_err (\<lambda>e. storage_failed b path (''decrypt: '' @ encryption_display e)) (decrypt_data cr enc bs user)))"

section \<open>Objects\<close>

type_synonym 'a storage_call = "storage_request list \<Rightarrow> (PolyError + 'a) \<times> storage_request list"

definition storage_send :: "storage_env \<Rightarrow> storage_request \<Rightarrow> storage_response storage_call" where
  "storage_send env r sent = (map_err Poly_Http (sg_server env sent r), sent @ [r])"

definition storage_text :: "storage_response \<Rightarrow> string" where
  "storage_text resp = (case sr_text resp of Inl _ \<Rightarrow> [] | Inr t \<Rightarrow> t)"

definition http_failure :: "Bucket \<Rightarrow> string \<Rightarrow> storage_response \<Rightarrow> PolyError" where
  "http_failure b path resp = storage_failed b path (http_message (sr_status resp) (storage_text resp))"

definition upload_request :: "storage_env \<Rightarrow> Bucket \<Rightarrow> string \<Rightarrow> bytes \<Rightarrow> string \<Rightarrow> string \<Rightarrow> bool \<Rightarrow> storage_request" where
  "upload_request env b path body content_type access_token upsert =
     \<lparr>req_method = POST, req_url = storage_object_url (sg_config env) (bk_bucket b) path,
      req_headers = auth_headers (sg_config env) access_token
        @ [(''Content-Type'', content_type), (''x-upsert'', if upsert then ''true'' else ''false'')],
      req_query = [], req_body = None, req_bytes = Some body\<rparr>"

definition object_request :: "storage_env \<Rightarrow> Bucket \<Rightarrow> http_method \<Rightarrow> string \<Rightarrow> string \<Rightarrow> storage_request" where
  "object_request env b method path access_token =
     \<lparr>req_method = method, req_url = storage_object_url (sg_config env) (bk_bucket b) path,
      req_headers = auth_headers (sg_config env) access_token, req_query = [], req_body = None, req_bytes = None\<rparr>"

definition storage_upload ::
  "storage_env \<Rightarrow> bytes \<Rightarrow> Bucket \<Rightarrow> string \<Rightarrow> bytes \<Rightarrow> string \<Rightarrow> string \<Rightarrow> bool \<Rightarrow> unit storage_call" where
  "storage_upload env nonce b path bs content_type access_token upsert sent =
     (case maybe_encrypt (sg_crypto env) nonce b path bs of
        Inl e \<Rightarrow> (Inl e, sent)
      | Inr body \<Rightarrow>
          (case storage_send env (upload_request env b path body content_type access_token upsert) sent of
             (Inl e, sent') \<Rightarrow> (Inl e, sent')
           | (Inr resp, sent') \<Rightarrow>
               (if status_success (sr_status resp) then (Inr (), sent') else (Inl (http_failure b path resp), sent'))))"

definition storage_not_found :: "Bucket \<Rightarrow> string \<Rightarrow> PolyError" where
  "storage_not_found b path = Poly_Storage (Storage_NotFound (bk_bucket b) path)"

definition storage_download :: "storage_env \<Rightarrow> Bucket \<Rightarrow> string \<Rightarrow> string \<Rightarrow> bytes storage_call" where
  "storage_download env b path access_token sent =
     (case storage_send env (object_request env b GET path access_token) sent of
        (Inl e, sent') \<Rightarrow> (Inl e, sent')
      | (Inr resp, sent') \<Rightarrow>
          (if sr_status resp = 404 then (Inl (storage_not_found b path), sent')
           else if \<not> status_success (sr_status resp) then (Inl (http_failure b path resp), sent')
           else
             (case sr_bytes resp of
                Inl e \<Rightarrow> (Inl (Poly_Http e), sent')
              | Inr bs \<Rightarrow> (maybe_decrypt (sg_crypto env) b path bs, sent'))))"

definition storage_delete :: "storage_env \<Rightarrow> Bucket \<Rightarrow> string \<Rightarrow> string \<Rightarrow> unit storage_call" where
  "storage_delete env b path access_token sent =
     (case storage_send env (object_request env b DELETE path access_token) sent of
        (Inl e, sent') \<Rightarrow> (Inl e, sent')
      | (Inr resp, sent') \<Rightarrow>
          (if \<not> status_success (sr_status resp) \<and> sr_status resp \<noteq> 404
           then (Inl (http_failure b path resp), sent') else (Inr (), sent')))"

section \<open>Listing and signing\<close>

definition json_of_u32 :: "u32 \<Rightarrow> json" where
  "json_of_u32 n = JInt (int (unat n))"

definition list_body :: "string \<Rightarrow> ListOptions \<Rightarrow> json" where
  "list_body prefix options =
     JObject (obj_of_list
       ([(''prefix'', JString prefix)]
        @ (case lo_limit options of None \<Rightarrow> [] | Some limit \<Rightarrow> [(''limit'', json_of_u32 limit)])
        @ (case lo_offset options of None \<Rightarrow> [] | Some offset \<Rightarrow> [(''offset'', json_of_u32 offset)])
        @ (case lo_search options of None \<Rightarrow> [] | Some search \<Rightarrow> [(''search'', JString search)])
        @ (case lo_sort_by options of None \<Rightarrow> []
           | Some srt \<Rightarrow> [(''sortBy'', JObject (obj_of_list
               [(''column'', JString (ls_column srt)), (''order'', JString (ls_order srt))]))])))"

definition as_u64 :: "json \<Rightarrow> nat option" where
  "as_u64 v = (case v of JInt i \<Rightarrow> if 0 \<le> i \<and> i < 2 ^ 64 then Some (nat i) else None | _ \<Rightarrow> None)"

definition metadata_from_json :: "json \<Rightarrow> ObjectMetadata option" where
  "metadata_from_json v =
     (case v of
        JObject m \<Rightarrow>
          (case (opt_field as_u64 m ''size'', opt_field as_str m ''mimetype'') of
             (Some s, Some t) \<Rightarrow> Some \<lparr>om_size = s, om_mimetype = t\<rparr>
           | _ \<Rightarrow> None)
      | _ \<Rightarrow> None)"

definition entry_from_json :: "json \<Rightarrow> ObjectEntry option" where
  "entry_from_json v =
     (case v of
        JObject m \<Rightarrow>
          (case (get_str m ''name'', opt_field as_str m ''id'', opt_field metadata_from_json m ''metadata'',
                 opt_field as_str m ''created_at'', opt_field as_str m ''updated_at'') of
             (Some n, Some i, Some md, Some c, Some u) \<Rightarrow>
               Some \<lparr>oe_name = n, oe_id = i, oe_metadata = md, oe_created_at = c, oe_updated_at = u\<rparr>
           | _ \<Rightarrow> None)
      | _ \<Rightarrow> None)"

fun collect_options :: "'a option list \<Rightarrow> 'a list option" where
  "collect_options [] = Some []"
| "collect_options (None # xs) = None"
| "collect_options (Some x # xs) = map_option ((#) x) (collect_options xs)"

definition entries_from_json :: "json \<Rightarrow> ObjectEntry list option" where
  "entries_from_json v = Option.bind (as_array v) (\<lambda>vs. collect_options (map entry_from_json vs))"

definition json_request :: "storage_env \<Rightarrow> string \<Rightarrow> json \<Rightarrow> string \<Rightarrow> storage_request" where
  "json_request env url body access_token =
     \<lparr>req_method = POST, req_url = url,
      req_headers = auth_headers (sg_config env) access_token @ [(''Content-Type'', ''application/json'')],
      req_query = [], req_body = Some body, req_bytes = None\<rparr>"

text \<open>\<open>resp.json().await?\<close>: unreadable or undecodable bodies are transport errors.\<close>

definition storage_json :: "storage_env \<Rightarrow> (json \<Rightarrow> 'a option) \<Rightarrow> storage_response \<Rightarrow> PolyError + 'a" where
  "storage_json env decode resp =
     (case sr_text resp of
        Inl e \<Rightarrow> Inl (Poly_Http e)
      | Inr t \<Rightarrow>
          (case parse (sg_codec env) t of
             Inl e \<Rightarrow> Inl (Poly_Http e)
           | Inr v \<Rightarrow> (case decode v of None \<Rightarrow> Inl (Poly_Http ''error decoding response body'') | Some x \<Rightarrow> Inr x)))"

definition storage_list ::
  "storage_env \<Rightarrow> Bucket \<Rightarrow> string \<Rightarrow> ListOptions \<Rightarrow> string \<Rightarrow> ObjectEntry list storage_call" where
  "storage_list env b prefix options access_token sent =
     (let url = trim_end_slash (supabase_url (sg_config env)) @ ''/storage/v1/object/list/'' @ bk_bucket b
      in case storage_send env (json_request env url (list_body prefix options) access_token) sent of
           (Inl e, sent') \<Rightarrow> (Inl e, sent')
         | (Inr resp, sent') \<Rightarrow>
             (if \<not> status_success (sr_status resp) then (Inl (http_failure b prefix resp), sent')
              else (storage_json env entries_from_json resp, sent')))"

definition signed_from_json :: "json \<Rightarrow> string option" where
  "signed_from_json v = Option.bind (as_object v) (\<lambda>m. get_str m ''signedURL'')"

definition create_signed_url :: "storage_env \<Rightarrow> Bucket \<Rightarrow> string \<Rightarrow> u32 \<Rightarrow> string \<Rightarrow> string storage_call" where
  "create_signed_url env b path expires_in_seconds access_token sent =
     (let base = trim_end_slash (supabase_url (sg_config env));
          url = base @ ''/storage/v1/object/sign/'' @ bk_bucket b @ ''/'' @ trim_start_slash path;
          body = JObject (obj_of_list [(''expiresIn'', json_of_u32 expires_in_seconds)])
      in case storage_send env (json_request env url body access_token) sent of
           (Inl e, sent') \<Rightarrow> (Inl e, sent')
         | (Inr resp, sent') \<Rightarrow>
             (if sr_status resp = 404 then (Inl (storage_not_found b path), sent')
              else if \<not> status_success (sr_status resp) then (Inl (http_failure b path resp), sent')
              else
                (case storage_json env signed_from_json resp of
                   Inl e \<Rightarrow> (Inl e, sent')
                 | Inr link \<Rightarrow> (Inr (base @ ''/storage/v1/'' @ trim_start_slash link), sent'))))"

section \<open>Properties\<close>

lemma decrypt_undoes_encrypt:
  assumes "crypto_ok cr" and "length nonce = 12" and "maybe_encrypt cr nonce b path bs = Inr body"
  shows "maybe_decrypt cr b path body = Inr bs"
proof (cases "bk_encryption b")
  case None
  then show ?thesis using assms(3) by (simp add: maybe_encrypt_def maybe_decrypt_def)
next
  case (Some p)
  obtain enc u where p: "p = (enc, u)" by (cases p)
  have e: "encrypt_data cr enc nonce bs u = Inr body"
    using assms(3) Some p by (cases "encrypt_data cr enc nonce bs u") (simp_all add: maybe_encrypt_def)
  then have "decrypt_data cr enc body u = Inr bs" by (rule decrypt_data_encrypt_data [OF assms(1,2)])
  then show ?thesis by (simp add: maybe_decrypt_def Some p decrypt_data_def split: if_splits)
qed

lemma maybe_encrypt_header:
  assumes "maybe_encrypt cr nonce b path bs = Inr body" and "bk_encryption b \<noteq> None" and "bs \<noteq> []"
  shows "is_data_encrypted body"
proof -
  obtain enc u where b: "bk_encryption b = Some (enc, u)" using assms(2) by auto
  have "encrypt_data cr enc nonce bs u = Inr body"
    using assms(1) b by (cases "encrypt_data cr enc nonce bs u") (simp_all add: maybe_encrypt_def)
  then show ?thesis using assms(3)
    by (auto simp: encrypt_data_def is_data_encrypted_def BINARY_ENCRYPTION_HEADER_def split: sum.splits)
qed

text \<open>
  C34: an object comes back as it was uploaded, for every answer the service may give. An acknowledged upload
  sent one body, which is ciphertext where the bucket encrypts (the empty object apart), and what a later
  download of the path makes of its answer is decided by the answer alone: a success with that body gives the
  uploaded bytes, those that look like ciphertext included; a success with other bytes (an older copy)
  gives these bytes, decrypted where they are marked as ciphertext; a 404 is a missing object, any other
  status a failure, and a transport or body error a transport error.
\<close>

theorem storage_roundtrip:
  assumes "crypto_ok (sg_crypto env)" and "length nonce = 12"
    and "storage_upload env nonce b path bs content_type token upsert sent = (Inr (), sent1)"
  shows "\<exists>body. sent1 = sent @ [upload_request env b path body content_type token upsert]
    \<and> (bk_encryption b \<noteq> None \<and> bs \<noteq> [] \<longrightarrow> is_data_encrypted body)
    \<and> (let get = object_request env b GET path token'
       in req_url get = req_url (upload_request env b path body content_type token upsert)
          \<and> storage_download env b path token' later =
             (case sg_server env later get of
                Inl e \<Rightarrow> Inl (Poly_Http e)
              | Inr answer \<Rightarrow>
                  if sr_status answer = 404 then Inl (storage_not_found b path)
                  else if \<not> status_success (sr_status answer) then Inl (http_failure b path answer)
                  else (case sr_bytes answer of
                          Inl e \<Rightarrow> Inl (Poly_Http e)
                        | Inr data \<Rightarrow> if data = body then Inr bs else maybe_decrypt (sg_crypto env) b path data),
              later @ [get]))"
proof -
  obtain body where body: "maybe_encrypt (sg_crypto env) nonce b path bs = Inr body"
    using assms(3) by (auto simp: storage_upload_def split: sum.splits)
  have sent: "sent1 = sent @ [upload_request env b path body content_type token upsert]"
    using assms(3) body
    by (cases "sg_server env sent (upload_request env b path body content_type token upsert)")
      (auto simp: storage_upload_def storage_send_def split: if_splits)
  show ?thesis
    using sent maybe_encrypt_header [OF body] decrypt_undoes_encrypt [OF assms(1,2) body]
    by (intro exI [of _ body])
      (auto simp: storage_download_def storage_send_def upload_request_def object_request_def Let_def
        split: sum.split)
qed

text \<open>A service that keeps the last upload of each URL.\<close>

definition keeping_server :: "storage_request list \<Rightarrow> storage_request \<Rightarrow> string + storage_response" where
  "keeping_server sent r =
     (if req_method r = GET then
        (case find (\<lambda>u. req_method u = POST \<and> req_url u = req_url r \<and> req_bytes u \<noteq> None) (rev sent) of
           None \<Rightarrow> Inr \<lparr>sr_status = 404, sr_bytes = Inr [], sr_text = Inr []\<rparr>
         | Some u \<Rightarrow> Inr \<lparr>sr_status = 200, sr_bytes = Inr (unwrap_or [] (req_bytes u)), sr_text = Inr []\<rparr>)
      else Inr \<lparr>sr_status = 200, sr_bytes = Inr [], sr_text = Inr []\<rparr>)"

definition keeping_env :: storage_env where
  "keeping_env = \<lparr>sg_config = \<lparr>supabase_url = ''u'', supabase_anon_key = ''k'', encryption_secret = None, storage_bucket = None\<rparr>,
     sg_server = keeping_server, sg_codec = ref_codec, sg_crypto = toy_crypto\<rparr>"

theorem storage_roundtrip_witness:
  "fst (storage_download keeping_env (with_encryption toy_encryption 5 (bucket_new ''b'')) ''p'' ''t''
     (snd (storage_upload keeping_env (replicate 12 0) (with_encryption toy_encryption 5 (bucket_new ''b'')) ''p'' [1, 2] ''x'' ''t'' True [])))
   = Inr [1, 2]"
proof -
  let ?b = "with_encryption toy_encryption 5 (bucket_new ''b'')"
  let ?r = "storage_upload keeping_env (replicate 12 0) ?b ''p'' [1, 2] ''x'' ''t'' True []"
  have "fst ?r = Inr ()"
    by (simp add: storage_upload_def maybe_encrypt_def with_encryption_def bucket_new_def keeping_env_def encrypt_data_def
        derive_key_def toy_crypto_def storage_send_def keeping_server_def upload_request_def status_success_def)
  then obtain sent1 where r: "?r = (Inr (), sent1)" by (metis prod.collapse)
  have "crypto_ok (sg_crypto keeping_env)" by (simp add: keeping_env_def)
  from storage_roundtrip [OF this _ r, where token' = "''t''" and later = sent1]
  obtain body where sent1: "sent1 = [upload_request keeping_env ?b ''p'' body ''x'' ''t'' True]"
    and down: "storage_download keeping_env ?b ''p'' ''t'' sent1 =
             (case sg_server keeping_env sent1 (object_request keeping_env ?b GET ''p'' ''t'') of
                Inl e \<Rightarrow> Inl (Poly_Http e)
              | Inr answer \<Rightarrow>
                  if sr_status answer = 404 then Inl (storage_not_found ?b ''p'')
                  else if \<not> status_success (sr_status answer) then Inl (http_failure ?b ''p'' answer)
                  else (case sr_bytes answer of
                          Inl e \<Rightarrow> Inl (Poly_Http e)
                        | Inr data \<Rightarrow> if data = body then Inr [1, 2] else maybe_decrypt (sg_crypto keeping_env) ?b ''p'' data),
              sent1 @ [object_request keeping_env ?b GET ''p'' ''t''])"
    by (auto simp: Let_def)
  have "sg_server keeping_env sent1 (object_request keeping_env ?b GET ''p'' ''t'') = Inr \<lparr>sr_status = 200, sr_bytes = Inr body, sr_text = Inr []\<rparr>"
    by (simp add: sent1 keeping_env_def keeping_server_def upload_request_def object_request_def)
  then show ?thesis using down by (simp add: r status_success_def)
qed

text \<open>
  How the answers of the service are classified. Once the service answers, an upload succeeds
  exactly on 2xx, a deletion on 2xx and on 404 (deleting what is not there is no error), and a download
  reports a missing object exactly on 404.
\<close>

theorem storage_status_exact:
  assumes up: "sg_server env sent (upload_request env b path body ct tok upsert) = Inr r"
    and body: "maybe_encrypt (sg_crypto env) nonce b path bs = Inr body"
    and del: "sg_server env sent (object_request env b DELETE path tok) = Inr d"
    and get: "sg_server env sent (object_request env b GET path tok) = Inr g"
  shows "(fst (storage_upload env nonce b path bs ct tok upsert sent) = Inr () \<longleftrightarrow> status_success (sr_status r))
    \<and> (fst (storage_delete env b path tok sent) = Inr () \<longleftrightarrow> status_success (sr_status d) \<or> sr_status d = 404)
    \<and> (fst (storage_download env b path tok sent) = Inl (storage_not_found b path) \<longleftrightarrow> sr_status g = 404)"
proof (intro conjI)
  show "fst (storage_upload env nonce b path bs ct tok upsert sent) = Inr () \<longleftrightarrow> status_success (sr_status r)"
    using up body by (simp add: storage_upload_def storage_send_def)
  show "fst (storage_delete env b path tok sent) = Inr () \<longleftrightarrow> status_success (sr_status d) \<or> sr_status d = 404"
    using del by (simp add: storage_delete_def storage_send_def)
  have "maybe_decrypt (sg_crypto env) b path x \<noteq> Inl (storage_not_found b path)" for x
    by (simp add: maybe_decrypt_def storage_not_found_def storage_failed_def map_err_def split: option.splits sum.splits prod.splits)
  then show "fst (storage_download env b path tok sent) = Inl (storage_not_found b path) \<longleftrightarrow> sr_status g = 404"
    using get by (simp add: storage_download_def storage_send_def storage_failed_def http_failure_def
        storage_not_found_def split: sum.splits)
qed

theorem storage_status_exact_witness:
  "fst (storage_download keeping_env (bucket_new ''b'') ''p'' ''t'' []) = Inl (storage_not_found (bucket_new ''b'') ''p'')"
proof -
  let ?b = "bucket_new ''b''"
  let ?r = "\<lparr>sr_status = 200, sr_bytes = Inr [], sr_text = Inr []\<rparr>"
  have "sg_server keeping_env [] (upload_request keeping_env ?b ''p'' [] ''x'' ''t'' True) = Inr ?r"
    and "maybe_encrypt (sg_crypto keeping_env) [] ?b ''p'' [] = Inr []"
    and "sg_server keeping_env [] (object_request keeping_env ?b DELETE ''p'' ''t'') = Inr ?r"
    and "sg_server keeping_env [] (object_request keeping_env ?b GET ''p'' ''t'') = Inr (?r\<lparr>sr_status := 404\<rparr>)"
    by (simp_all add: keeping_env_def keeping_server_def upload_request_def object_request_def maybe_encrypt_def bucket_new_def)
  from storage_status_exact [OF this] show ?thesis by simp
qed

end
