(* ===== verification/Clean.thy ===== *)
theory Clean
  imports Strings
begin

text \<open>
  \<open>crates/polylog/src/clean.rs\<close>: the clean-up of debug-formatted log fields. Strings are their
  UTF-8 bytes; the characters the code compares with are ASCII, which no byte of a longer
  encoding equals, so stepping by bytes and stepping by characters accept the same inputs
  and produce the same outputs. A parser position is the string that remains.
\<close>

section \<open>Option wrappers\<close>

abbreviation backslash :: char where "backslash \<equiv> CHR 0x5C"

text \<open>The rest of a string literal after its opening quote: where it ends and what follows.\<close>

fun skip_literal :: "nat \<Rightarrow> string \<Rightarrow> (nat \<times> string) option" where
  "skip_literal i [] = None"
| "skip_literal i (c # s) =
     (if c = backslash then (case s of [] \<Rightarrow> None | _ # s' \<Rightarrow> skip_literal (i + 2) s')
      else if c = dquote then Some (i + 1, s)
      else skip_literal (i + 1) s)"

lemma skip_literal_shorter: "skip_literal i s = Some (j, s') \<Longrightarrow> length s' < length s"
  by (induction i s rule: skip_literal.induct) (fastforce split: if_splits list.splits)+

function scan_parens :: "nat \<Rightarrow> nat \<Rightarrow> string \<Rightarrow> nat option" where
  "scan_parens depth i [] = None"
| "scan_parens depth i (c # s) =
     (if c = dquote then
        (case skip_literal (i + 1) s of None \<Rightarrow> None | Some (j, s') \<Rightarrow> scan_parens depth j s')
      else if c = CHR ''('' then scan_parens (depth + 1) (i + 1) s
      else if c = CHR '')'' then (if depth - 1 = 0 then Some i else scan_parens (depth - 1) (i + 1) s)
      else scan_parens depth (i + 1) s)"
  by pat_completeness auto
termination
  by (relation "measure (\<lambda>(_, _, s). length s)") (auto dest: skip_literal_shorter)

definition find_matching_close_paren :: "string \<Rightarrow> nat option" where
  "find_matching_close_paren s = scan_parens 1 0 s"

definition try_strip_some :: "string \<Rightarrow> string option" where
  "try_strip_some s =
     (case strip_prefix s ''Some('' of
        None \<Rightarrow> None
      | Some inner \<Rightarrow>
          (case find_matching_close_paren inner of
             None \<Rightarrow> None
           | Some close \<Rightarrow> if close = length inner - 1 then Some (take close inner) else None))"

lemma try_strip_some_shorter: "try_strip_some s = Some inner \<Longrightarrow> length inner < length s"
  by (auto simp: try_strip_some_def split: option.splits if_splits)

function strip_some_wrappers :: "string \<Rightarrow> string" where
  "strip_some_wrappers s = (case try_strip_some s of None \<Rightarrow> s | Some inner \<Rightarrow> strip_some_wrappers inner)"
  by pat_completeness auto
termination
  by (relation "measure length") (auto dest: try_strip_some_shorter)

declare strip_some_wrappers.simps [simp del]

section \<open>The rewriter\<close>

definition is_ascii_whitespace :: "char \<Rightarrow> bool" where
  "is_ascii_whitespace c \<longleftrightarrow> (of_char c :: nat) \<in> {9, 10, 12, 13, 32}"

definition skip_ws :: "string \<Rightarrow> string" where
  "skip_ws s = dropWhile is_ascii_whitespace s"

text \<open>Each parser returns what it wrote and what remains, or nothing where the code returns false.\<close>

type_synonym 'a parse_result = "('a \<times> string) option"

fun parse_literal_body :: "string \<Rightarrow> string parse_result" where
  "parse_literal_body [] = None"
| "parse_literal_body (c # s) =
     (if c = dquote then Some ([dquote], s)
      else if c = backslash then
        (case s of
           [] \<Rightarrow> None
         | d # s' \<Rightarrow> (case parse_literal_body s' of None \<Rightarrow> None | Some (out, r) \<Rightarrow> Some (backslash # d # out, r)))
      else (case parse_literal_body s of None \<Rightarrow> None | Some (out, r) \<Rightarrow> Some (c # out, r)))"

definition parse_rust_string :: "string \<Rightarrow> string parse_result" where
  "parse_rust_string s =
     (case s of
        [] \<Rightarrow> None
      | c # s' \<Rightarrow>
          (if c \<noteq> dquote then None
           else (case parse_literal_body s' of None \<Rightarrow> None | Some (out, r) \<Rightarrow> Some (dquote # out, r))))"

definition eat_close :: "string parse_result \<Rightarrow> string parse_result" where
  "eat_close p =
     (case p of None \<Rightarrow> None | Some (out, r) \<Rightarrow> map_option (\<lambda>r'. (out, r')) (strip_prefix r '')''))"

definition parse_number :: "string \<Rightarrow> string parse_result" where
  "parse_number s =
     (let num = takeWhile (\<lambda>c. c \<noteq> CHR '')'') s
      in if num = [] then None else eat_close (Some (num, drop (length num) s)))"

definition scalar :: "string \<Rightarrow> string parse_result" where
  "scalar s =
     (if starts_with s ''String('' then eat_close (parse_rust_string (drop 7 s))
      else if starts_with s ''Number('' then parse_number (drop 7 s)
      else if starts_with s ''Bool(true)'' then Some (''true'', drop 10 s)
      else if starts_with s ''Bool(false)'' then Some (''false'', drop 11 s)
      else if starts_with s ''Null'' then Some (''null'', drop 4 s)
      else None)"

definition separator :: "bool \<Rightarrow> string \<Rightarrow> string option" where
  "separator first s = (if first then Some s else strip_prefix s '', '')"

definition separator_text :: "bool \<Rightarrow> string" where
  "separator_text first = (if first then [] else '', '')"

definition closing :: "char \<Rightarrow> string \<Rightarrow> string option" where
  "closing c s = (case s of [] \<Rightarrow> None | d # r \<Rightarrow> if d = c then Some r else None)"

text \<open>
  The parser of a value with the loops over the members of an object and the elements of an
  array. That the loops end is not structural: they go on with what a nested value left.
\<close>

function parse_value :: "string \<Rightarrow> string parse_result"
  and parse_members :: "bool \<Rightarrow> string \<Rightarrow> string parse_result"
  and parse_elements :: "bool \<Rightarrow> string \<Rightarrow> string parse_result" where
  "parse_value s =
     (if starts_with s ''Object {'' then
        (let s1 = skip_ws (drop 8 s)
         in case closing (CHR ''}'') s1 of
              Some r \<Rightarrow> Some (''{}'', r)
            | None \<Rightarrow> map_option (\<lambda>(out, r). (CHR ''{'' # out, r)) (parse_members True s1))
      else if starts_with s ''Array ['' then
        (let s1 = skip_ws (drop 7 s)
         in case closing (CHR '']'') s1 of
              Some r \<Rightarrow> Some (''[]'', r)
            | None \<Rightarrow> map_option (\<lambda>(out, r). (CHR ''['' # out, r)) (parse_elements True s1))
      else scalar s)"
| "parse_members first s =
     (case separator first s of
        None \<Rightarrow> None
      | Some s1 \<Rightarrow>
          (case parse_rust_string s1 of
             None \<Rightarrow> None
           | Some (k, s2) \<Rightarrow>
               (case strip_prefix s2 '': '' of
                  None \<Rightarrow> None
                | Some s3 \<Rightarrow>
                    (case parse_value s3 of
                       None \<Rightarrow> None
                     | Some (v, s4) \<Rightarrow>
                         (case closing (CHR ''}'') (skip_ws s4) of
                            Some r \<Rightarrow> Some (separator_text first @ k @ '': '' @ v @ ''}'', r)
                          | None \<Rightarrow>
                              map_option (\<lambda>(out, r). (separator_text first @ k @ '': '' @ v @ out, r))
                                (parse_members False (skip_ws s4)))))))"
| "parse_elements first s =
     (case separator first s of
        None \<Rightarrow> None
      | Some s1 \<Rightarrow>
          (case parse_value s1 of
             None \<Rightarrow> None
           | Some (v, s2) \<Rightarrow>
               (case closing (CHR '']'') (skip_ws s2) of
                  Some r \<Rightarrow> Some (separator_text first @ v @ '']'', r)
                | None \<Rightarrow>
                    map_option (\<lambda>(out, r). (separator_text first @ v @ out, r)) (parse_elements False (skip_ws s2)))))"
  by pat_completeness auto

subsection \<open>Termination\<close>

lemma closing_shorter [dest]: "closing c s = Some r \<Longrightarrow> length r < length s"
  by (auto simp: closing_def split: list.splits if_splits)

lemma skip_ws_length: "length (skip_ws s) \<le> length s"
  by (simp add: skip_ws_def length_dropWhile_le)

text \<open>A parser that succeeds consumes at least what it writes, and writes something.\<close>

definition consumes :: "string \<Rightarrow> string \<Rightarrow> string \<Rightarrow> bool" where
  "consumes s out r \<longleftrightarrow> out \<noteq> [] \<and> length out + length r \<le> length s"

lemma consumes_shorter [dest]: "consumes s out r \<Longrightarrow> length r < length s"
  by (cases out) (auto simp: consumes_def)

lemma literal_body_consumes: "parse_literal_body s = Some (out, r) \<Longrightarrow> consumes s out r"
proof (induction s arbitrary: out r rule: parse_literal_body.induct)
  case (2 c s)
  then show ?case
    by (cases s) (fastforce simp: consumes_def split: if_splits option.splits)+
qed simp

lemma rust_string_consumes: "parse_rust_string s = Some (out, r) \<Longrightarrow> consumes s out r"
  using literal_body_consumes
  by (fastforce simp: parse_rust_string_def consumes_def split: list.splits if_splits option.splits)

lemma eat_close_consumes: "eat_close p = Some (out, r) \<Longrightarrow> \<exists>r'. p = Some (out, r') \<and> length r < length r'"
  by (auto simp: eat_close_def split: option.splits)

lemma scalar_consumes:
  assumes "scalar s = Some (out, r)"
  shows "consumes s out r"
proof -
  consider (str) t where "s = ''String('' @ t" "eat_close (parse_rust_string t) = Some (out, r)"
    | (num) t where "s = ''Number('' @ t" "parse_number t = Some (out, r)"
    | (other) "consumes s out r"
    using assms by (auto simp: scalar_def starts_with_iff consumes_def split: if_splits)
  then show ?thesis
  proof cases
    case str
    then show ?thesis using rust_string_consumes eat_close_consumes by (fastforce simp: consumes_def)
  next
    case num
    then have "out \<noteq> []" "length r < length (drop (length out) t)" "length out \<le> length t"
      by (auto simp: parse_number_def Let_def length_takeWhile_le dest!: eat_close_consumes split: if_splits)
    then show ?thesis using num(1) by (simp add: consumes_def)
  qed
qed

lemma opened_shorter:
  "starts_with s ''Object {'' \<Longrightarrow> length (skip_ws (drop 8 s)) + 8 \<le> length s"
  "starts_with s ''Array ['' \<Longrightarrow> length (skip_ws (drop 7 s)) + 7 \<le> length s"
  using skip_ws_length [of "drop 8 s"] skip_ws_length [of "drop 7 s"] by (auto simp: starts_with_iff)

text \<open>The last steps of an object or an array and of one round of their loops.\<close>

lemma consumes_closed:
  "consumes s v s2 \<Longrightarrow> closing c (skip_ws s2) = Some r \<Longrightarrow> length (v @ x) \<le> length v + 1 \<Longrightarrow> consumes s (v @ x) r"
  using skip_ws_length [of s2] closing_shorter [of c "skip_ws s2" r] by (auto simp: consumes_def)

lemma consumes_more: "consumes s v s2 \<Longrightarrow> consumes (skip_ws s2) out r \<Longrightarrow> consumes s (v @ out) r"
  using skip_ws_length [of s2] by (auto simp: consumes_def)

lemma separator_length: "separator first s = Some s1 \<Longrightarrow> length s = length (separator_text first) + length s1"
  by (auto simp: separator_def separator_text_def split: if_splits)

lemma consumes_separator: "separator first s = Some s1 \<Longrightarrow> consumes s1 out r \<Longrightarrow> consumes s (separator_text first @ out) r"
  using separator_length [of first s s1] by (auto simp: consumes_def)

lemma consumes_member:
  "parse_rust_string s1 = Some (k, '': '' @ s3) \<Longrightarrow> consumes s3 v s4 \<Longrightarrow> consumes s1 (k @ '': '' @ v) s4"
  using rust_string_consumes [of s1 k "'': '' @ s3"] by (auto simp: consumes_def)

lemma parsers_consume:
  "parse_value_parse_members_parse_elements_dom (Inl s) \<Longrightarrow> parse_value s = Some (out, r) \<Longrightarrow> consumes s out r"
  "parse_value_parse_members_parse_elements_dom (Inr (Inl (first, s)))
     \<Longrightarrow> parse_members first s = Some (out, r) \<Longrightarrow> consumes s out r"
  "parse_value_parse_members_parse_elements_dom (Inr (Inr (first, s)))
     \<Longrightarrow> parse_elements first s = Some (out, r) \<Longrightarrow> consumes s out r"
proof (induction s and first s and first s arbitrary: out r and out r and out r
    rule: parse_value_parse_members_parse_elements.pinduct)
  case (1 s)
  note run = "1.prems" [unfolded parse_value.psimps [OF "1.hyps"] Let_def]
  consider (obj) "starts_with s ''Object {''" | (arr) "\<not> starts_with s ''Object {''" "starts_with s ''Array [''"
    | (other) "\<not> starts_with s ''Object {''" "\<not> starts_with s ''Array [''" by blast
  then show ?case
  proof cases
    case obj
    note o = opened_shorter(1) [OF obj]
    show ?thesis
    proof (cases "closing (CHR ''}'') (skip_ws (drop 8 s))")
      case None
      then obtain out' where "parse_members True (skip_ws (drop 8 s)) = Some (out', r)" "out = CHR ''{'' # out'"
        using run obj by auto
      then show ?thesis using "1.IH"(1) [OF obj refl None] o by (fastforce simp: consumes_def)
    next
      case (Some r')
      then show ?thesis using run obj o closing_shorter [OF Some] by (auto simp: consumes_def)
    qed
  next
    case arr
    note o = opened_shorter(2) [OF arr(2)]
    show ?thesis
    proof (cases "closing (CHR '']'') (skip_ws (drop 7 s))")
      case None
      then obtain out' where "parse_elements True (skip_ws (drop 7 s)) = Some (out', r)" "out = CHR ''['' # out'"
        using run arr by auto
      then show ?thesis using "1.IH"(2) [OF arr refl None] o by (fastforce simp: consumes_def)
    next
      case (Some r')
      then show ?thesis using run arr o closing_shorter [OF Some] by (auto simp: consumes_def)
    qed
  next
    case other
    then show ?thesis using run scalar_consumes by simp
  qed
next
  case (2 first s)
  note run = "2.prems" [unfolded parse_members.psimps [OF "2.hyps"]]
  obtain s1 k s3 v s4 where c: "separator first s = Some s1" "parse_rust_string s1 = Some (k, '': '' @ s3)"
    "strip_prefix ('': '' @ s3) '': '' = Some s3" "parse_value s3 = Some (v, s4)"
    and t: "closing (CHR ''}'') (skip_ws s4) = Some r \<and> out = separator_text first @ (k @ '': '' @ v) @ ''}''
      \<or> closing (CHR ''}'') (skip_ws s4) = None
      \<and> (\<exists>out'. parse_members False (skip_ws s4) = Some (out', r) \<and> out = separator_text first @ (k @ '': '' @ v) @ out')"
    using run by (auto split: option.splits)
  have m: "consumes s1 (k @ '': '' @ v) s4" by (rule consumes_member [OF c(2) "2.IH"(1) [OF c(1,2) refl c(3,4)]])
  from t show ?case
  proof (elim disjE conjE exE)
    assume "closing (CHR ''}'') (skip_ws s4) = Some r" "out = separator_text first @ (k @ '': '' @ v) @ ''}''"
    then show ?thesis using consumes_separator [OF c(1) consumes_closed [OF m]] by simp
  next
    fix out' assume t: "closing (CHR ''}'') (skip_ws s4) = None" "parse_members False (skip_ws s4) = Some (out', r)"
      "out = separator_text first @ (k @ '': '' @ v) @ out'"
    then show ?thesis
      using consumes_separator [OF c(1) consumes_more [OF m "2.IH"(2) [OF c(1,2) refl c(3,4) refl t(1,2)]]] by simp
  qed
next
  case (3 first s)
  note run = "3.prems" [unfolded parse_elements.psimps [OF "3.hyps"]]
  obtain s1 v s2 where c: "separator first s = Some s1" "parse_value s1 = Some (v, s2)"
    and t: "closing (CHR '']'') (skip_ws s2) = Some r \<and> out = separator_text first @ v @ '']''
      \<or> closing (CHR '']'') (skip_ws s2) = None
      \<and> (\<exists>out'. parse_elements False (skip_ws s2) = Some (out', r) \<and> out = separator_text first @ v @ out')"
    using run by (auto split: option.splits)
  note m = "3.IH"(1) [OF c]
  from t show ?case
  proof (elim disjE conjE exE)
    assume "closing (CHR '']'') (skip_ws s2) = Some r" "out = separator_text first @ v @ '']''"
    then show ?thesis using consumes_separator [OF c(1) consumes_closed [OF m]] by simp
  next
    fix out' assume t: "closing (CHR '']'') (skip_ws s2) = None" "parse_elements False (skip_ws s2) = Some (out', r)"
      "out = separator_text first @ v @ out'"
    then show ?thesis
      using consumes_separator [OF c(1) consumes_more [OF m "3.IH"(2) [OF c refl t(1,2)]]] by simp
  qed
qed

lemma parsers_total: "All parse_value_parse_members_parse_elements_dom"
proof (relation "measure (\<lambda>x. case x of
    Inl s \<Rightarrow> 2 * length s | Inr (Inl (_, s)) \<Rightarrow> 2 * length s + 1 | Inr (Inr (_, s)) \<Rightarrow> 2 * length s + 1)", goal_cases)
  case 1
  show ?case by simp
qed (auto dest!: opened_shorter parsers_consume separator_length rust_string_consumes consumes_shorter
    intro!: le_less_trans [OF skip_ws_length])

termination parse_value
  by (rule parsers_total)

declare parse_value.simps [simp del] parse_members.simps [simp del] parse_elements.simps [simp del]

definition rewrite_json_debug :: "string \<Rightarrow> string option" where
  "rewrite_json_debug s = (case parse_value s of Some (out, []) \<Rightarrow> Some out | _ \<Rightarrow> None)"

datatype cow = Borrowed string | Owned string

fun into_owned :: "cow \<Rightarrow> string" where
  "into_owned (Borrowed s) = s"
| "into_owned (Owned s) = s"

definition clean_debug_value :: "string \<Rightarrow> cow" where
  "clean_debug_value s =
     (let stripped = strip_some_wrappers s
      in case rewrite_json_debug stripped of
           Some rewritten \<Rightarrow> Owned rewritten
         | None \<Rightarrow> if length stripped \<noteq> length s then Owned stripped else Borrowed s)"

section \<open>Debug output\<close>

text \<open>
  What \<open>serde_json\<close> documents as the \<open>Debug\<close> form of a value, and the text the code means to make
  of it. String literals are given by their escaped bodies.
\<close>

datatype debug_json =
    Dbg_Null
  | Dbg_Bool bool
  | Dbg_Number string
  | Dbg_String string
  | Dbg_Array "debug_json list"
  | Dbg_Object "(string \<times> debug_json) list"

definition literal :: "string \<Rightarrow> string" where
  "literal body = dquote # body @ [dquote]"

fun show_debug :: "debug_json \<Rightarrow> string" where
  "show_debug Dbg_Null = ''Null''"
| "show_debug (Dbg_Bool b) = ''Bool('' @ (if b then ''true'' else ''false'') @ '')''"
| "show_debug (Dbg_Number n) = ''Number('' @ n @ '')''"
| "show_debug (Dbg_String body) = ''String('' @ literal body @ '')''"
| "show_debug (Dbg_Array vs) = ''Array ['' @ join '', '' (map show_debug vs) @ '']''"
| "show_debug (Dbg_Object ms) =
     ''Object {'' @ join '', '' (map (\<lambda>(k, v). literal k @ '': '' @ show_debug v) ms) @ ''}''"

fun show_compact :: "debug_json \<Rightarrow> string" where
  "show_compact Dbg_Null = ''null''"
| "show_compact (Dbg_Bool b) = (if b then ''true'' else ''false'')"
| "show_compact (Dbg_Number n) = n"
| "show_compact (Dbg_String body) = literal body"
| "show_compact (Dbg_Array vs) = ''['' @ join '', '' (map show_compact vs) @ '']''"
| "show_compact (Dbg_Object ms) =
     ''{'' @ join '', '' (map (\<lambda>(k, v). literal k @ '': '' @ show_compact v) ms) @ ''}''"

fun literal_ok :: "string \<Rightarrow> bool" where
  "literal_ok [] \<longleftrightarrow> True"
| "literal_ok (c # s) \<longleftrightarrow>
     (if c = backslash then (case s of [] \<Rightarrow> False | _ # s' \<Rightarrow> literal_ok s') else c \<noteq> dquote \<and> literal_ok s)"

definition number_ok :: "string \<Rightarrow> bool" where
  "number_ok n \<longleftrightarrow> n \<noteq> [] \<and> list_all (\<lambda>c. c \<notin> {CHR ''('', CHR '')'', dquote}) n"

fun debug_ok :: "debug_json \<Rightarrow> bool" where
  "debug_ok (Dbg_Number n) \<longleftrightarrow> number_ok n"
| "debug_ok (Dbg_String body) \<longleftrightarrow> literal_ok body"
| "debug_ok (Dbg_Array vs) \<longleftrightarrow> list_all debug_ok vs"
| "debug_ok (Dbg_Object ms) \<longleftrightarrow> list_all (\<lambda>(k, v). literal_ok k \<and> debug_ok v) ms"
| "debug_ok _ \<longleftrightarrow> True"

fun wrap_some :: "nat \<Rightarrow> string \<Rightarrow> string" where
  "wrap_some 0 s = s"
| "wrap_some (Suc n) s = ''Some('' @ wrap_some n s @ '')''"

section \<open>Properties\<close>

subsection \<open>The parser\<close>

lemma parse_literal_body_ok: "literal_ok body \<Longrightarrow> parse_literal_body (body @ dquote # rest) = Some (body @ [dquote], rest)"
  by (induction body rule: literal_ok.induct) (auto split: list.splits if_splits)

lemma parse_rust_string_ok [simp]: "literal_ok body \<Longrightarrow> parse_rust_string (literal body @ rest) = Some (literal body, rest)"
  by (simp add: parse_rust_string_def literal_def parse_literal_body_ok)

lemma eat_close_simp [simp]: "eat_close (Some (out, CHR '')'' # r)) = Some (out, r)"
  using strip_prefix_append [of "'')''" r] by (simp add: eat_close_def del: strip_prefix_append)

lemma parse_number_ok: "number_ok n \<Longrightarrow> parse_number (n @ CHR '')'' # rest) = Some (n, rest)"
  by (auto simp: parse_number_def number_ok_def Let_def takeWhile_append list_all_iff)

text \<open>Printed values and literals do not start with white space or a closing character.\<close>

lemma skip_ws_printed [simp]:
  "skip_ws (CHR '','' # s) = CHR '','' # s" "skip_ws (CHR '']'' # s) = CHR '']'' # s" "skip_ws (CHR ''}'' # s) = CHR ''}'' # s"
  "skip_ws (literal k @ s) = literal k @ s"
  by (simp_all add: skip_ws_def is_ascii_whitespace_def literal_def)

lemma show_debug_head: "\<exists>c s. show_debug v = c # s \<and> c \<in> {CHR ''N'', CHR ''B'', CHR ''S'', CHR ''A'', CHR ''O''}"
  by (cases v) simp_all

lemma printed_head [simp]:
  "skip_ws (show_debug v @ s) = show_debug v @ s" "closing (CHR '']'') (show_debug v @ s) = None"
  "closing (CHR ''}'') (literal k @ s) = None"
  using show_debug_head [of v] by (auto simp: skip_ws_def is_ascii_whitespace_def closing_def literal_def)

lemma closing_simps [simp]:
  "closing c (c # s) = Some s" "c \<noteq> CHR '','' \<Longrightarrow> closing c (CHR '','' # s) = None"
  by (simp_all add: closing_def)

lemma separator_simps [simp]:
  "separator True s = Some s" "separator False (CHR '','' # CHR '' '' # s) = Some s"
  "separator_text True = []" "separator_text False = '', ''"
  using strip_prefix_append [of "'', ''" s] by (simp_all add: separator_def separator_text_def del: strip_prefix_append)


lemma join_Cons: "join sep (x # xs) = x @ (if xs = [] then [] else sep @ join sep xs)"
  by (cases xs) simp_all

lemma separator_separator_text [simp]: "separator first (separator_text first @ s) = Some s"
  by (cases first) simp_all

lemma parse_elements_printed:
  assumes "\<And>v rest. v \<in> set vs \<Longrightarrow> parse_value (show_debug v @ rest) = Some (show_compact v, rest)" and "vs \<noteq> []"
  shows "parse_elements first (separator_text first @ join '', '' (map show_debug vs) @ CHR '']'' # rest)
    = Some (separator_text first @ join '', '' (map show_compact vs) @ '']'', rest)"
  using assms
proof (induction vs arbitrary: first)
  case (Cons v vs)
  show ?case
  proof (cases "vs = []")
    case True
    then show ?thesis using Cons.prems by (subst parse_elements.simps) simp
  next
    case False
    then show ?thesis
      using Cons.prems(1) Cons.IH [of False] by (subst parse_elements.simps) (simp add: join_Cons)
  qed
qed simp

lemma strip_colon [simp]: "strip_prefix (CHR '':'' # CHR '' '' # x) '': '' = Some x"
  using strip_prefix_append [of "'': ''" x] by (simp del: strip_prefix_append)

lemma parse_members_printed:
  assumes "\<And>k v rest. (k, v) \<in> set ms \<Longrightarrow> literal_ok k \<and> parse_value (show_debug v @ rest) = Some (show_compact v, rest)"
    and "ms \<noteq> []"
  shows "parse_members first
      (separator_text first @ join '', '' (map (\<lambda>(k, v). literal k @ '': '' @ show_debug v) ms) @ CHR ''}'' # rest)
    = Some (separator_text first @ join '', '' (map (\<lambda>(k, v). literal k @ '': '' @ show_compact v) ms) @ ''}'', rest)"
  using assms
proof (induction ms arbitrary: first)
  case (Cons m ms)
  obtain k v where m: "m = (k, v)" by (cases m)
  have kv: "literal_ok k" "\<And>rest. parse_value (show_debug v @ rest) = Some (show_compact v, rest)"
    using Cons.prems(1) [of k v] m by simp_all
  show ?case
  proof (cases "ms = []")
    case True
    then show ?thesis using kv m by (subst parse_members.simps) simp
  next
    case False
    then show ?thesis
      using kv m Cons.IH [OF Cons.prems(1) False, of False] by (subst parse_members.simps) (simp add: join_Cons)
  qed
qed simp

lemma parse_printed: "debug_ok v \<Longrightarrow> parse_value (show_debug v @ rest) = Some (show_compact v, rest)"
proof (induction v arbitrary: rest)
  case (Dbg_Array vs)
  then have each: "parse_value (show_debug v @ r) = Some (show_compact v, r)" if "v \<in> set vs" for v r
    using that by (simp add: list_all_iff)
  obtain v vs' where c: "vs = v # vs'" if "vs \<noteq> []" by (cases vs) auto
  have "skip_ws (join '', '' (map show_debug vs) @ s) = join '', '' (map show_debug vs) @ s"
    "closing (CHR '']'') (join '', '' (map show_debug vs) @ s) = None" if "vs \<noteq> []" for s
    using c [OF that] by (simp_all add: join_Cons)
  then show ?case
    using parse_elements_printed [OF each, of vs True rest]
    by (cases "vs = []") (simp_all add: parse_value.simps Let_def)
next
  case (Dbg_Object ms)
  then have each: "literal_ok k \<and> parse_value (show_debug v @ r) = Some (show_compact v, r)" if "(k, v) \<in> set ms" for k v r
    using that by (fastforce simp: list_all_iff)
  obtain m ms' where c: "ms = m # ms'" if "ms \<noteq> []" by (cases ms) auto
  let ?p = "\<lambda>(k, v). literal k @ '': '' @ show_debug v"
  have "skip_ws (join '', '' (map ?p ms) @ s) = join '', '' (map ?p ms) @ s"
    "closing (CHR ''}'') (join '', '' (map ?p ms) @ s) = None" if "ms \<noteq> []" for s
    using c [OF that] by (cases m; simp add: join_Cons)+
  then show ?case
    using parse_members_printed [OF each, of ms True rest]
    by (cases "ms = []") (simp_all add: parse_value.simps Let_def)
qed (simp_all add: parse_value.simps scalar_def parse_number_ok)


subsection \<open>Wrappers\<close>

text \<open>Text that leaves the parenthesis scanner at the depth it found.\<close>

definition balanced :: "string \<Rightarrow> bool" where
  "balanced s \<longleftrightarrow> (\<forall>d i rest. 0 < d \<longrightarrow> scan_parens d i (s @ rest) = scan_parens d (i + length s) rest)"

lemma balanced_append [intro]: "balanced s \<Longrightarrow> balanced t \<Longrightarrow> balanced (s @ t)"
  by (simp add: balanced_def add.assoc)

lemma balanced_plain: "list_all (\<lambda>c. c \<notin> {CHR ''('', CHR '')'', dquote}) s \<Longrightarrow> balanced s"
  unfolding balanced_def by (induction s) auto

lemma balanced_parens [intro]:
  assumes "balanced s"
  shows "balanced (CHR ''('' # s @ '')'')"
  unfolding balanced_def
proof (intro allI impI)
  fix d i :: nat and rest assume "0 < d"
  have "scan_parens (d + 1) (i + 1) (s @ CHR '')'' # rest) = scan_parens (d + 1) (i + 1 + length s) (CHR '')'' # rest)"
    using assms by (simp add: balanced_def)
  with \<open>0 < d\<close> show "scan_parens d i ((CHR ''('' # s @ '')'') @ rest) = scan_parens d (i + length (CHR ''('' # s @ '')'')) rest"
    by simp
qed

lemma skip_literal_ok: "literal_ok body \<Longrightarrow> skip_literal i (body @ dquote # rest) = Some (i + length body + 1, rest)"
  by (induction body arbitrary: i rule: literal_ok.induct) (auto split: list.splits if_splits)

lemma balanced_literal [intro]: "literal_ok k \<Longrightarrow> balanced (literal k)"
  by (simp add: balanced_def literal_def skip_literal_ok)

text \<open>Fixed text around balanced text.\<close>

lemma balanced_between:
  assumes "list_all (\<lambda>c. c \<notin> {CHR ''('', CHR '')'', dquote}) pre" and "balanced s"
    and "list_all (\<lambda>c. c \<notin> {CHR ''('', CHR '')'', dquote}) post"
  shows "balanced (pre @ s @ post)"
  by (intro balanced_append balanced_plain assms)

lemma balanced_call:
  assumes "list_all (\<lambda>c. c \<notin> {CHR ''('', CHR '')'', dquote}) pre" and "balanced s"
  shows "balanced (pre @ CHR ''('' # s @ '')'')"
  by (intro balanced_append balanced_plain balanced_parens assms)

lemma balanced_join:
  assumes "\<And>x. x \<in> set xs \<Longrightarrow> balanced x"
  shows "balanced (join '', '' xs)"
  using assms
proof (induction xs)
  case Nil
  show ?case using balanced_plain [of "[]"] by simp
next
  case (Cons x xs)
  have "balanced ('', '' @ join '', '' xs @ [])"
    by (rule balanced_between) (use Cons in simp_all)
  then have "balanced (x @ '', '' @ join '', '' xs @ [])" using balanced_append [OF Cons.prems] by simp
  then show ?case using Cons.prems by (simp add: join_Cons)
qed

lemma balanced_debug: "debug_ok v \<Longrightarrow> balanced (show_debug v)"
proof (induction v)
  case (Dbg_Array vs)
  have "balanced (''Array ['' @ join '', '' (map show_debug vs) @ '']'')"
    by (rule balanced_between [OF _ balanced_join]) (use Dbg_Array in \<open>auto simp: list_all_iff\<close>)
  then show ?case by simp
next
  case (Dbg_Object ms)
  have m: "balanced (literal k @ '': '' @ show_debug v)" if kv: "(k, v) \<in> set ms" for k v
  proof -
    have "literal_ok k" "balanced (show_debug v)" using Dbg_Object kv by (fastforce simp: list_all_iff)+
    then show ?thesis
      using balanced_append [OF balanced_literal balanced_between [of "'': ''" "show_debug v" "[]"]] by simp
  qed
  have "balanced (''Object {'' @ join '', '' (map (\<lambda>(k, v). literal k @ '': '' @ show_debug v) ms) @ ''}'')"
    by (rule balanced_between [OF _ balanced_join]) (use m in auto)
  then show ?case by simp
next
  case (Dbg_Bool b)
  show ?case
    using balanced_call [of "''Bool''" "if b then ''true'' else ''false''"] balanced_plain [of "if b then ''true'' else ''false''"]
    by simp
next
  case (Dbg_Number n)
  then show ?case using balanced_call [of "''Number''" n] balanced_plain [of n] by (simp add: number_ok_def)
next
  case (Dbg_String body)
  then show ?case using balanced_call [of "''String''" "literal body"] by (simp add: balanced_literal)
qed (simp add: balanced_plain)

lemma balanced_wrap: "balanced s \<Longrightarrow> balanced (wrap_some n s)"
proof (induction n)
  case (Suc n)
  then show ?case using balanced_call [of "''Some''" "wrap_some n s"] by simp
qed simp

lemma try_strip_wrapped: "balanced s \<Longrightarrow> try_strip_some (''Some('' @ s @ '')'') = Some s"
  by (simp add: try_strip_some_def find_matching_close_paren_def balanced_def del: append.simps)

lemma strip_wrapped: "balanced s \<Longrightarrow> try_strip_some s = None \<Longrightarrow> strip_some_wrappers (wrap_some n s) = s"
proof (induction n)
  case 0
  then show ?case by (simp add: strip_some_wrappers.simps)
next
  case (Suc n)
  then show ?case
    using try_strip_wrapped [OF balanced_wrap [OF Suc.prems(1), of n]]
    by (subst strip_some_wrappers.simps) simp
qed

lemma no_some_debug: "try_strip_some (show_debug v) = None"
  by (cases v) (auto simp: try_strip_some_def strip_prefix_def)

text \<open>The wrapper that is stripped was there.\<close>

lemma skip_literal_drop: "skip_literal i s = Some (j, s') \<Longrightarrow> i \<le> j \<and> s' = drop (j - i) s"
proof (induction i s rule: skip_literal.induct)
  case (2 i c s)
  show ?case
  proof (cases "c = backslash")
    case True
    then obtain d t where s: "s = d # t" "skip_literal (i + 2) t = Some (j, s')"
      using "2.prems" by (auto split: list.splits)
    then have "i + 2 \<le> j \<and> s' = drop (j - (i + 2)) t" using "2.IH"(1) True by simp
    moreover from this have "j - i = Suc (Suc (j - (i + 2)))" by arith
    ultimately show ?thesis using s(1) by simp
  next
    case False
    show ?thesis
    proof (cases "c = dquote")
      case False
      then have "i + 1 \<le> j \<and> s' = drop (j - (i + 1)) s" using "2.IH"(2) "2.prems" \<open>c \<noteq> backslash\<close> by simp
      moreover from this have "j - i = Suc (j - (i + 1))" by arith
      ultimately show ?thesis by simp
    qed (use "2.prems" in auto)
  qed
qed simp

lemma scan_parens_found: "scan_parens d i s = Some j \<Longrightarrow> i \<le> j \<and> (\<exists>t. drop (j - i) s = CHR '')'' # t)"
proof (induction d i s rule: scan_parens.induct)
  case (2 d i c s)
  have later: "i \<le> j \<and> (\<exists>t. drop (j - i) (c # s) = CHR '')'' # t)"
    if a: "i + 1 \<le> j \<and> (\<exists>t. drop (j - (i + 1)) s = CHR '')'' # t)"
  proof -
    have "i + 1 \<le> j" using a by blast
    then have "j - i = Suc (j - (i + 1))" by arith
    then show ?thesis using a by simp
  qed
  show ?case
  proof (cases "c = dquote")
    case True
    then obtain k s' where l: "skip_literal (i + 1) s = Some (k, s')" and r: "scan_parens d k s' = Some j"
      using "2.prems" by (auto split: option.splits)
    have "k \<le> j \<and> (\<exists>t. drop (j - k) s' = CHR '')'' # t)" using "2.IH"(1) [OF True l refl r] .
    then have "i + 1 \<le> j \<and> (\<exists>t. drop (j - (i + 1)) s = CHR '')'' # t)"
      using skip_literal_drop [OF l] by auto
    then show ?thesis by (rule later)
  next
    case False
    then show ?thesis using "2.prems" "2.IH"(2-4) later by (auto split: if_splits)
  qed
qed simp

lemma try_strip_some_inner: "try_strip_some s = Some inner \<Longrightarrow> s = ''Some('' @ inner @ '')''"
proof -
  assume "try_strip_some s = Some inner"
  then obtain t where t: "s = ''Some('' @ t" "scan_parens 1 0 t = Some (length t - 1)" "inner = take (length t - 1) t"
    by (auto simp: try_strip_some_def find_matching_close_paren_def split: option.splits if_splits)
  obtain u where u: "drop (length t - 1) t = CHR '')'' # u" using scan_parens_found [OF t(2)] by auto
  have "length (drop (length t - 1) t) \<le> 1" by simp
  then have "u = []" by (simp only: u) simp
  have "t = inner @ '')''" using append_take_drop_id [of "length t - 1" t] by (simp only: t(3) u \<open>u = []\<close>)
  with t(1) show ?thesis by simp
qed


subsection \<open>What the clean-up does\<close>

text \<open>
  C15: JSON values are shown as JSON. The debug form of any JSON value, nested to any depth and
  inside any number of \<open>Some\<close> wrappers, is rewritten to exactly its compact text, whatever
  parentheses, brackets and escaped quotes its strings contain.
\<close>

theorem clean_debug_json:
  assumes "debug_ok v"
  shows "clean_debug_value (wrap_some n (show_debug v)) = Owned (show_compact v)"
proof -
  have "strip_some_wrappers (wrap_some n (show_debug v)) = show_debug v"
    by (rule strip_wrapped [OF balanced_debug [OF assms] no_some_debug])
  then show ?thesis
    using parse_printed [OF assms, of "[]"] by (simp add: clean_debug_value_def rewrite_json_debug_def Let_def)
qed

theorem clean_debug_json_witness:
  "into_owned (clean_debug_value (''Some(Object {'' @ literal ''k)'' @ '': Array [Number(1), Null]})''))
     = CHR ''{'' # literal ''k)'' @ '': [1, null]}''"
  using clean_debug_json [of "Dbg_Object [(''k)'', Dbg_Array [Dbg_Number ''1'', Dbg_Null])]" 1]
  by (simp add: number_ok_def literal_def)

lemma strip_some_shape:
  "\<exists>n. s = wrap_some n (strip_some_wrappers s) \<and> try_strip_some (strip_some_wrappers s) = None"
proof (induction s rule: strip_some_wrappers.induct)
  case (1 s)
  show ?case
  proof (cases "try_strip_some s")
    case None
    then show ?thesis by (intro exI [of _ 0]) (simp add: strip_some_wrappers.simps)
  next
    case (Some inner)
    then obtain n where "inner = wrap_some n (strip_some_wrappers inner)"
      "try_strip_some (strip_some_wrappers inner) = None" using 1 by blast
    moreover have "strip_some_wrappers s = strip_some_wrappers inner"
      using Some by (subst strip_some_wrappers.simps) simp
    moreover have "s = ''Some('' @ inner @ '')''" by (rule try_strip_some_inner [OF Some])
    ultimately show ?thesis by (intro exI [of _ "Suc n"]) (simp only: wrap_some.simps)
  qed
qed

text \<open>
  Exactly the wrappers are stripped. What remains is the argument of some number of nested
  \<open>Some(...)\<close> that make up the whole text, and is itself no further such wrapper; the loop that
  strips them ends for every text.
\<close>

theorem strip_some_exact:
  "\<exists>n. s = wrap_some n (strip_some_wrappers s) \<and> try_strip_some (strip_some_wrappers s) = None"
  by (rule strip_some_shape)

text \<open>
  C35: the rewriter always ends, and never writes more than it read. On every text the parser of
  a value returns; when it succeeds it wrote something, at most as much as it consumed, which is
  what lets its loops end.
\<close>

theorem parse_value_progress:
  assumes "parse_value s = Some (out, r)"
  shows "out \<noteq> [] \<and> length out + length r \<le> length s \<and> length r < length s"
  using parsers_consume(1) [OF spec [OF parsers_total] assms] consumes_shorter [of s out r]
  by (simp add: consumes_def)

theorem parse_value_progress_witness:
  "length ''[1]'' + length '' x'' \<le> length ''Array [Number(1)] x''"
  using parse_value_progress [of "''Array [Number(1)] x''" "''[1]''" "'' x''"]
    parse_printed [of "Dbg_Array [Dbg_Number ''1'']" "'' x''"] by (simp add: number_ok_def)

text \<open>Cleaning never makes a field longer.\<close>

theorem clean_not_longer: "length (into_owned (clean_debug_value s)) \<le> length s"
proof -
  have w: "length (wrap_some n t) = 6 * n + length t" for n t by (induction n) simp_all
  obtain n where "s = wrap_some n (strip_some_wrappers s)" using strip_some_shape by blast
  then have l: "length (strip_some_wrappers s) \<le> length s" by (metis w le_add2)
  have "length out \<le> length t" if "rewrite_json_debug t = Some out" for t out
    using that parsers_consume(1) [OF spec [OF parsers_total], of t out "[]"]
    by (auto simp: rewrite_json_debug_def consumes_def split: option.splits list.splits)
  then show ?thesis using l by (fastforce simp: clean_debug_value_def Let_def split: option.splits)
qed

end
