(* ===== verification/Polylog.thy ===== *)
theory Polylog
  imports Clean
begin

text \<open>
  \<open>crates/polylog\<close>: levels, the builder and its per-target overrides, the console and file layers,
  the process-wide installation and the level override guard, and \<open>catch\<close>. The \<open>tracing\<close> library is
  an event with its metadata and recorded fields; painting in a colour is a parameter, as are the
  environment, the terminal and the formatted clock.
\<close>

section \<open>Levels (\<open>level.rs\<close>)\<close>

datatype Level = Debug | Info | Warn | Error

datatype tracing_level = TRACE | DEBUG | INFO | WARN | ERROR

datatype colour = BrightBlack | Green | Yellow | Red | Blue | Cyan

fun label :: "Level \<Rightarrow> string" where
  "label Debug = ''[debug]''"
| "label Info = ''[info]''"
| "label Warn = ''[warn]''"
| "label Error = ''[error]''"

fun as_tracing :: "Level \<Rightarrow> tracing_level" where
  "as_tracing Debug = DEBUG"
| "as_tracing Info = INFO"
| "as_tracing Warn = WARN"
| "as_tracing Error = ERROR"

fun from_tracing :: "tracing_level \<Rightarrow> Level option" where
  "from_tracing DEBUG = Some Debug"
| "from_tracing INFO = Some Info"
| "from_tracing WARN = Some Warn"
| "from_tracing ERROR = Some Error"
| "from_tracing TRACE = None"

fun as_u8 :: "Level \<Rightarrow> 8 word" where
  "as_u8 Debug = 0"
| "as_u8 Info = 1"
| "as_u8 Warn = 2"
| "as_u8 Error = 3"

definition from_u8 :: "8 word \<Rightarrow> Level option" where
  "from_u8 v =
     (if v = 0 then Some Debug else if v = 1 then Some Info else if v = 2 then Some Warn
      else if v = 3 then Some Error else None)"

definition parse_str :: "string \<Rightarrow> Level option" where
  "parse_str s =
     (let l = to_ascii_lowercase s
      in if l = ''debug'' then Some Debug else if l = ''info'' then Some Info
         else if l = ''warn'' \<or> l = ''warning'' then Some Warn else if l = ''error'' then Some Error else None)"

definition level_from_str :: "string \<Rightarrow> unit + Level" where
  "level_from_str s = ok_or () (parse_str s)"

fun level_color :: "Level \<Rightarrow> colour" where
  "level_color Debug = BrightBlack"
| "level_color Info = Green"
| "level_color Warn = Yellow"
| "level_color Error = Red"

text \<open>The derived \<open>Ord\<close>: the order of the declaration.\<close>

instantiation Level :: linorder
begin

definition less_eq_Level :: "Level \<Rightarrow> Level \<Rightarrow> bool" where
  "less_eq_Level a b \<longleftrightarrow> as_u8 a \<le> as_u8 b"

definition less_Level :: "Level \<Rightarrow> Level \<Rightarrow> bool" where
  "less_Level a b \<longleftrightarrow> as_u8 a < as_u8 b"

instance
proof
  fix a b c :: Level
  show "a < b \<longleftrightarrow> a \<le> b \<and> \<not> b \<le> a" by (auto simp: less_eq_Level_def less_Level_def)
  show "a \<le> a" by (simp add: less_eq_Level_def)
  show "a \<le> b \<Longrightarrow> b \<le> c \<Longrightarrow> a \<le> c" by (auto simp: less_eq_Level_def)
  show "a \<le> b \<Longrightarrow> b \<le> a \<Longrightarrow> a = b" by (cases a; cases b) (simp_all add: less_eq_Level_def word_le_nat_alt)
  show "a \<le> b \<or> b \<le> a" by (auto simp: less_eq_Level_def)
qed

end

lemma level_codes [simp]: "from_u8 (as_u8 l) = Some l" "from_tracing (as_tracing l) = Some l"
  by (cases l; simp add: from_u8_def)+

section \<open>Format and colour modes (\<open>format.rs\<close>)\<close>

datatype FormatMode = Simple | Normal | Context

datatype ColorMode = Auto | Always | Never

fun should_emit_ansi :: "(string \<rightharpoonup> string) \<Rightarrow> ColorMode \<Rightarrow> bool \<Rightarrow> bool" where
  "should_emit_ansi env Always tty \<longleftrightarrow> True"
| "should_emit_ansi env Never tty \<longleftrightarrow> False"
| "should_emit_ansi env Auto tty \<longleftrightarrow>
     (if env ''NO_COLOR'' \<noteq> None \<and> env ''NO_COLOR'' \<noteq> Some [] then False
      else if env ''FORCE_COLOR'' \<noteq> None \<and> env ''FORCE_COLOR'' \<noteq> Some [] then True
      else tty)"

section \<open>Configuration (\<open>builder.rs\<close>)\<close>

record TargetOverride =
  to_prefix :: string
  to_level :: Level

record LogBuilder =
  lb_level :: Level
  lb_format :: FormatMode
  lb_color :: ColorMode
  lb_log_file :: "string option"
  lb_target_overrides :: "TargetOverride list"
  lb_strip_target_prefix :: "string option"

definition builder_default :: LogBuilder where
  "builder_default =
     \<lparr>lb_level = Info, lb_format = Normal, lb_color = Auto, lb_log_file = None, lb_target_overrides = [],
      lb_strip_target_prefix = None\<rparr>"

fun override_level :: "string \<Rightarrow> Level \<Rightarrow> TargetOverride list \<Rightarrow> TargetOverride list" where
  "override_level prefix level [] = [\<lparr>to_prefix = prefix, to_level = level\<rparr>]"
| "override_level prefix level (existing # os) =
     (if to_prefix existing = prefix then existing\<lparr>to_level := level\<rparr> # os
      else existing # override_level prefix level os)"

definition target_level :: "string \<Rightarrow> Level \<Rightarrow> LogBuilder \<Rightarrow> LogBuilder" where
  "target_level prefix level b = b\<lparr>lb_target_overrides := override_level prefix level (lb_target_overrides b)\<rparr>"

definition set_level :: "Level \<Rightarrow> LogBuilder \<Rightarrow> LogBuilder" where
  "set_level level b = b\<lparr>lb_level := level\<rparr>"

definition set_format :: "FormatMode \<Rightarrow> LogBuilder \<Rightarrow> LogBuilder" where
  "set_format format b = b\<lparr>lb_format := format\<rparr>"

definition set_color :: "ColorMode \<Rightarrow> LogBuilder \<Rightarrow> LogBuilder" where
  "set_color color b = b\<lparr>lb_color := color\<rparr>"

definition set_log_file :: "string \<Rightarrow> LogBuilder \<Rightarrow> LogBuilder" where
  "set_log_file path b = b\<lparr>lb_log_file := Some path\<rparr>"

definition set_strip_target_prefix :: "string \<Rightarrow> LogBuilder \<Rightarrow> LogBuilder" where
  "set_strip_target_prefix prefix b = b\<lparr>lb_strip_target_prefix := Some prefix\<rparr>"

record LogConfig =
  lc_level :: Level
  lc_format :: FormatMode
  lc_color :: ColorMode
  lc_log_file :: "string option"
  lc_target_overrides :: "TargetOverride list"
  lc_strip_target_prefix :: "string option"

text \<open>\<open>sort_by_key(Reverse(len))\<close> is stable, as is \<open>sort_key\<close>.\<close>

definition config_from :: "LogBuilder \<Rightarrow> LogConfig" where
  "config_from b =
     \<lparr>lc_level = lb_level b, lc_format = lb_format b, lc_color = lb_color b, lc_log_file = lb_log_file b,
      lc_target_overrides = sort_key (\<lambda>t. - int (length (to_prefix t))) (lb_target_overrides b),
      lc_strip_target_prefix = lb_strip_target_prefix b\<rparr>"

definition target_matches :: "string \<Rightarrow> string \<Rightarrow> bool" where
  "target_matches target prefix \<longleftrightarrow>
     target = prefix
     \<or> length prefix + 1 < length target \<and> take (length prefix) target = prefix
       \<and> take 2 (drop (length prefix) target) = ''::''"

fun effective_min_level :: "string \<Rightarrow> TargetOverride list \<Rightarrow> Level \<Rightarrow> Level" where
  "effective_min_level target [] global = global"
| "effective_min_level target (entry # os) global =
     (if target_matches target (to_prefix entry) then to_level entry else effective_min_level target os global)"

section \<open>Events\<close>

datatype field_value = F_debug string | F_str string | F_u64 u64 | F_i64 i64 | F_f64 string | F_bool bool

record log_event =
  ev_level :: tracing_level
  ev_target :: string
  ev_file :: "string option"
  ev_line :: "u32 option"
  ev_fields :: "(string \<times> field_value) list"

record MessageVisitor =
  mv_message :: string
  mv_fields :: "(string \<times> string) list"
  mv_log_target :: "string option"
  mv_log_file :: "string option"
  mv_log_line :: "u32 option"

definition visitor_new :: MessageVisitor where
  "visitor_new = \<lparr>mv_message = [], mv_fields = [], mv_log_target = None, mv_log_file = None, mv_log_line = None\<rparr>"

definition trim_quotes :: "string \<Rightarrow> string" where
  "trim_quotes s =
     (let t = dropWhile (\<lambda>c. c = dquote) s in rev (dropWhile (\<lambda>c. c = dquote) (rev t)))"

definition push_field :: "string \<Rightarrow> string \<Rightarrow> MessageVisitor \<Rightarrow> MessageVisitor" where
  "push_field name val v = v\<lparr>mv_fields := mv_fields v @ [(name, val)]\<rparr>"

text \<open>The fields \<open>log.*\<close> of the bridge from the \<open>log\<close> crate.\<close>

definition bridge_field :: "string \<Rightarrow> string \<Rightarrow> MessageVisitor \<Rightarrow> MessageVisitor" where
  "bridge_field name val v =
     (if name = ''log.target'' then v\<lparr>mv_log_target := Some val\<rparr>
      else if name = ''log.file'' then v\<lparr>mv_log_file := Some val\<rparr> else v)"

definition record_debug :: "string \<Rightarrow> string \<Rightarrow> MessageVisitor \<Rightarrow> MessageVisitor" where
  "record_debug name val v =
     (if starts_with name ''log.'' then bridge_field name (trim_quotes val) v
      else if name = ''message'' then v\<lparr>mv_message := val\<rparr>
      else push_field name (into_owned (clean_debug_value val)) v)"

definition record_str :: "string \<Rightarrow> string \<Rightarrow> MessageVisitor \<Rightarrow> MessageVisitor" where
  "record_str name val v =
     (if starts_with name ''log.'' then bridge_field name val v
      else if name = ''message'' then v\<lparr>mv_message := val\<rparr>
      else push_field name val v)"

definition record_u64 :: "string \<Rightarrow> u64 \<Rightarrow> MessageVisitor \<Rightarrow> MessageVisitor" where
  "record_u64 name val v =
     (if name = ''log.line''
      then v\<lparr>mv_log_line := if unat val < 2 ^ 32 then Some (word_of_nat (unat val)) else None\<rparr>
      else push_field name (dec (unat val)) v)"

fun record_field :: "string \<times> field_value \<Rightarrow> MessageVisitor \<Rightarrow> MessageVisitor" where
  "record_field (name, F_debug val) v = record_debug name val v"
| "record_field (name, F_str val) v = record_str name val v"
| "record_field (name, F_u64 val) v = record_u64 name val v"
| "record_field (name, F_i64 val) v = push_field name (dec_int (sint val)) v"
| "record_field (name, F_f64 val) v = push_field name val v"
| "record_field (name, F_bool val) v = push_field name (if val then ''true'' else ''false'') v"

section \<open>The console layer (\<open>console.rs\<close>)\<close>

record log_env =
  le_vars :: "string \<rightharpoonup> string"
  le_stderr_tty :: bool
  le_paint :: "colour \<Rightarrow> string \<Rightarrow> string"

definition paint_if :: "log_env \<Rightarrow> bool \<Rightarrow> colour \<Rightarrow> string \<Rightarrow> string" where
  "paint_if env use_ansi c s = (if use_ansi then le_paint env c s else s)"

definition strip_module_prefix :: "string \<Rightarrow> string \<Rightarrow> string option" where
  "strip_module_prefix target prefix = Option.bind (strip_prefix target prefix) (\<lambda>rest. strip_prefix rest ''::'')"

text \<open>\<open>Path::file_name\<close>: the last component that is neither empty nor a dot, unless it is \<open>..\<close>.\<close>

fun path_components :: "string \<Rightarrow> string list" where
  "path_components [] = [[]]"
| "path_components (c # s) =
     (if c = CHR ''/'' then [] # path_components s
      else (case path_components s of [] \<Rightarrow> [[c]] | d # ds \<Rightarrow> (c # d) # ds))"

definition path_file_name :: "string \<Rightarrow> string option" where
  "path_file_name p =
     (case rev (filter (\<lambda>d. d \<noteq> [] \<and> d \<noteq> ''.'') (path_components p)) of
        [] \<Rightarrow> None
      | d # _ \<Rightarrow> if d = ''..'' then None else Some d)"

definition basename :: "string \<Rightarrow> string" where
  "basename f = unwrap_or f (path_file_name f)"

definition format_simple :: "log_env \<Rightarrow> Level \<Rightarrow> string \<Rightarrow> bool \<Rightarrow> string" where
  "format_simple env level msg use_ansi = paint_if env use_ansi (level_color level) msg @ ''\<newline>''"

definition format_normal :: "log_env \<Rightarrow> Level \<Rightarrow> string \<Rightarrow> string \<Rightarrow> bool \<Rightarrow> string" where
  "format_normal env level ts msg use_ansi =
     paint_if env use_ansi BrightBlack ts @ '' '' @ paint_if env use_ansi (level_color level) (label level) @ '' ''
     @ paint_if env use_ansi (level_color level) msg @ ''\<newline>''"

definition format_context ::
  "log_env \<Rightarrow> Level \<Rightarrow> string \<Rightarrow> string \<Rightarrow> string option \<Rightarrow> u32 option \<Rightarrow> string \<Rightarrow> bool \<Rightarrow> string" where
  "format_context env level ts target loc_file loc_line msg use_ansi =
     (let file_basename = (case loc_file of None \<Rightarrow> ''<unknown>'' | Some f \<Rightarrow> basename f);
          line_num = dec (unat (unwrap_or 0 loc_line));
          loc = file_basename @ '':'' @ paint_if env use_ansi Cyan line_num
      in paint_if env use_ansi BrightBlack ts @ '' '' @ paint_if env use_ansi (level_color level) (label level) @ '' ''
         @ paint_if env use_ansi Blue target @ '' '' @ loc @ '' ''
         @ paint_if env use_ansi (level_color level) msg @ ''\<newline>'')"

definition event_message :: "MessageVisitor \<Rightarrow> string" where
  "event_message v = mv_message v @ concat (map (\<lambda>(k, x). '' '' @ k @ ''='' @ x) (mv_fields v))"

text \<open>Whether a layer renders an event: its level, if any, reaches the effective minimum.\<close>

definition passes :: "LogConfig \<Rightarrow> Level \<Rightarrow> log_event \<Rightarrow> Level option" where
  "passes config global ev =
     (case from_tracing (ev_level ev) of
        None \<Rightarrow> None
      | Some level \<Rightarrow>
          (if level < effective_min_level (ev_target ev) (lc_target_overrides config) global then None else Some level))"

definition console_render :: "log_env \<Rightarrow> LogConfig \<Rightarrow> Level \<Rightarrow> string \<Rightarrow> log_event \<Rightarrow> string" where
  "console_render env config global ts ev =
     (case passes config global ev of
        None \<Rightarrow> []
      | Some level \<Rightarrow>
          (let visitor = fold record_field (ev_fields ev) visitor_new;
               msg = event_message visitor;
               use_ansi = should_emit_ansi (le_vars env) (lc_color config) (le_stderr_tty env)
           in case lc_format config of
                Simple \<Rightarrow> format_simple env level msg use_ansi
              | Normal \<Rightarrow> format_normal env level ts msg use_ansi
              | Context \<Rightarrow>
                  (let raw_target = unwrap_or (ev_target ev) (mv_log_target visitor);
                       target = unwrap_or raw_target
                         (Option.bind (lc_strip_target_prefix config) (\<lambda>prefix. strip_module_prefix raw_target prefix))
                   in format_context env level ts target (or_else (mv_log_file visitor) (ev_file ev))
                        (or_else (mv_log_line visitor) (ev_line ev)) msg use_ansi)))"

section \<open>The file layer (\<open>file.rs\<close>)\<close>

definition file_message :: "(string \<times> field_value) list \<Rightarrow> string" where
  "file_message recorded = fold (\<lambda>(name, val) msg.
     if name = ''message'' then (case val of F_debug s \<Rightarrow> s | F_str s \<Rightarrow> s | _ \<Rightarrow> msg) else msg) recorded []"

definition format_file :: "Level \<Rightarrow> string \<Rightarrow> string \<Rightarrow> string \<Rightarrow> u32 \<Rightarrow> string \<Rightarrow> string" where
  "format_file level ts target file_basename line_num msg =
     ''['' @ ts @ ''] '' @ label level @ '' '' @ target @ '' '' @ file_basename @ '':'' @ dec (unat line_num) @ '': ''
     @ msg @ ''\<newline>''"

definition file_render :: "LogConfig \<Rightarrow> Level \<Rightarrow> string \<Rightarrow> log_event \<Rightarrow> string" where
  "file_render config global ts ev =
     (case passes config global ev of
        None \<Rightarrow> []
      | Some level \<Rightarrow>
          (let (file_basename, line_num) =
             (case (ev_file ev, ev_line ev) of (Some f, Some l) \<Rightarrow> (basename f, l) | _ \<Rightarrow> (''<unknown>'', 0))
           in format_file level ts (ev_target ev) file_basename line_num (file_message (ev_fields ev))))"


text \<open>
  \<open>Path::parent\<close>: trailing separators and dots do not count, nor does a leading dot belong to the
  body of the path.
\<close>

definition body_start :: "string \<Rightarrow> nat" where
  "body_start p = (if starts_with p ''/'' \<or> p = ''.'' \<or> starts_with p ''./'' then 1 else 0)"

definition last_component :: "string \<Rightarrow> string" where
  "last_component s = rev (takeWhile (\<lambda>c. c \<noteq> CHR ''/'') (rev s))"

definition cut_component :: "string \<Rightarrow> string" where
  "cut_component p =
     (let body = drop (body_start p) p;
          size = length (last_component body) + (if CHR ''/'' \<in> set body then 1 else 0)
      in take (length p - size) p)"

lemma cut_component_shorter: "body_start p < length p \<Longrightarrow> length (cut_component p) < length p"
proof -
  let ?body = "drop (body_start p) p"
  assume "body_start p < length p"
  then have ne: "?body \<noteq> []" by simp
  have "last_component ?body \<noteq> []" if "CHR ''/'' \<notin> set ?body"
  proof -
    have "takeWhile (\<lambda>c. c \<noteq> CHR ''/'') (rev ?body) = rev ?body" using that by (auto simp: takeWhile_eq_all_conv)
    then have "last_component ?body = ?body" by (simp only: last_component_def rev_rev_ident)
    then show ?thesis using ne by (simp only: not_False_eq_True)
  qed
  then have "0 < length (last_component ?body) + (if CHR ''/'' \<in> set ?body then 1 else 0)" by auto
  moreover have "0 < length p" using ne by (cases p) auto
  ultimately show ?thesis by (simp add: cut_component_def Let_def)
qed

function trim_right :: "string \<Rightarrow> string" where
  "trim_right p =
     (if length p \<le> body_start p then p
      else if last_component (drop (body_start p) p) \<in> {[], ''.''} then trim_right (cut_component p)
      else p)"
  by pat_completeness auto

termination
  by (relation "measure length") (auto intro: cut_component_shorter)

definition path_parent :: "string \<Rightarrow> string option" where
  "path_parent p =
     (let t = trim_right p
      in if length t \<le> body_start t then (if starts_with t ''.'' then Some [] else None)
         else Some (trim_right (cut_component t)))"

datatype InitError =
    AlreadyInitialized
  | FileSetupFailed string string
  | SetGlobalDefaultFailed string

fun init_error_display :: "InitError \<Rightarrow> string" where
  "init_error_display AlreadyInitialized = ''polylog already initialized; init() may only be called once per process''"
| "init_error_display (FileSetupFailed path source) = ''failed to set up log file at '' @ path @ '': '' @ source"
| "init_error_display (SetGlobalDefaultFailed err) = ''failed to install tracing subscriber: '' @ err"

record FileLayer =
  fl_directory :: string
  fl_filename :: string
  fl_target_overrides :: "TargetOverride list"

text \<open>What the installation meets: directories, their creation, and the subscriber registry.\<close>

record init_env =
  ie_is_dir :: "string \<Rightarrow> bool"
  ie_create_dir_all :: "string \<Rightarrow> string + unit"
  ie_try_init :: "string + unit"

definition log_location :: "init_env \<Rightarrow> string \<Rightarrow> string \<times> string" where
  "log_location env path =
     (if ends_with path ''/'' \<or> ie_is_dir env path then (path, ''polylog.log'')
      else
        ((case path_parent path of None \<Rightarrow> ''.'' | Some p \<Rightarrow> if p = [] then ''.'' else p),
         unwrap_or ''polylog.log'' (path_file_name path)))"

definition build_file_layer :: "init_env \<Rightarrow> LogConfig \<Rightarrow> InitError + FileLayer" where
  "build_file_layer env config =
     (case lc_log_file config of
        None \<Rightarrow> Inl (FileSetupFailed [] ''log_file missing'')
      | Some path \<Rightarrow>
          (let (directory, filename) = log_location env path
           in case ie_create_dir_all env directory of
                Inl e \<Rightarrow> Inl (FileSetupFailed path e)
              | Inr _ \<Rightarrow> Inr \<lparr>fl_directory = directory, fl_filename = filename,
                              fl_target_overrides = lc_target_overrides config\<rparr>))"

section \<open>Installation and overrides (\<open>init.rs\<close>, \<open>level_override.rs\<close>)\<close>

text \<open>The process-wide state: the two atomics and the installed subscriber.\<close>

record Logger =
  lg_initialized :: bool
  lg_min_level :: "8 word"
  lg_subscriber :: "(LogConfig \<times> FileLayer option) option"

definition logger_fresh :: Logger where
  "logger_fresh = \<lparr>lg_initialized = False, lg_min_level = 1, lg_subscriber = None\<rparr>"

definition current_min_level :: "Logger \<Rightarrow> Level" where
  "current_min_level p = unwrap_or Info (from_u8 (lg_min_level p))"

definition set_min_level :: "Level \<Rightarrow> Logger \<Rightarrow> Logger" where
  "set_min_level level p = p\<lparr>lg_min_level := as_u8 level\<rparr>"

text \<open>A successful installation returns a guard: whether it holds the worker of a file layer.\<close>

definition install_with_config :: "init_env \<Rightarrow> LogBuilder \<Rightarrow> Logger \<Rightarrow> (InitError + bool) \<times> Logger" where
  "install_with_config env builder p =
     (if lg_initialized p then (Inl AlreadyInitialized, p)
      else
        (let p1 = p\<lparr>lg_initialized := True\<rparr>;
             config = config_from builder;
             p2 = p1\<lparr>lg_min_level := as_u8 (lc_level config)\<rparr>;
             layer = (if lc_log_file config = None then Inr None else
                        (case build_file_layer env config of Inl e \<Rightarrow> Inl e | Inr l \<Rightarrow> Inr (Some l)))
         in case layer of
              Inl e \<Rightarrow> (Inl e, p2\<lparr>lg_initialized := False\<rparr>)
            | Inr file_layer_opt \<Rightarrow>
                (case ie_try_init env of
                   Inl e \<Rightarrow> (Inl (SetGlobalDefaultFailed e), p2\<lparr>lg_initialized := False\<rparr>)
                 | Inr _ \<Rightarrow> (Inr (file_layer_opt \<noteq> None), p2\<lparr>lg_subscriber := Some (config, file_layer_opt)\<rparr>))))"

text \<open>The guard holds the level it replaced.\<close>

definition override_new :: "Level \<Rightarrow> Logger \<Rightarrow> Level \<times> Logger" where
  "override_new level p = (current_min_level p, set_min_level level p)"

definition override_drop :: "Level \<Rightarrow> Logger \<Rightarrow> Logger" where
  "override_drop previous p = set_min_level previous p"

section \<open>Error chains (\<open>catch.rs\<close>)\<close>

datatype chained_error = Chained string "chained_error option"

fun causes :: "chained_error \<Rightarrow> string list" where
  "causes (Chained _ None) = []"
| "causes (Chained _ (Some source)) = (case source of Chained m _ \<Rightarrow> (''  caused by: '' @ m) # causes source)"

definition catch_error :: "string \<Rightarrow> chained_error + 'a \<Rightarrow> string list \<Rightarrow> (chained_error + 'a) \<times> string list" where
  "catch_error context r log =
     (case r of
        Inr v \<Rightarrow> (Inr v, log)
      | Inl err \<Rightarrow> (Inl err, log @ [context @ '': '' @ (case err of Chained m _ \<Rightarrow> m)] @ causes err))"


section \<open>Properties\<close>

subsection \<open>Per-target overrides\<close>

text \<open>The overrides as a map from prefixes.\<close>

definition override_map :: "TargetOverride list \<Rightarrow> string \<rightharpoonup> Level" where
  "override_map os = map_of (map (\<lambda>t. (to_prefix t, to_level t)) os)"

definition prefixes_ok :: "TargetOverride list \<Rightarrow> bool" where
  "prefixes_ok os \<longleftrightarrow> distinct (map to_prefix os)"

lemma override_level_map: "override_map (override_level prefix level os) = (override_map os)(prefix \<mapsto> level)"
  by (induction os) (auto simp: override_map_def fun_upd_twist)

lemma set_override_level: "to_prefix ` set (override_level prefix level os) = insert prefix (to_prefix ` set os)"
  by (induction os) auto

lemma override_level_ok: "prefixes_ok os \<Longrightarrow> prefixes_ok (override_level prefix level os)"
  using set_override_level by (induction os) (auto simp: prefixes_ok_def image_iff)

definition configured :: "(string \<times> Level) list \<Rightarrow> LogBuilder \<Rightarrow> LogBuilder" where
  "configured calls b = fold (\<lambda>(prefix, level). target_level prefix level) calls b"

lemma configured_overrides:
  "prefixes_ok (lb_target_overrides b) \<Longrightarrow>
     prefixes_ok (lb_target_overrides (configured calls b))
     \<and> override_map (lb_target_overrides (configured calls b)) = override_map (lb_target_overrides b) ++ map_of (rev calls)"
proof (induction calls arbitrary: b)
  case (Cons c calls)
  obtain prefix level where c: "c = (prefix, level)" by (cases c)
  let ?b = "target_level prefix level b"
  have "prefixes_ok (lb_target_overrides ?b)" using Cons.prems by (simp add: target_level_def override_level_ok)
  then show ?case
    using Cons.IH [of ?b] by (simp add: c configured_def target_level_def override_level_map map_add_def fun_eq_iff split: option.splits)
qed (simp add: configured_def)

lemma override_map_iff: "prefixes_ok os \<Longrightarrow> override_map os q = Some l \<longleftrightarrow> (\<exists>t \<in> set os. to_prefix t = q \<and> to_level t = l)"
  by (auto simp: override_map_def prefixes_ok_def map_of_eq_Some_iff comp_def image_iff)

lemma effective_unmatched:
  "(\<And>t. t \<in> set os \<Longrightarrow> \<not> target_matches target (to_prefix t)) \<Longrightarrow> effective_min_level target os global = global"
  by (induction os) auto

lemma matches_same_length:
  "target_matches target p \<Longrightarrow> target_matches target q \<Longrightarrow> length p = length q \<Longrightarrow> p = q"
  by (auto simp: target_matches_def)

lemma effective_most_specific:
  assumes "sorted (map (\<lambda>t. - int (length (to_prefix t))) os)" and "t \<in> set os" and "target_matches target (to_prefix t)"
    and "\<And>u. u \<in> set os \<Longrightarrow> target_matches target (to_prefix u) \<Longrightarrow> length (to_prefix u) \<le> length (to_prefix t)"
    and "prefixes_ok os"
  shows "effective_min_level target os global = to_level t"
  using assms
proof (induction os)
  case (Cons u os)
  show ?case
  proof (cases "target_matches target (to_prefix u)")
    case True
    have "length (to_prefix t) \<le> length (to_prefix u)" using Cons.prems(1,2) by auto
    then have "length (to_prefix t) = length (to_prefix u)" using Cons.prems(4) [of u] True by simp
    then have "to_prefix t = to_prefix u" by (rule matches_same_length [OF Cons.prems(3) True])
    then have "t = u" using Cons.prems(2,5) by (auto simp: prefixes_ok_def image_iff)
    then show ?thesis using True by simp
  next
    case False
    then have "t \<in> set os" using Cons.prems(2,3) by auto
    then show ?thesis using Cons False by (simp add: prefixes_ok_def)
  qed
qed simp

lemma config_overrides:
  "set (lc_target_overrides (config_from b)) = set (lb_target_overrides b)"
  "sorted (map (\<lambda>t. - int (length (to_prefix t))) (lc_target_overrides (config_from b)))"
  "prefixes_ok (lb_target_overrides b) \<Longrightarrow> prefixes_ok (lc_target_overrides (config_from b))"
  by (simp_all add: config_from_def prefixes_ok_def distinct_map)

text \<open>
  The most specific override decides. After any calls of \<open>target_level\<close>, in any order and with
  repeated prefixes, the level that filters a target is the one last set for the longest prefix
  that matches it on a module boundary, and the global level when none matches.
\<close>

theorem most_specific_override:
  assumes "os = lc_target_overrides (config_from (configured calls builder_default))"
  shows "((\<forall>p. map_of (rev calls) p \<noteq> None \<longrightarrow> \<not> target_matches target p) \<longrightarrow> effective_min_level target os global = global)
    \<and> (\<forall>p level. map_of (rev calls) p = Some level \<and> target_matches target p
         \<and> (\<forall>q. map_of (rev calls) q \<noteq> None \<and> target_matches target q \<longrightarrow> length q \<le> length p)
         \<longrightarrow> effective_min_level target os global = level)"
proof -
  let ?b = "configured calls builder_default"
  have "prefixes_ok (lb_target_overrides builder_default)" by (simp add: builder_default_def prefixes_ok_def)
  then have b: "prefixes_ok (lb_target_overrides ?b)" "override_map (lb_target_overrides ?b) = map_of (rev calls)"
    using configured_overrides [of builder_default calls] by (simp_all add: builder_default_def override_map_def)
  have os: "prefixes_ok os" "sorted (map (\<lambda>t. - int (length (to_prefix t))) os)" "set os = set (lb_target_overrides ?b)"
    using config_overrides b(1) by (simp_all add: assms)
  have look: "map_of (rev calls) q = Some l \<longleftrightarrow> (\<exists>t \<in> set os. to_prefix t = q \<and> to_level t = l)" for q l
    using override_map_iff [OF b(1)] by (simp add: b(2) os(3))
  have none: "map_of (rev calls) (to_prefix t) \<noteq> None" if "t \<in> set os" for t using look that by fastforce
  have "effective_min_level target os global = level"
    if p: "map_of (rev calls) p = Some level" "target_matches target p"
      "\<forall>q. map_of (rev calls) q \<noteq> None \<and> target_matches target q \<longrightarrow> length q \<le> length p" for p level
  proof -
    obtain t where t: "t \<in> set os" "to_prefix t = p" "to_level t = level" using look p(1) by blast
    have "effective_min_level target os global = to_level t"
      by (rule effective_most_specific [OF os(2) t(1) _ _ os(1)]) (use t p none in auto)
    then show ?thesis by (simp add: t(3))
  qed
  moreover have "effective_min_level target os global = global"
    if "\<forall>p. map_of (rev calls) p \<noteq> None \<longrightarrow> \<not> target_matches target p"
    by (rule effective_unmatched) (use none that in blast)
  ultimately show ?thesis by blast
qed

theorem most_specific_override_witness:
  "effective_min_level ''sqlx::query'' (lc_target_overrides (config_from (configured
     [(''sqlx'', Debug), (''sqlx::query'', Error), (''sqlx'', Warn)] builder_default))) Info = Error"
proof -
  let ?calls = "[(''sqlx'', Debug), (''sqlx::query'', Error), (''sqlx'', Warn)]"
  have "map_of (rev ?calls) ''sqlx::query'' = Some Error" "target_matches ''sqlx::query'' ''sqlx::query''"
    "\<forall>q. map_of (rev ?calls) q \<noteq> None \<and> target_matches ''sqlx::query'' q \<longrightarrow> length q \<le> length ''sqlx::query''"
    by (auto simp: target_matches_def)
  then show ?thesis
    using most_specific_override [OF refl, of ?calls "''sqlx::query''" Info] by blast
qed


subsection \<open>What the layers render\<close>

text \<open>
  Both layers render the same events. An event is left out of the console exactly when it is
  left out of the file: when it is a trace event or below the effective minimum of its target.
\<close>

theorem layers_agree:
  "(console_render env config global ts ev = [] \<longleftrightarrow> file_render config global ts' ev = [])
   \<and> (console_render env config global ts ev = [] \<longleftrightarrow>
        (case from_tracing (ev_level ev) of
           None \<Rightarrow> True
         | Some level \<Rightarrow> level < effective_min_level (ev_target ev) (lc_target_overrides config) global))"
  by (simp add: console_render_def file_render_def passes_def format_simple_def format_normal_def format_context_def
      format_file_def Let_def split: option.split FormatMode.split prod.split)

text \<open>The target of every record bridged from the \<open>log\<close> crate is \<open>log\<close>.\<close>

lemma effective_log:
  "effective_min_level ''log'' os global = (case override_map os ''log'' of None \<Rightarrow> global | Some l \<Rightarrow> l)"
proof (induction os)
  case (Cons t os)
  have "target_matches ''log'' q \<longleftrightarrow> q = ''log''" for q
    by (cases q; cases "tl q") (auto simp: target_matches_def)
  then show ?case using Cons by (auto simp: override_map_def)
qed (simp add: override_map_def)

lemma override_map_config: "prefixes_ok (lb_target_overrides b) \<Longrightarrow>
    override_map (lc_target_overrides (config_from b)) = override_map (lb_target_overrides b)"
proof
  fix q assume ok: "prefixes_ok (lb_target_overrides b)"
  have "override_map (lc_target_overrides (config_from b)) q = Some l \<longleftrightarrow> override_map (lb_target_overrides b) q = Some l" for l
    using override_map_iff [OF ok] override_map_iff [OF config_overrides(3) [OF ok]] by (simp add: config_overrides(1))
  then show "override_map (lc_target_overrides (config_from b)) q = override_map (lb_target_overrides b) q"
    by (metis option.exhaust)
qed

text \<open>
  Overrides for crates that log through the \<open>log\<close> crate have no effect: the layers filter by the
  target of the bridge, although the console displays the original one.
\<close>

theorem bridged_override_ignored:
  assumes "ev_target ev = ''log''" and "prefix \<noteq> ''log''" and "prefixes_ok (lb_target_overrides b)"
  shows "console_render env (config_from (target_level prefix level b)) global ts ev = console_render env (config_from b) global ts ev"
proof -
  let ?b = "target_level prefix level b"
  have ok: "prefixes_ok (lb_target_overrides ?b)" using assms(3) by (simp add: target_level_def override_level_ok)
  have "effective_min_level ''log'' (lc_target_overrides (config_from ?b)) global
      = effective_min_level ''log'' (lc_target_overrides (config_from b)) global"
    unfolding effective_log override_map_config [OF ok] override_map_config [OF assms(3)]
    using assms(2) by (simp add: target_level_def override_level_map)
  then have "passes (config_from ?b) global ev = passes (config_from b) global ev" unfolding passes_def assms(1) by (rule arg_cong)
  moreover have "lc_format (config_from ?b) = lc_format (config_from b)" "lc_color (config_from ?b) = lc_color (config_from b)"
    "lc_strip_target_prefix (config_from ?b) = lc_strip_target_prefix (config_from b)"
    by (simp_all add: config_from_def target_level_def)
  ultimately show ?thesis unfolding console_render_def by (simp only:)
qed

subsection \<open>Installation\<close>

fun installs :: "(init_env \<times> LogBuilder) list \<Rightarrow> Logger \<Rightarrow> (InitError + bool) list \<times> Logger" where
  "installs [] p = ([], p)"
| "installs ((env, b) # calls) p =
     (case install_with_config env b p of (r, p1) \<Rightarrow> (case installs calls p1 of (rs, p2) \<Rightarrow> (r # rs, p2)))"

text \<open>Failures of their own, then at most one success, then refusals.\<close>

fun ok_once :: "(InitError + bool) list \<Rightarrow> bool" where
  "ok_once [] \<longleftrightarrow> True"
| "ok_once (r # rs) \<longleftrightarrow>
     (if is_ok r then (\<forall>r' \<in> set rs. r' = Inl AlreadyInitialized) else r \<noteq> Inl AlreadyInitialized \<and> ok_once rs)"

lemma install_refused: "lg_initialized p \<Longrightarrow> install_with_config env b p = (Inl AlreadyInitialized, p)"
  by (simp add: install_with_config_def)

lemma installs_refused: "lg_initialized p \<Longrightarrow> installs calls p = (replicate (length calls) (Inl AlreadyInitialized), p)"
  by (induction calls) (auto simp: install_refused)

lemma install_fresh:
  assumes "\<not> lg_initialized p" and "install_with_config env b p = (r, p')"
  shows "r \<noteq> Inl AlreadyInitialized" and "lg_initialized p' \<longleftrightarrow> is_ok r"
    and "lg_subscriber p' = (if is_ok r then lg_subscriber p' else lg_subscriber p)" and "is_ok r \<Longrightarrow> lg_subscriber p' \<noteq> None"
  using assms by (auto simp: install_with_config_def build_file_layer_def Let_def split: if_splits sum.splits option.splits prod.splits)

lemma installs_ok_once:
  "\<not> lg_initialized p \<Longrightarrow> lg_subscriber p = None \<Longrightarrow> installs calls p = (rs, p') \<Longrightarrow>
     ok_once rs \<and> (lg_subscriber p' \<noteq> None \<longleftrightarrow> (\<exists>r \<in> set rs. is_ok r))"
proof (induction calls arbitrary: p rs)
  case (Cons c calls)
  obtain env b where c: "c = (env, b)" by (cases c)
  obtain r p1 where r: "install_with_config env b p = (r, p1)" by (cases "install_with_config env b p")
  obtain rs1 where rs: "installs calls p1 = (rs1, p')" "rs = r # rs1"
    using Cons.prems(3) c r by (cases "installs calls p1") auto
  note f = install_fresh [OF Cons.prems(1) r]
  show ?case
  proof (cases "is_ok r")
    case True
    then show ?thesis using f(2,4) rs installs_refused [of p1 calls] by auto
  next
    case False
    then show ?thesis using Cons.IH [OF _ _ rs(1)] f(1-3) Cons.prems(2) rs(2) by auto
  qed
qed simp

text \<open>
  The logger is installed at most once. Whatever sequence of installations a process tries and
  whatever they meet, the first one that gets through installs the subscriber; every later one
  is refused and changes nothing, and one that fails before can be repeated.
\<close>

theorem init_once:
  "ok_once (fst (installs calls logger_fresh))
   \<and> (lg_subscriber (snd (installs calls logger_fresh)) \<noteq> None \<longleftrightarrow> (\<exists>r \<in> set (fst (installs calls logger_fresh)). is_ok r))"
  using installs_ok_once [of logger_fresh calls] by (cases "installs calls logger_fresh") (simp add: logger_fresh_def)

subsection \<open>Level overrides\<close>

text \<open>Guards that live in nested scopes.\<close>

datatype scope = Override Level "scope list"

fun run_scope :: "scope \<Rightarrow> Logger \<Rightarrow> Logger" where
  "run_scope (Override level body) p =
     (case override_new level p of (previous, p1) \<Rightarrow> override_drop previous (fold run_scope body p1))"

lemma current_set_min_level [simp]: "current_min_level (set_min_level l p) = l"
  by (simp add: current_min_level_def set_min_level_def)

text \<open>Nested guards restore the level that was in force before, whatever happened inside.\<close>

theorem override_nested: "current_min_level (run_scope s p) = current_min_level p"
  by (cases s) (simp add: override_new_def override_drop_def)

text \<open>
  Guards whose lifetimes overlap do not: when the outer one is dropped first, its level stays in
  force after both are gone.
\<close>

theorem override_overlap_leaks:
  assumes "override_new outer p = (g1, p1)" and "override_new inner p1 = (g2, p2)"
  shows "current_min_level (override_drop g2 (override_drop g1 p2)) = outer"
  using assms by (auto simp: override_new_def override_drop_def)

text \<open>\<open>catch\<close> returns its result unchanged, and logs an error with its whole chain of causes.\<close>

lemma catch_error_transparent:
  "fst (catch_error context r log) = r"
  "snd (catch_error context (Inr v) log) = log"
  "snd (catch_error context (Inl (Chained m source)) log) =
     log @ (context @ '': '' @ m) # (case source of None \<Rightarrow> [] | Some e \<Rightarrow> causes (Chained m (Some e)))"
  by (simp_all add: catch_error_def split: sum.split option.split)

section \<open>Events through the installed layers\<close>

text \<open>
  What the layers have written: to standard error, and to the writer of the file. An event goes to
  every layer of the installed subscriber; what renders to nothing is not written.
\<close>

record log_output =
  lo_stderr :: string
  lo_file :: string

definition console_on_event :: "log_env \<Rightarrow> LogConfig \<Rightarrow> Level \<Rightarrow> string \<Rightarrow> log_event \<Rightarrow> log_output \<Rightarrow> log_output" where
  "console_on_event env config global ts ev out =
     (let bytes = console_render env config global ts ev
      in if bytes \<noteq> [] then out\<lparr>lo_stderr := lo_stderr out @ bytes\<rparr> else out)"

definition file_on_event :: "LogConfig \<Rightarrow> Level \<Rightarrow> string \<Rightarrow> log_event \<Rightarrow> log_output \<Rightarrow> log_output" where
  "file_on_event config global ts ev out =
     (let bytes = file_render config global ts ev
      in if bytes = [] then out else out\<lparr>lo_file := lo_file out @ bytes\<rparr>)"

definition log_emit :: "log_env \<Rightarrow> Logger \<Rightarrow> string \<Rightarrow> string \<Rightarrow> log_event \<Rightarrow> log_output \<Rightarrow> log_output" where
  "log_emit env p ts file_ts ev out =
     (case lg_subscriber p of
        None \<Rightarrow> out
      | Some (config, layer) \<Rightarrow>
          (let out1 = console_on_event env config (current_min_level p) ts ev out
           in if layer = None then out1 else file_on_event config (current_min_level p) file_ts ev out1))"

lemma render_empty:
  "console_render env config global ts ev = [] \<longleftrightarrow> passes config global ev = None"
  "file_render config global ts ev = [] \<longleftrightarrow> passes config global ev = None"
  by (simp_all add: console_render_def file_render_def format_simple_def format_normal_def format_context_def
      format_file_def Let_def split: option.split FormatMode.split prod.split)

lemma console_on_event_eq:
  "console_on_event env config global ts ev out = out\<lparr>lo_stderr := lo_stderr out @ console_render env config global ts ev\<rparr>"
  by (simp add: console_on_event_def Let_def)

lemma file_on_event_eq:
  "file_on_event config global ts ev out = out\<lparr>lo_file := lo_file out @ file_render config global ts ev\<rparr>"
  by (simp add: file_on_event_def Let_def)

lemma install_subscriber:
  assumes "install_with_config ienv b p = (Inr worker, p')"
  shows "\<exists>layer. lg_subscriber p' = Some (config_from b, layer) \<and> (layer = None \<longleftrightarrow> lb_log_file b = None)
    \<and> (worker \<longleftrightarrow> layer \<noteq> None) \<and> current_min_level p' = lb_level b"
  using assms
  by (auto simp: install_with_config_def current_min_level_def config_from_def Let_def split: sum.splits if_splits)

text \<open>
  From the builder to the output: after an installation, an event is written to standard error, and
  to the file if there is one, exactly when its level reaches that of the most specific override of
  its target, or of the builder where there is none; and what was written before stays.
\<close>

theorem installed_events:
  assumes "install_with_config ienv b p = (Inr worker, p')"
  shows "\<exists>line file_line. log_emit env p' ts file_ts ev out =
      out\<lparr>lo_stderr := lo_stderr out @ line, lo_file := lo_file out @ file_line\<rparr>
    \<and> (line \<noteq> [] \<longleftrightarrow> passes (config_from b) (lb_level b) ev \<noteq> None)
    \<and> (file_line \<noteq> [] \<longleftrightarrow> passes (config_from b) (lb_level b) ev \<noteq> None \<and> lb_log_file b \<noteq> None)"
proof -
  let ?pass = "passes (config_from b) (lb_level b) ev \<noteq> None"
  obtain layer where l: "lg_subscriber p' = Some (config_from b, layer)" "layer = None \<longleftrightarrow> lb_log_file b = None"
    "current_min_level p' = lb_level b"
    using install_subscriber [OF assms(1)] by metis
  let ?line = "console_render env (config_from b) (lb_level b) ts ev"
  let ?file = "if layer = None then [] else file_render (config_from b) (lb_level b) file_ts ev"
  show ?thesis
  proof (intro exI conjI)
    show "log_emit env p' ts file_ts ev out = out\<lparr>lo_stderr := lo_stderr out @ ?line, lo_file := lo_file out @ ?file\<rparr>"
      unfolding log_emit_def l(1,3) by (cases layer) (simp_all add: console_on_event_eq file_on_event_eq Let_def)
    show "?line \<noteq> [] \<longleftrightarrow> ?pass" unfolding render_empty ..
    show "?file \<noteq> [] \<longleftrightarrow> ?pass \<and> lb_log_file b \<noteq> None" using l(2) render_empty(2) by (cases layer) simp_all
  qed
qed

text \<open>An override guard takes effect on the installed layers at once.\<close>

lemma override_takes_effect:
  assumes "lg_subscriber p = Some (config, layer)" and "override_new level p = (previous, p')"
  shows "lo_stderr (log_emit env p' ts file_ts ev out) = lo_stderr out \<longleftrightarrow> passes config level ev = None"
proof -
  have p: "lg_subscriber p' = Some (config, layer)" "current_min_level p' = level"
  proof -
    have "p' = set_min_level level p" using assms(2) by (simp add: override_new_def)
    then show "current_min_level p' = level" "lg_subscriber p' = Some (config, layer)"
      using assms(1) by (simp, simp add: set_min_level_def)
  qed
  show ?thesis unfolding log_emit_def p
    by (cases layer) (simp_all add: console_on_event_eq file_on_event_eq render_empty Let_def)
qed

end
