(* ===== verification/Commands.thy ===== *)
theory Commands
  imports Kvs Storage
begin

text \<open>
  \<open>crates/tauri-plugin-polybase\<close>: the runtime handle, the commands the frontend invokes, the
  forwarding of events and the session file format. Mirrors and queues are shared objects: the
  runtime and the coordinators it builds name them by number, and their states are kept once.
  The hook that switches the mirror of a user only spawns a task; the spawned tasks wait in
  \<open>ru_spawned\<close> and may run in any order.
\<close>

section \<open>State\<close>

record ('s, 'q) runtime_env =
  ve_server :: "http_request list \<Rightarrow> http_request \<Rightarrow> string + http_response"
  ve_codec :: json_codec
  ve_uuid_v7 :: "nat \<Rightarrow> string"
  ve_cipher :: cipher_env
  ve_clock :: clock
  ve_now_micros :: i64
  ve_local :: "'s LocalStore"
  ve_enqueue :: "QueuedOperation \<Rightarrow> 'q \<Rightarrow> (OfflineQueueError + unit) \<times> 'q"
  ve_depth :: "'q \<Rightarrow> (OfflineQueueError + nat) \<times> 'q"
  ve_http_builder :: "string + unit"
  ve_storage :: "storage_request list \<Rightarrow> storage_request \<Rightarrow> string + storage_response"

text \<open>The session store with the client it refreshes with.\<close>

record session_handle =
  sx_client :: ClientConfig
  sx_store :: SessionStore

record coordinator_handle =
  ch_client :: ClientConfig
  ch_registry :: Registry
  ch_encryption :: "Encryption option"
  ch_local :: nat
  ch_queue :: nat

record ('s, 'q) Runtime =
  ru_client :: "ClientConfig option"
  ru_sessions :: "session_handle option"
  ru_encryption :: "Encryption option"
  ru_events :: EventBus
  ru_registry :: Registry
  ru_local :: "nat option"
  ru_queue :: "nat option"
  ru_coordinator :: "coordinator_handle option"
  ru_kvs :: "coordinator_handle option"
  ru_hook :: "nat option"
  ru_network :: network
  ru_objects :: "storage_request list"
  ru_locals :: "nat \<Rightarrow> 's"
  ru_queues :: "nat \<Rightarrow> 'q"
  ru_spawned :: "(nat \<times> string) list"

type_synonym ('s, 'q, 'a) command = "('s, 'q) Runtime \<Rightarrow> (string + 'a) \<times> ('s, 'q) Runtime"

definition runtime_new :: "(nat \<Rightarrow> 's) \<Rightarrow> (nat \<Rightarrow> 'q) \<Rightarrow> network \<Rightarrow> ('s, 'q) Runtime" where
  "runtime_new mirrors queues n =
     \<lparr>ru_client = None, ru_sessions = None, ru_encryption = None, ru_events = [], ru_registry = registry_new,
      ru_local = None, ru_queue = None, ru_coordinator = None, ru_kvs = None, ru_hook = None, ru_network = n,
      ru_objects = [], ru_locals = mirrors, ru_queues = queues, ru_spawned = []\<rparr>"

definition runtime_attach :: "nat \<Rightarrow> nat \<Rightarrow> ('s, 'q) Runtime \<Rightarrow> ('s, 'q) Runtime" where
  "runtime_attach mirror queue r = r\<lparr>ru_local := Some mirror, ru_queue := Some queue\<rparr>"

definition set_registry :: "Registry \<Rightarrow> ('s, 'q) Runtime \<Rightarrow> ('s, 'q) Runtime" where
  "set_registry registry r = r\<lparr>ru_registry := registry\<rparr>"

section \<open>Configuration\<close>

definition not_configured :: string where
  "not_configured = ''polybase not configured''"

definition new_session_handle :: "ClientConfig \<Rightarrow> session_handle" where
  "new_session_handle client = \<lparr>sx_client = client, sx_store = session_store_new\<rparr>"

definition register_kvs :: "Registry \<Rightarrow> Registry" where
  "register_kvs registry = unwrap_or registry (kvs_register registry)"

text \<open>\<open>Client::new\<close>: a valid configuration and an HTTP client that can be built.\<close>

definition client_new :: "('s, 'q) runtime_env \<Rightarrow> ClientConfig \<Rightarrow> PolyError + unit" where
  "client_new env config =
     (case client_validate config of Inl e \<Rightarrow> Inl e | Inr _ \<Rightarrow> map_err Poly_Http (ve_http_builder env))"

text \<open>
  \<open>configure_inner\<close>: nothing changes before the client and the encryption are built. A new
  coordinator starts with an empty echo tracker.
\<close>

definition configure :: "('s, 'q) runtime_env \<Rightarrow> ClientConfig \<Rightarrow> ('s, 'q, unit) command" where
  "configure env config r =
     (case client_new env config of
        Inl e \<Rightarrow> (Inl (poly_display e), r)
      | Inr _ \<Rightarrow>
          (case (case encryption_secret config of
                   Some secret \<Rightarrow> map_err encryption_display (map_sum id Some (encryption_new (ce_crypto (ve_cipher env)) secret))
                 | None \<Rightarrow> Inr None) of
             Inl e \<Rightarrow> (Inl e, r)
           | Inr encryption \<Rightarrow>
               (let sessions = (case ru_sessions r of Some s \<Rightarrow> s | None \<Rightarrow> new_session_handle config);
                    registry = register_kvs (ru_registry r);
                    r1 = r\<lparr>ru_client := Some config, ru_encryption := encryption, ru_registry := registry\<rparr>
                in case (ru_local r, ru_queue r) of
                     (Some mirror, Some queue) \<Rightarrow>
                       (let coord = \<lparr>ch_client = config, ch_registry = registry, ch_encryption = encryption,
                                     ch_local = mirror, ch_queue = queue\<rparr>
                        in (Inr (), r1\<lparr>ru_sessions := Some (sessions\<lparr>sx_store := on_user_changed (sx_store sessions)\<rparr>),
                                       ru_hook := Some mirror, ru_coordinator := Some coord, ru_kvs := Some coord,
                                       ru_network := (ru_network r)\<lparr>net_echo := echo_default_window\<rparr>\<rparr>))
                   | _ \<Rightarrow> (Inr (), r1\<lparr>ru_sessions := Some sessions, ru_coordinator := None, ru_kvs := None\<rparr>))))"

section \<open>Sessions\<close>

text \<open>
  An operation of the session store: it publishes on the shared bus, and the hook spawns one task
  per change of user on the mirror it was last registered for.
\<close>

definition spawn_switches :: "nat option \<Rightarrow> string option list \<Rightarrow> (nat \<times> string) list" where
  "spawn_switches hook users =
     (case hook of None \<Rightarrow> [] | Some mirror \<Rightarrow> map (\<lambda>new_user. (mirror, unwrap_or [] new_user)) users)"

definition with_sessions :: "(SessionStore \<Rightarrow> 'a \<times> SessionStore) \<Rightarrow> ('s, 'q, 'a) command" where
  "with_sessions act r =
     (case ru_sessions r of
        None \<Rightarrow> (Inl not_configured, r)
      | Some h \<Rightarrow>
          (case act ((sx_store h)\<lparr>ss_events := ru_events r\<rparr>) of
             (x, store) \<Rightarrow>
               (Inr x, r\<lparr>ru_sessions := Some (h\<lparr>sx_store := store\<rparr>), ru_events := ss_events store,
                         ru_spawned := ru_spawned r
                           @ spawn_switches (ru_hook r) (drop (length (ss_hook_calls (sx_store h))) (ss_hook_calls store))\<rparr>)))"

definition set_session_command :: "SessionPayload \<Rightarrow> ('s, 'q, unit) command" where
  "set_session_command payload r = apfst (map_sum id (\<lambda>_. ())) (with_sessions (set_session payload) r)"

definition clear_session_command :: "('s, 'q, unit) command" where
  "clear_session_command r = apfst (map_sum id (\<lambda>_. ())) (with_sessions clear_session r)"

definition active_session :: "('s, 'q) Runtime \<Rightarrow> SessionPayload option" where
  "active_session r = Option.bind (ru_sessions r) (\<lambda>h. ss_session (sx_store h))"

definition current_session :: "('s, 'q, SessionPayload option) command" where
  "current_session r =
     (case ru_sessions r of None \<Rightarrow> (Inl not_configured, r) | Some h \<Rightarrow> (Inr (ss_session (sx_store h)), r))"

text \<open>One spawned task: \<open>switch_user\<close> on the mirror, its result ignored.\<close>

definition run_switch :: "('s, 'q) runtime_env \<Rightarrow> nat \<times> string \<Rightarrow> ('s, 'q) Runtime \<Rightarrow> ('s, 'q) Runtime" where
  "run_switch env task r =
     (case task of (mirror, user_id) \<Rightarrow>
        r\<lparr>ru_locals := (ru_locals r)(mirror := snd (ls_switch_user (ve_local env) user_id (ru_locals r mirror)))\<rparr>)"

text \<open>The runtime picks any of the tasks that wait.\<close>

inductive switch_step :: "('s, 'q) runtime_env \<Rightarrow> ('s, 'q) Runtime \<Rightarrow> ('s, 'q) Runtime \<Rightarrow> bool"
  for env :: "('s, 'q) runtime_env" where
  pick: "ru_spawned r = before @ task # after \<Longrightarrow>
           switch_step env r (run_switch env task (r\<lparr>ru_spawned := before @ after\<rparr>))"

inductive_cases switch_stepE: "switch_step env r r'"

section \<open>Edge calls and encryption\<close>

record EdgeCallArgs =
  ea_function :: string
  ea_op :: "string option"
  ea_payload :: json
  ea_idempotency_key :: "string option"
  ea_request_id :: "string option"

definition edge_request_of :: "EdgeCallArgs \<Rightarrow> EdgeRequest" where
  "edge_request_of args =
     (let req = edge_request_new (ea_function args) (ea_payload args);
          req = (case ea_op args of None \<Rightarrow> req | Some op \<Rightarrow> with_op op req);
          req = (case ea_idempotency_key args of None \<Rightarrow> req | Some k \<Rightarrow> with_idempotency_key k req)
      in case ea_request_id args of None \<Rightarrow> req | Some i \<Rightarrow> with_request_id i req)"

text \<open>\<open>require_client_and_session\<close> and the active session.\<close>

definition require_session :: "('s, 'q) Runtime \<Rightarrow> string + ClientConfig \<times> SessionPayload" where
  "require_session r =
     (case (ru_client r, ru_sessions r) of
        (Some client, Some _) \<Rightarrow>
          (case active_session r of None \<Rightarrow> Inl ''no active session'' | Some session \<Rightarrow> Inr (client, session))
      | _ \<Rightarrow> Inl not_configured)"

definition client_net :: "('s, 'q) runtime_env \<Rightarrow> ClientConfig \<Rightarrow> net_env" where
  "client_net env client = \<lparr>ne_config = client, ne_server = ve_server env, ne_codec = ve_codec env, ne_uuid_v7 = ve_uuid_v7 env\<rparr>"

definition edge_call_command :: "('s, 'q) runtime_env \<Rightarrow> EdgeCallArgs \<Rightarrow> ('s, 'q, json EdgeOk) command" where
  "edge_call_command env args r =
     (case require_session r of
        Inl e \<Rightarrow> (Inl e, r)
      | Inr (client, session) \<Rightarrow>
          (case edge_call (client_net env client) Inr (edge_request_of args) (sp_access_token session) (ru_network r) of
             (res, n) \<Rightarrow> (map_err poly_display res, r\<lparr>ru_network := n\<rparr>)))"

definition current_encryption_context :: "('s, 'q) runtime_env \<Rightarrow> ('s, 'q) Runtime \<Rightarrow> string + Encryption \<times> uuid" where
  "current_encryption_context env r =
     (case ru_encryption r of
        None \<Rightarrow> Inl ''encryption not configured''
      | Some enc \<Rightarrow>
          (if ru_sessions r = None then Inl not_configured
           else
             (case active_session r of
                None \<Rightarrow> Inl ''no active session''
              | Some session \<Rightarrow> Inr (enc, key_user_uuid (ce_crypto (ve_cipher env)) (sp_user_id session)))))"

text \<open>The nonces are those drawn for the call, one per string.\<close>

definition encrypt_command :: "('s, 'q) runtime_env \<Rightarrow> bytes \<Rightarrow> string \<Rightarrow> ('s, 'q, string) command" where
  "encrypt_command env nonce plaintext r =
     (case current_encryption_context env r of
        Inl e \<Rightarrow> (Inl e, r)
      | Inr (enc, user) \<Rightarrow> (map_err encryption_display (encrypt (ce_crypto (ve_cipher env)) enc nonce plaintext user), r))"

definition decrypt_command :: "('s, 'q) runtime_env \<Rightarrow> string \<Rightarrow> ('s, 'q, string) command" where
  "decrypt_command env ciphertext r =
     (case current_encryption_context env r of
        Inl e \<Rightarrow> (Inl e, r)
      | Inr (enc, user) \<Rightarrow> (map_err encryption_display (decrypt (ce_crypto (ve_cipher env)) enc ciphertext user), r))"

definition encrypt_batch :: "('s, 'q) runtime_env \<Rightarrow> (bytes \<times> string) list \<Rightarrow> ('s, 'q, string list) command" where
  "encrypt_batch env plaintexts r =
     (case current_encryption_context env r of
        Inl e \<Rightarrow> (Inl e, r)
      | Inr (enc, user) \<Rightarrow>
          (collect_results (map (\<lambda>(nonce, plaintext).
             map_err encryption_display (encrypt (ce_crypto (ve_cipher env)) enc nonce plaintext user)) plaintexts), r))"

definition result_ok :: "'e + 'a \<Rightarrow> 'a option" where
  "result_ok res = (case res of Inl _ \<Rightarrow> None | Inr x \<Rightarrow> Some x)"

definition decrypt_batch :: "('s, 'q) runtime_env \<Rightarrow> string list \<Rightarrow> ('s, 'q, string option list) command" where
  "decrypt_batch env ciphertexts r =
     (case current_encryption_context env r of
        Inl e \<Rightarrow> (Inl e, r)
      | Inr (enc, user) \<Rightarrow>
          (Inr (map (\<lambda>ciphertext. result_ok (decrypt (ce_crypto (ve_cipher env)) enc ciphertext user)) ciphertexts), r))"

section \<open>The key-value store\<close>

definition handle_env :: "('s, 'q) runtime_env \<Rightarrow> coordinator_handle \<Rightarrow> ('s, 'q) coord_env" where
  "handle_env env h =
     \<lparr>cv_net = client_net env (ch_client h), cv_cipher = ve_cipher env, cv_clock = ve_clock env,
      cv_now_micros = ve_now_micros env, cv_local = ve_local env, cv_enqueue = ve_enqueue env, cv_depth = ve_depth env\<rparr>"

definition open_coordinator :: "coordinator_handle \<Rightarrow> ('s, 'q) Runtime \<Rightarrow> ('s, 'q) Coordinator" where
  "open_coordinator h r =
     \<lparr>cd_registry = ch_registry h, cd_session = active_session r, cd_network = ru_network r,
      cd_queue = ru_queues r (ch_queue h), cd_events = ru_events r, cd_encryption = ch_encryption h,
      cd_local = ru_locals r (ch_local h)\<rparr>"

definition close_coordinator :: "coordinator_handle \<Rightarrow> ('s, 'q) Coordinator \<Rightarrow> ('s, 'q) Runtime \<Rightarrow> ('s, 'q) Runtime" where
  "close_coordinator h c r =
     r\<lparr>ru_network := cd_network c, ru_queues := (ru_queues r)(ch_queue h := cd_queue c), ru_events := cd_events c,
       ru_locals := (ru_locals r)(ch_local h := cd_local c)\<rparr>"

definition with_kvs :: "('s, 'q) runtime_env \<Rightarrow> (('s, 'q) coord_env \<Rightarrow> ('s, 'q, 'a) coord_call) \<Rightarrow> ('s, 'q, 'a) command" where
  "with_kvs env act r =
     (case ru_kvs r of
        None \<Rightarrow> (Inl ''polybase coordinator not attached'', r)
      | Some h \<Rightarrow>
          (case act (handle_env env h) (open_coordinator h r) of
             (res, c) \<Rightarrow> (map_err poly_display res, close_coordinator h c r)))"

definition kvs_get_command :: "('s, 'q) runtime_env \<Rightarrow> string \<Rightarrow> string \<Rightarrow> ('s, 'q, json option) command" where
  "kvs_get_command env namespace key = with_kvs env (\<lambda>e. kvs_get e Inr namespace key)"

definition kvs_set_command :: "('s, 'q) runtime_env \<Rightarrow> string \<Rightarrow> string \<Rightarrow> json \<Rightarrow> ('s, 'q, unit) command" where
  "kvs_set_command env namespace key v = with_kvs env (\<lambda>e. kvs_set e namespace key v)"

definition kvs_delete_command :: "('s, 'q) runtime_env \<Rightarrow> string \<Rightarrow> string \<Rightarrow> ('s, 'q, unit) command" where
  "kvs_delete_command env namespace key = with_kvs env (\<lambda>e. kvs_delete e namespace key)"

section \<open>Object storage\<close>

definition bucket_with_optional_encryption :: "crypto \<Rightarrow> string \<Rightarrow> Encryption option \<Rightarrow> string \<Rightarrow> Bucket" where
  "bucket_with_optional_encryption cr bucket_name encryption user_id =
     (case encryption of
        Some enc \<Rightarrow> with_encryption enc (key_user_uuid cr user_id) (bucket_new bucket_name)
      | None \<Rightarrow> bucket_new bucket_name)"

definition client_storage :: "('s, 'q) runtime_env \<Rightarrow> ClientConfig \<Rightarrow> storage_env" where
  "client_storage env client =
     \<lparr>sg_config = client, sg_server = ve_storage env, sg_codec = ve_codec env, sg_crypto = ce_crypto (ve_cipher env)\<rparr>"

text \<open>A call on the configured bucket, with the encryption engine or without.\<close>

definition with_bucket ::
  "('s, 'q) runtime_env \<Rightarrow> bool \<Rightarrow> (storage_env \<Rightarrow> Bucket \<Rightarrow> string \<Rightarrow> 'a storage_call) \<Rightarrow> ('s, 'q, 'a) command" where
  "with_bucket env sealed act r =
     (case require_session r of
        Inl e \<Rightarrow> (Inl e, r)
      | Inr (client, session) \<Rightarrow>
          (let bucket = bucket_with_optional_encryption (ce_crypto (ve_cipher env)) (storage_bucket_or_default client)
                          (if sealed then ru_encryption r else None) (sp_user_id session)
           in case act (client_storage env client) bucket (sp_access_token session) (ru_objects r) of
                (res, sent) \<Rightarrow> (map_err poly_display res, r\<lparr>ru_objects := sent\<rparr>)))"

definition storage_upload_command ::
  "('s, 'q) runtime_env \<Rightarrow> bytes \<Rightarrow> string \<Rightarrow> bytes \<Rightarrow> string \<Rightarrow> bool \<Rightarrow> ('s, 'q, unit) command" where
  "storage_upload_command env nonce path bs content_type upsert =
     with_bucket env True (\<lambda>e b token. storage_upload e nonce b path bs content_type token upsert)"

definition storage_download_command :: "('s, 'q) runtime_env \<Rightarrow> string \<Rightarrow> ('s, 'q, bytes) command" where
  "storage_download_command env path = with_bucket env True (\<lambda>e b token. storage_download e b path token)"

definition storage_delete_command :: "('s, 'q) runtime_env \<Rightarrow> string \<Rightarrow> ('s, 'q, unit) command" where
  "storage_delete_command env path = with_bucket env False (\<lambda>e b token. storage_delete e b path token)"

record StorageListArgs =
  la_prefix :: string
  la_limit :: "u32 option"
  la_offset :: "u32 option"
  la_search :: "string option"
  la_sort_column :: "string option"
  la_sort_order :: "string option"

definition list_options_of :: "StorageListArgs \<Rightarrow> ListOptions" where
  "list_options_of args =
     \<lparr>lo_limit = la_limit args, lo_offset = la_offset args, lo_search = la_search args,
      lo_sort_by = map_option (\<lambda>column. \<lparr>ls_column = column, ls_order = unwrap_or ''asc'' (la_sort_order args)\<rparr>)
        (la_sort_column args)\<rparr>"

definition storage_list_command :: "('s, 'q) runtime_env \<Rightarrow> StorageListArgs \<Rightarrow> ('s, 'q, ObjectEntry list) command" where
  "storage_list_command env args =
     with_bucket env False (\<lambda>e b token. storage_list e b (la_prefix args) (list_options_of args) token)"

definition storage_signed_url_command :: "('s, 'q) runtime_env \<Rightarrow> string \<Rightarrow> u32 \<Rightarrow> ('s, 'q, string) command" where
  "storage_signed_url_command env path expires_in_seconds =
     with_bucket env False (\<lambda>e b token. create_signed_url e b path expires_in_seconds token)"

section \<open>Events and the session file\<close>

fun topic_for :: "PolyEvent \<Rightarrow> string" where
  "topic_for (SessionChanged _ _) = ''polybase:session_changed''"
| "topic_for (RealtimeChanged _ _ _) = ''polybase:realtime_changed''"
| "topic_for (OfflineQueueChanged _ _) = ''polybase:offline_queue_changed''"
| "topic_for (ReconcileProgress _ _ _) = ''polybase:reconcile_progress''"
| "topic_for (PullProgress _ _ _) = ''polybase:pull_progress''"
| "topic_for (KvsChanged _ _ _) = ''polybase:kvs_changed''"
| "topic_for (VersionRegressionDetected _ _) = ''polybase:version_regression_detected''"

text \<open>The forwarder stops at the first answer that is not an event.\<close>

fun forward :: "PolyEvent bus_recv list \<Rightarrow> (string \<times> PolyEvent) list" where
  "forward [] = []"
| "forward (Received event # rs) = (topic_for event, event) # forward rs"
| "forward (Lagged skipped # rs) = []"
| "forward (Bus_closed # rs) = []"

definition render_session :: "SessionPayload \<Rightarrow> json" where
  "render_session p =
     JObject (obj_of_list
       [(''user_id'', JString (sp_user_id p)), (''access_token'', JString (sp_access_token p)),
        (''refresh_token'', JString (sp_refresh_token p)), (''expires_at'', json_of_i64 (sp_expires_at p)),
        (''updated_at'', JInt (int (unat (sp_updated_at p))))])"

definition parse_session :: "json \<Rightarrow> SessionPayload option" where
  "parse_session v =
     (case v of
        JObject m \<Rightarrow>
          (case (get_str m ''user_id'', get_str m ''access_token'', get_str m ''refresh_token'', get_i64 m ''expires_at'',
                 (case obj_get m ''updated_at'' of None \<Rightarrow> Some 0 | Some w \<Rightarrow> as_u64 w)) of
             (Some u, Some a, Some f, Some e, Some n) \<Rightarrow>
               Some \<lparr>sp_user_id = u, sp_access_token = a, sp_refresh_token = f, sp_expires_at = e, sp_updated_at = word_of_nat n\<rparr>
           | _ \<Rightarrow> None)
      | _ \<Rightarrow> None)"


section \<open>Properties\<close>

subsection \<open>Configuration\<close>

text \<open>
  Configuring again never signs out. Whatever is configured, and whether it succeeds or not,
  the session store survives with its session, still bound to the client it was created with; a
  success puts the new configuration in force for every command, a failure changes nothing.
\<close>

theorem configure_preserves_session:
  assumes "configure env config r = (res, r')" and "ru_sessions r = Some h"
  shows "active_session r' = active_session r
    \<and> (\<exists>h'. ru_sessions r' = Some h' \<and> sx_client h' = sx_client h \<and> ss_session (sx_store h') = ss_session (sx_store h))
    \<and> (res = Inr () \<longrightarrow> ru_client r' = Some config \<and> (\<forall>c. ru_coordinator r' = Some c \<longrightarrow> ch_client c = config)
         \<and> ru_kvs r' = ru_coordinator r')
    \<and> (\<forall>e. res = Inl e \<longrightarrow> r' = r)"
  using assms
  by (auto simp: configure_def client_new_def active_session_def on_user_changed_def Let_def
      split: sum.splits option.splits)

subsection \<open>The mirror follows the session only in order\<close>

lemma reliable_switch_user:
  assumes "reliable m" and "u \<noteq> []" and "list_all user_id_char u"
  obtains m' where "manager_switch_user u m = (Inr (), m')" "dm_user_id m' = Some u" "reliable m'"
proof (cases "dm_user_id m = Some u")
  case True
  then show ?thesis using that [of m] assms(1) by (simp add: manager_switch_user_def)
next
  case False
  obtain m1 where l: "leave_prior m = (Inr (), m1)" "reliable m1"
    using reliable_leave [OF assms(1)] by blast
  obtain m2 where o: "open_database u m1 = (Inr (), m2)" "reliable m2"
    using l(2) by (auto simp: open_database_def Let_def reliable_def db_fault_def take_fault_def)
  obtain m3 where g: "run_migrator (dm_polybase_migrator m2) u m2 = (Inr (), m3)" "reliable m3"
    using reliable_run_migrator [OF o(2)] by blast
  obtain m4 where h: "run_migrator (dm_app_migrator m3) u m3 = (Inr (), m4)" "reliable m4"
    using reliable_run_migrator [OF g(2)] by blast
  show ?thesis
    using that [of "m4\<lparr>dm_user_id := Some u, dm_pool := Some u\<rparr>"] False assms l o g h
    by (simp add: manager_switch_user_def reliable_def)
qed

lemma set_session_command_spawns:
  assumes "ru_sessions r = Some h" and "ru_hook r = Some mirror" and "ss_has_hook (sx_store h)"
    and "map_option sp_user_id (ss_session (sx_store h)) \<noteq> Some (sp_user_id p)"
  obtains r' h' where "set_session_command p r = (Inr (), r')" "ru_sessions r' = Some h'" "ru_hook r' = Some mirror"
    "ss_has_hook (sx_store h')" "ru_spawned r' = ru_spawned r @ [(mirror, sp_user_id p)]" "ru_locals r' = ru_locals r"
    "map_option sp_user_id (ss_session (sx_store h')) = Some (sp_user_id p)"
  using assms that
  by (cases "ss_session (sx_store h)")
     (auto simp: set_session_command_def with_sessions_def set_session_def session_matches_def fire_user_change_hook_def
       publish_session_def spawn_switches_def Let_def)

text \<open>
  C21: the mirror can end up on the wrong user. After two sign-ins in a row, the tasks that switch
  the SQLite mirror may run in the other order: when all of them are done the session is the
  second user's and the open database the first user's.
\<close>

theorem mirror_race:
  assumes "ve_local env = SqliteLocalStore senv" and "ru_sessions r = Some h" and "ru_hook r = Some mirror"
    and "ss_has_hook (sx_store h)" and "ss_session (sx_store h) = None" and "ru_spawned r = []"
    and "reliable (ru_locals r mirror)" and "sp_user_id a \<noteq> sp_user_id b"
    and "sp_user_id a \<noteq> []" and "list_all user_id_char (sp_user_id a)"
    and "sp_user_id b \<noteq> []" and "list_all user_id_char (sp_user_id b)"
  shows "\<exists>r'. (switch_step env)\<^sup>*\<^sup>* (snd (set_session_command b (snd (set_session_command a r)))) r'
    \<and> ru_spawned r' = [] \<and> map_option sp_user_id (active_session r') = Some (sp_user_id b)
    \<and> manager_current_user (ru_locals r' mirror) = Some (sp_user_id a)"
proof -
  obtain r1 h1 where r1: "set_session_command a r = (Inr (), r1)" "ru_sessions r1 = Some h1" "ru_hook r1 = Some mirror"
    "ss_has_hook (sx_store h1)" "ru_spawned r1 = [(mirror, sp_user_id a)]" "ru_locals r1 = ru_locals r"
    "map_option sp_user_id (ss_session (sx_store h1)) = Some (sp_user_id a)"
    by (rule set_session_command_spawns [OF assms(2-4), of a]) (use assms(5,6) in auto)
  obtain r2 h2 where r2: "set_session_command b r1 = (Inr (), r2)" "ru_sessions r2 = Some h2"
    "ru_spawned r2 = [(mirror, sp_user_id a), (mirror, sp_user_id b)]" "ru_locals r2 = ru_locals r"
    "map_option sp_user_id (ss_session (sx_store h2)) = Some (sp_user_id b)"
    by (rule set_session_command_spawns [OF r1(2-4), of b]) (use r1 assms(8) in auto)
  obtain m1 where m1: "manager_switch_user (sp_user_id b) (ru_locals r mirror) = (Inr (), m1)" "reliable m1"
    using reliable_switch_user [OF assms(7,11,12)] by blast
  obtain m2 where m2: "manager_switch_user (sp_user_id a) m1 = (Inr (), m2)" "dm_user_id m2 = Some (sp_user_id a)"
    using reliable_switch_user [OF m1(2) assms(9,10)] by blast
  let ?r3 = "run_switch env (mirror, sp_user_id b) (r2\<lparr>ru_spawned := [(mirror, sp_user_id a)]\<rparr>)"
  let ?r4 = "run_switch env (mirror, sp_user_id a) (?r3\<lparr>ru_spawned := []\<rparr>)"
  have "switch_step env r2 ?r3"
    using switch_step.pick [of r2 "[(mirror, sp_user_id a)]" _ "[]"] r2(3) by simp
  moreover have "switch_step env ?r3 ?r4"
    using switch_step.pick [of ?r3 "[]" "(mirror, sp_user_id a)" "[]" env] by (simp add: run_switch_def)
  ultimately have "(switch_step env)\<^sup>*\<^sup>* r2 ?r4" by simp
  moreover have "ru_locals ?r4 mirror = m2"
    using m1(1) m2(1) r2(4) by (simp add: run_switch_def assms(1) SqliteLocalStore_def store_switch_user_def)
  moreover have "ru_spawned ?r4 = []" "active_session ?r4 = ss_session (sx_store h2)"
    by (simp_all add: run_switch_def active_session_def r2(2))
  ultimately show ?thesis using m2(2) r2(5) by (auto simp: r1(1) r2(1) manager_current_user_def)
qed

definition plugin_env :: "(sqlite_db DbManager, SqliteQueue) runtime_env" where
  "plugin_env = \<lparr>ve_server = (\<lambda>_ _. Inl []), ve_codec = ref_codec, ve_uuid_v7 = dec, ve_cipher = toy_env,
     ve_clock = \<lparr>now_rfc3339 = ''now'', now_millis = 0\<rparr>, ve_now_micros = 7, ve_local = SqliteLocalStore toy_sqlite,
     ve_enqueue = sqlite_enqueue, ve_depth = sqlite_depth, ve_http_builder = Inr (), ve_storage = keeping_server\<rparr>"

definition plugin_config :: ClientConfig where
  "plugin_config = \<lparr>supabase_url = ''u'', supabase_anon_key = ''k'', encryption_secret = Some ''s'', storage_bucket = None\<rparr>"

definition plugin_runtime :: "(sqlite_db DbManager, SqliteQueue) Runtime" where
  "plugin_runtime = snd (configure plugin_env plugin_config
     (runtime_attach 0 0 (runtime_new (\<lambda>_. kvs_manager) (\<lambda>_. sqlite_fresh) fresh_network)))"

lemma plugin_runtime_eval:
  "ru_sessions plugin_runtime = Some \<lparr>sx_client = plugin_config, sx_store = on_user_changed session_store_new\<rparr>"
  "ru_hook plugin_runtime = Some 0" "ru_spawned plugin_runtime = []" "ru_locals plugin_runtime 0 = kvs_manager"
  "ru_client plugin_runtime = Some plugin_config" "\<exists>enc. ru_encryption plugin_runtime = Some enc"
proof -
  have v: "client_new plugin_env plugin_config = Inr ()"
    by (simp add: client_new_def client_validate_def plugin_env_def plugin_config_def trim_def ascii_ws_def Let_def)
  show "ru_sessions plugin_runtime = Some \<lparr>sx_client = plugin_config, sx_store = on_user_changed session_store_new\<rparr>"
    "ru_hook plugin_runtime = Some 0" "ru_spawned plugin_runtime = []" "ru_locals plugin_runtime 0 = kvs_manager"
    "ru_client plugin_runtime = Some plugin_config" "\<exists>enc. ru_encryption plugin_runtime = Some enc"
    using v by (simp_all add: plugin_runtime_def configure_def plugin_config_def encryption_new_def runtime_attach_def
        runtime_new_def new_session_handle_def Let_def)
qed

theorem mirror_race_witness:
  "\<exists>r'. (switch_step plugin_env)\<^sup>*\<^sup>*
      (snd (set_session_command (sample_session ''bob'') (snd (set_session_command (sample_session ''alice'') plugin_runtime)))) r'
    \<and> map_option sp_user_id (active_session r') = Some ''bob''
    \<and> manager_current_user (ru_locals r' 0) = Some ''alice''"
proof -
  let ?h = "\<lparr>sx_client = plugin_config, sx_store = on_user_changed session_store_new\<rparr>"
  have e: "ve_local plugin_env = SqliteLocalStore toy_sqlite" by (simp add: plugin_env_def)
  have h: "ss_has_hook (sx_store ?h)" "ss_session (sx_store ?h) = None" by (simp_all add: on_user_changed_def session_store_new_def)
  have m: "reliable (ru_locals plugin_runtime 0)" by (simp add: plugin_runtime_eval(4) reliable_def kvs_manager_def)
  have u: "sp_user_id (sample_session ''alice'') = ''alice''" "sp_user_id (sample_session ''bob'') = ''bob''"
    by (simp_all add: sample_session_def)
  have v: "list_all user_id_char ''alice''" "list_all user_id_char ''bob''" by (simp_all add: user_id_char_def)
  show ?thesis
    using mirror_race [OF e plugin_runtime_eval(1,2) h plugin_runtime_eval(3) m, of "sample_session ''alice''" "sample_session ''bob''"]
      u v by auto
qed

theorem configure_preserves_session_witness:
  "\<exists>h. ru_sessions (snd (configure plugin_env (plugin_config\<lparr>supabase_url := ''v''\<rparr>) plugin_runtime)) = Some h
    \<and> sx_client h = plugin_config"
proof -
  obtain res r' where c: "configure plugin_env (plugin_config\<lparr>supabase_url := ''v''\<rparr>) plugin_runtime = (res, r')"
    by (rule prod.exhaust)
  show ?thesis using configure_preserves_session [OF c plugin_runtime_eval(1)] by (auto simp: c)
qed

subsection \<open>Commands\<close>

text \<open>
  Without a session nothing leaves the device. While nobody is signed in, every command that
  would call an Edge function, touch the bucket or use the key of a user returns an error and
  changes nothing: no request is sent.
\<close>

theorem no_session_no_request:
  assumes "active_session r = None"
  shows "(\<exists>e. edge_call_command env args r = (Inl e, r))
    \<and> (\<exists>e. storage_upload_command env nonce path bs content_type upsert r = (Inl e, r))
    \<and> (\<exists>e. storage_download_command env path r = (Inl e, r))
    \<and> (\<exists>e. storage_delete_command env path r = (Inl e, r))
    \<and> (\<exists>e. storage_list_command env list_args r = (Inl e, r))
    \<and> (\<exists>e. storage_signed_url_command env path expiry r = (Inl e, r))
    \<and> (\<exists>e. encrypt_batch env plaintexts r = (Inl e, r)) \<and> (\<exists>e. decrypt_batch env ciphertexts r = (Inl e, r))"
proof -
  obtain e where e: "require_session r = Inl e"
    using assms that by (cases "ru_client r"; cases "ru_sessions r") (simp_all add: require_session_def)
  obtain e' where e': "current_encryption_context env r = Inl e'"
    using assms that by (cases "ru_encryption r"; cases "ru_sessions r = None") (simp_all add: current_encryption_context_def)
  show ?thesis
    by (simp add: edge_call_command_def storage_upload_command_def storage_download_command_def storage_delete_command_def
        storage_list_command_def storage_signed_url_command_def with_bucket_def encrypt_batch_def decrypt_batch_def e e')
qed

theorem no_session_no_request_witness:
  "\<exists>e. storage_delete_command plugin_env ''p'' plugin_runtime = (Inl e, plugin_runtime)"
proof -
  have "active_session plugin_runtime = None"
    by (simp add: active_session_def plugin_runtime_eval(1) on_user_changed_def session_store_new_def)
  from no_session_no_request [OF this] show ?thesis by blast
qed

text \<open>
  A batch comes back slot by slot. What \<open>encrypt_batch\<close> returned decrypts, under the same
  session and secret, to exactly the strings that were given, in their order.
\<close>

theorem batch_roundtrip:
  assumes "crypto_ok (ce_crypto (ve_cipher env))" and "\<forall>(nonce, p) \<in> set plaintexts. length nonce = 12 \<and> str_ok p"
    and "encrypt_batch env plaintexts r = (Inr cts, r')"
  shows "decrypt_batch env cts r' = (Inr (map (Some \<circ> snd) plaintexts), r')"
proof -
  obtain enc user where ctx: "current_encryption_context env r = Inr (enc, user)" and r': "r' = r"
    and c: "collect_results (map (\<lambda>(nonce, p). map_err encryption_display (encrypt (ce_crypto (ve_cipher env)) enc nonce p user)) plaintexts)
      = Inr cts"
    using assms(3) by (auto simp: encrypt_batch_def split: sum.splits)
  have "map (\<lambda>ct. result_ok (decrypt (ce_crypto (ve_cipher env)) enc ct user)) cts = map (Some \<circ> snd) plaintexts"
    using c assms(2)
  proof (induction plaintexts arbitrary: cts)
    case (Cons np plaintexts)
    obtain nonce p where np: "np = (nonce, p)" by (cases np)
    obtain ct cts' where ct: "encrypt (ce_crypto (ve_cipher env)) enc nonce p user = Inr ct" "cts = ct # cts'"
      and rest: "collect_results (map (\<lambda>(nonce, p). map_err encryption_display (encrypt (ce_crypto (ve_cipher env)) enc nonce p user)) plaintexts)
        = Inr cts'"
      using Cons.prems(1) np
      by (cases "encrypt (ce_crypto (ve_cipher env)) enc nonce p user") (auto split: sum.splits)
    have "decrypt (ce_crypto (ve_cipher env)) enc ct user = Inr p"
      using decrypt_encrypt [OF assms(1) _ _ ct(1)] Cons.prems(2) np by simp
    then show ?case using Cons.IH [OF rest] Cons.prems(2) ct(2) np by (simp add: result_ok_def)
  qed simp
  then show ?thesis by (simp add: decrypt_batch_def ctx r')
qed

theorem batch_roundtrip_witness:
  "\<exists>cts r'. encrypt_batch plugin_env [(replicate 12 1, ''a''), (replicate 12 2, [])]
      (snd (set_session_command (sample_session ''alice'') plugin_runtime)) = (Inr cts, r')
    \<and> decrypt_batch plugin_env cts r' = (Inr [Some ''a'', Some []], r')"
proof -
  let ?ps = "[(replicate 12 1, ''a''), (replicate 12 2, [])]"
  let ?r = "snd (set_session_command (sample_session ''alice'') plugin_runtime)"
  have ok: "crypto_ok (ce_crypto (ve_cipher plugin_env))" by (simp add: plugin_env_def toy_env_def toy_crypto_ok)
  have str: "\<forall>(nonce, p) \<in> set ?ps. length nonce = 12 \<and> str_ok p" by (simp add: str_ok_def as_bytes_def)
  obtain enc where enc: "ru_encryption plugin_runtime = Some enc" using plugin_runtime_eval(6) by blast
  obtain user where ctx: "current_encryption_context plugin_env ?r = Inr (enc, user)"
    using enc by (simp add: current_encryption_context_def set_session_command_def with_sessions_def plugin_runtime_eval(1)
        set_session_def on_user_changed_def session_store_new_def active_session_def fire_user_change_hook_def
        publish_session_def Let_def)
  have "\<exists>ct. encrypt toy_crypto enc nonce p user = Inr ct" for nonce p
    by (simp add: encrypt_def derive_key_def toy_crypto_def)
  then obtain c1 c2 where "encrypt toy_crypto enc (replicate 12 1) ''a'' user = Inr c1"
    "encrypt toy_crypto enc (replicate 12 2) [] user = Inr c2" by meson
  then have "encrypt_batch plugin_env ?ps ?r = (Inr [c1, c2], ?r)"
    using ctx by (simp add: encrypt_batch_def plugin_env_def toy_env_def)
  from batch_roundtrip [OF ok str this] this show ?thesis by auto
qed

text \<open>The session file: what is written is read back.\<close>

lemma session_file_roundtrip: "parse_session (render_session p) = Some p"
proof -
  have "uint (sp_updated_at p) < 2 ^ 64" using uint_bounded [of "sp_updated_at p"] by simp
  then show ?thesis
    by (simp add: parse_session_def render_session_def obj_of_list_def get_str_def get_i64_def as_u64_def)
qed

subsection \<open>Forwarding\<close>

text \<open>
  The frontend goes deaf after the first overrun. The forwarder relays every event it
  receives, in order, until the receiver reports once that it lagged behind; whatever is
  published afterwards is never forwarded.
\<close>

theorem forwarder_dies_on_lag:
  "forward (map Received events @ Lagged n # later) = map (\<lambda>event. (topic_for event, event)) events"
  by (induction events) simp_all

end
