(* ===== verification/Replicas.thy ===== *)
theory Replicas
  imports Sync
begin

text \<open>
  Two devices of one user: what the device that makes a change keeps in its mirror, and what another
  device keeps after it has applied the row the first one sent.
\<close>

section \<open>The two forms of a row\<close>

text \<open>What a mirror holds in a column, under an id.\<close>

definition mirror_cell :: "sqlite_env \<Rightarrow> sqlite_coordinator \<Rightarrow> string \<Rightarrow> string \<Rightarrow> string \<Rightarrow> json option" where
  "mirror_cell senv c table i column = Option.bind (store_view senv (cd_local c) table i) (\<lambda>row. obj_get row column)"

lemma mirror_cell_written:
  assumes "store_view senv (cd_local c') table i = Some row" and "mapping_ok config"
    and "written (store_stored senv (cd_local c) table) (map_remote_to_local config remote) row"
    and "column \<in> set (columns config)" and "remote_name column = Some k" and "obj_get remote k = Some v"
  shows "mirror_cell senv c' table i (local_name column) = Some (store_stored senv (cd_local c) table (local_name column) v)"
  using assms map_remote_to_local_get [OF assms(2,4,5), of remote] by (simp add: mirror_cell_def written_def)

text \<open>
  C14: what one device writes, another keeps, but not in the same form. When a change is
  acknowledged on one device and the row it sent is applied on another, for the same user and
  secret, both mirrors hold the row under its id. In the columns that are not encrypted both give
  back what was written. In the encrypted ones the second device gives back the text that was
  written, while the device that wrote it gives back its ciphertext.
\<close>

theorem replica_forms:
  assumes wired: "sqlite_wired senv env" "sqlite_wired senv' env'"
    and mirrors: "mirror_ok senv (cd_local c)" "mirror_ok senv' (cd_local d)" and queue: "sqlite_ok (cd_queue c)"
    and config: "config_for_table (cd_registry c) table = Some config" "config_for_table (cd_registry d) table = Some config"
      "id_mapped config" "\<And>uc. injected_user_id_column config = Some uc \<Longrightarrow> uc \<notin> encrypted_keys (columns config)"
    and cipher: "cd_encryption c = Some enc" "cd_encryption d = Some enc" "ce_crypto (cv_cipher env') = ce_crypto (cv_cipher env)"
      "crypto_ok (ce_crypto (cv_cipher env))" "\<And>k. length (ce_nonce (cv_cipher env) k) = 12"
    and session: "cd_session c = Some session"
    and rec: "record_ok rec"
      "\<And>k s. k \<in> encrypted_keys (columns config) \<Longrightarrow> obj_get rec k = Some (JString s) \<Longrightarrow> str_ok s \<and> \<not> is_encrypted s"
    and sent: "serialize_for_remote (cv_cipher env) (Some enc) (sp_user_id session) config rec = Inr remote"
    and written: "persist_change_with_op env table rec op c = (Inr (), c')"
    and applied: "apply_remote_record env' table remote (sp_user_id session) d = (Inr (), d')"
    and column: "column \<in> set (columns config)" "remote_name column = Some k" "injected_user_id_column config \<noteq> Some k"
      "obj_get rec k = Some v"
  shows "\<exists>i w. get_str rec ''id'' = Some i
    \<and> mirror_cell senv c' table i (local_name column) = Some (store_stored senv (cd_local c) table (local_name column) w)
    \<and> mirror_cell senv' d' table i (local_name column) = Some (store_stored senv' (cd_local d) table (local_name column) v)
    \<and> (k \<notin> encrypted_keys (columns config) \<longrightarrow> w = v)
    \<and> (\<forall>s. k \<in> encrypted_keys (columns config) \<longrightarrow> v = JString s \<longrightarrow> s \<noteq> [] \<longrightarrow> (\<exists>ct. w = JString ct \<and> is_encrypted ct))"
proof -
  let ?u = "key_user_uuid (ce_crypto (cv_cipher env)) (sp_user_id session)"
  have one: "\<And>config'. config_for_table (cd_registry x) table = Some config' \<Longrightarrow> id_mapped config'"
    if "config_for_table (cd_registry x) table = Some config" for x :: sqlite_coordinator
    using that config(3) by simp
  obtain i row where a: "get_str rec ''id'' = Some i" "store_view senv (cd_local c') table i = Some row"
    "LocalStore.written (store_stored senv (cd_local c) table) (map_remote_to_local config remote) row"
    using sqlite_sync.persist_ok [OF wired(1) [unfolded sqlite_wired_def] mirrors(1) queue one [OF config(1)] rec(1) written]
      config(1) session cipher(1) sent by auto
  have id: "get_str remote ''id'' = Some i" using serialize_id [OF config(3) sent] a(1) by simp
  obtain plain row' where b: "decode_remote_record env' table remote (sp_user_id session) d = Inr plain"
    "store_view senv' (cd_local d') table i = Some row'"
    "LocalStore.written (store_stored senv' (cd_local d) table) (map_remote_to_local config plain) row'"
    using sqlite_sync.apply_ok [OF wired(2) [unfolded sqlite_wired_def] mirrors(2) one [OF config(2)] id applied] config(2) by auto
  have "decode_remote_record env table remote (sp_user_id session) c = Inr plain"
    using b(1) cipher(1-3) config(1,2) by (simp add: decode_remote_record_def)
  then have plain: "obj_get plain k = Some v"
    using decode_inverts_serialize [OF cipher(1) config(1) cipher(4,5) sent rec(2) config(4)] column(3,4) by auto
  define w where "w = (if k \<in> encrypted_keys (columns config) then seal_value (cv_cipher env) enc ?u k v else v)"
  have w: "obj_get remote k = Some w" using serialize_get [OF sent, of k] column(3,4) by (simp add: w_def)
  have mo: "mapping_ok config" using config(3) by (simp add: id_mapped_def)
  have "\<exists>ct. w = JString ct \<and> is_encrypted ct" if key: "k \<in> encrypted_keys (columns config)" and v: "v = JString s" and "s \<noteq> []" for s
  proof -
    have s: "\<not> is_encrypted s" using rec(2) [OF key] column(4) v by simp
    obtain ct where ct: "encrypt (ce_crypto (cv_cipher env)) enc (ce_nonce (cv_cipher env) k) s ?u = Inr ct"
      using serialize_encrypts [OF sent _ key s] column(4) v by auto
    then show ?thesis using encrypt_is_encrypted [OF ct] key v s \<open>s \<noteq> []\<close> by (simp add: w_def seal_value_def)
  qed
  moreover have "mirror_cell senv c' table i (local_name column) = Some (store_stored senv (cd_local c) table (local_name column) w)"
    by (rule mirror_cell_written [OF a(2) mo a(3) column(1,2) w])
  moreover have "mirror_cell senv' d' table i (local_name column) = Some (store_stored senv' (cd_local d) table (local_name column) v)"
    by (rule mirror_cell_written [OF b(2) mo b(3) column(1,2) plain])
  moreover have "k \<notin> encrypted_keys (columns config) \<Longrightarrow> w = v" by (simp add: w_def)
  ultimately show ?thesis using a(1) by blast
qed

section \<open>Echoes\<close>

lemma persist_marks:
  assumes "persist_change_with_op env table rec op c = (Inr (), c')" and "get_str rec ''id'' = Some i"
    and "\<And>config. config_for_table (cd_registry c) table = Some config \<Longrightarrow> id_mapped config"
  shows "net_echo (cd_network c') = mark_pushed table i (net_now (cd_network c)) (net_echo (cd_network c))"
  using assms(1)
proof (cases rule: persist_cases)
  case (written config session j remote l result n)
  then have j: "j = i" using assms(2) by simp
  have "get_str remote ''id'' = Some i"
    using serialize_id [OF assms(3) [OF written(1)] written(4)] assms(2) by simp
  from dispatch_write_marks [OF this] written(6) have "net_echo n = mark_pushed table i (net_now (cd_network c)) (net_echo (cd_network c))"
    by (metis j snd_conv)
  then show ?thesis using settle_write_network [OF written(7)] by simp
qed simp_all

lemma persist_setup:
  assumes "persist_change_with_op env table rec op c = (r, c')"
  shows "cd_registry c' = cd_registry c \<and> cd_encryption c' = cd_encryption c"
  using assms
proof (cases rule: persist_cases)
  case (written config session i remote l result n)
  from written(7) show ?thesis by (cases rule: settle_write_cases) (auto dest: enqueue_for_replay_frames)
qed simp_all

text \<open>
  C24: a late echo undoes a newer write. When the row of an earlier write comes back after a later
  write of the same row was acknowledged, it is applied: whatever versions the two have, and although
  the tracker still answers that the row was pushed from here, every column the echo carries is back
  to the earlier value in the mirror. Nothing in the crate asks the tracker.
\<close>

theorem late_echo_reverts:
  assumes wired: "sqlite_wired senv env" and mirror: "mirror_ok senv (cd_local c)" and queue: "sqlite_ok (cd_queue c)"
    and config: "config_for_table (cd_registry c) table = Some config" "id_mapped config"
    and session: "cd_session c = Some session"
    and earlier: "serialize_for_remote (cv_cipher env) (cd_encryption c) (sp_user_id session) config rec = Inr echo"
    and later: "record_ok rec'" "persist_change_with_op env table rec' op c = (Inr (), c')"
      "get_str rec' ''id'' = get_str rec ''id''"
    and applied: "apply_remote_record env table echo (sp_user_id session) c' = (Inr (), c'')"
    and column: "column \<in> set (columns config)" "remote_name column = Some k" "injected_user_id_column config \<noteq> Some k"
      "cd_encryption c = None \<or> k \<notin> encrypted_keys (columns config)" "obj_get rec k = Some v" "obj_get rec' k = Some v'"
  shows "\<exists>i. get_str rec ''id'' = Some i
    \<and> mirror_cell senv c' table i (local_name column) = Some (store_stored senv (cd_local c) table (local_name column) v')
    \<and> mirror_cell senv c'' table i (local_name column) = Some (store_stored senv (cd_local c') table (local_name column) v)
    \<and> (\<forall>now. now - net_now (cd_network c) < et_window (net_echo (cd_network c))
          \<longrightarrow> fst (was_recently_pushed table i now (net_echo (cd_network c'))))"
proof -
  have mapped: "\<And>config'. config_for_table (cd_registry x) table = Some config' \<Longrightarrow> id_mapped config'"
    if "config_for_table (cd_registry x) table = Some config" for x :: sqlite_coordinator
    using that config(2) by simp
  have same: "config_for_table (cd_registry c') table = Some config" "cd_encryption c' = cd_encryption c"
    using persist_setup [OF later(2)] config(1) by simp_all
  note w = wired [unfolded sqlite_wired_def]
  have mo: "mapping_ok config" using config(2) by (simp add: id_mapped_def)
  obtain i remote row where a: "get_str rec' ''id'' = Some i"
    "serialize_for_remote (cv_cipher env) (cd_encryption c) (sp_user_id session) config rec' = Inr remote"
    "store_view senv (cd_local c') table i = Some row"
    "LocalStore.written (store_stored senv (cd_local c) table) (map_remote_to_local config remote) row"
    using sqlite_sync.persist_ok [OF w mirror queue mapped [OF config(1)] later(1,2)] config(1) session by auto
  have kept: "obj_get out k = obj_get inp k"
    if "serialize_for_remote (cv_cipher env) (cd_encryption c) (sp_user_id session) config inp = Inr out" for inp out
  proof (cases "cd_encryption c")
    case None
    then show ?thesis using that column(3) by (auto simp: serialize_for_remote_def split: option.splits)
  next
    case (Some enc)
    then show ?thesis using serialize_get [of _ enc _ config inp out k] that column(3,4) by simp
  qed
  have "obj_get remote k = Some v'" using kept [OF a(2)] column(6) by simp
  then have new: "mirror_cell senv c' table i (local_name column) = Some (store_stored senv (cd_local c) table (local_name column) v')"
    by (rule mirror_cell_written [OF a(3) mo a(4) column(1,2)])
  have ok: "mirror_ok senv (cd_local c')"
    by (rule sqlite_sync.persist_mirror_ok [OF w mirror mapped [OF config(1)] later(2)])
  have id: "get_str echo ''id'' = Some i" using serialize_id [OF config(2) earlier] a(1) later(3) by simp
  obtain plain row' where b: "decode_remote_record env table echo (sp_user_id session) c' = Inr plain"
    "store_view senv (cd_local c'') table i = Some row'"
    "LocalStore.written (store_stored senv (cd_local c') table) (map_remote_to_local config plain) row'"
    using sqlite_sync.apply_ok [OF w ok mapped [OF same(1)] id applied] same(1) by auto
  have "obj_get plain k = obj_get echo k"
    using b(1) decrypt_cols_other column(4) same
    by (auto simp: decode_remote_record_def decrypt_record_columns_def split: option.splits)
  then have "obj_get plain k = Some v" using kept [OF earlier] column(5) by simp
  then have old: "mirror_cell senv c'' table i (local_name column) = Some (store_stored senv (cd_local c') table (local_name column) v)"
    by (rule mirror_cell_written [OF b(2) mo b(3) column(1,2)])
  have "net_echo (cd_network c') = mark_pushed table i (net_now (cd_network c)) (net_echo (cd_network c))"
    by (rule persist_marks [OF later(2) a(1) mapped [OF config(1)]])
  then show ?thesis using new old a(1) later(3) by simp
qed

definition old_note :: obj where
  "old_note = [(''body'', JString ''draft''), (''id'', JString ''n1'')]"

definition old_echo :: obj where
  "old_echo = [(''body'', JString ''draft''), (''id'', JString ''n1''), (''user_id'', JString ''u1'')]"

lemma old_note_serialized: "serialize_for_remote toy_env None ''u1'' notes_config old_note = Inr old_echo"
  by (simp add: serialize_for_remote_def notes_config_defs injected_user_id_column_def old_note_def old_echo_def)

lemma old_echo_stored:
  "fst (ls_upsert_record (SqliteLocalStore toy_sqlite) ''notes'' (map_remote_to_local notes_config old_echo)
     (snd (store_upsert_record toy_sqlite ''notes'' (map_remote_to_local notes_config noted) notes_manager))) = Inr ()"
  by (simp add: store_ops store_eval map_remote_to_local_def notes_config_defs noted_def old_echo_def notes_manager_def notes_table_def)

lemma old_echo_applied:
  assumes "persist_change_with_op (notes_env (Inl ''offline'')) ''notes'' a_note None notes_coordinator = (r, c')"
  shows "fst (apply_remote_record (notes_env (Inl ''offline'')) ''notes'' old_echo ''u1'' c') = Inr ()"
proof -
  let ?env = "notes_env (Inl ''offline'')"
  let ?l = "snd (store_upsert_record toy_sqlite ''notes'' (map_remote_to_local notes_config noted) notes_manager)"
  obtain result n where "settle_write ?env ''notes'' ''n1'' noted result (notes_coordinator\<lparr>cd_local := ?l, cd_network := n\<rparr>) = (r, c')"
    using assms unfolding note_persisted by (auto simp: Let_def split: prod.splits)
  then have l: "cd_local c' = ?l" using settle_write_network by fastforce
  have c': "config_for_table (cd_registry c') ''notes'' = Some notes_config" "cd_encryption c' = None"
    using persist_setup [OF assms] notes_lookup by (simp_all add: notes_coordinator_def)
  have "cv_local ?env = SqliteLocalStore toy_sqlite" by (simp add: notes_env_def)
  moreover obtain l' where "ls_upsert_record (SqliteLocalStore toy_sqlite) ''notes'' (map_remote_to_local notes_config old_echo) ?l = (Inr (), l')"
    using old_echo_stored by (metis prod.collapse)
  ultimately show ?thesis using c' l by (simp add: apply_remote_record_def Let_def)
qed

theorem late_echo_reverts_witness:
  "\<exists>c' c''. persist_change_with_op (notes_env (Inl ''offline'')) ''notes'' a_note None notes_coordinator = (Inr (), c')
     \<and> apply_remote_record (notes_env (Inl ''offline'')) ''notes'' old_echo ''u1'' c' = (Inr (), c'')
     \<and> mirror_cell toy_sqlite c' ''notes'' ''n1'' ''body'' = Some (store_stored toy_sqlite notes_manager ''notes'' ''body'' (JString ''hi''))
     \<and> mirror_cell toy_sqlite c'' ''notes'' ''n1'' ''body''
         = Some (store_stored toy_sqlite (cd_local c') ''notes'' ''body'' (JString ''draft''))"
proof -
  let ?env = "notes_env (Inl ''offline'')"
  obtain c' where c': "persist_change_with_op ?env ''notes'' a_note None notes_coordinator = (Inr (), c')"
    using note_queued by (metis prod.collapse)
  obtain c'' where c'': "apply_remote_record ?env ''notes'' old_echo ''u1'' c' = (Inr (), c'')"
    using old_echo_applied [OF c'] by (metis prod.collapse)
  let ?col = "column_synced ''body'' ''body'' ''body'' ''TEXT'' ''string'' True"
  have col: "?col \<in> set (columns notes_config)" by (simp add: notes_config_def with_columns_def)
  have cell: "local_name ?col = ''body''" "remote_name ?col = Some ''body''" by (simp_all add: column_synced_def)
  have start: "cd_encryption notes_coordinator = None" "cd_session notes_coordinator = Some (sample_session ''u1'')"
    "sp_user_id (sample_session ''u1'') = ''u1''" "cd_local notes_coordinator = notes_manager" "cv_cipher ?env = toy_env"
    by (simp_all add: notes_coordinator_def sample_session_def notes_env_def)
  have can: "record_ok a_note" by (simp add: a_note_def obj_ok_def)
  have inj: "injected_user_id_column notes_config = Some ''user_id''"
    by (simp add: injected_user_id_column_def notes_config_defs)
  have "\<exists>i. get_str old_note ''id'' = Some i
    \<and> mirror_cell toy_sqlite c' ''notes'' i (local_name ?col)
        = Some (store_stored toy_sqlite (cd_local notes_coordinator) ''notes'' (local_name ?col) (JString ''hi''))
    \<and> mirror_cell toy_sqlite c'' ''notes'' i (local_name ?col)
        = Some (store_stored toy_sqlite (cd_local c') ''notes'' (local_name ?col) (JString ''draft''))
    \<and> (\<forall>now. now - net_now (cd_network notes_coordinator) < et_window (net_echo (cd_network notes_coordinator))
          \<longrightarrow> fst (was_recently_pushed ''notes'' i now (net_echo (cd_network c'))))"
    by (rule late_echo_reverts [OF notes_wired notes_mirror_ok notes_queue_ok, where config = notes_config and rec = old_note
          and rec' = a_note and echo = old_echo and session = "sample_session ''u1''" and op = None])
      (use c' c'' can col cell notes_lookup old_note_serialized in
        \<open>simp_all add: start inj notes_id_mapped a_note_def old_note_def get_str_def\<close>)
  then show ?thesis using c' c'' by (auto simp: cell start old_note_def get_str_def)
qed

section \<open>One version, two contents\<close>

lemma dispatch_same_version:
  assumes "write_path config = PostgREST" and "get_str rec ''id'' = Some i"
    and "ne_server env (sent_requests (net_trace n)) (upsert_request env table (JArray [JObject rec]) (conflict_target config) token) = Inr resp"
    and "\<not> status_success (resp_status resp)" and "is_same_version_mutation_message (text_or_default resp)"
  shows "fst (dispatch_write env config table rec j op token n) = Inl (Poly_Push (SameVersionMutationIgnored table))"
  using assms by (simp add: dispatch_write_def pusher_upsert_def net_send_def Let_def)

lemma skip_same_version:
  assumes "version_index local i = Some t" and "version_index remote i = Some t'" and "row_state (Some t) = row_state (Some t')"
  shows "i \<in> set (skip (make_plan local remote))"
    and "i \<notin> set (pull (make_plan local remote)) \<union> set (push (make_plan local remote)) \<union> set (adopt_tombstone (make_plan local remote))"
proof -
  have "triple_action t t' = Skip"
    using assms(3) by (auto simp: triple_action_def determine_reconcile_action_def row_state_def i64_less_def)
  then have a: "id_action local remote i = Some Skip" using assms(1,2) by (simp add: id_action_def)
  have "i \<in> set (common_ids local remote)"
    using assms(1,2) dom_version_index [of local i] dom_version_index [of remote i] by (simp add: set_common_ids)
  then show "i \<in> set (skip (make_plan local remote))"
    and "i \<notin> set (pull (make_plan local remote)) \<union> set (push (make_plan local remote)) \<union> set (adopt_tombstone (make_plan local remote))"
    using a by (simp_all add: make_plan_buckets)
qed

text \<open>
  C19: two devices that give a row the same version can keep different contents. When the server turns a
  write down because it has that version of the row already (from another device), the call returns
  \<open>Ok\<close>, the mirror keeps the content of this device and nothing is queued; and a reconcile plan
  over versions that agree skips the row, whatever the contents are.
\<close>

theorem same_version_split:
  assumes wired: "sqlite_wired senv env" and mirror: "mirror_ok senv (cd_local c)"
    and config: "config_for_table (cd_registry c) table = Some config" "id_mapped config" "write_path config = PostgREST"
    and session: "cd_session c = Some session" and id: "get_str rec ''id'' = Some i"
    and sent: "serialize_for_remote (cv_cipher env) (cd_encryption c) (sp_user_id session) config rec = Inr remote"
    and stored: "ls_upsert_record (cv_local env) table (map_remote_to_local config remote) (cd_local c) = (Inr (), l)"
    and answer: "ne_server (cv_net env) (sent_requests (net_trace (cd_network c)))
        (upsert_request (cv_net env) table (JArray [JObject remote]) (conflict_target config) (sp_access_token session)) = Inr resp"
      "\<not> status_success (resp_status resp)" "is_same_version_mutation_message (text_or_default resp)"
    and column: "column \<in> set (columns config)" "remote_name column = Some k" "obj_get remote k = Some v"
    and versions: "version_index local i = Some t" "version_index servers i = Some t'" "row_state (Some t) = row_state (Some t')"
  shows "\<exists>c'. persist_change_with_op env table rec op c = (Inr (), c') \<and> cd_queue c' = cd_queue c
    \<and> mirror_cell senv c' table i (local_name column) = Some (store_stored senv (cd_local c) table (local_name column) v)
    \<and> i \<in> set (skip (make_plan local servers))
    \<and> i \<notin> set (pull (make_plan local servers)) \<union> set (push (make_plan local servers)) \<union> set (adopt_tombstone (make_plan local servers))"
proof -
  have rid: "get_str remote ''id'' = Some i" using serialize_id [OF config(2) sent] id by simp
  obtain n where d: "dispatch_write (cv_net env) config table remote i op (sp_access_token session) (cd_network c)
      = (Inl (Poly_Push (SameVersionMutationIgnored table)), n)"
    using dispatch_same_version [OF config(3) rid answer] by (metis prod.collapse)
  let ?c' = "kvs_notice table remote (c\<lparr>cd_local := l, cd_network := n\<rparr>)"
  have p: "persist_change_with_op env table rec op c = (Inr (), ?c')"
    by (simp add: persist_change_with_op_def config id session sent stored d settle_write_def)
  have "get_str (map_remote_to_local config remote) ''id'' = Some i" using local_id [OF config(2)] rid by simp
  then obtain row where row: "store_view senv l table i = Some row"
    "LocalStore.written (store_stored senv (cd_local c) table) (map_remote_to_local config remote) row"
    using sqlite_mirror.upsert_ok [OF mirror] stored wired by (fastforce simp: sqlite_wired_def wired_def)
  have "mapping_ok config" using config(2) by (simp add: id_mapped_def)
  then have "mirror_cell senv ?c' table i (local_name column) = Some (store_stored senv (cd_local c) table (local_name column) v)"
    using mirror_cell_written [of senv ?c' table i row config c remote column k v] row column by simp
  then show ?thesis using p skip_same_version [OF versions] by auto
qed

theorem same_version_split_witness:
  "\<exists>c'. persist_change_with_op (notes_env (Inr \<lparr>resp_status = 400, resp_text = Inr ''same-version mutation''\<rparr>))
        ''notes'' a_note None notes_coordinator = (Inr (), c') \<and> cd_queue c' = sqlite_fresh
     \<and> mirror_cell toy_sqlite c' ''notes'' ''n1'' ''body'' = Some (store_stored toy_sqlite notes_manager ''notes'' ''body'' (JString ''hi''))
     \<and> ''n1'' \<in> set (skip (make_plan [\<lparr>vt_id = ''n1'', vt_version = 2, vt_deleted = False\<rparr>]
                                      [\<lparr>vt_id = ''n1'', vt_version = 2, vt_deleted = False\<rparr>]))"
proof -
  let ?resp = "\<lparr>resp_status = 400, resp_text = Inr ''same-version mutation''\<rparr> :: http_response"
  let ?env = "notes_env (Inr ?resp)" and ?t = "\<lparr>vt_id = ''n1'', vt_version = 2, vt_deleted = False\<rparr>"
  let ?col = "column_synced ''body'' ''body'' ''body'' ''TEXT'' ''string'' True"
  have env: "cv_cipher ?env = toy_env" "cv_local ?env = SqliteLocalStore toy_sqlite" "cv_net ?env = const_env (Inr ?resp)"
    by (simp_all add: notes_env_def)
  have start: "config_for_table (cd_registry notes_coordinator) ''notes'' = Some notes_config"
    "cd_encryption notes_coordinator = None" "cd_session notes_coordinator = Some (sample_session ''u1'')"
    "sp_user_id (sample_session ''u1'') = ''u1''" "cd_local notes_coordinator = notes_manager" "cd_queue notes_coordinator = sqlite_fresh"
    using notes_lookup by (simp_all add: notes_coordinator_def sample_session_def)
  have m: "is_same_version_mutation_message (text_or_default ?resp)"
    by (simp add: text_or_default_def is_same_version_mutation_message_def to_ascii_lowercase_def
        ascii_lower_def SAME_VERSION_MUTATION_MARKER_def starts_with_def)
  have col: "?col \<in> set (columns notes_config)" by (simp add: notes_config_def with_columns_def)
  have cell: "local_name ?col = ''body''" "remote_name ?col = Some ''body''" by (simp_all add: column_synced_def)
  have ids: "get_str a_note ''id'' = Some ''n1''" "obj_get noted ''body'' = Some (JString ''hi'')"
    by (simp_all add: a_note_def noted_def get_str_def)
  have w: "write_path notes_config = PostgREST" by (simp add: notes_config_defs)
  have v: "version_index [?t] ''n1'' = Some ?t" by (simp add: version_index_def collect_map_def)
  have "\<exists>c'. persist_change_with_op ?env ''notes'' a_note None notes_coordinator = (Inr (), c')
    \<and> cd_queue c' = cd_queue notes_coordinator
    \<and> mirror_cell toy_sqlite c' ''notes'' ''n1'' (local_name ?col)
        = Some (store_stored toy_sqlite (cd_local notes_coordinator) ''notes'' (local_name ?col) (JString ''hi''))
    \<and> ''n1'' \<in> set (skip (make_plan [?t] [?t]))
    \<and> ''n1'' \<notin> set (pull (make_plan [?t] [?t])) \<union> set (push (make_plan [?t] [?t])) \<union> set (adopt_tombstone (make_plan [?t] [?t]))"
  proof (rule same_version_split [OF notes_wired notes_mirror_ok start(1) notes_id_mapped w start(3) ids(1) _ _ _ _ m col cell(2) ids(2) v v])
    show "serialize_for_remote (cv_cipher ?env) (cd_encryption notes_coordinator) (sp_user_id (sample_session ''u1'')) notes_config a_note
        = Inr noted" using note_serialized by (simp add: env start)
    show "ls_upsert_record (cv_local ?env) ''notes'' (map_remote_to_local notes_config noted) (cd_local notes_coordinator)
        = (Inr (), snd (store_upsert_record toy_sqlite ''notes'' (map_remote_to_local notes_config noted) notes_manager))"
      using note_stored by (simp add: env start)
  qed (simp_all add: env const_env_def status_success_def)
  then show ?thesis unfolding cell start by blast
qed

section \<open>Two devices\<close>

definition sealed_device :: sqlite_coordinator where
  "sealed_device = notes_coordinator\<lparr>cd_encryption := Some toy_encryption\<rparr>"

definition sealed_note :: "string \<Rightarrow> obj" where
  "sealed_note ct = [(''body'', JString ct), (''id'', JString ''n1''), (''user_id'', JString ''u1'')]"

lemma sealed_note_serialized:
  obtains ct where "encrypt toy_crypto toy_encryption (ce_nonce toy_env ''body'') ''hi'' (key_user_uuid toy_crypto ''u1'') = Inr ct"
    "serialize_for_remote toy_env (Some toy_encryption) ''u1'' notes_config a_note = Inr (sealed_note ct)"
proof -
  obtain ct where ct: "encrypt toy_crypto toy_encryption (ce_nonce toy_env ''body'') ''hi'' (key_user_uuid toy_crypto ''u1'') = Inr ct"
    by (simp add: encrypt_def derive_key_def toy_crypto_def)
  have "\<not> is_encrypted ''hi''" by (simp add: is_encrypted_def starts_with_def STRING_ENCRYPTION_PREFIX_def)
  then have "serialize_for_remote toy_env (Some toy_encryption) ''u1'' notes_config a_note = Inr (sealed_note ct)"
    using ct by (simp add: serialize_for_remote_def notes_config_defs effective_remote_name_def Let_def a_note_def
        injected_user_id_column_def toy_env_def sealed_note_def)
  with ct show ?thesis by (rule that)
qed

lemma sealed_note_stored:
  "fst (ls_upsert_record (SqliteLocalStore toy_sqlite) ''notes'' (map_remote_to_local notes_config (sealed_note ct)) notes_manager) = Inr ()"
  by (simp add: store_ops store_eval map_remote_to_local_def notes_config_defs sealed_note_def notes_manager_def notes_table_def)

lemma sealed_device_simps [simp]:
  "config_for_table (cd_registry sealed_device) ''notes'' = Some notes_config" "cd_session sealed_device = Some (sample_session ''u1'')"
  "cd_encryption sealed_device = Some toy_encryption" "cd_local sealed_device = notes_manager" "cd_queue sealed_device = sqlite_fresh"
  "cd_network sealed_device = fresh_network" "sp_user_id (sample_session ''u1'') = ''u1''"
  using notes_lookup by (simp_all add: sealed_device_def notes_coordinator_def sample_session_def)

lemma sealed_note_persisted:
  "fst (persist_change_with_op (notes_env (Inl ''offline'')) ''notes'' a_note None sealed_device) = Inr ()"
proof -
  obtain ct where ct: "serialize_for_remote toy_env (Some toy_encryption) ''u1'' notes_config a_note = Inr (sealed_note ct)"
    by (rule sealed_note_serialized)
  obtain l where l: "ls_upsert_record (SqliteLocalStore toy_sqlite) ''notes'' (map_remote_to_local notes_config (sealed_note ct)) notes_manager
      = (Inr (), l)"
    using sealed_note_stored [of ct] by (metis prod.collapse)
  obtain n where n: "pusher_upsert (const_env (Inl ''offline'')) ''notes'' (sealed_note ct) ''id'' (sp_access_token (sample_session ''u1'')) fresh_network
      = (Inl (Poly_Http ''offline''), n)"
    by (simp add: pusher_upsert_def sealed_note_def get_str_def net_send_def const_env_def Let_def)
  have env: "cv_cipher (notes_env a) = toy_env" "cv_local (notes_env a) = SqliteLocalStore toy_sqlite" "cv_net (notes_env a) = const_env a" for a
    by (simp_all add: notes_env_def)
  have "get_str a_note ''id'' = Some ''n1''" "write_path notes_config = PostgREST" "conflict_target notes_config = ''id''"
    by (simp_all add: a_note_def get_str_def notes_config_defs)
  then show ?thesis
    using ct l n by (simp add: persist_change_with_op_def env dispatch_write_def settle_offline)
qed

lemma sealed_note_applied:
  assumes "encrypt toy_crypto toy_encryption (ce_nonce toy_env ''body'') ''hi'' (key_user_uuid toy_crypto ''u1'') = Inr ct"
  shows "fst (apply_remote_record (notes_env a) ''notes'' (sealed_note ct) ''u1'' sealed_device) = Inr ()"
proof -
  have sealed: "is_encrypted ct" using encrypt_is_encrypted [OF assms] by simp
  have "str_ok ''hi''" by (simp add: str_ok_def as_bytes_def)
  then have opened: "decrypt toy_crypto toy_encryption ct (key_user_uuid toy_crypto ''u1'') = Inr ''hi''"
    using decrypt_encrypt [OF _ _ _ assms] toy_env_ok by (simp add: toy_env_def)
  have "decrypt_record_columns toy_crypto notes_config (sealed_note ct) toy_encryption ''u1'' = Inr (sealed_note ''hi'')"
    using sealed opened by (simp add: decrypt_record_columns_def notes_config_defs effective_remote_name_def sealed_note_def Let_def)
  moreover obtain l where "ls_upsert_record (SqliteLocalStore toy_sqlite) ''notes'' (map_remote_to_local notes_config (sealed_note ''hi''))
      notes_manager = (Inr (), l)"
    using sealed_note_stored [of "''hi''"] by (metis prod.collapse)
  ultimately show ?thesis by (simp add: apply_remote_record_def notes_env_def toy_env_def Let_def)
qed

theorem replica_forms_witness:
  "\<exists>c' d' remote w ct.
     persist_change_with_op (notes_env (Inl ''offline'')) ''notes'' a_note None sealed_device = (Inr (), c')
     \<and> apply_remote_record (notes_env (Inl ''offline'')) ''notes'' remote ''u1'' sealed_device = (Inr (), d')
     \<and> mirror_cell toy_sqlite c' ''notes'' ''n1'' ''body'' = Some (store_stored toy_sqlite notes_manager ''notes'' ''body'' w)
     \<and> w = JString ct \<and> is_encrypted ct
     \<and> mirror_cell toy_sqlite d' ''notes'' ''n1'' ''body'' = Some (store_stored toy_sqlite notes_manager ''notes'' ''body'' (JString ''hi''))"
proof -
  let ?env = "notes_env (Inl ''offline'')"
  obtain ct where ct: "encrypt toy_crypto toy_encryption (ce_nonce toy_env ''body'') ''hi'' (key_user_uuid toy_crypto ''u1'') = Inr ct"
    "serialize_for_remote toy_env (Some toy_encryption) ''u1'' notes_config a_note = Inr (sealed_note ct)"
    by (rule sealed_note_serialized)
  obtain c' where c': "persist_change_with_op ?env ''notes'' a_note None sealed_device = (Inr (), c')"
    using sealed_note_persisted by (metis prod.collapse)
  obtain d' where d': "apply_remote_record ?env ''notes'' (sealed_note ct) ''u1'' sealed_device = (Inr (), d')"
    using sealed_note_applied [OF ct(1)] by (metis prod.collapse)
  have env: "cv_cipher ?env = toy_env" by (simp add: notes_env_def)
  have keys: "encrypted_keys (columns notes_config) = {''body''}"
    by (simp add: encrypted_keys_def notes_config_defs effective_remote_name_def)
  have inj: "injected_user_id_column notes_config = Some ''user_id''"
    by (simp add: injected_user_id_column_def notes_config_defs)
  have can: "record_ok a_note" by (simp add: a_note_def obj_ok_def)
  have ok: "mirror_ok toy_sqlite (cd_local sealed_device)" "sqlite_ok (cd_queue sealed_device)"
    using notes_mirror_ok notes_queue_ok by (simp_all add: notes_coordinator_def)
  let ?col = "column_synced ''body'' ''body'' ''body'' ''TEXT'' ''string'' True"
  have col: "?col \<in> set (columns notes_config)" by (simp add: notes_config_def with_columns_def)
  have cell: "local_name ?col = ''body''" "remote_name ?col = Some ''body''" by (simp_all add: column_synced_def)
  have strs: "str_ok s \<and> \<not> is_encrypted s" if "obj_get a_note ''body'' = Some (JString s)" for s
    using that by (auto simp: a_note_def str_ok_def as_bytes_def is_encrypted_def starts_with_def STRING_ENCRYPTION_PREFIX_def)
  have "\<exists>i w. get_str a_note ''id'' = Some i
    \<and> mirror_cell toy_sqlite c' ''notes'' i (local_name ?col)
        = Some (store_stored toy_sqlite (cd_local sealed_device) ''notes'' (local_name ?col) w)
    \<and> mirror_cell toy_sqlite d' ''notes'' i (local_name ?col)
        = Some (store_stored toy_sqlite (cd_local sealed_device) ''notes'' (local_name ?col) (JString ''hi''))
    \<and> (''body'' \<notin> encrypted_keys (columns notes_config) \<longrightarrow> w = JString ''hi'')
    \<and> (\<forall>s. ''body'' \<in> encrypted_keys (columns notes_config) \<longrightarrow> JString ''hi'' = JString s \<longrightarrow> s \<noteq> []
          \<longrightarrow> (\<exists>ct. w = JString ct \<and> is_encrypted ct))"
    by (rule replica_forms [OF notes_wired notes_wired ok(1) ok(1) ok(2), where config = notes_config and enc = toy_encryption
          and session = "sample_session ''u1''" and remote = "sealed_note ct"])
      (use c' d' ct(2) can strs cell col in \<open>simp_all add: env keys inj notes_id_mapped a_note_def\<close>)
  then show ?thesis using c' d' by (auto simp: cell keys a_note_def get_str_def)
qed

end
