(* ===== verification/Interleave.thy ===== *)
theory Interleave
  imports Replicas
begin

text \<open>
  The write calls of \<open>crates/polybase/src/sync/coordinator.rs\<close> as tasks of an async runtime: a call
  gives up control at its awaits, and what other calls do in between happens to the same mirror,
  the same network and the same queue. A call is cut after the session is read, after the mirror has
  answered, after the network has answered, and between the enqueue and the reading of the depth. A request
  with its answer (retries of an Edge call included) is one step.
\<close>

section \<open>Calls in progress\<close>

text \<open>What a call is about to write.\<close>

datatype row_change = Upsert string string obj "string option" | Soft_delete string string i64 json

fun change_row :: "row_change \<Rightarrow> string \<times> string" where
  "change_row (Upsert table i rec op) = (table, i)"
| "change_row (Soft_delete table i v at) = (table, i)"

fun change_kind :: "row_change \<Rightarrow> QueuedOperationKind" where
  "change_kind (Upsert table i rec op) = Write (JObject rec)"
| "change_kind (Soft_delete table i v at) = Tombstone v"

text \<open>
  Where a call is, with the locals it goes on with. A call that returned keeps what it sent and the
  answer of the network, if it came that far.
\<close>

datatype write_call =
    Persisting string obj "string option"
  | Deleting string string i64
  | Prepared EntityConfig SessionPayload row_change
  | Mirrored EntityConfig SessionPayload row_change
  | Answered row_change "PolyError + unit"
  | Enqueued row_change "PolyError + unit"
  | Returned "string \<times> string" "(row_change \<times> (PolyError + unit)) option" "PolyError + unit"

fun call_row :: "write_call \<Rightarrow> string \<times> string" where
  "call_row (Persisting table rec op) = (table, unwrap_or [] (get_str rec ''id''))"
| "call_row (Deleting table i v) = (table, i)"
| "call_row (Prepared config session ch) = change_row ch"
| "call_row (Mirrored config session ch) = change_row ch"
| "call_row (Answered ch answer) = change_row ch"
| "call_row (Enqueued ch answer) = change_row ch"
| "call_row (Returned row sent r) = row"

text \<open>The checks of a call, up to its first write.\<close>

definition prepare_write :: "('s, 'q) coord_env \<Rightarrow> string \<Rightarrow> obj \<Rightarrow> string option \<Rightarrow> ('s, 'q) Coordinator
    \<Rightarrow> PolyError + (EntityConfig \<times> SessionPayload \<times> row_change)" where
  "prepare_write env table rec op c =
     (case config_for_table (cd_registry c) table of
        None \<Rightarrow> Inl (Poly_Registry (TableNotRegistered table))
      | Some config \<Rightarrow>
          (case get_str rec ''id'' of
             None \<Rightarrow> Inl (Poly_Registry (MissingField table ''id''))
           | Some entity_id \<Rightarrow>
               (case cd_session c of
                  None \<Rightarrow> Inl NoSession
                | Some session \<Rightarrow>
                    (case serialize_for_remote (cv_cipher env) (cd_encryption c) (sp_user_id session) config rec of
                       Inl e \<Rightarrow> Inl (Poly_Registry e)
                     | Inr remote \<Rightarrow> Inr (config, session, Upsert table entity_id remote op)))))"

definition prepare_delete :: "('s, 'q) coord_env \<Rightarrow> string \<Rightarrow> string \<Rightarrow> i64 \<Rightarrow> ('s, 'q) Coordinator
    \<Rightarrow> PolyError + (EntityConfig \<times> SessionPayload \<times> row_change)" where
  "prepare_delete env table entity_id version c =
     (case config_for_table (cd_registry c) table of
        None \<Rightarrow> Inl (Poly_Registry (TableNotRegistered table))
      | Some config \<Rightarrow>
          (case cd_session c of
             None \<Rightarrow> Inl NoSession
           | Some session \<Rightarrow>
               Inr (config, session, Soft_delete table entity_id version (tombstone_updated_at_value (cv_clock env) config))))"

fun mirror_change :: "('s, 'q) coord_env \<Rightarrow> EntityConfig \<Rightarrow> row_change \<Rightarrow> (unit, 's) store_call" where
  "mirror_change env config (Upsert table i rec op) l = ls_upsert_record (cv_local env) table (map_remote_to_local config rec) l"
| "mirror_change env config (Soft_delete table i v at) l = ls_mark_deleted (cv_local env) table i v l"

fun dispatch_change :: "('s, 'q) coord_env \<Rightarrow> EntityConfig \<Rightarrow> row_change \<Rightarrow> string \<Rightarrow> network \<Rightarrow> (PolyError + unit) \<times> network" where
  "dispatch_change env config (Upsert table i rec op) token n = dispatch_write (cv_net env) config table rec i op token n"
| "dispatch_change env config (Soft_delete table i v at) token n = dispatch_delete (cv_net env) config table i v at token n"

text \<open>What follows an answer that asks for no retry.\<close>

fun settle_change :: "('s, 'q) coord_env \<Rightarrow> row_change \<Rightarrow> PolyError + unit \<Rightarrow> ('s, 'q, unit) coord_call" where
  "settle_change env (Upsert table i rec op) answer c = settle_write env table i rec answer c"
| "settle_change env (Soft_delete table i v at) answer c = settle_delete env table i v answer c"

definition queued_change :: "('s, 'q) coord_env \<Rightarrow> row_change \<Rightarrow> PolyError \<Rightarrow> QueuedOperation" where
  "queued_change env ch err = queued_write env (fst (change_row ch)) (snd (change_row ch)) (change_kind ch) err"

definition announce_depth :: "('s, 'q) coord_env \<Rightarrow> ('s, 'q) Coordinator \<Rightarrow> ('s, 'q) Coordinator" where
  "announce_depth env c =
     (case cv_depth env (cd_queue c) of
        (d, q) \<Rightarrow> cd_publish (OfflineQueueChanged (case d of Inl _ \<Rightarrow> 0 | Inr depth \<Rightarrow> depth) False) (c\<lparr>cd_queue := q\<rparr>))"

fun queued_notice :: "row_change \<Rightarrow> ('s, 'q) Coordinator \<Rightarrow> ('s, 'q) Coordinator" where
  "queued_notice (Upsert table i rec op) c = kvs_notice table rec c"
| "queued_notice (Soft_delete table i v at) c = c"

text \<open>The transient error a call queues its change for.\<close>

definition retryable :: "PolyError + unit \<Rightarrow> PolyError option" where
  "retryable answer = (case answer of Inl err \<Rightarrow> if is_transient err then Some err else None | Inr _ \<Rightarrow> None)"

section \<open>A turn\<close>

definition start_call :: "string \<times> string \<Rightarrow> PolyError + (EntityConfig \<times> SessionPayload \<times> row_change) \<Rightarrow> write_call" where
  "start_call row prepared =
     (case prepared of Inl e \<Rightarrow> Returned row None (Inl e) | Inr (config, session, ch) \<Rightarrow> Prepared config session ch)"

text \<open>One turn of a call: what it does until it waits again, or returns.\<close>

fun call_turn :: "('s, 'q) coord_env \<Rightarrow> write_call \<Rightarrow> ('s, 'q) Coordinator \<Rightarrow> write_call \<times> ('s, 'q) Coordinator" where
  "call_turn env (Persisting table rec op) c =
     (start_call (call_row (Persisting table rec op)) (prepare_write env table rec op c), c)"
| "call_turn env (Deleting table i v) c = (start_call (table, i) (prepare_delete env table i v c), c)"
| "call_turn env (Prepared config session ch) c =
     (case mirror_change env config ch (cd_local c) of
        (Inl e, l) \<Rightarrow> (Returned (change_row ch) None (Inl e), c\<lparr>cd_local := l\<rparr>)
      | (Inr _, l) \<Rightarrow> (Mirrored config session ch, c\<lparr>cd_local := l\<rparr>))"
| "call_turn env (Mirrored config session ch) c =
     (case dispatch_change env config ch (sp_access_token session) (cd_network c) of
        (answer, n) \<Rightarrow> (Answered ch answer, c\<lparr>cd_network := n\<rparr>))"
| "call_turn env (Answered ch answer) c =
     (case retryable answer of
        None \<Rightarrow> (case settle_change env ch answer c of (r, c') \<Rightarrow> (Returned (change_row ch) (Some (ch, answer)) r, c'))
      | Some err \<Rightarrow>
          (case cv_enqueue env (queued_change env ch err) (cd_queue c) of
             (Inl e, q) \<Rightarrow> (Returned (change_row ch) (Some (ch, answer)) (Inl (Poly_OfflineQueue e)), c\<lparr>cd_queue := q\<rparr>)
           | (Inr _, q) \<Rightarrow> (Enqueued ch answer, c\<lparr>cd_queue := q\<rparr>)))"
| "call_turn env (Enqueued ch answer) c =
     (Returned (change_row ch) (Some (ch, answer)) (Inr ()), queued_notice ch (announce_depth env c))"
| "call_turn env (Returned row sent r) c = (Returned row sent r, c)"

text \<open>A call that is not interrupted.\<close>

fun run_alone :: "nat \<Rightarrow> ('s, 'q) coord_env \<Rightarrow> write_call \<Rightarrow> ('s, 'q) Coordinator \<Rightarrow> write_call \<times> ('s, 'q) Coordinator" where
  "run_alone 0 env call c = (call, c)"
| "run_alone (Suc n) env call c = (case call_turn env call c of (call', c') \<Rightarrow> run_alone n env call' c')"

lemma run_alone_returned [simp]: "run_alone n env (Returned row sent r) c = (Returned row sent r, c)"
  by (induction n) simp_all

lemma settle_write_retryable:
  assumes "retryable answer = Some err"
  shows "settle_write env table i rec answer c =
     (case cv_enqueue env (queued_change env (Upsert table i rec op) err) (cd_queue c) of
        (Inl e, q) \<Rightarrow> (Inl (Poly_OfflineQueue e), c\<lparr>cd_queue := q\<rparr>)
      | (Inr _, q) \<Rightarrow> (Inr (), queued_notice (Upsert table i rec op) (announce_depth env (c\<lparr>cd_queue := q\<rparr>))))"
proof -
  have "answer = Inl err" "is_transient err" using assms by (auto simp: retryable_def split: sum.splits if_splits)
  then have "settle_write env table i rec answer c =
      (case enqueue_for_replay env (queued_write env table i (Write (JObject rec)) err) c of
         (Inl e, c') \<Rightarrow> (Inl e, c') | (Inr _, c') \<Rightarrow> (Inr (), kvs_notice table rec c'))"
    by (cases err rule: is_transient.cases) (simp_all add: settle_write_def)
  then show ?thesis
    by (auto simp: enqueue_for_replay_def queued_change_def announce_depth_def split: sum.splits prod.splits)
qed

lemma settle_delete_retryable:
  assumes "retryable answer = Some err"
  shows "settle_delete env table i v answer c =
     (case cv_enqueue env (queued_change env (Soft_delete table i v at) err) (cd_queue c) of
        (Inl e, q) \<Rightarrow> (Inl (Poly_OfflineQueue e), c\<lparr>cd_queue := q\<rparr>)
      | (Inr _, q) \<Rightarrow> (Inr (), queued_notice (Soft_delete table i v at) (announce_depth env (c\<lparr>cd_queue := q\<rparr>))))"
proof -
  have "answer = Inl err" "is_transient err" using assms by (auto simp: retryable_def split: sum.splits if_splits)
  then have "settle_delete env table i v answer c = enqueue_for_replay env (queued_write env table i (Tombstone v) err) c"
    by (cases err rule: is_transient.cases) (simp_all add: settle_delete_def)
  then show ?thesis
    by (auto simp: enqueue_for_replay_def queued_change_def announce_depth_def split: sum.splits prod.splits)
qed

lemma settle_change_retryable:
  assumes "retryable answer = Some err"
  shows "settle_change env ch answer c =
     (case cv_enqueue env (queued_change env ch err) (cd_queue c) of
        (Inl e, q) \<Rightarrow> (Inl (Poly_OfflineQueue e), c\<lparr>cd_queue := q\<rparr>)
      | (Inr _, q) \<Rightarrow> (Inr (), queued_notice ch (announce_depth env (c\<lparr>cd_queue := q\<rparr>))))"
proof (cases ch)
  case (Upsert table i rec op)
  show ?thesis unfolding Upsert settle_change.simps by (rule settle_write_retryable [OF assms])
next
  case (Soft_delete table i v at)
  show ?thesis unfolding Soft_delete settle_change.simps by (rule settle_delete_retryable [OF assms])
qed

lemma run_from_answer:
  "settle_change env ch answer c = (r, c')
   \<Longrightarrow> run_alone (Suc (Suc 0)) env (Answered ch answer) c = (Returned (change_row ch) (Some (ch, answer)) r, c')"
  by (cases "retryable answer") (auto simp: settle_change_retryable split: sum.splits prod.splits)

text \<open>A call as a whole: its checks, then the mirror, the network and the outcome.\<close>

definition finish_change :: "('s, 'q) coord_env \<Rightarrow> EntityConfig \<Rightarrow> SessionPayload \<Rightarrow> row_change \<Rightarrow> ('s, 'q, unit) coord_call" where
  "finish_change env config session ch c =
     (case mirror_change env config ch (cd_local c) of
        (Inl e, l) \<Rightarrow> (Inl e, c\<lparr>cd_local := l\<rparr>)
      | (Inr _, l) \<Rightarrow>
          (case dispatch_change env config ch (sp_access_token session) (cd_network c) of
             (answer, n) \<Rightarrow> settle_change env ch answer (c\<lparr>cd_local := l, cd_network := n\<rparr>)))"

lemma whole_persist:
  "persist_change_with_op env table rec op c =
     (case prepare_write env table rec op c of
        Inl e \<Rightarrow> (Inl e, c) | Inr (config, session, ch) \<Rightarrow> finish_change env config session ch c)"
  by (simp add: persist_change_with_op_def prepare_write_def finish_change_def split: option.split sum.split prod.split)

lemma whole_delete:
  "coordinator_delete env table i v c =
     (case prepare_delete env table i v c of
        Inl e \<Rightarrow> (Inl e, c) | Inr (config, session, ch) \<Rightarrow> finish_change env config session ch c)"
  by (simp add: coordinator_delete_def prepare_delete_def finish_change_def split: option.split sum.split prod.split)

lemma run_from_prepared:
  assumes "finish_change env config session ch c = (r, c')"
  shows "\<exists>sent. run_alone 4 env (Prepared config session ch) c = (Returned (change_row ch) sent r, c')"
proof -
  obtain q l where m: "mirror_change env config ch (cd_local c) = (q, l)"
    by (cases "mirror_change env config ch (cd_local c)")
  obtain answer n where d: "dispatch_change env config ch (sp_access_token session) (cd_network c) = (answer, n)"
    by (cases "dispatch_change env config ch (sp_access_token session) (cd_network c)")
  show ?thesis
  proof (cases q)
    case (Inl e)
    then have "r = Inl e" "c' = c\<lparr>cd_local := l\<rparr>" using assms m by (simp_all add: finish_change_def)
    then show ?thesis using m Inl by (simp add: numeral_nat)
  next
    case (Inr u)
    then have "settle_change env ch answer (c\<lparr>cd_local := l, cd_network := n\<rparr>) = (r, c')"
      using assms m d by (simp add: finish_change_def)
    from run_from_answer [OF this] show ?thesis using m d Inr by (simp add: numeral_nat)
  qed
qed

lemma run_from_start:
  assumes "call_turn env call c = (start_call row prepared, c)"
    and "\<And>config session ch. prepared = Inr (config, session, ch) \<Longrightarrow> change_row ch = row"
    and "(case prepared of Inl e \<Rightarrow> (Inl e, c) | Inr (config, session, ch) \<Rightarrow> finish_change env config session ch c) = (r, c')"
  shows "\<exists>sent. run_alone 5 env call c = (Returned row sent r, c')"
proof (cases prepared)
  case (Inl e)
  then show ?thesis using assms(1,3) by (simp add: numeral_nat start_call_def)
next
  case (Inr prep)
  obtain config session ch where prep: "prep = (config, session, ch)" by (cases prep)
  have "finish_change env config session ch c = (r, c')" using assms(3) Inr prep by simp
  from run_from_prepared [OF this] show ?thesis using assms(1,2) Inr prep by (simp add: numeral_nat start_call_def)
qed

text \<open>
  Cutting the calls at their awaits changes nothing when nothing comes in between: five turns of
  a write, or of a deletion, in a row return what the whole call returns and leave the state it leaves.
\<close>

lemma uninterrupted_call:
  "(\<exists>sent. run_alone 5 env (Persisting table rec op) c
      = (Returned (call_row (Persisting table rec op)) sent (fst (persist_change_with_op env table rec op c)),
         snd (persist_change_with_op env table rec op c)))
   \<and> (\<exists>sent. run_alone 5 env (Deleting table i v) c
      = (Returned (table, i) sent (fst (coordinator_delete env table i v c)), snd (coordinator_delete env table i v c)))"
proof
  show "\<exists>sent. run_alone 5 env (Persisting table rec op) c
      = (Returned (call_row (Persisting table rec op)) sent (fst (persist_change_with_op env table rec op c)),
         snd (persist_change_with_op env table rec op c))"
    by (rule run_from_start [OF _ _ trans [OF whole_persist [symmetric] prod.collapse [symmetric]]])
      (auto simp: prepare_write_def split: option.splits sum.splits)
  show "\<exists>sent. run_alone 5 env (Deleting table i v) c
      = (Returned (table, i) sent (fst (coordinator_delete env table i v c)), snd (coordinator_delete env table i v c))"
    by (rule run_from_start [OF _ _ trans [OF whole_delete [symmetric] prod.collapse [symmetric]]])
      (auto simp: prepare_delete_def split: option.splits sum.splits)
qed

section \<open>Calls side by side\<close>

text \<open>
  Any number of calls over one coordinator. One of them takes a turn, or a row comes in from the
  server, or the session changes. \<open>E\<close> holds of what the environment may be at a step (its clock and
  its answers differ from step to step), \<open>I\<close> of the rows that may come in.
\<close>

type_synonym ('s, 'q) calls = "write_call list \<times> ('s, 'q) Coordinator"

inductive calls_step ::
  "(('s, 'q) coord_env \<Rightarrow> bool) \<Rightarrow> (string \<Rightarrow> obj \<Rightarrow> bool) \<Rightarrow> ('s, 'q) calls \<Rightarrow> ('s, 'q) calls \<Rightarrow> bool" for E I where
  turn: "k < length calls \<Longrightarrow> E env \<Longrightarrow> call_turn env (calls ! k) c = (call', c')
    \<Longrightarrow> calls_step E I (calls, c) (calls[k := call'], c')"
| incoming: "E env \<Longrightarrow> I table rec \<Longrightarrow> apply_remote_record env table rec uid c = (r, c') \<Longrightarrow> calls_step E I (calls, c) (calls, c')"
| session: "calls_step E I (calls, c) (calls, c\<lparr>cd_session := session\<rparr>)"

abbreviation calls_run where "calls_run E I \<equiv> (calls_step E I)\<^sup>*\<^sup>*"

inductive_cases calls_stepE: "calls_step E I (calls, c) (calls', c')"

text \<open>A schedule as a list: who takes the next turn, and in which environment.\<close>

fun run_calls :: "(nat \<times> ('s, 'q) coord_env) list \<Rightarrow> ('s, 'q) calls \<Rightarrow> ('s, 'q) calls" where
  "run_calls [] (calls, c) = (calls, c)"
| "run_calls ((k, env) # turns) (calls, c) =
     (case call_turn env (calls ! k) c of (call', c') \<Rightarrow> run_calls turns (calls[k := call'], c'))"

lemma run_calls_run:
  "(\<And>k env. (k, env) \<in> set turns \<Longrightarrow> k < length calls \<and> E env) \<Longrightarrow> calls_run E I (calls, c) (run_calls turns (calls, c))"
proof (induction turns arbitrary: calls c)
  case (Cons turn turns)
  obtain k env where t: "turn = (k, env)" by (cases turn)
  obtain call' c' where ct: "call_turn env (calls ! k) c = (call', c')" by (cases "call_turn env (calls ! k) c")
  have k: "k < length calls" "E env" using Cons.prems [of k env] t by auto
  have "calls_step E I (calls, c) (calls[k := call'], c')" using calls_step.turn [of k calls E env c call' c' I] k ct by simp
  moreover have "calls_run E I (calls[k := call'], c') (run_calls turns (calls[k := call'], c'))"
    using Cons.prems by (intro Cons.IH) auto
  ultimately show ?case using t ct by (simp add: converse_rtranclp_into_rtranclp)
qed simp

section \<open>What a call has done so far\<close>

definition mirrored ::
  "('s \<Rightarrow> string \<Rightarrow> string \<Rightarrow> Record option) \<Rightarrow> ('s \<Rightarrow> string \<Rightarrow> string \<Rightarrow> json \<Rightarrow> json) \<Rightarrow> EntityConfig \<Rightarrow> row_change \<Rightarrow> 's \<Rightarrow> bool" where
  "mirrored view stored config ch l =
     (case ch of
        Upsert table i rec op \<Rightarrow> \<exists>row. view l table i = Some row \<and> written (stored l table) (map_remote_to_local config rec) row
      | Soft_delete table i v at \<Rightarrow> \<forall>row. view l table i = Some row
          \<longrightarrow> written (stored l table) [(''deleted'', JInt 1), (''version'', json_of_i64 v)] row)"

definition pending :: "('q \<Rightarrow> string \<times> string \<rightharpoonup> QueuedOperation) \<Rightarrow> row_change \<Rightarrow> 'q \<Rightarrow> bool" where
  "pending qview ch q \<longleftrightarrow> (\<exists>op. qview q (change_row ch) = Some op \<and> op_kind op = change_kind ch)"

definition valid_change :: "Registry \<Rightarrow> EntityConfig \<Rightarrow> row_change \<Rightarrow> bool" where
  "valid_change registry config ch \<longleftrightarrow> config_for_table registry (fst (change_row ch)) = Some config \<and> id_mapped config
     \<and> (case ch of Upsert table i rec op \<Rightarrow> get_str rec ''id'' = Some i \<and> record_ok rec | _ \<Rightarrow> True)"

text \<open>Answered for good, or queued for an error that may pass.\<close>

definition settled_or_pending ::
  "('q \<Rightarrow> string \<times> string \<rightharpoonup> QueuedOperation) \<Rightarrow> row_change \<Rightarrow> PolyError + unit \<Rightarrow> 'q \<Rightarrow> bool" where
  "settled_or_pending qview ch answer q \<longleftrightarrow>
     answer = Inr () \<or> same_version_ignored answer \<or> (retryable answer \<noteq> None \<and> pending qview ch q)"

definition call_sound ::
  "('s \<Rightarrow> string \<Rightarrow> string \<Rightarrow> Record option) \<Rightarrow> ('s \<Rightarrow> string \<Rightarrow> string \<Rightarrow> json \<Rightarrow> json)
   \<Rightarrow> ('q \<Rightarrow> string \<times> string \<rightharpoonup> QueuedOperation) \<Rightarrow> ('s, 'q) Coordinator \<Rightarrow> write_call \<Rightarrow> bool" where
  "call_sound view stored qview c call =
     (case call of
        Persisting table rec op \<Rightarrow> record_ok rec
      | Deleting table i v \<Rightarrow> True
      | Prepared config session ch \<Rightarrow> valid_change (cd_registry c) config ch
      | Mirrored config session ch \<Rightarrow> valid_change (cd_registry c) config ch \<and> mirrored view stored config ch (cd_local c)
      | Answered ch answer \<Rightarrow> (\<exists>config. valid_change (cd_registry c) config ch \<and> mirrored view stored config ch (cd_local c))
      | Enqueued ch answer \<Rightarrow> retryable answer \<noteq> None \<and> pending qview ch (cd_queue c)
          \<and> (\<exists>config. valid_change (cd_registry c) config ch \<and> mirrored view stored config ch (cd_local c))
      | Returned row sent r \<Rightarrow> r = Inr () \<longrightarrow>
          (\<exists>ch answer config. sent = Some (ch, answer) \<and> change_row ch = row \<and> valid_change (cd_registry c) config ch
             \<and> mirrored view stored config ch (cd_local c) \<and> settled_or_pending qview ch answer (cd_queue c)))"

text \<open>What one row's call may touch.\<close>

definition confined ::
  "('s \<Rightarrow> string \<Rightarrow> string \<Rightarrow> Record option) \<Rightarrow> ('s \<Rightarrow> string \<Rightarrow> string \<Rightarrow> json \<Rightarrow> json)
   \<Rightarrow> ('q \<Rightarrow> string \<times> string \<rightharpoonup> QueuedOperation) \<Rightarrow> string \<times> string \<Rightarrow> ('s, 'q) Coordinator \<Rightarrow> ('s, 'q) Coordinator \<Rightarrow> bool" where
  "confined view stored qview row c c' \<longleftrightarrow> stored (cd_local c') = stored (cd_local c) \<and> cd_registry c' = cd_registry c
     \<and> (\<forall>table i. (table, i) \<noteq> row \<longrightarrow> view (cd_local c') table i = view (cd_local c) table i
          \<and> qview (cd_queue c') (table, i) = qview (cd_queue c) (table, i))"

lemma change_row_pair: "(fst (change_row ch), snd (change_row ch)) = change_row ch"
  by simp

lemma settled_cong: "pending qview ch q = pending qview ch q' \<Longrightarrow> settled_or_pending qview ch answer q = settled_or_pending qview ch answer q'"
  by (simp add: settled_or_pending_def)

lemma mirrored_elsewhere:
  assumes "confined view stored qview row c c'" and "change_row ch \<noteq> row"
  shows "mirrored view stored config ch (cd_local c') = mirrored view stored config ch (cd_local c)"
  using assms by (cases ch) (simp_all add: mirrored_def confined_def)

lemma pending_elsewhere:
  assumes "confined view stored qview row c c'" and "change_row ch \<noteq> row"
  shows "pending qview ch (cd_queue c') = pending qview ch (cd_queue c)"
proof -
  have "qview (cd_queue c') (fst (change_row ch), snd (change_row ch)) = qview (cd_queue c) (fst (change_row ch), snd (change_row ch))"
    using assms unfolding confined_def change_row_pair by (metis change_row_pair)
  then show ?thesis by (simp add: pending_def)
qed

lemma sound_elsewhere:
  assumes "confined view stored qview row c c'" and "call_row call \<noteq> row" and "call_sound view stored qview c call"
  shows "call_sound view stored qview c' call"
proof -
  have reg: "cd_registry c' = cd_registry c" using assms(1) by (simp add: confined_def)
  note same = mirrored_elsewhere [OF assms(1)] pending_elsewhere [OF assms(1)] reg
  show ?thesis
  proof (cases call)
    case (Returned row' sent r)
    then show ?thesis using assms(2,3) same settled_cong [OF pending_elsewhere [OF assms(1)]] by (auto simp: call_sound_def)
  qed (use assms(2,3) same in \<open>simp_all add: call_sound_def\<close>)
qed

section \<open>A turn is sound\<close>

text \<open>
  All that is asked of a queue beyond its contract: an enqueue, even one that fails, leaves the
  pending operations of the other rows alone. A queue that undoes a failed enqueue does.
\<close>

locale coordinator_rows =
  coordinator_queue ops ok view stored enqueue snapshot finalize depth inv qview retried
  for ops :: "'s LocalStore" and ok view stored
    and enqueue :: "QueuedOperation \<Rightarrow> 'q \<Rightarrow> (OfflineQueueError + unit) \<times> 'q"
    and snapshot finalize depth inv qview retried +
  assumes enqueue_elsewhere: "inv q \<Longrightarrow> kind_ok (op_kind op) \<Longrightarrow> row \<noteq> op_key op \<Longrightarrow> qview (snd (enqueue op q)) row = qview q row"

sublocale coordinator \<subseteq> rows: coordinator_rows ops ok view stored enqueue snapshot finalize depth inv qview bump_retry
proof unfold_locales
  fix q op row
  assume a: "inv q" "kind_ok (op_kind op)" "row \<noteq> op_key op"
  show "qview (snd (enqueue op q)) row = qview q row"
  proof (cases "fst (enqueue op q)")
    case (Inl e)
    then show ?thesis using retrying.enqueue_atomic [OF a(1)] by simp
  next
    case (Inr u)
    then show ?thesis using queue.enqueue_view [OF a(1,2)] a(3) by simp
  qed
qed

context coordinator_rows
begin

abbreviation sound where "sound \<equiv> call_sound view stored qview"

definition healthy :: "('s, 'q) Coordinator \<Rightarrow> bool" where
  "healthy c \<longleftrightarrow> ok (cd_local c) \<and> inv (cd_queue c)
     \<and> (\<forall>table config. config_for_table (cd_registry c) table = Some config \<longrightarrow> id_mapped config)"

abbreviation moved where "moved row c c' \<equiv> healthy c' \<and> confined view stored qview row c c'"

lemma moved_frame:
  "healthy c \<Longrightarrow> cd_local c' = cd_local c \<Longrightarrow> cd_queue c' = cd_queue c \<Longrightarrow> cd_registry c' = cd_registry c \<Longrightarrow> moved row c c'"
  by (simp add: healthy_def confined_def)

lemma mirror_change_effect:
  assumes "wired ops enqueue depth env" and "healthy c" and "valid_change (cd_registry c) config ch"
    and "mirror_change env config ch (cd_local c) = (r, l)"
  shows "moved (change_row ch) c (c\<lparr>cd_local := l\<rparr>)" and "r = Inr () \<Longrightarrow> mirrored view stored config ch l"
proof -
  have env: "cv_local env = ops" and ok: "ok (cd_local c)" using assms(1,2) by (simp_all add: wired_def healthy_def)
  have "ok l \<and> stored l = stored (cd_local c) \<and> (\<forall>t j. (t, j) \<noteq> change_row ch \<longrightarrow> view l t j = view (cd_local c) t j)
      \<and> (r = Inr () \<longrightarrow> mirrored view stored config ch l)"
  proof (cases ch)
    case (Upsert table i rec op)
    have im: "id_mapped config" and i: "get_str rec ''id'' = Some i" using assms(3) Upsert by (simp_all add: valid_change_def)
    have id: "get_str (map_remote_to_local config rec) ''id'' = Some i" using local_id [OF im] i by simp
    have u: "ls_upsert_record ops table (map_remote_to_local config rec) (cd_local c) = (r, l)" using assms(4) Upsert env by simp
    have "r = Inr () \<Longrightarrow> mirrored view stored config ch l"
      using mirror.upsert_ok [OF ok id] mirror.upsert_frame [OF ok id u] u Upsert by (fastforce simp: mirrored_def)
    then show ?thesis using mirror.upsert_frame [OF ok id u] Upsert by auto
  next
    case (Soft_delete table i v at)
    have m: "ls_mark_deleted ops table i v (cd_local c) = (r, l)" using assms(4) Soft_delete env by simp
    have "written (stored l table) [(''deleted'', JInt 1), (''version'', json_of_i64 v)] row"
      if "r = Inr ()" and row: "view l table i = Some row" for row
    proof (cases "view (cd_local c) table i")
      case None
      then show ?thesis using mirror.mark_missing [OF ok m] row by simp
    next
      case (Some old)
      then show ?thesis using mirror.mark_ok [OF ok _ Some, of v l] mirror.mark_frame [OF ok m] m row that(1) by auto
    qed
    then show ?thesis using mirror.mark_frame [OF ok m] Soft_delete by (auto simp: mirrored_def)
  qed
  then show "moved (change_row ch) c (c\<lparr>cd_local := l\<rparr>)" and "r = Inr () \<Longrightarrow> mirrored view stored config ch l"
    using assms(2) by (simp_all add: healthy_def confined_def)
qed

lemma enqueue_effect:
  assumes "wired ops enqueue depth env" and "healthy c" and "valid_change registry config ch"
    and "cv_enqueue env (queued_change env ch err) (cd_queue c) = (r, q)"
  shows "moved (change_row ch) c (c\<lparr>cd_queue := q\<rparr>)" and "r = Inr () \<Longrightarrow> pending qview ch q"
proof -
  have e: "enqueue (queued_change env ch err) (cd_queue c) = (r, q)" and i: "inv (cd_queue c)"
    using assms(1,2,4) by (simp_all add: wired_def healthy_def)
  have k: "kind_ok (op_kind (queued_change env ch err))"
    using assms(3) by (cases ch) (simp_all add: queued_change_def queued_write_def kind_ok_def valid_change_def)
  have key: "op_key (queued_change env ch err) = change_row ch" and kind: "op_kind (queued_change env ch err) = change_kind ch"
    by (simp_all add: queued_change_def queued_write_def op_key_def)
  have q: "inv q" using queue.enqueue_inv [OF i k] e by simp
  have ok: "qview q = (qview (cd_queue c))(change_row ch \<mapsto> queued_change env ch err)" if "r = Inr ()"
    using queue.enqueue_view [OF i k] e that key by simp
  have other: "qview q row = qview (cd_queue c) row" if "row \<noteq> change_row ch" for row
    using enqueue_elsewhere [OF i k] that e key by simp
  show "r = Inr () \<Longrightarrow> pending qview ch q" using ok kind by (simp add: pending_def)
  show "moved (change_row ch) c (c\<lparr>cd_queue := q\<rparr>)"
    using q other assms(2) by (simp add: healthy_def confined_def)
qed

lemma announce_effect:
  assumes "wired ops enqueue depth env" and "healthy c"
  shows "moved row c (announce_depth env c)" and "qview (cd_queue (announce_depth env c)) = qview (cd_queue c)"
    and "cd_local (announce_depth env c) = cd_local c"
proof -
  obtain d q where d: "depth (cd_queue c) = (d, q)" by (cases "depth (cd_queue c)")
  have i: "inv (cd_queue c)" using assms(2) by (simp add: healthy_def)
  show "moved row c (announce_depth env c)" and "qview (cd_queue (announce_depth env c)) = qview (cd_queue c)"
    and "cd_local (announce_depth env c) = cd_local c"
    using assms queue.depth_inv [OF i] d by (simp_all add: announce_depth_def wired_def healthy_def confined_def)
qed

lemma notice_frames [simp]:
  "cd_local (queued_notice ch c) = cd_local c" "cd_queue (queued_notice ch c) = cd_queue c"
  "cd_registry (queued_notice ch c) = cd_registry c"
  by (cases ch; simp)+

lemma settled_effect:
  assumes "retryable answer = None" and "settle_change env ch answer c = (r, c')"
  shows "cd_local c' = cd_local c \<and> cd_queue c' = cd_queue c \<and> cd_registry c' = cd_registry c \<and> (r = Inr () \<longrightarrow> answer = Inr () \<or> same_version_ignored answer)"
proof (cases ch)
  case (Upsert table i rec op)
  have "settle_write env table i rec answer c = (r, c')" using assms(2) Upsert by simp
  then show ?thesis
    by (cases rule: settle_write_cases) (use assms(1) in \<open>auto simp: retryable_def\<close>)
next
  case (Soft_delete table i v at)
  have "settle_delete env table i v answer c = (r, c')" using assms(2) Soft_delete by simp
  then show ?thesis
    by (cases rule: settle_delete_cases) (use assms(1) in \<open>auto simp: retryable_def\<close>)
qed

lemma turn_effect:
  assumes env: "wired ops enqueue depth env" and c: "healthy c" and call: "sound c call"
    and turn: "call_turn env call c = (call', c')"
  shows "moved (call_row call) c c' \<and> call_row call' = call_row call \<and> sound c' call'"
proof (cases call)
  case (Persisting table rec op)
  have p: "call' = start_call (call_row call) (prepare_write env table rec op c)" "c' = c" using turn Persisting by auto
  show ?thesis
  proof (cases "prepare_write env table rec op c")
    case (Inl e)
    then show ?thesis using p c moved_frame by (simp add: start_call_def call_sound_def)
  next
    case (Inr prep)
    then obtain config session i remote where a: "prep = (config, session, Upsert table i remote op)"
      "config_for_table (cd_registry c) table = Some config" "get_str rec ''id'' = Some i"
      "serialize_for_remote (cv_cipher env) (cd_encryption c) (sp_user_id session) config rec = Inr remote"
      by (auto simp: prepare_write_def split: option.splits sum.splits)
    have im: "id_mapped config" using c a(2) by (simp add: healthy_def)
    have "valid_change (cd_registry c) config (Upsert table i remote op)"
      using a im serialize_id [OF im a(4)] serialize_storable [OF a(4), of 124] call Persisting by (simp add: valid_change_def call_sound_def)
    then show ?thesis using p c moved_frame Inr a(1,3) Persisting by (simp add: start_call_def call_sound_def)
  qed
next
  case (Deleting table i v)
  have p: "call' = start_call (table, i) (prepare_delete env table i v c)" "c' = c" using turn Deleting by auto
  show ?thesis
  proof (cases "prepare_delete env table i v c")
    case (Inl e)
    then show ?thesis using p c moved_frame Deleting by (simp add: start_call_def call_sound_def)
  next
    case (Inr prep)
    then obtain config session at where a: "prep = (config, session, Soft_delete table i v at)"
      "config_for_table (cd_registry c) table = Some config"
      by (auto simp: prepare_delete_def split: option.splits)
    then have "valid_change (cd_registry c) config (Soft_delete table i v at)" using c by (simp add: valid_change_def healthy_def)
    then show ?thesis using p c moved_frame Inr a(1) Deleting by (simp add: start_call_def call_sound_def)
  qed
next
  case (Prepared config session ch)
  obtain r l where m: "mirror_change env config ch (cd_local c) = (r, l)" by (cases "mirror_change env config ch (cd_local c)")
  have v: "valid_change (cd_registry c) config ch" using call Prepared by (simp add: call_sound_def)
  show ?thesis using mirror_change_effect [OF env c v m] turn Prepared m v
    by (cases r) (auto simp: call_sound_def)
next
  case (Mirrored config session ch)
  obtain answer n where d: "dispatch_change env config ch (sp_access_token session) (cd_network c) = (answer, n)"
    by (cases "dispatch_change env config ch (sp_access_token session) (cd_network c)")
  then have "call' = Answered ch answer" "c' = c\<lparr>cd_network := n\<rparr>" using turn Mirrored by simp_all
  then show ?thesis using c call Mirrored by (auto simp: call_sound_def healthy_def confined_def)
next
  case (Answered ch answer)
  obtain config where v: "valid_change (cd_registry c) config ch" "mirrored view stored config ch (cd_local c)"
    using call Answered by (auto simp: call_sound_def)
  show ?thesis
  proof (cases "retryable answer")
    case None
    obtain r c1 where s: "settle_change env ch answer c = (r, c1)" by (cases "settle_change env ch answer c")
    have "call' = Returned (change_row ch) (Some (ch, answer)) r" "c' = c1" using turn Answered None s by simp_all
    then show ?thesis using settled_effect [OF None s] moved_frame [OF c, of c1] v Answered by (auto simp: call_sound_def settled_or_pending_def)
  next
    case (Some err)
    obtain r q where e: "cv_enqueue env (queued_change env ch err) (cd_queue c) = (r, q)"
      by (cases "cv_enqueue env (queued_change env ch err) (cd_queue c)")
    show ?thesis using enqueue_effect [OF env c v(1) e] turn Answered Some e v
      by (cases r) (auto simp: call_sound_def)
  qed
next
  case (Enqueued ch answer)
  have "call' = Returned (change_row ch) (Some (ch, answer)) (Inr ())" "c' = queued_notice ch (announce_depth env c)"
    using turn Enqueued by simp_all
  then show ?thesis using announce_effect(1) [OF env c, of "change_row ch"] announce_effect(2,3) [OF env c] call Enqueued
    by (auto simp: call_sound_def healthy_def confined_def settled_or_pending_def pending_def)
next
  case (Returned row sent r)
  then show ?thesis using turn c call moved_frame by simp
qed

lemma incoming_effect:
  assumes env: "wired ops enqueue depth env" and c: "healthy c" and i: "get_str rec ''id'' = Some i"
    and a: "apply_remote_record env table rec uid c = (r, c')"
  shows "moved (table, i) c c'"
proof (cases "cd_local c' = cd_local c")
  case True
  then show ?thesis using a c
    by (auto simp: apply_remote_record_def Let_def healthy_def confined_def publish_kvs_event_def split: option.splits sum.splits prod.splits if_splits)
next
  case False
  then obtain config plain l where p: "config_for_table (cd_registry c) table = Some config"
    "decode_remote_record env table rec uid c = Inr plain"
    "ls_upsert_record ops table (map_remote_to_local config plain) (cd_local c) = (case r of Inl e \<Rightarrow> Inl e | Inr u \<Rightarrow> Inr (), l)"
    "cd_local c' = l" "cd_queue c' = cd_queue c" "cd_registry c' = cd_registry c"
    using a env
    by (auto simp: apply_remote_record_def decode_remote_record_def Let_def wired_def publish_kvs_event_def
        split: option.splits sum.splits prod.splits if_splits)
  have im: "id_mapped config" using c p(1) by (simp add: healthy_def)
  have "get_str (map_remote_to_local config plain) ''id'' = Some i" using local_id decode_id [OF _ p(1,2)] im i by simp
  from mirror.upsert_frame [OF _ this p(3)] show ?thesis using c p(4-6) by (auto simp: healthy_def confined_def)
qed

text \<open>Calls on different rows: each step keeps what every call has done.\<close>

definition all_sound :: "(string \<times> string) list \<Rightarrow> ('s, 'q) calls \<Rightarrow> bool" where
  "all_sound rows s \<longleftrightarrow> healthy (snd s) \<and> map call_row (fst s) = rows \<and> (\<forall>call \<in> set (fst s). sound (snd s) call)"

lemma step_sound:
  assumes "distinct rows" and "\<And>env. E env \<Longrightarrow> wired ops enqueue depth env"
    and "\<And>table rec. I table rec \<Longrightarrow> \<exists>i. get_str rec ''id'' = Some i \<and> (table, i) \<notin> set rows"
    and "calls_step E I s s'" and "all_sound rows s"
  shows "all_sound rows s'"
  using assms(4)
proof cases
  case (turn k calls env c call' c')
  have a: "healthy c" "map call_row calls = rows" "\<And>call. call \<in> set calls \<Longrightarrow> sound c call"
    using assms(5) turn(1) by (simp_all add: all_sound_def)
  have t: "moved (call_row (calls ! k)) c c' \<and> call_row call' = call_row (calls ! k) \<and> sound c' call'"
    using turn_effect [OF assms(2) [OF turn(4)] a(1) _ turn(5)] a(3) turn(3) by simp
  have "sound c' (calls[k := call'] ! j)" if j: "j < length calls" for j
  proof (cases "j = k")
    case True
    then show ?thesis using t j by simp
  next
    case False
    then have "call_row (calls ! j) \<noteq> call_row (calls ! k)"
      using assms(1) a(2) turn(3) j by (metis length_map nth_eq_iff_index_eq nth_map)
    then show ?thesis using sound_elsewhere t a(3) j False by (metis nth_list_update_neq nth_mem)
  qed
  then have "\<forall>call \<in> set (calls[k := call']). sound c' call" by (simp add: all_set_conv_all_nth)
  moreover have "map call_row (calls[k := call']) = rows" using a(2) t turn(3) by (metis list_update_id map_update nth_map length_map)
  ultimately show ?thesis using t turn(2) by (simp add: all_sound_def)
next
  case (incoming env table rec uid c r c' calls)
  obtain i where i: "get_str rec ''id'' = Some i" "(table, i) \<notin> set rows" using assms(3) [OF incoming(4)] by blast
  have m: "moved (table, i) c c'"
    using incoming_effect [OF assms(2) [OF incoming(3)] _ i(1) incoming(5)] assms(5) incoming(1) by (simp add: all_sound_def)
  have "call_row call \<noteq> (table, i)" if "call \<in> set calls" for call
  proof -
    have "call_row call \<in> set rows" using that assms(5) incoming(1) by (auto simp: all_sound_def)
    then show ?thesis using i(2) by auto
  qed
  then show ?thesis using m assms(5) incoming(1,2) sound_elsewhere by (fastforce simp: all_sound_def)
next
  case (session calls c session)
  have "sound (c\<lparr>cd_session := session\<rparr>) call" if "sound c call" for call
    using that by (cases call) (simp_all add: call_sound_def)
  then show ?thesis using assms(5) session by (simp add: all_sound_def healthy_def)
qed

lemma run_sound:
  assumes "distinct rows" and "\<And>env. E env \<Longrightarrow> wired ops enqueue depth env"
    and "\<And>table rec. I table rec \<Longrightarrow> \<exists>i. get_str rec ''id'' = Some i \<and> (table, i) \<notin> set rows"
    and "calls_run E I s s'" and "all_sound rows s"
  shows "all_sound rows s'"
  using assms(4,5) by (induction rule: rtranclp_induct) (blast intro: step_sound [OF assms(1-3)])+

end

section \<open>Where a change comes from\<close>

fun fresh_call :: "write_call \<Rightarrow> bool" where
  "fresh_call (Persisting table rec op) \<longleftrightarrow> True"
| "fresh_call (Deleting table i v) \<longleftrightarrow> True"
| "fresh_call _ \<longleftrightarrow> False"

fun prepare_call :: "('s, 'q) coord_env \<Rightarrow> write_call \<Rightarrow> ('s, 'q) Coordinator
    \<Rightarrow> PolyError + (EntityConfig \<times> SessionPayload \<times> row_change)" where
  "prepare_call env (Persisting table rec op) c = prepare_write env table rec op c"
| "prepare_call env (Deleting table i v) c = prepare_delete env table i v c"
| "prepare_call env _ c = Inl NoSession"

fun call_change :: "write_call \<Rightarrow> row_change option" where
  "call_change (Prepared config session ch) = Some ch"
| "call_change (Mirrored config session ch) = Some ch"
| "call_change (Answered ch answer) = Some ch"
| "call_change (Enqueued ch answer) = Some ch"
| "call_change (Returned row sent r) = map_option fst sent"
| "call_change _ = None"

text \<open>A change was prepared by its call, for a session there was.\<close>

definition prepared_by ::
  "(('s, 'q) coord_env \<Rightarrow> bool) \<Rightarrow> ('s, 'q) Coordinator \<Rightarrow> write_call \<Rightarrow> row_change \<Rightarrow> bool" where
  "prepared_by E c call ch \<longleftrightarrow>
     (\<exists>env config session session'. E env \<and> prepare_call env call (c\<lparr>cd_session := session\<rparr>) = Inr (config, session', ch))"

definition same_setup :: "('s, 'q) Coordinator \<Rightarrow> ('s, 'q) Coordinator \<Rightarrow> bool" where
  "same_setup c c' \<longleftrightarrow> cd_registry c' = cd_registry c \<and> cd_encryption c' = cd_encryption c"

lemma same_setup_frames [simp]:
  "same_setup c c" "same_setup c (c\<lparr>cd_queue := q\<rparr>)" "same_setup c (c\<lparr>cd_local := l\<rparr>)"
  "same_setup c (c\<lparr>cd_network := n\<rparr>)" "same_setup c (c\<lparr>cd_session := s\<rparr>)"
  by (simp_all add: same_setup_def)

lemma prepare_call_setup:
  "same_setup c c' \<Longrightarrow> prepare_call env call c' = prepare_call env call (c\<lparr>cd_session := cd_session c'\<rparr>)"
  by (cases call) (simp_all add: prepare_write_def prepare_delete_def same_setup_def cong: option.case_cong sum.case_cong)

lemma settle_setup: "settle_change env ch answer c = (r, c') \<Longrightarrow> same_setup c c'"
proof (cases ch)
  case (Upsert table i rec op)
  assume "settle_change env ch answer c = (r, c')"
  then have "settle_write env table i rec answer c = (r, c')" using Upsert by simp
  then show ?thesis by (cases rule: settle_write_cases) (auto simp: same_setup_def dest: enqueue_for_replay_frames)
next
  case (Soft_delete table i v at)
  assume "settle_change env ch answer c = (r, c')"
  then have "settle_delete env table i v answer c = (r, c')" using Soft_delete by simp
  then show ?thesis by (cases rule: settle_delete_cases) (auto simp: same_setup_def dest: enqueue_for_replay_frames)
qed

lemma notice_setup [simp]: "same_setup c (queued_notice ch (announce_depth env c))"
  by (cases ch) (simp_all add: same_setup_def announce_depth_def split: prod.split)

lemma turn_setup: "call_turn env call c = (call', c') \<Longrightarrow> same_setup c c'"
  by (cases call) (auto split: sum.splits prod.splits option.splits intro: settle_setup)

lemma apply_setup: "apply_remote_record env table rec uid c = (r, c') \<Longrightarrow> same_setup c c'"
  by (auto simp: apply_remote_record_def same_setup_def Let_def publish_kvs_event_def
      split: option.splits sum.splits prod.splits if_splits)

lemma step_setup: "calls_step E I (calls, c) (calls', c') \<Longrightarrow> same_setup c c' \<and> length calls' = length calls"
  by (erule calls_stepE) (auto dest: turn_setup apply_setup simp: same_setup_def)

lemma turn_change:
  "call_turn env call c = (call', c') \<Longrightarrow> call_change call' = Some ch
   \<Longrightarrow> call_change call = Some ch \<or> (\<exists>config session. prepare_call env call c = Inr (config, session, ch))"
  by (cases call) (auto simp: start_call_def split: sum.splits prod.splits option.splits)

definition progress ::
  "(('s, 'q) coord_env \<Rightarrow> bool) \<Rightarrow> ('s, 'q) Coordinator \<Rightarrow> write_call \<Rightarrow> write_call \<Rightarrow> bool" where
  "progress E c call call' \<longleftrightarrow>
     (if fresh_call call' then call' = call else \<forall>ch. call_change call' = Some ch \<longrightarrow> prepared_by E c call ch)"

lemma fresh_no_change: "fresh_call call \<Longrightarrow> call_change call = None"
  by (cases call) simp_all

lemma turn_not_fresh: "call_turn env call c = (call', c') \<Longrightarrow> \<not> fresh_call call'"
  by (cases call) (auto simp: start_call_def split: sum.splits prod.splits option.splits)

lemma turn_progress:
  assumes "same_setup c0 c" and "E env" and "call_turn env call c = (call', c')" and "progress E c0 call0 call"
  shows "progress E c0 call0 call'"
proof -
  have "prepared_by E c0 call0 ch" if ch: "call_change call' = Some ch" for ch
  proof (cases "fresh_call call")
    case True
    then obtain config session where "prepare_call env call c = Inr (config, session, ch)" and "call = call0"
      using turn_change [OF assms(3) ch] assms(4) fresh_no_change by (auto simp: progress_def)
    then show ?thesis using prepare_call_setup [OF assms(1)] assms(2) by (fastforce simp: prepared_by_def)
  next
    case False
    then have "call_change call = Some ch" using turn_change [OF assms(3) ch] by (cases call) auto
    then show ?thesis using assms(4) False by (simp add: progress_def)
  qed
  then show ?thesis using turn_not_fresh [OF assms(3)] by (simp add: progress_def)
qed

lemma run_progress:
  assumes "calls_run E I (calls, c) s" and "\<And>call. call \<in> set calls \<Longrightarrow> fresh_call call"
  shows "same_setup c (snd s) \<and> length (fst s) = length calls \<and> (\<forall>k < length calls. progress E c (calls ! k) (fst s ! k))"
  using assms(1)
proof (induction rule: rtranclp_induct)
  case base
  then show ?case using assms(2) by (simp add: progress_def)
next
  case (step s s')
  obtain calls1 c1 calls2 c2 where s: "s = (calls1, c1)" "s' = (calls2, c2)" by (cases s; cases s')
  have one: "calls_step E I (calls1, c1) (calls2, c2)" using step.hyps(2) s by simp
  have ih: "same_setup c c1" "length calls1 = length calls" "\<And>k. k < length calls \<Longrightarrow> progress E c (calls ! k) (calls1 ! k)"
    using step.IH s by simp_all
  have "progress E c (calls ! k) (calls2 ! k)" if k: "k < length calls" for k
    using one
  proof cases
    case (turn j env call')
    show ?thesis
    proof (cases "j = k")
      case True
      then show ?thesis using turn_progress [OF ih(1) _ _ ih(3) [OF k], of env call' c2] turn ih(2) by simp
    next
      case False
      then show ?thesis using turn(1) ih(3) [OF k] by simp
    qed
  qed (use ih(3) [OF k] in simp_all)
  moreover have "same_setup c c2" "length calls2 = length calls" using step_setup [OF one] ih(1,2) by (simp_all add: same_setup_def)
  ultimately show ?case using s by simp
qed

section \<open>Where an answer comes from\<close>

text \<open>The request of a change, and that a call got its answer by sending it.\<close>

fun change_request :: "net_env \<Rightarrow> EntityConfig \<Rightarrow> row_change \<Rightarrow> string \<Rightarrow> http_request" where
  "change_request env config (Upsert table i rec op) token = write_request env config table rec op token"
| "change_request env config (Soft_delete table i v at) token = delete_request env config table i v at token"

definition exchanged :: "(('s, 'q) coord_env \<Rightarrow> bool) \<Rightarrow> EntityConfig \<Rightarrow> row_change \<Rightarrow> PolyError + unit \<Rightarrow> bool" where
  "exchanged E config ch answer \<longleftrightarrow> (\<exists>env token n. E env \<and> fst (dispatch_change env config ch token n) = answer)"

definition served :: "(('s, 'q) coord_env \<Rightarrow> bool) \<Rightarrow> EntityConfig \<Rightarrow> row_change \<Rightarrow> string + http_response \<Rightarrow> bool" where
  "served E config ch reply \<longleftrightarrow>
     (\<exists>env token n. E env \<and> reply = server_answer (cv_net env) (change_request (cv_net env) config ch token) n)"

text \<open>
  What a call that returned \<open>Ok\<close> has come to: a success from the server for its request, a write refused as a
  mutation of the version the server has and dropped, or a passing failure and the change pending.
\<close>

definition change_outcome ::
  "(('s, 'q) coord_env \<Rightarrow> bool) \<Rightarrow> ('q \<Rightarrow> string \<times> string \<rightharpoonup> QueuedOperation) \<Rightarrow> EntityConfig \<Rightarrow> row_change
   \<Rightarrow> PolyError + unit \<Rightarrow> 'q \<Rightarrow> bool" where
  "change_outcome E qview config ch answer q \<longleftrightarrow>
     (answer = Inr () \<and> (\<exists>reply. served E config ch reply \<and> answered_success reply))
     \<or> (same_version_ignored answer \<and> (\<exists>payload. change_kind ch = Write payload)
        \<and> (\<exists>reply. served E config ch reply \<and> answered_same_version reply))
     \<or> (retryable answer \<noteq> None \<and> pending qview ch q)"

lemma outcome_served:
  assumes "exchanged E config ch answer" and "valid_change registry config ch" and "settled_or_pending qview ch answer q"
  shows "change_outcome E qview config ch answer q"
proof -
  obtain env token n where d: "E env" "fst (dispatch_change env config ch token n) = answer"
    using assms(1) by (auto simp: exchanged_def)
  let ?reply = "server_answer (cv_net env) (change_request (cv_net env) config ch token) n"
  have reply: "served E config ch ?reply" using d(1) by (auto simp: served_def)
  have "(answer = Inr () \<longrightarrow> answered_success ?reply)
    \<and> (same_version_ignored answer \<longrightarrow> (\<exists>payload. change_kind ch = Write payload) \<and> answered_same_version ?reply)"
  proof (cases ch)
    case (Upsert table i rec op)
    have i: "get_str rec ''id'' = Some i" using assms(2) Upsert by (simp add: valid_change_def)
    have "fst (dispatch_write (cv_net env) config table rec i op token n) = answer" using d(2) Upsert by simp
    from dispatch_write_answer [OF i this] Upsert show ?thesis by auto
  next
    case (Soft_delete table i v at)
    have "fst (dispatch_delete (cv_net env) config table i v at token n) = answer" using d(2) Soft_delete by simp
    from dispatch_delete_answer [OF this] Soft_delete show ?thesis by auto
  qed
  then show ?thesis using reply assms(3) by (auto simp: change_outcome_def settled_or_pending_def)
qed

text \<open>Every call in progress goes by its registered configuration, and its answer was exchanged under it.\<close>

definition call_evidence :: "(('s, 'q) coord_env \<Rightarrow> bool) \<Rightarrow> Registry \<Rightarrow> write_call \<Rightarrow> bool" where
  "call_evidence E registry call =
     (let registered = (\<lambda>ch config. config_for_table registry (fst (change_row ch)) = Some config);
          answered = (\<lambda>ch answer. \<exists>config. registered ch config \<and> exchanged E config ch answer)
      in case call of
           Prepared config session ch \<Rightarrow> registered ch config
         | Mirrored config session ch \<Rightarrow> registered ch config
         | Answered ch answer \<Rightarrow> answered ch answer
         | Enqueued ch answer \<Rightarrow> answered ch answer
         | Returned row sent r \<Rightarrow> (case sent of None \<Rightarrow> True | Some (ch, answer) \<Rightarrow> answered ch answer)
         | _ \<Rightarrow> True)"

lemma prepare_registered:
  "prepare_write env table rec op c = Inr (config, session, ch) \<Longrightarrow> config_for_table (cd_registry c) (fst (change_row ch)) = Some config"
  "prepare_delete env table i v c = Inr (config, session, ch) \<Longrightarrow> config_for_table (cd_registry c) (fst (change_row ch)) = Some config"
  by (auto simp: prepare_write_def prepare_delete_def split: option.splits sum.splits)

lemma turn_evidence:
  assumes "E env" and "call_turn env call c = (call', c')" and "call_evidence E (cd_registry c) call"
  shows "call_evidence E (cd_registry c) call'"
proof (cases call)
  case (Persisting table rec op)
  then show ?thesis using assms(2) prepare_registered(1) [of env table rec op c]
    by (auto simp: call_evidence_def start_call_def Let_def split: sum.splits)
next
  case (Deleting table i v)
  then show ?thesis using assms(2) prepare_registered(2) [of env table i v c]
    by (auto simp: call_evidence_def start_call_def Let_def split: sum.splits)
next
  case (Mirrored config session ch)
  obtain answer n where d: "dispatch_change env config ch (sp_access_token session) (cd_network c) = (answer, n)"
    by (cases "dispatch_change env config ch (sp_access_token session) (cd_network c)")
  have "exchanged E config ch answer" using assms(1) d by (metis exchanged_def fst_conv)
  then show ?thesis using assms(2,3) d Mirrored by (auto simp: call_evidence_def Let_def)
qed (use assms(2,3) in \<open>auto simp: call_evidence_def Let_def split: sum.splits prod.splits option.splits\<close>)

lemma run_evidence:
  assumes "calls_run E I (calls, c) s" and "\<And>call. call \<in> set calls \<Longrightarrow> fresh_call call"
  shows "cd_registry (snd s) = cd_registry c \<and> (\<forall>call \<in> set (fst s). call_evidence E (cd_registry c) call)"
  using assms(1)
proof (induction rule: rtranclp_induct)
  case base
  have "call_evidence E (cd_registry c) call" if "fresh_call call" for call
    using that by (cases call) (simp_all add: call_evidence_def)
  then show ?case using assms(2) by simp
next
  case (step s s')
  obtain calls1 c1 calls2 c2 where s: "s = (calls1, c1)" "s' = (calls2, c2)" by (cases s; cases s')
  have one: "calls_step E I (calls1, c1) (calls2, c2)" using step.hyps(2) s by simp
  have ih: "cd_registry c1 = cd_registry c" "\<forall>call \<in> set calls1. call_evidence E (cd_registry c) call" using step.IH s by simp_all
  have "\<forall>call \<in> set calls2. call_evidence E (cd_registry c) call"
    using one
  proof cases
    case (turn k env call')
    have "call_evidence E (cd_registry c) call'"
      using turn_evidence [of E env, OF turn(3,4)] ih turn(2) by simp
    then show ?thesis using ih(2) turn(1) set_update_subset_insert [of calls1 k call'] by auto
  qed (use ih(2) in simp_all)
  then show ?case using step_setup [OF one] ih(1) s by (simp add: same_setup_def)
qed

section \<open>Concurrent writes over the SQLite mirror and queue\<close>

context coordinator_rows
begin

lemma concurrent_durable:
  assumes c: "healthy c" and fresh: "\<And>call. call \<in> set calls \<Longrightarrow> fresh_call call"
    and canonical: "\<And>table rec op. Persisting table rec op \<in> set calls \<Longrightarrow> record_ok rec"
    and rows: "distinct (map call_row calls)" and envs: "\<And>env. E env \<Longrightarrow> wired ops enqueue depth env"
    and incoming: "\<And>table rec. I table rec \<Longrightarrow> \<exists>i. get_str rec ''id'' = Some i \<and> (table, i) \<notin> call_row ` set calls"
    and run: "calls_run E I (calls, c) (calls', c')"
    and returned: "k < length calls" "calls' ! k = Returned row sent (Inr ())"
  shows "\<exists>ch answer config. sent = Some (ch, answer) \<and> change_row ch = call_row (calls ! k)
    \<and> prepared_by E c (calls ! k) ch \<and> config_for_table (cd_registry c) (fst (change_row ch)) = Some config
    \<and> mirrored view stored config ch (cd_local c') \<and> change_outcome E qview config ch answer (cd_queue c')"
proof -
  let ?rows = "map call_row calls"
  have "sound c call" if "call \<in> set calls" for call
    using fresh [OF that] canonical that by (cases call) (auto simp: call_sound_def)
  then have start: "all_sound ?rows (calls, c)" using c by (simp add: all_sound_def)
  have end1: "all_sound ?rows (calls', c')"
    by (rule run_sound [OF rows envs _ run start]) (use incoming in simp_all)
  have p: "same_setup c c'" "length calls' = length calls" "progress E c (calls ! k) (calls' ! k)"
    using run_progress [OF run fresh] returned(1) by simp_all
  have reg: "cd_registry c' = cd_registry c" using p(1) by (simp add: same_setup_def)
  have "sound c' (calls' ! k)" using end1 p(2) returned(1) by (simp add: all_sound_def)
  then obtain ch answer config where a: "sent = Some (ch, answer)" "change_row ch = row" "valid_change (cd_registry c) config ch"
    "mirrored view stored config ch (cd_local c')" "settled_or_pending qview ch answer (cd_queue c')"
    using returned(2) reg by (auto simp: call_sound_def)
  have row: "row = call_row (calls ! k)"
    using end1 p(2) returned by (metis call_row.simps(7) fst_conv nth_map all_sound_def)
  have config: "config_for_table (cd_registry c) (fst (change_row ch)) = Some config" using a(3) by (simp add: valid_change_def)
  have "call_evidence E (cd_registry c) (calls' ! k)"
    using run_evidence [OF run fresh] p(2) returned(1) by simp
  then have "exchanged E config ch answer" using returned(2) a(1) config by (simp add: call_evidence_def Let_def)
  from outcome_served [OF this a(3,5)] show ?thesis
    using a row config returned(2) p(3) by (auto simp: progress_def)
qed

end

text \<open>
  C3: writes and deletions of different rows do not disturb each other, however their awaits
  interleave, and whatever rows come in meanwhile for other rows and whoever signs in or out. When a call has returned \<open>Ok\<close>,
  its change (the record it was given, serialised for a session that was current) is in the mirror
  (a deletion marks the row, if the mirror has it), and a server answered its request with a success, or refused the write as a mutation of the version
  it has (the write is then dropped), or it failed for a passing reason and is the pending operation of its row.
\<close>

theorem concurrent_writes_outcomes:
  assumes mirror: "mirror_ok senv (cd_local c)" and queue: "sqlite_ok (cd_queue c)"
    and mapped: "\<And>table config. config_for_table (cd_registry c) table = Some config \<Longrightarrow> id_mapped config"
    and fresh: "\<And>call. call \<in> set calls \<Longrightarrow> fresh_call call"
    and canonical: "\<And>table rec op. Persisting table rec op \<in> set calls \<Longrightarrow> record_ok rec"
    and rows: "distinct (map call_row calls)"
    and envs: "\<And>env. E env \<Longrightarrow> sqlite_wired senv env"
    and incoming: "\<And>table rec. I table rec \<Longrightarrow> \<exists>i. get_str rec ''id'' = Some i \<and> (table, i) \<notin> call_row ` set calls"
    and run: "calls_run E I (calls, c) (calls', c')"
    and returned: "k < length calls" "calls' ! k = Returned row sent (Inr ())"
  shows "\<exists>ch answer config. sent = Some (ch, answer) \<and> change_row ch = call_row (calls ! k)
    \<and> prepared_by E c (calls ! k) ch \<and> config_for_table (cd_registry c) (fst (change_row ch)) = Some config
    \<and> mirrored (store_view senv) (store_stored senv) config ch (cd_local c')
    \<and> change_outcome E sqlite_view config ch answer (cd_queue c')"
proof -
  have "sqlite_sync.rows.healthy senv c" using mirror queue mapped by (simp add: sqlite_sync.rows.healthy_def)
  then show ?thesis
    by (rule sqlite_sync.rows.concurrent_durable [OF _ fresh canonical rows _ incoming run returned])
      (use envs in \<open>simp_all add: sqlite_wired_def\<close>)
qed

text \<open>
  C17: of two writes of one row the newer can be lost. Both are mirrored in order, both meet an error that may pass,
  and the first hears of it last (a request that times out while the next one fails at
  once). Then both return \<open>Ok\<close>, the mirror holds the second record, and what is pending for the row is the
  first: the second is not queued, and no replay will send it.
\<close>

theorem overtaken_write_lost:
  assumes env: "sqlite_wired senv env" and mirror: "mirror_ok senv (cd_local c)" and queue: "sqlite_ok (cd_queue c)"
    and mapped: "\<And>table config. config_for_table (cd_registry c) table = Some config \<Longrightarrow> id_mapped config"
    and canonical: "record_ok rec" "record_ok rec'"
    and prepared: "prepare_write env table rec op c = Inr (config, session, ch)"
      "prepare_write env table rec' op' c = Inr (config, session, ch')"
    and row: "change_row ch' = change_row ch" and differ: "change_kind ch' \<noteq> change_kind ch"
    and mirrors: "mirror_change env config ch (cd_local c) = (Inr (), l)" "mirror_change env config ch' l = (Inr (), l')"
    and answers: "dispatch_change env config ch (sp_access_token session) (cd_network c) = (Inl err, n)"
      "dispatch_change env config ch' (sp_access_token session) n = (Inl err', n')" "is_transient err" "is_transient err'"
    and queues: "cv_enqueue env (queued_change env ch' err') (cd_queue c) = (Inr (), q)"
      "cv_enqueue env (queued_change env ch err) q = (Inr (), q')"
  shows "\<exists>c'. run_calls (map (\<lambda>k. (k, env)) [0, 1, 0, 1, 0, 1, 1, 0, 1, 0]) ([Persisting table rec op, Persisting table rec' op'], c)
      = ([Returned (change_row ch) (Some (ch, Inl err)) (Inr ()), Returned (change_row ch) (Some (ch', Inl err')) (Inr ())], c')
    \<and> mirrored (store_view senv) (store_stored senv) config ch' (cd_local c')
    \<and> pending sqlite_view ch (cd_queue c') \<and> \<not> pending sqlite_view ch' (cd_queue c')"
proof -
  note w = env [unfolded sqlite_wired_def]
  let ?c1 = "c\<lparr>cd_local := l\<rparr>" and ?c2 = "c\<lparr>cd_local := l', cd_network := n'\<rparr>"
  let ?c3 = "?c2\<lparr>cd_queue := q\<rparr>" and ?c4 = "?c2\<lparr>cd_queue := q'\<rparr>"
  let ?c' = "queued_notice ch (announce_depth env (queued_notice ch' (announce_depth env ?c4)))"
  have h: "sqlite_sync.rows.healthy senv c" using mirror queue mapped by (simp add: sqlite_sync.rows.healthy_def)
  have s: "sqlite_sync.rows.sound senv c (Persisting table rec op)" "sqlite_sync.rows.sound senv c (Persisting table rec' op')"
    using canonical by (simp_all add: call_sound_def)
  have v: "valid_change (cd_registry c) config ch" "valid_change (cd_registry c) config ch'"
    using sqlite_sync.rows.turn_effect [OF w h s(1)] sqlite_sync.rows.turn_effect [OF w h s(2)] prepared
    by (simp_all add: start_call_def call_sound_def)
  have retry: "retryable (Inl err) = Some err" "retryable (Inl err') = Some err'" using answers(3,4) by (simp_all add: retryable_def)
  have run: "run_calls (map (\<lambda>k. (k, env)) [0, 1, 0, 1, 0, 1, 1, 0, 1, 0]) ([Persisting table rec op, Persisting table rec' op'], c)
      = ([Returned (change_row ch) (Some (ch, Inl err)) (Inr ()), Returned (change_row ch) (Some (ch', Inl err')) (Inr ())], ?c')"
    by (simp add: prepared start_call_def mirrors answers(1,2) retry queues row)
  have h1: "sqlite_sync.rows.healthy senv ?c1" using sqlite_sync.rows.mirror_change_effect(1) [OF w h v(1) mirrors(1)] by simp
  have m: "sqlite_sync.rows.healthy senv (?c1\<lparr>cd_local := l'\<rparr>)" "mirrored (store_view senv) (store_stored senv) config ch' l'"
    using sqlite_sync.rows.mirror_change_effect [OF w h1, of config ch' "Inr ()" l'] v(2) mirrors(2) by simp_all
  have h2: "sqlite_sync.rows.healthy senv ?c2" using m(1) by (simp add: sqlite_sync.rows.healthy_def)
  have h3: "sqlite_sync.rows.healthy senv ?c3"
    using sqlite_sync.rows.enqueue_effect(1) [OF w h2 v(2), of err' "Inr ()" q] queues(1) by simp
  have e: "sqlite_sync.rows.healthy senv ?c4" "pending sqlite_view ch q'"
    using sqlite_sync.rows.enqueue_effect [OF w h3 v(1), of err "Inr ()" q'] queues(2) by simp_all
  let ?c5 = "queued_notice ch' (announce_depth env ?c4)"
  have "sqlite_sync.rows.healthy senv (announce_depth env ?c4)" using sqlite_sync.rows.announce_effect(1) [OF w e(1)] by blast
  then have h5: "sqlite_sync.rows.healthy senv ?c5" by (simp add: sqlite_sync.rows.healthy_def)
  have "sqlite_view (cd_queue ?c') = sqlite_view q'" "cd_local ?c' = l'"
    using sqlite_sync.rows.announce_effect(2,3) [OF w e(1)] sqlite_sync.rows.announce_effect(2,3) [OF w h5] by simp_all
  then show ?thesis using run m(2) e(2) row differ by (auto simp: pending_def)
qed

section \<open>Two calls on the small installation\<close>

abbreviation "offline_env \<equiv> notes_env (Inl ''offline'')"

lemma offline_env_simps [simp]:
  "cv_cipher offline_env = toy_env" "cv_local offline_env = SqliteLocalStore toy_sqlite" "cv_net offline_env = const_env (Inl ''offline'')"
  "cv_enqueue offline_env = sqlite_enqueue" "cv_clock offline_env = \<lparr>now_rfc3339 = ''now'', now_millis = 0\<rparr>"
  by (simp_all add: notes_env_def)

lemma notes_coordinator_simps [simp]:
  "config_for_table (cd_registry notes_coordinator) ''notes'' = Some notes_config"
  "cd_session notes_coordinator = Some (sample_session ''u1'')" "cd_encryption notes_coordinator = None"
  "cd_local notes_coordinator = notes_manager" "cd_queue notes_coordinator = sqlite_fresh" "cd_network notes_coordinator = fresh_network"
  "sp_user_id (sample_session ''u1'') = ''u1''"
  using notes_lookup by (simp_all add: notes_coordinator_def sample_session_def)

lemma notes_mapped: "config_for_table (cd_registry notes_coordinator) table = Some config \<Longrightarrow> id_mapped config"
  using notes_id_mapped by (simp add: notes_lookup split: if_splits)

lemma notes_prepared:
  "prepare_write offline_env ''notes'' a_note None notes_coordinator
     = Inr (notes_config, sample_session ''u1'', Upsert ''notes'' ''n1'' noted None)"
  "prepare_write offline_env ''notes'' old_note None notes_coordinator
     = Inr (notes_config, sample_session ''u1'', Upsert ''notes'' ''n1'' old_echo None)"
  using note_serialized old_note_serialized by (simp_all add: prepare_write_def a_note_def old_note_def get_str_def)

lemma notes_dispatch_offline:
  assumes "get_str rec ''id'' = Some i"
  shows "fst (dispatch_change offline_env notes_config (Upsert ''notes'' i rec op) token n) = Inl (Poly_Http ''offline'')"
  using assms by (simp add: dispatch_write_def notes_config_defs pusher_upsert_def net_send_def const_env_def Let_def)

lemma sqlite_enqueue_fine:
  "sq_pool q = Some rows \<Longrightarrow> sq_faults q = [] \<Longrightarrow> \<exists>q' rows'. sqlite_enqueue op q = (Inr (), q') \<and> sq_pool q' = Some rows' \<and> sq_faults q' = []"
  by (simp add: sqlite_enqueue_def take_fault_def)

theorem overtaken_write_lost_witness:
  "\<exists>c' err err'. run_calls (map (\<lambda>k. (k, offline_env)) [0, 1, 0, 1, 0, 1, 1, 0, 1, 0])
      ([Persisting ''notes'' old_note None, Persisting ''notes'' a_note None], notes_coordinator)
      = ([Returned (''notes'', ''n1'') (Some (Upsert ''notes'' ''n1'' old_echo None, Inl err)) (Inr ()),
          Returned (''notes'', ''n1'') (Some (Upsert ''notes'' ''n1'' noted None, Inl err')) (Inr ())], c')
    \<and> mirrored (store_view toy_sqlite) (store_stored toy_sqlite) notes_config (Upsert ''notes'' ''n1'' noted None) (cd_local c')
    \<and> pending sqlite_view (Upsert ''notes'' ''n1'' old_echo None) (cd_queue c')
    \<and> \<not> pending sqlite_view (Upsert ''notes'' ''n1'' noted None) (cd_queue c')"
proof -
  let ?ch = "Upsert ''notes'' ''n1'' old_echo None" and ?ch' = "Upsert ''notes'' ''n1'' noted None" and ?token = "sp_access_token (sample_session ''u1'')"
  have ids: "get_str old_echo ''id'' = Some ''n1''" "get_str noted ''id'' = Some ''n1''"
    by (simp_all add: old_echo_def noted_def get_str_def)
  have "fst (ls_upsert_record (SqliteLocalStore toy_sqlite) ''notes'' (map_remote_to_local notes_config old_echo) notes_manager) = Inr ()"
    by (simp add: store_ops store_eval map_remote_to_local_def notes_config_defs old_echo_def notes_manager_def notes_table_def)
  then obtain l where l: "mirror_change offline_env notes_config ?ch (cd_local notes_coordinator) = (Inr (), l)"
    by (simp add: prod_eq_iff)
  have "fst (mirror_change offline_env notes_config ?ch' l) = Inr ()"
    using l by (auto simp: store_ops store_eval map_remote_to_local_def notes_config_defs old_echo_def noted_def notes_manager_def notes_table_def)
  then obtain l' where l': "mirror_change offline_env notes_config ?ch' l = (Inr (), l')" by (metis prod.collapse)
  obtain n where n: "dispatch_change offline_env notes_config ?ch ?token (cd_network notes_coordinator) = (Inl (Poly_Http ''offline''), n)"
    using notes_dispatch_offline [OF ids(1)] by (metis prod.collapse)
  obtain n' where n': "dispatch_change offline_env notes_config ?ch' ?token n = (Inl (Poly_Http ''offline''), n')"
    using notes_dispatch_offline [OF ids(2)] by (metis prod.collapse)
  have f: "sq_pool sqlite_fresh = Some []" "sq_faults sqlite_fresh = []" by (simp_all add: sqlite_fresh_def)
  obtain q rows where q: "sqlite_enqueue (queued_change offline_env ?ch' (Poly_Http ''offline'')) sqlite_fresh = (Inr (), q)"
    "sq_pool q = Some rows" "sq_faults q = []"
    using sqlite_enqueue_fine [OF f] by blast
  obtain q' where q': "sqlite_enqueue (queued_change offline_env ?ch (Poly_Http ''offline'')) q = (Inr (), q')"
    using sqlite_enqueue_fine [OF q(2,3)] by blast
  have "\<exists>c'. run_calls (map (\<lambda>k. (k, offline_env)) [0, 1, 0, 1, 0, 1, 1, 0, 1, 0])
      ([Persisting ''notes'' old_note None, Persisting ''notes'' a_note None], notes_coordinator)
      = ([Returned (change_row ?ch) (Some (?ch, Inl (Poly_Http ''offline''))) (Inr ()),
          Returned (change_row ?ch) (Some (?ch', Inl (Poly_Http ''offline''))) (Inr ())], c')
    \<and> mirrored (store_view toy_sqlite) (store_stored toy_sqlite) notes_config ?ch' (cd_local c')
    \<and> pending sqlite_view ?ch (cd_queue c') \<and> \<not> pending sqlite_view ?ch' (cd_queue c')"
  proof (rule overtaken_write_lost [OF notes_wired notes_mirror_ok notes_queue_ok notes_mapped _ _ notes_prepared(2,1) _ _ l l' n n'])
    show "record_ok old_note" "record_ok a_note" by (simp_all add: old_note_def a_note_def obj_ok_def)
    show "change_kind ?ch' \<noteq> change_kind ?ch" by (simp add: noted_def old_echo_def)
    show "cv_enqueue offline_env (queued_change offline_env ?ch' (Poly_Http ''offline'')) (cd_queue notes_coordinator) = (Inr (), q)"
      using q(1) by simp
    show "cv_enqueue offline_env (queued_change offline_env ?ch (Poly_Http ''offline'')) q = (Inr (), q')" using q' by simp
  qed simp_all
  then show ?thesis by auto
qed

lemma notes_delete_offline:
  "fst (dispatch_change offline_env notes_config (Soft_delete ''notes'' i v at) token n) = Inl (Poly_Http ''offline'')"
  by (simp add: dispatch_delete_def notes_config_defs pusher_update_tombstone_def net_send_def const_env_def Let_def)

lemma two_rows_run:
  "\<exists>c' ch answer ch2 answer2.
     run_calls (map (\<lambda>k. (k, offline_env)) [0, 1, 0, 1, 0, 1, 0, 1, 0, 1])
       ([Persisting ''notes'' a_note None, Deleting ''notes'' ''n0'' 5], notes_coordinator)
     = ([Returned (''notes'', ''n1'') (Some (ch, answer)) (Inr ()), Returned (''notes'', ''n0'') (Some (ch2, answer2)) (Inr ())], c')
     \<and> answer = Inl (Poly_Http ''offline'') \<and> answer2 = Inl (Poly_Http ''offline'')"
proof -
  let ?token = "sp_access_token (sample_session ''u1'')"
  obtain at where at: "prepare_delete offline_env ''notes'' ''n0'' 5 notes_coordinator
      = Inr (notes_config, sample_session ''u1'', Soft_delete ''notes'' ''n0'' 5 at)"
    by (simp add: prepare_delete_def)
  let ?ch = "Upsert ''notes'' ''n1'' noted None" and ?ch' = "Soft_delete ''notes'' ''n0'' 5 at"
  obtain l where l: "mirror_change offline_env notes_config ?ch notes_manager = (Inr (), l)"
    using note_stored by (metis mirror_change.simps(1) offline_env_simps(2))
  have "fst (mirror_change offline_env notes_config ?ch' l) = Inr ()"
    using l by (auto simp: store_ops store_eval store_mark_deleted_def mark_rows_def map_remote_to_local_def notes_config_defs
        noted_def notes_manager_def notes_table_def)
  then obtain l' where l': "mirror_change offline_env notes_config ?ch' l = (Inr (), l')" by (metis prod.collapse)
  have ids: "get_str noted ''id'' = Some ''n1''" by (simp add: noted_def get_str_def)
  obtain n where n: "dispatch_change offline_env notes_config ?ch ?token fresh_network = (Inl (Poly_Http ''offline''), n)"
    using notes_dispatch_offline [OF ids] by (metis prod.collapse)
  obtain n' where n': "dispatch_change offline_env notes_config ?ch' ?token n = (Inl (Poly_Http ''offline''), n')"
    using notes_delete_offline by (metis prod.collapse)
  have f: "sq_pool sqlite_fresh = Some []" "sq_faults sqlite_fresh = []" by (simp_all add: sqlite_fresh_def)
  obtain q rows where q: "sqlite_enqueue (queued_change offline_env ?ch (Poly_Http ''offline'')) sqlite_fresh = (Inr (), q)"
    "sq_pool q = Some rows" "sq_faults q = []"
    using sqlite_enqueue_fine [OF f] by blast
  obtain q' where q': "sqlite_enqueue (queued_change offline_env ?ch' (Poly_Http ''offline'')) q = (Inr (), q')"
    using sqlite_enqueue_fine [OF q(2,3)] by blast
  have "retryable (Inl (Poly_Http ''offline'')) = Some (Poly_Http ''offline'')" by (simp add: retryable_def)
  then show ?thesis by (simp add: start_call_def notes_prepared(1) at l l' n n' q(1) q' del: mirror_change.simps dispatch_change.simps)
qed

theorem concurrent_writes_outcomes_witness:
  "\<exists>(c' :: sqlite_coordinator) ch ch2. prepared_by (sqlite_wired toy_sqlite) notes_coordinator (Persisting ''notes'' a_note None) ch
     \<and> mirrored (store_view toy_sqlite) (store_stored toy_sqlite) notes_config ch (cd_local c') \<and> pending sqlite_view ch (cd_queue c')
     \<and> prepared_by (sqlite_wired toy_sqlite) notes_coordinator (Deleting ''notes'' ''n0'' 5) ch2
     \<and> mirrored (store_view toy_sqlite) (store_stored toy_sqlite) notes_config ch2 (cd_local c') \<and> pending sqlite_view ch2 (cd_queue c')"
proof -
  let ?calls = "[Persisting ''notes'' a_note None, Deleting ''notes'' ''n0'' 5]"
  let ?turns = "map (\<lambda>k. (k, offline_env)) [0, 1, 0, 1, 0, 1, 0, 1, 0, 1]"
  obtain c' ch answer ch2 answer2 where r: "run_calls ?turns (?calls, notes_coordinator)
      = ([Returned (''notes'', ''n1'') (Some (ch, answer)) (Inr ()), Returned (''notes'', ''n0'') (Some (ch2, answer2)) (Inr ())], c')"
    (is "_ = (?calls', c')") and n: "answer = Inl (Poly_Http ''offline'')" "answer2 = Inl (Poly_Http ''offline'')"
    using two_rows_run by blast
  have "calls_run (sqlite_wired toy_sqlite) (\<lambda>table rec. False) (?calls, notes_coordinator) (run_calls ?turns (?calls, notes_coordinator))"
    by (rule run_calls_run) (auto simp: notes_wired)
  then have run: "calls_run (sqlite_wired toy_sqlite) (\<lambda>table rec. False) (?calls, notes_coordinator) (?calls', c')"
    unfolding r .
  have fresh: "fresh_call call" if "call \<in> set ?calls" for call using that by auto
  have can: "record_ok rec" if "Persisting table rec op \<in> set ?calls" for table rec op
    using that by (auto simp: a_note_def obj_ok_def)
  have rows: "distinct (map call_row ?calls)" by (simp add: a_note_def get_str_def)
  have durable: "\<exists>ch answer config. sent = Some (ch, answer) \<and> change_row ch = call_row (?calls ! k)
      \<and> prepared_by (sqlite_wired toy_sqlite) notes_coordinator (?calls ! k) ch
      \<and> config_for_table (cd_registry notes_coordinator) (fst (change_row ch)) = Some config
      \<and> mirrored (store_view toy_sqlite) (store_stored toy_sqlite) config ch (cd_local c')
      \<and> change_outcome (sqlite_wired toy_sqlite) sqlite_view config ch answer (cd_queue c')"
    if "k < length ?calls" "?calls' ! k = Returned row sent (Inr ())" for k row sent
    using notes_mapped fresh can
    by (intro concurrent_writes_outcomes [OF notes_mirror_ok notes_queue_ok _ _ _ rows _ _ run that]) blast+
  have a: "prepared_by (sqlite_wired toy_sqlite) notes_coordinator (Persisting ''notes'' a_note None) ch
     \<and> mirrored (store_view toy_sqlite) (store_stored toy_sqlite) notes_config ch (cd_local c') \<and> pending sqlite_view ch (cd_queue c')"
    using durable [of 0 "(''notes'', ''n1'')" "Some (ch, answer)"] n by (auto simp: change_outcome_def same_version_ignored_def)
  have b: "prepared_by (sqlite_wired toy_sqlite) notes_coordinator (Deleting ''notes'' ''n0'' 5) ch2
     \<and> mirrored (store_view toy_sqlite) (store_stored toy_sqlite) notes_config ch2 (cd_local c') \<and> pending sqlite_view ch2 (cd_queue c')"
    using durable [of 1 "(''notes'', ''n0'')" "Some (ch2, answer2)"] n by (auto simp: change_outcome_def same_version_ignored_def)
  from a b show ?thesis by blast
qed

end
