(* ===== verification/Accounts.thy ===== *)
theory Accounts
  imports Commands FileQueue Interleave
begin

text \<open>
  The installation the README of the plugin shows: the SQLite mirror of the signed-in user beside
  one file-backed queue for the whole application, and what happens to its pending writes when the
  user changes.
\<close>

interpretation file_sync: coordinator_queue "SqliteLocalStore env" "mirror_ok env" "store_view env" "store_stored env"
  file_enqueue file_snapshot file_finalize file_depth file_ok file_view "\<lambda>_ op. op"
  for env
  by (intro coordinator_queue.intro sqlite_mirror.local_store_axioms fileq.offline_queue_axioms)

text \<open>
  An enqueue that cannot be flushed leaves its operation in the cache, and those of the other rows
  where they were.
\<close>

lemma flush_elsewhere: "file_ok q \<Longrightarrow> fq_cache q \<noteq> [] \<Longrightarrow> file_queue_ops (snd (flush_locked q)) = fq_cache q"
  using flush_inv [of q] by (simp add: file_queue_ops_def)

lemma file_enqueue_loaded:
  assumes "file_ok q" and "kind_ok (op_kind op)" and "load_into_cache q = (Inr (), q')"
  shows "file_view (snd (file_enqueue op q)) = (file_view q)(op_key op \<mapsto> op)"
  using assms(1)
proof (cases rule: load_into_cache_cases)
  case (ok q'')
  then have q: "file_ok q'" "fq_cache q' = file_queue_ops q" using assms(3) by simp_all
  let ?ops = "filter (\<lambda>x. op_key x \<noteq> op_key op) (file_queue_ops q) @ [op]"
  have "file_ok (q'\<lparr>fq_cache := ?ops\<rparr>)"
    using q(1) replace_ops_ok [OF file_queue_ops_ok [OF assms(1)] assms(2)] by (rule file_ok_cache)
  then have "file_view (snd (file_enqueue op q)) = map_of (keyed ?ops)"
    using flush_elsewhere [of "q'\<lparr>fq_cache := ?ops\<rparr>"] assms(3) q(2) by (simp add: file_enqueue_def file_view_def same_key_iff)
  also have "\<dots> = (file_view q)(op_key op \<mapsto> op)"
    using file_queue_ops_ok [OF assms(1)] replace_view [of op "file_queue_ops q"] by (simp add: file_view_def ops_ok_def del: keyed_simps)
  finally show ?thesis .
qed (use assms(3) in simp)

lemma file_enqueue_elsewhere:
  assumes "file_ok q" and "kind_ok (op_kind op)" and "row \<noteq> op_key op"
  shows "file_view (snd (file_enqueue op q)) row = file_view q row"
  using assms(1)
proof (cases rule: load_into_cache_cases)
  case (err e q')
  then show ?thesis by (simp add: file_enqueue_def file_view_def)
next
  case (ok q')
  then show ?thesis using file_enqueue_loaded [OF assms(1,2) ok(1)] assms(3) by simp
qed

text \<open>A call that was told its change could not be queued has it pending all the same.\<close>

lemma failed_enqueue_pending:
  assumes "file_ok q" and "kind_ok (op_kind op)" and "load_into_cache q = (Inr (), q')"
    and "file_enqueue op q = (Inl e, q'')"
  shows "file_view q'' (op_key op) = Some op"
  using file_enqueue_loaded [OF assms(1-3)] assms(4) by simp

interpretation file_rows: coordinator_rows "SqliteLocalStore env" "mirror_ok env" "store_view env" "store_stored env"
  file_enqueue file_snapshot file_finalize file_depth file_ok file_view "\<lambda>_ op. op"
  for env
  by (intro coordinator_rows.intro coordinator_rows_axioms.intro file_sync.coordinator_queue_axioms file_enqueue_elsewhere)

text \<open>
  The calls of this installation do not disturb each other either: the guarantee of
  \<open>Interleave.concurrent_writes_outcomes\<close> with the file in the place of the SQLite queue.
\<close>

theorem concurrent_app_writes_outcomes:
  assumes "mirror_ok senv (cd_local c)" and "file_ok (cd_queue c)"
    and "\<And>table config. config_for_table (cd_registry c) table = Some config \<Longrightarrow> id_mapped config"
    and "\<And>call. call \<in> set calls \<Longrightarrow> fresh_call call"
    and "\<And>table rec op. Persisting table rec op \<in> set calls \<Longrightarrow> record_ok rec"
    and "distinct (map call_row calls)"
    and "\<And>env. E env \<Longrightarrow> wired (SqliteLocalStore senv) file_enqueue file_depth env"
    and "\<And>table rec. I table rec \<Longrightarrow> \<exists>i. get_str rec ''id'' = Some i \<and> (table, i) \<notin> call_row ` set calls"
    and "calls_run E I (calls, c) (calls', c')"
    and "k < length calls" "calls' ! k = Returned row sent (Inr ())"
  shows "\<exists>ch answer config. sent = Some (ch, answer) \<and> change_row ch = call_row (calls ! k)
    \<and> prepared_by E c (calls ! k) ch \<and> config_for_table (cd_registry c) (fst (change_row ch)) = Some config
    \<and> mirrored (store_view senv) (store_stored senv) config ch (cd_local c')
    \<and> change_outcome E file_view config ch answer (cd_queue c')"
proof -
  have "file_rows.healthy senv c" using assms(1-3) by (simp add: file_rows.healthy_def)
  then show ?thesis by (rule file_rows.concurrent_durable [OF _ assms(4-11)])
qed

type_synonym app_env = "(sqlite_db DbManager, FileQueue) runtime_env"
type_synonym app_runtime = "(sqlite_db DbManager, FileQueue) Runtime"

text \<open>What a change of account consists of, in any order and number.\<close>

inductive account_step :: "app_env \<Rightarrow> app_runtime \<Rightarrow> app_runtime \<Rightarrow> bool" for env :: app_env where
  sign_in: "account_step env r (snd (set_session_command payload r))"
| sign_out: "account_step env r (snd (clear_session_command r))"
| reconfigure: "account_step env r (snd (configure env config r))"
| mirror: "switch_step env r r' \<Longrightarrow> account_step env r r'"

lemma with_sessions_queues: "ru_queues (snd (with_sessions act r)) = ru_queues r"
  by (simp add: with_sessions_def split: option.split prod.split)

lemma account_step_queues:
  assumes "account_step env r r'"
  shows "ru_queues r' = ru_queues r"
  using assms
proof cases
  case mirror
  then show ?thesis by (auto simp: run_switch_def elim!: switch_stepE)
qed (auto simp: set_session_command_def clear_session_command_def with_sessions_queues configure_def Let_def
    split: sum.split option.split)

lemma account_steps_queues: "(account_step env)\<^sup>*\<^sup>* r r' \<Longrightarrow> ru_queues r' = ru_queues r"
  by (induction rule: rtranclp_induct) (simp_all add: account_step_queues)

lemma serialize_user:
  assumes "serialize_for_remote env encr uid config rec = Inr out" and "injected_user_id_column config = Some uc"
  shows "obj_get out uc = Some (JString uid)"
  using assms by (cases encr) (auto simp: serialize_for_remote_def split: sum.splits)

text \<open>
  C22: a pending write outlives its user. A change that was acknowledged while the server could not
  be reached stays queued, with the owner it was written for in its payload, through any sequence of
  sign-outs, sign-ins, switches of the mirror and reconfigurations; the next replay is handed it,
  whoever is signed in by then.
\<close>

theorem pending_write_outlives_user:
  fixes env :: app_env
  assumes "ve_local env = SqliteLocalStore senv" and "ve_enqueue env = file_enqueue" and "ve_depth env = file_depth"
    and "mirror_ok senv (ru_locals r (ch_local h))" and "file_ok (ru_queues r (ch_queue h))"
    and "\<And>config. config_for_table (ch_registry h) table = Some config \<Longrightarrow> id_mapped config"
    and "record_ok rec"
    and "persist_change_with_op (handle_env env h) table rec op (open_coordinator h r) = (Inr (), c)"
    and "file_view (cd_queue c) \<noteq> file_view (ru_queues r (ch_queue h))"
    and "(account_step env)\<^sup>*\<^sup>* (close_coordinator h c r) r'"
    and "file_snapshot (ru_queues r' (ch_queue h)) = (Inr ops, q)"
  shows "\<exists>owner config i remote pending. active_session r = Some owner
    \<and> config_for_table (ch_registry h) table = Some config \<and> get_str rec ''id'' = Some i
    \<and> serialize_for_remote (ve_cipher env) (ch_encryption h) (sp_user_id owner) config rec = Inr remote
    \<and> pending \<in> set ops \<and> op_key pending = (table, i) \<and> op_kind pending = Write (JObject remote)
    \<and> (\<forall>uc. injected_user_id_column config = Some uc \<longrightarrow> obj_get remote uc = Some (JString (sp_user_id owner)))"
proof -
  let ?c = "open_coordinator h r" and ?env = "handle_env env h"
  have w: "wired (SqliteLocalStore senv) file_enqueue file_depth ?env"
    by (simp add: wired_def handle_env_def assms(1-3))
  have c: "cd_local ?c = ru_locals r (ch_local h)" "cd_queue ?c = ru_queues r (ch_queue h)" "cd_registry ?c = ch_registry h"
    "cd_session ?c = active_session r" "cd_encryption ?c = ch_encryption h" "cv_cipher ?env = ve_cipher env"
    by (simp_all add: open_coordinator_def handle_env_def)
  obtain config owner i remote where p: "config_for_table (ch_registry h) table = Some config" "active_session r = Some owner"
    "get_str rec ''id'' = Some i"
    "serialize_for_remote (ve_cipher env) (ch_encryption h) (sp_user_id owner) config rec = Inr remote"
    "write_outcome
       (server_answer (cv_net ?env) (write_request (cv_net ?env) config table remote op (sp_access_token owner)) (cd_network ?c))
       (fst (dispatch_write (cv_net ?env) config table remote i op (sp_access_token owner) (cd_network ?c)))
       (queued_write ?env table i (Write (JObject remote))) (file_view (ru_queues r (ch_queue h))) (file_view (cd_queue c))"
    using file_sync.persist_ok [OF w _ _ _ assms(7,8)] assms(4-6) by (auto simp: c)
  obtain err where q: "file_view (cd_queue c) = (file_view (ru_queues r (ch_queue h)))((table, i) \<mapsto>
      queued_write ?env table i (Write (JObject remote)) err)"
    using p(5) assms(9) by (auto simp: write_outcome_def queued_write_def op_key_def)
  have ok: "file_ok (cd_queue c)"
    by (rule file_sync.persist_keeps_queue [OF w _ assms(7,8)]) (simp add: c assms(5))
  have "ru_queues r' (ch_queue h) = cd_queue c"
    using account_steps_queues [OF assms(10)] by (simp add: close_coordinator_def)
  then have "queued_write ?env table i (Write (JObject remote)) err \<in> set ops"
    using fileq.view_key [OF ok, of ops "(table, i)"] assms(11) q by simp
  then show ?thesis using p serialize_user [OF p(4)] by (fastforce simp: queued_write_def op_key_def)
qed

section \<open>A sign-out in the middle\<close>

definition offline_app :: app_env where
  "offline_app = \<lparr>ve_server = (\<lambda>_ _. Inl ''offline''), ve_codec = ref_codec, ve_uuid_v7 = (\<lambda>k. ''id'' @ dec k), ve_cipher = toy_env,
     ve_clock = \<lparr>now_rfc3339 = ''now'', now_millis = 0\<rparr>, ve_now_micros = 7, ve_local = SqliteLocalStore toy_sqlite,
     ve_enqueue = file_enqueue, ve_depth = file_depth, ve_http_builder = Inr (), ve_storage = keeping_server\<rparr>"

definition app_handle :: coordinator_handle where
  "app_handle = \<lparr>ch_client = sample_client, ch_registry = register_kvs (registry_new\<lparr>by_table := [(''notes'', notes_config)]\<rparr>),
     ch_encryption = None, ch_local = 0, ch_queue = 0\<rparr>"

definition app_configured :: app_runtime where
  "app_configured = snd (configure offline_app sample_client
     (set_registry (registry_new\<lparr>by_table := [(''notes'', notes_config)]\<rparr>)
       (runtime_attach 0 0 (runtime_new (\<lambda>_. notes_manager) (\<lambda>_. file_fresh) fresh_network))))"

definition app_started :: app_runtime where
  "app_started = snd (set_session_command (sample_session ''u1'') app_configured)"

lemma app_lookup: "config_for_table (ch_registry app_handle) ''notes'' = Some notes_config"
proof -
  have "table_name kvs_entity_config = ''kvs''"
    by (simp add: kvs_entity_config_def with_conflict_target_def with_include_user_id_def with_user_id_column_def with_columns_def
        entity_synced_def KVS_TABLE_def)
  then show ?thesis
    by (cases "entity_type_name kvs_entity_config")
      (auto simp: app_handle_def register_kvs_def kvs_register_def register_def config_for_table_def Let_def update_conv'
        is_registered_table_def registry_new_def)
qed

lemma set_session_user:
  assumes "ru_sessions r = Some h"
  shows "map_option sp_user_id (active_session (snd (set_session_command p r))) = Some (sp_user_id p)"
  using assms
  by (cases "ss_session (sx_store h)")
    (auto simp: set_session_command_def with_sessions_def active_session_def set_session_def fire_user_change_hook_def
      publish_session_def session_matches_def Let_def split: option.split prod.split)

lemma with_sessions_frames:
  "ru_kvs (snd (with_sessions act r)) = ru_kvs r" "ru_locals (snd (with_sessions act r)) = ru_locals r"
  "ru_network (snd (with_sessions act r)) = ru_network r"
  "ru_sessions r = Some h \<Longrightarrow> \<exists>h'. ru_sessions (snd (with_sessions act r)) = Some h'"
  by (simp_all add: with_sessions_def split: option.split prod.split)

lemma app_configured_eval:
  "ru_sessions app_configured \<noteq> None" "ru_kvs app_configured = Some app_handle" "ru_queues app_configured 0 = file_fresh"
  "ru_locals app_configured 0 = notes_manager" "ru_network app_configured = fresh_network"
proof -
  have "client_validate sample_client = Inr ()" by code_simp
  then have v: "client_new offline_app sample_client = Inr ()" by (simp add: client_new_def offline_app_def)
  have e: "encryption_secret sample_client = None" by (simp add: sample_client_def)
  show "ru_sessions app_configured \<noteq> None" "ru_kvs app_configured = Some app_handle" "ru_queues app_configured 0 = file_fresh"
    "ru_locals app_configured 0 = notes_manager" "ru_network app_configured = fresh_network"
    by (simp_all add: app_configured_def configure_def v e runtime_attach_def runtime_new_def set_registry_def app_handle_def
        fresh_network_def Let_def)
qed

lemma app_started_eval:
  obtains session where "active_session app_started = Some session" "sp_user_id session = ''u1''"
    "ru_kvs app_started = Some app_handle" "ru_queues app_started 0 = file_fresh" "ru_locals app_started 0 = notes_manager"
    "ru_network app_started = fresh_network"
proof -
  obtain h where h: "ru_sessions app_configured = Some h" using app_configured_eval(1) by blast
  obtain session where s: "active_session app_started = Some session" "sp_user_id session = ''u1''"
    using set_session_user [OF h, of "sample_session ''u1''"] by (auto simp: app_started_def sample_session_def)
  show ?thesis
    by (rule that [OF s]) (simp_all add: app_started_def set_session_command_def with_sessions_queues with_sessions_frames app_configured_eval)
qed

lemma app_note_queued:
  obtains c pending where "persist_change_with_op (handle_env offline_app app_handle) ''notes'' a_note None
      (open_coordinator app_handle app_started) = (Inr (), c)" "fq_cache (cd_queue c) = [pending]" "\<not> fq_disabled (cd_queue c)"
proof -
  let ?env = "handle_env offline_app app_handle" and ?c = "open_coordinator app_handle app_started"
  obtain session where r: "active_session app_started = Some session" "sp_user_id session = ''u1''"
    "ru_kvs app_started = Some app_handle" "ru_queues app_started 0 = file_fresh" "ru_locals app_started 0 = notes_manager"
    "ru_network app_started = fresh_network" by (rule app_started_eval)
  have env: "cv_cipher ?env = toy_env" "cv_local ?env = SqliteLocalStore toy_sqlite" "cv_net ?env = const_env (Inl ''offline'')"
    "cv_enqueue ?env = file_enqueue" "cv_depth ?env = file_depth"
    by (simp_all add: handle_env_def offline_app_def client_net_def const_env_def app_handle_def)
  have c: "cd_registry ?c = ch_registry app_handle" "cd_session ?c = Some session" "cd_encryption ?c = None" "cd_local ?c = notes_manager"
    "cd_queue ?c = file_fresh" "cd_network ?c = fresh_network"
    using r by (simp_all add: open_coordinator_def app_handle_def)
  obtain l where l: "ls_upsert_record (SqliteLocalStore toy_sqlite) ''notes'' (map_remote_to_local notes_config noted) notes_manager = (Inr (), l)"
    using note_stored by metis
  obtain n where n: "pusher_upsert (const_env (Inl ''offline'')) ''notes'' noted ''id'' (sp_access_token session) fresh_network
      = (Inl (Poly_Http ''offline''), n)"
    by (simp add: pusher_upsert_def noted_def get_str_def net_send_def const_env_def Let_def)
  have cfg: "get_str a_note ''id'' = Some ''n1''" "write_path notes_config = PostgREST" "conflict_target notes_config = ''id''"
    by (simp_all add: a_note_def get_str_def notes_config_defs)
  let ?op = "queued_write ?env ''notes'' ''n1'' (Write (JObject noted)) (Poly_Http ''offline'')"
  have q: "fst (file_enqueue ?op file_fresh) = Inr ()" "fq_cache (snd (file_enqueue ?op file_fresh)) = [?op]"
    "\<not> fq_disabled (snd (file_enqueue ?op file_fresh))"
    by (simp_all add: file_enqueue_def load_into_cache_def file_fresh_def flush_locked_def take_io_def write_file_def)
  then obtain f where f: "file_enqueue ?op file_fresh = (Inr (), f)" "fq_cache f = [?op]" "\<not> fq_disabled f"
    by (metis prod.collapse)
  have d: "file_depth f = (Inr 1, f)" using f(2) by (simp add: file_depth_def load_into_cache_def)
  show ?thesis
    by (rule that [of _ ?op])
      (simp_all add: persist_change_with_op_def env c app_lookup cfg r note_serialized l n dispatch_write_def settle_write_def
        enqueue_for_replay_def f d kvs_notice_def KVS_TABLE_def cd_publish_def,
        simp_all add: f)
qed

theorem pending_write_outlives_user_witness:
  "\<exists>c r' ops q pending remote.
     persist_change_with_op (handle_env offline_app app_handle) ''notes'' a_note None (open_coordinator app_handle app_started) = (Inr (), c)
     \<and> (account_step offline_app)\<^sup>*\<^sup>* (close_coordinator app_handle c app_started) r'
     \<and> map_option sp_user_id (active_session r') = Some ''bob''
     \<and> file_snapshot (ru_queues r' 0) = (Inr ops, q) \<and> pending \<in> set ops \<and> op_kind pending = Write (JObject remote)
     \<and> obj_get remote ''user_id'' = Some (JString ''u1'')"
proof -
  obtain c op where c: "persist_change_with_op (handle_env offline_app app_handle) ''notes'' a_note None
      (open_coordinator app_handle app_started) = (Inr (), c)" "fq_cache (cd_queue c) = [op]" "\<not> fq_disabled (cd_queue c)"
    by (rule app_note_queued)
  obtain session where r: "active_session app_started = Some session" "sp_user_id session = ''u1''"
    "ru_kvs app_started = Some app_handle" "ru_queues app_started 0 = file_fresh" "ru_locals app_started 0 = notes_manager"
    "ru_network app_started = fresh_network" by (rule app_started_eval)
  let ?r1 = "close_coordinator app_handle c app_started"
  let ?r2 = "snd (clear_session_command ?r1)"
  let ?r' = "snd (set_session_command (sample_session ''bob'') ?r2)"
  have steps: "(account_step offline_app)\<^sup>*\<^sup>* ?r1 ?r'"
    using account_step.sign_out [of offline_app ?r1] account_step.sign_in [of offline_app ?r2 "sample_session ''bob''"] by simp
  have bob: "map_option sp_user_id (active_session ?r') = Some ''bob''"
  proof -
    obtain h1 where "ru_sessions app_started = Some h1" using r(1) by (auto simp: active_session_def bind_eq_Some_conv)
    then have "ru_sessions ?r1 = Some h1" by (simp add: close_coordinator_def)
    then obtain h2 where "ru_sessions ?r2 = Some h2"
      using with_sessions_frames(4) [of ?r1 h1 clear_session] by (auto simp: clear_session_command_def)
    from set_session_user [OF this, of "sample_session ''bob''"] show ?thesis by (simp add: sample_session_def)
  qed
  have h: "ch_queue app_handle = 0" "ch_local app_handle = 0" "ch_encryption app_handle = None" by (simp_all add: app_handle_def)
  have "ru_queues ?r' 0 = cd_queue c"
    using account_steps_queues [OF steps] by (simp add: close_coordinator_def h)
  then have snap: "file_snapshot (ru_queues ?r' (ch_queue app_handle)) = (Inr [op], cd_queue c)"
    using c(2) by (simp add: file_snapshot_def load_into_cache_def h)
  have fresh: "file_view (ru_queues app_started (ch_queue app_handle)) = Map.empty"
    by (simp add: h r(4) file_view_def file_queue_ops_def file_fresh_def file_ops_def)
  have "file_view (cd_queue c) (op_key op) = Some op" by (simp add: file_view_def file_queue_ops_def c(2))
  then have changed: "file_view (cd_queue c) \<noteq> file_view (ru_queues app_started (ch_queue app_handle))" by (auto simp: fresh)
  have im: "\<And>config. config_for_table (ch_registry app_handle) ''notes'' = Some config \<Longrightarrow> id_mapped config"
    using notes_id_mapped by (simp add: app_lookup)
  have ok: "mirror_ok toy_sqlite (ru_locals app_started (ch_local app_handle))" "file_ok (ru_queues app_started (ch_queue app_handle))"
    using notes_mirror_ok by (simp_all add: h r(4,5) notes_coordinator_def)
  have can: "record_ok a_note" by (simp add: a_note_def obj_ok_def)
  have inj: "injected_user_id_column notes_config = Some ''user_id''"
    by (simp add: injected_user_id_column_def notes_config_defs)
  have env: "ve_local offline_app = SqliteLocalStore toy_sqlite" "ve_enqueue offline_app = file_enqueue" "ve_depth offline_app = file_depth"
    by (simp_all add: offline_app_def)
  obtain pending remote where "pending \<in> set [op]" "op_kind pending = Write (JObject remote)"
    "obj_get remote ''user_id'' = Some (JString ''u1'')"
    using pending_write_outlives_user [OF env ok im can c(1) changed steps snap] r(1,2) inj by (auto simp: app_lookup)
  then show ?thesis using c(1) steps bob snap by (fastforce simp: h)
qed

end
