(* ===== verification/Floats.thy ===== *)
theory Floats
  imports Strings "HOL-Library.Log_Nat"
begin

text \<open>
  The \<open>f32\<close> and \<open>f64\<close> of the source: IEEE 754 numbers as rationals with explicit rounding to the
  nearest even, infinities and NaN. The sign of a zero is not kept.
\<close>

section \<open>Rounding\<close>

record float_format =
  ff_precision :: int
  ff_emin :: int
  ff_emax :: int

definition binary32 :: float_format where
  "binary32 = \<lparr>ff_precision = 24, ff_emin = - 126, ff_emax = 127\<rparr>"

definition binary64 :: float_format where
  "binary64 = \<lparr>ff_precision = 53, ff_emin = - 1022, ff_emax = 1023\<rparr>"

definition pow2 :: "int \<Rightarrow> rat" where
  "pow2 k = (if 0 \<le> k then 2 ^ nat k else 1 / 2 ^ nat (- k))"

definition round_half_even :: "rat \<Rightarrow> int" where
  "round_half_even x =
     (let f = \<lfloor>x\<rfloor>; r = x - of_int f
      in if r < 1 / 2 then f else if r > 1 / 2 then f + 1 else if even f then f else f + 1)"

text \<open>The \<open>e\<close> with \<open>2 ^ e \<le> x < 2 ^ (e + 1)\<close>, for a positive \<open>x\<close>.\<close>

definition binary_exponent :: "rat \<Rightarrow> int" where
  "binary_exponent x =
     (case quotient_of x of (n, d) \<Rightarrow>
        (let k = bitlen n - bitlen d in if pow2 k \<le> x then k else k - 1))"

definition ulp :: "float_format \<Rightarrow> rat \<Rightarrow> rat" where
  "ulp fmt x = pow2 (max (ff_emin fmt) (binary_exponent \<bar>x\<bar>) - ff_precision fmt + 1)"

definition round_rat :: "float_format \<Rightarrow> rat \<Rightarrow> rat" where
  "round_rat fmt x = (if x = 0 then 0 else of_int (round_half_even (x / ulp fmt x)) * ulp fmt x)"

datatype fl = Num rat | Infinite bool | Not_a_number

definition fl_of_rat :: "float_format \<Rightarrow> rat \<Rightarrow> fl" where
  "fl_of_rat fmt x =
     (let r = round_rat fmt x in if pow2 (ff_emax fmt + 1) \<le> \<bar>r\<bar> then Infinite (x < 0) else Num r)"

section \<open>Operations\<close>

fun fl_neg :: "fl \<Rightarrow> fl" where
  "fl_neg (Num a) = Num (- a)"
| "fl_neg (Infinite s) = Infinite (\<not> s)"
| "fl_neg Not_a_number = Not_a_number"

fun fl_add :: "float_format \<Rightarrow> fl \<Rightarrow> fl \<Rightarrow> fl" where
  "fl_add fmt (Num a) (Num b) = fl_of_rat fmt (a + b)"
| "fl_add fmt (Num a) (Infinite s) = Infinite s"
| "fl_add fmt (Infinite s) (Num b) = Infinite s"
| "fl_add fmt (Infinite s) (Infinite t) = (if s = t then Infinite s else Not_a_number)"
| "fl_add fmt Not_a_number b = Not_a_number"
| "fl_add fmt a Not_a_number = Not_a_number"

definition fl_sub :: "float_format \<Rightarrow> fl \<Rightarrow> fl \<Rightarrow> fl" where
  "fl_sub fmt a b = fl_add fmt a (fl_neg b)"

fun fl_mul :: "float_format \<Rightarrow> fl \<Rightarrow> fl \<Rightarrow> fl" where
  "fl_mul fmt (Num a) (Num b) = fl_of_rat fmt (a * b)"
| "fl_mul fmt (Num a) (Infinite s) = (if a = 0 then Not_a_number else Infinite ((a < 0) \<noteq> s))"
| "fl_mul fmt (Infinite s) (Num b) = (if b = 0 then Not_a_number else Infinite (s \<noteq> (b < 0)))"
| "fl_mul fmt (Infinite s) (Infinite t) = Infinite (s \<noteq> t)"
| "fl_mul fmt Not_a_number b = Not_a_number"
| "fl_mul fmt a Not_a_number = Not_a_number"

fun fl_div :: "float_format \<Rightarrow> fl \<Rightarrow> fl \<Rightarrow> fl" where
  "fl_div fmt (Num a) (Num b) =
     (if b = 0 then if a = 0 then Not_a_number else Infinite (a < 0) else fl_of_rat fmt (a / b))"
| "fl_div fmt (Num a) (Infinite s) = Num 0"
| "fl_div fmt (Infinite s) (Num b) = Infinite (s \<noteq> (b < 0))"
| "fl_div fmt (Infinite s) (Infinite t) = Not_a_number"
| "fl_div fmt Not_a_number b = Not_a_number"
| "fl_div fmt a Not_a_number = Not_a_number"

text \<open>Comparisons with NaN are false.\<close>

fun fl_less :: "fl \<Rightarrow> fl \<Rightarrow> bool" where
  "fl_less (Num a) (Num b) \<longleftrightarrow> a < b"
| "fl_less (Num a) (Infinite s) \<longleftrightarrow> \<not> s"
| "fl_less (Infinite s) (Num b) \<longleftrightarrow> s"
| "fl_less (Infinite s) (Infinite t) \<longleftrightarrow> s \<and> \<not> t"
| "fl_less a b \<longleftrightarrow> False"

definition fl_le :: "fl \<Rightarrow> fl \<Rightarrow> bool" where
  "fl_le a b \<longleftrightarrow> a \<noteq> Not_a_number \<and> b \<noteq> Not_a_number \<and> \<not> fl_less b a"

text \<open>\<open>max\<close> and \<open>min\<close> ignore a NaN; \<open>clamp\<close> keeps it.\<close>

definition fl_max :: "fl \<Rightarrow> fl \<Rightarrow> fl" where
  "fl_max a b = (if a = Not_a_number then b else if b = Not_a_number then a else if fl_less a b then b else a)"

definition fl_min :: "fl \<Rightarrow> fl \<Rightarrow> fl" where
  "fl_min a b = (if a = Not_a_number then b else if b = Not_a_number then a else if fl_less b a then b else a)"

definition fl_clamp :: "fl \<Rightarrow> fl \<Rightarrow> fl \<Rightarrow> fl" where
  "fl_clamp lo hi a = (if fl_less a lo then lo else if fl_less hi a then hi else a)"

text \<open>\<open>round\<close>: to the nearest integer, halves away from zero.\<close>

fun fl_round :: "fl \<Rightarrow> fl" where
  "fl_round (Num a) = Num (of_int (if a < 0 then - \<lfloor>1 / 2 - a\<rfloor> else \<lfloor>a + 1 / 2\<rfloor>))"
| "fl_round x = x"

text \<open>\<open>as u32\<close> truncates and saturates, NaN becomes zero.\<close>

fun fl_to_u32 :: "fl \<Rightarrow> u32" where
  "fl_to_u32 (Num a) = (if a < 0 then 0 else if 2 ^ 32 \<le> a then - 1 else word_of_int \<lfloor>a\<rfloor>)"
| "fl_to_u32 (Infinite s) = (if s then 0 else - 1)"
| "fl_to_u32 Not_a_number = 0"

definition fl_of_u32 :: "float_format \<Rightarrow> u32 \<Rightarrow> fl" where
  "fl_of_u32 fmt n = fl_of_rat fmt (of_int (uint n))"

section \<open>Text\<close>

definition digits4 :: "nat \<Rightarrow> string" where
  "digits4 n = [digit (n div 1000 mod 10), digit (n div 100 mod 10), digit (n div 10 mod 10), digit (n mod 10)]"

text \<open>\<open>{:.4}\<close>: the exact value rounded to four decimals, ties to even.\<close>

fun fl_format4 :: "fl \<Rightarrow> string" where
  "fl_format4 (Num a) =
     (let n = nat (round_half_even (\<bar>a\<bar> * 10000))
      in (if a < 0 then ''-'' else []) @ dec (n div 10000) @ ''.'' @ digits4 (n mod 10000))"
| "fl_format4 (Infinite s) = (if s then ''-inf'' else ''inf'')"
| "fl_format4 Not_a_number = ''NaN''"

definition is_digit :: "char \<Rightarrow> bool" where
  "is_digit c \<longleftrightarrow> digit_value c \<noteq> None"

definition digits_nat :: "string \<Rightarrow> nat" where
  "digits_nat s = (case parse_digits 0 s of Some n \<Rightarrow> n | None \<Rightarrow> 0)"

text \<open>The exponent of a literal: nothing, or \<open>e\<close> with an optional sign and at least one digit.\<close>

definition parse_exponent :: "string \<Rightarrow> int option" where
  "parse_exponent s =
     (case s of
        [] \<Rightarrow> Some 0
      | c # t \<Rightarrow>
          (if c = CHR ''e'' \<or> c = CHR ''E'' then
             (case t of
                [] \<Rightarrow> None
              | d # u \<Rightarrow>
                  (if d = CHR ''-'' then map_option (\<lambda>n. - int n) (parse_nat u)
                   else map_option int (parse_nat (if d = CHR ''+'' then u else t))))
           else None))"

definition pow10 :: "int \<Rightarrow> rat" where
  "pow10 k = (if 0 \<le> k then 10 ^ nat k else 1 / 10 ^ nat (- k))"

definition parse_decimal :: "string \<Rightarrow> rat option" where
  "parse_decimal s =
     (let whole = takeWhile is_digit s; s1 = dropWhile is_digit s;
          (frac, s2) = (case s1 of c # t \<Rightarrow> if c = CHR ''.'' then (takeWhile is_digit t, dropWhile is_digit t) else ([], s1) | [] \<Rightarrow> ([], []))
      in if whole = [] \<and> frac = [] then None
         else map_option (\<lambda>e. of_nat (digits_nat (whole @ frac)) * pow10 (e - int (length frac))) (parse_exponent s2))"

text \<open>\<open>str::parse::<f64>\<close>.\<close>

definition parse_f64 :: "string \<Rightarrow> fl option" where
  "parse_f64 s =
     (case s of
        [] \<Rightarrow> None
      | c # t \<Rightarrow>
          (let neg = (c = CHR ''-''); body = (if c = CHR ''-'' \<or> c = CHR ''+'' then t else s)
           in if eq_ignore_ascii_case body ''inf'' \<or> eq_ignore_ascii_case body ''infinity'' then Some (Infinite neg)
              else if eq_ignore_ascii_case body ''nan'' then Some Not_a_number
              else map_option (\<lambda>x. fl_of_rat binary64 (if neg then - x else x)) (parse_decimal body)))"

section \<open>Bounds\<close>

lemma pow2_pos [simp]: "0 < pow2 k"
  by (simp add: pow2_def)

lemma pow2_nat [simp]: "pow2 (int n) = 2 ^ n"
  by (simp add: pow2_def)

lemma pow2_powi: "pow2 k = 2 powi k"
  by (simp add: pow2_def power_int_def field_simps)

lemma pow2_add: "pow2 (j + k) = pow2 j * pow2 k"
  by (simp add: pow2_powi power_int_add)

lemma pow2_mono: "j \<le> k \<Longrightarrow> pow2 j \<le> pow2 k"
  by (simp add: pow2_powi power_int_increasing)

lemma pow2_less_iff: "pow2 j < pow2 k \<longleftrightarrow> j < k"
proof
  show "pow2 j < pow2 k \<Longrightarrow> j < k" using pow2_mono [of k j] by linarith
  show "j < k \<Longrightarrow> pow2 j < pow2 k" by (simp add: pow2_powi power_int_strict_increasing)
qed

lemma round_half_even_bounds:
  shows "of_int m \<le> x \<Longrightarrow> m \<le> round_half_even x" and "x \<le> of_int m \<Longrightarrow> round_half_even x \<le> m"
proof -
  have f: "of_int \<lfloor>x\<rfloor> \<le> x" by simp
  show "m \<le> round_half_even x" if "of_int m \<le> x"
  proof -
    from that have "m \<le> \<lfloor>x\<rfloor>" by (simp add: le_floor_iff)
    then show ?thesis by (auto simp: round_half_even_def Let_def)
  qed
  show "round_half_even x \<le> m" if le: "x \<le> of_int m"
  proof (cases "x = of_int m")
    case True
    then show ?thesis by (simp add: round_half_even_def)
  next
    case False
    with le have "\<lfloor>x\<rfloor> < m" by (simp add: floor_less_iff)
    then show ?thesis by (auto simp: round_half_even_def Let_def)
  qed
qed

lemma binary_exponent_bounds:
  assumes "0 < x"
  shows "pow2 (binary_exponent x) \<le> x" and "x < pow2 (binary_exponent x + 1)"
proof -
  obtain n d where q: "quotient_of x = (n, d)" by (cases "quotient_of x")
  have d: "0 < d" and x: "x = of_int n / of_int d"
    using quotient_of_denom_pos [OF q] quotient_of_div [OF q] by simp_all
  with assms have n: "0 < n" by (simp add: zero_less_divide_iff)
  have bl: "pow2 (bitlen i - 1) \<le> of_int i \<and> of_int i < pow2 (bitlen i)" if "0 < i" for i
  proof -
    have "1 \<le> bitlen i" using that by (simp add: bitlen_alt_def)
    moreover have "(of_int (2 ^ nat (bitlen i - 1)) :: rat) \<le> of_int i" "(of_int i :: rat) < of_int (2 ^ nat (bitlen i))"
      using bitlen_bounds [OF that] by (simp_all only: of_int_le_iff of_int_less_iff)
    ultimately show ?thesis by (simp add: pow2_def)
  qed
  let ?k = "bitlen n - bitlen d"
  have "x < pow2 (bitlen n) / pow2 (bitlen d - 1)"
    using bl [OF n] bl [OF d] d n unfolding x by (intro frac_less) simp_all
  then have hi: "x < pow2 (?k + 1)"
    by (simp add: pow2_powi power_int_diff power_int_add field_simps)
  have "pow2 (bitlen n - 1) / pow2 (bitlen d) \<le> x"
    using bl [OF n] bl [OF d] d n unfolding x by (intro frac_le) simp_all
  then have lo: "pow2 (?k - 1) \<le> x"
    by (simp add: pow2_powi power_int_diff power_int_add field_simps)
  have e: "binary_exponent x = (if pow2 ?k \<le> x then ?k else ?k - 1)"
    by (simp add: binary_exponent_def q Let_def)
  show "pow2 (binary_exponent x) \<le> x" "x < pow2 (binary_exponent x + 1)"
    using hi lo by (simp_all add: e)
qed

text \<open>Rounding does not cross an integer, as long as the integers around are representable.\<close>

lemma round_rat_int_bounds:
  assumes "\<bar>x\<bar> < pow2 (ff_precision fmt)" and "ff_emin fmt < ff_precision fmt"
  shows "of_int m \<le> x \<Longrightarrow> of_int m \<le> round_rat fmt x" and "x \<le> of_int m \<Longrightarrow> round_rat fmt x \<le> of_int m"
proof -
  have *: "(of_int m \<le> x \<longrightarrow> of_int m \<le> round_rat fmt x) \<and> (x \<le> of_int m \<longrightarrow> round_rat fmt x \<le> of_int m)" if "x \<noteq> 0"
  proof -
    let ?j = "max (ff_emin fmt) (binary_exponent \<bar>x\<bar>) - ff_precision fmt + 1"
    have "pow2 (binary_exponent \<bar>x\<bar>) < pow2 (ff_precision fmt)"
      using binary_exponent_bounds(1) [of "\<bar>x\<bar>"] assms(1) that by linarith
    then have j: "?j \<le> 0" using assms(2) by (simp add: pow2_less_iff)
    define M :: int where "M = 2 ^ nat (- ?j)"
    have u: "ulp fmt x = 1 / of_int M" using j by (simp add: ulp_def pow2_def M_def)
    have M: "0 < M" by (simp add: M_def)
    have r: "round_rat fmt x = of_int (round_half_even (x * of_int M)) / of_int M"
      using that by (simp add: round_rat_def u)
    have "of_int (m * M) \<le> x * of_int M" if "of_int m \<le> x"
      using that M by simp
    moreover have "x * of_int M \<le> of_int (m * M)" if "x \<le> of_int m"
      using that M by simp
    ultimately have "of_int m \<le> x \<longrightarrow> m * M \<le> round_half_even (x * of_int M)"
      "x \<le> of_int m \<longrightarrow> round_half_even (x * of_int M) \<le> m * M"
      using round_half_even_bounds(1) [of "m * M" "x * of_int M"] round_half_even_bounds(2) [of "x * of_int M" "m * M"] by blast+
    moreover have "(rat_of_int m * of_int M \<le> of_int k) = (m * M \<le> k)" "(of_int k \<le> rat_of_int m * of_int M) = (k \<le> m * M)" for k
      by (metis of_int_le_iff of_int_mult)+
    ultimately show ?thesis using M by (simp add: r le_divide_eq divide_le_eq)
  qed
  show "of_int m \<le> round_rat fmt x" if "of_int m \<le> x"
    using * that by (cases "x = 0") (auto simp: round_rat_def)
  show "round_rat fmt x \<le> of_int m" if "x \<le> of_int m"
    using * that by (cases "x = 0") (auto simp: round_rat_def)
qed

lemma fl_of_rat_between:
  assumes "of_int lo \<le> x" and "x \<le> of_int hi" and "\<bar>x\<bar> < 2 ^ 24"
  shows "\<exists>r. fl_of_rat binary32 x = Num r \<and> of_int lo \<le> r \<and> r \<le> of_int hi"
proof -
  have p: "\<bar>x\<bar> < pow2 (ff_precision binary32)" "ff_emin binary32 < ff_precision binary32"
    using assms(3) by (simp_all add: binary32_def pow2_def)
  have x: "- of_int (2 ^ 24) \<le> x" "x \<le> of_int (2 ^ 24)" using assms(3) by (simp_all add: abs_less_iff)
  have "of_int (- (2 ^ 24)) \<le> round_rat binary32 x" "round_rat binary32 x \<le> of_int (2 ^ 24)"
    using round_rat_int_bounds(1) [OF p, of "- (2 ^ 24)"] round_rat_int_bounds(2) [OF p, of "2 ^ 24"] x by simp_all
  then have "\<bar>round_rat binary32 x\<bar> < pow2 (ff_emax binary32 + 1)"
    by (simp add: binary32_def pow2_def abs_less_iff)
  then show ?thesis
    using round_rat_int_bounds [OF p] assms(1,2) by (auto simp: fl_of_rat_def Let_def not_le [symmetric])
qed

lemma fl_of_rat_int: "\<bar>i\<bar> < 2 ^ 24 \<Longrightarrow> fl_of_rat binary32 (of_int i) = Num (of_int i)"
proof -
  assume "\<bar>i\<bar> < 2 ^ 24"
  then have "rat_of_int \<bar>i\<bar> < of_int (2 ^ 24)" by (simp only: of_int_less_iff)
  then have "\<bar>rat_of_int i\<bar> < 2 ^ 24" by (simp only: of_int_abs of_int_power of_int_numeral)
  then show ?thesis using fl_of_rat_between [OF order_refl order_refl, of i] by auto
qed

lemma fl_to_u32_int:
  assumes "0 \<le> i" and "i < 2 ^ 32"
  shows "fl_to_u32 (Num (of_int i)) = word_of_int i"
proof -
  have "rat_of_int i < of_int (2 ^ 32)" using assms(2) by (simp only: of_int_less_iff)
  then have "\<not> 2 ^ 32 \<le> rat_of_int i" by simp
  moreover have "\<not> rat_of_int i < 0" using assms(1) by simp
  ultimately show ?thesis by (simp only: fl_to_u32.simps if_False floor_of_int)
qed

section \<open>Rounding errors\<close>

lemma round_half_even_error: "\<bar>of_int (round_half_even x) - x\<bar> \<le> 1 / 2"
proof -
  have "0 \<le> x - of_int \<lfloor>x\<rfloor>" "x - of_int \<lfloor>x\<rfloor> < 1" by linarith+
  then show ?thesis by (simp add: round_half_even_def Let_def abs_le_iff)
qed

lemma round_rat_error:
  assumes "\<bar>x\<bar> < pow2 (e + 1)" and "ff_emin fmt \<le> e"
  shows "\<bar>round_rat fmt x - x\<bar> \<le> pow2 (e - ff_precision fmt)"
proof (cases "x = 0")
  case True
  then show ?thesis using pow2_pos by (simp add: round_rat_def less_imp_le)
next
  case False
  have "pow2 (binary_exponent \<bar>x\<bar>) < pow2 (e + 1)"
    using binary_exponent_bounds(1) [of "\<bar>x\<bar>"] False assms(1) by linarith
  then have "binary_exponent \<bar>x\<bar> \<le> e" by (simp add: pow2_less_iff)
  then have u: "0 < ulp fmt x" "ulp fmt x \<le> pow2 (e - ff_precision fmt + 1)"
    using assms(2) by (auto simp: ulp_def intro!: pow2_mono)
  have "round_rat fmt x - x = (of_int (round_half_even (x / ulp fmt x)) - x / ulp fmt x) * ulp fmt x"
    using False u(1) by (simp add: round_rat_def algebra_simps)
  then have "\<bar>round_rat fmt x - x\<bar> = \<bar>of_int (round_half_even (x / ulp fmt x)) - x / ulp fmt x\<bar> * ulp fmt x"
    using u(1) by (simp add: abs_mult)
  also have "\<dots> \<le> 1 / 2 * ulp fmt x"
    using round_half_even_error u(1) by (intro mult_right_mono) simp_all
  also have "\<dots> \<le> 1 / 2 * pow2 (e - ff_precision fmt + 1)" using u(2) by simp
  also have "\<dots> = pow2 (e - ff_precision fmt)" by (simp add: pow2_add) (simp add: pow2_def)
  finally show ?thesis .
qed

lemma fl_of_rat_error:
  assumes "fl_of_rat binary32 x = Num r" and "\<bar>x\<bar> < pow2 (e + 1)" and "- 126 \<le> e"
  shows "\<bar>r - x\<bar> \<le> pow2 (e - 24)"
proof -
  have "r = round_rat binary32 x" using assms(1) by (simp add: fl_of_rat_def Let_def split: if_splits)
  then show ?thesis using round_rat_error [OF assms(2), of binary32] assms(3) by (simp add: binary32_def)
qed

end
