(* ===== verification/MemoryRemote.thy ===== *)
theory MemoryRemote
  imports Push Floats
begin

text \<open>
  \<open>crates/polybase/src/sync/remote.rs\<close>: the two traits as records of functions, the in-memory
  writer and reader that stand in for PostgREST in tests, and the contract the readers share.
\<close>

type_synonym ('a, 's) remote_call = "'s \<Rightarrow> (PolyError + 'a) \<times> 's"

record 's RemoteWriter =
  rw_upsert_record :: "string \<Rightarrow> obj \<Rightarrow> string \<Rightarrow> (unit, 's) remote_call"
  rw_upsert_records :: "string \<Rightarrow> obj list \<Rightarrow> string \<Rightarrow> (unit, 's) remote_call"
  rw_update_fields :: "string \<Rightarrow> string \<Rightarrow> obj \<Rightarrow> string \<Rightarrow> (unit, 's) remote_call"

record 's RemoteReader =
  rr_fetch_records ::
    "string \<Rightarrow> string \<Rightarrow> string option \<Rightarrow> RemoteFilter option \<Rightarrow> string \<Rightarrow> (obj list, 's) remote_call"
  rr_fetch_versions ::
    "string \<Rightarrow> string \<Rightarrow> string option \<Rightarrow> string \<Rightarrow> (string \<rightharpoonup> i64 \<times> bool, 's) remote_call"

definition SupabaseRemoteWriter :: "net_env \<Rightarrow> network RemoteWriter" where
  "SupabaseRemoteWriter env =
     \<lparr>rw_upsert_record = writer_upsert_record env, rw_upsert_records = writer_upsert_records env,
      rw_update_fields = writer_update_fields env\<rparr>"

definition SupabaseRemoteReader :: "net_env \<Rightarrow> network RemoteReader" where
  "SupabaseRemoteReader env =
     \<lparr>rr_fetch_records = reader_fetch_records env, rr_fetch_versions = reader_fetch_versions env\<rparr>"

section \<open>The writer\<close>

record MemoryWriterState =
  mw_upserts :: "(string \<times> obj list) list"
  mw_updates :: "(string \<times> string \<times> obj) list"

definition memory_writer_new :: MemoryWriterState where
  "memory_writer_new = \<lparr>mw_upserts = [], mw_updates = []\<rparr>"

definition memory_upsert_record :: "string \<Rightarrow> obj \<Rightarrow> string \<Rightarrow> (unit, MemoryWriterState) remote_call" where
  "memory_upsert_record table rec access_token w =
     (Inr (), w\<lparr>mw_upserts := mw_upserts w @ [(table, [rec])]\<rparr>)"

definition memory_upsert_records :: "string \<Rightarrow> obj list \<Rightarrow> string \<Rightarrow> (unit, MemoryWriterState) remote_call" where
  "memory_upsert_records table records access_token w =
     (Inr (), w\<lparr>mw_upserts := mw_upserts w @ [(table, records)]\<rparr>)"

definition memory_update_fields :: "string \<Rightarrow> string \<Rightarrow> obj \<Rightarrow> string \<Rightarrow> (unit, MemoryWriterState) remote_call" where
  "memory_update_fields table i fs access_token w =
     (Inr (), w\<lparr>mw_updates := mw_updates w @ [(table, i, fs)]\<rparr>)"

definition MemoryWriter :: "MemoryWriterState RemoteWriter" where
  "MemoryWriter =
     \<lparr>rw_upsert_record = memory_upsert_record, rw_upsert_records = memory_upsert_records,
      rw_update_fields = memory_update_fields\<rparr>"

section \<open>The reader\<close>

type_synonym MemoryReaderState = "string \<rightharpoonup> obj list"

definition memory_reader_new :: MemoryReaderState where
  "memory_reader_new = Map.empty"

definition memory_seed :: "string \<Rightarrow> obj list \<Rightarrow> MemoryReaderState \<Rightarrow> MemoryReaderState" where
  "memory_seed table rows r = r(table \<mapsto> rows)"

text \<open>The value of a double given by its bits.\<close>

definition fl_of_bits :: "u64 \<Rightarrow> fl" where
  "fl_of_bits w =
     (let e = unat (take_bit 11 (drop_bit 52 w)); m = unat (take_bit 52 w); sign = (if bit w 63 then - 1 else 1)
      in if e = 2047 then (if m = 0 then Infinite (bit w 63) else Not_a_number)
         else if e = 0 then Num (sign * of_nat m * pow2 (- 1074))
         else Num (sign * of_nat (2 ^ 52 + m) * pow2 (int e - 1075)))"

fun as_f64 :: "json \<Rightarrow> fl option" where
  "as_f64 (JInt i) = Some (fl_of_rat binary64 (of_int i))"
| "as_f64 (JFloat w) = Some (fl_of_bits w)"
| "as_f64 _ = None"

definition value_as_i64 :: "json \<Rightarrow> i64 option" where
  "value_as_i64 v = or_else (as_i64 v) (Option.bind (as_str v) parse_i64)"

definition value_as_f64 :: "json \<Rightarrow> fl option" where
  "value_as_f64 v = or_else (as_f64 v) (Option.bind (as_str v) parse_f64)"

definition row_value_gte :: "json option \<Rightarrow> string \<Rightarrow> bool" where
  "row_value_gte row_value predicate =
     (case row_value of
        None \<Rightarrow> False
      | Some v \<Rightarrow>
          (case (value_as_i64 v, parse_i64 predicate) of
             (Some row_num, Some predicate_num) \<Rightarrow> i64_le predicate_num row_num
           | _ \<Rightarrow>
               (case (value_as_f64 v, parse_f64 predicate) of
                  (Some row_num, Some predicate_num) \<Rightarrow> fl_le predicate_num row_num
                | _ \<Rightarrow> (case as_str v of Some s \<Rightarrow> predicate \<le> s | None \<Rightarrow> False))))"

definition owned_by :: "string \<Rightarrow> string option \<Rightarrow> obj \<Rightarrow> bool" where
  "owned_by user_id_column user_id row \<longleftrightarrow>
     (case user_id of None \<Rightarrow> True | Some uid \<Rightarrow> get_str row user_id_column = Some uid)"

definition filter_accepts :: "RemoteFilter option \<Rightarrow> obj \<Rightarrow> bool" where
  "filter_accepts f row \<longleftrightarrow>
     (case f of
        None \<Rightarrow> True
      | Some extra \<Rightarrow> list_all (\<lambda>(column, v). get_str row column = Some v) (rf_eq extra)
                    \<and> list_all (\<lambda>(column, v). row_value_gte (obj_get row column) v) (rf_gte extra))"

definition memory_fetch_records ::
  "string \<Rightarrow> string \<Rightarrow> string option \<Rightarrow> RemoteFilter option \<Rightarrow> string \<Rightarrow> (obj list, MemoryReaderState) remote_call" where
  "memory_fetch_records table user_id_column user_id flt access_token r =
     (let rows = unwrap_or [] (r table)
      in (Inr (filter (\<lambda>row. owned_by user_id_column user_id row \<and> filter_accepts flt row) rows), r))"

definition memory_fetch_versions ::
  "string \<Rightarrow> string \<Rightarrow> string option \<Rightarrow> string \<Rightarrow> (string \<rightharpoonup> i64 \<times> bool, MemoryReaderState) remote_call" where
  "memory_fetch_versions table user_id_column user_id access_token r =
     (let rows = unwrap_or [] (r table)
      in (Inr (collect_map (List.map_filter (version_entry \<circ> JObject) (filter (owned_by user_id_column user_id) rows))), r))"

definition MemoryReader :: "MemoryReaderState RemoteReader" where
  "MemoryReader = \<lparr>rr_fetch_records = memory_fetch_records, rr_fetch_versions = memory_fetch_versions\<rparr>"

section \<open>The contract of a reader\<close>

text \<open>
  \<open>rows\<close> is what the remote side holds. The two fetches of a reader show the same rows: all of
  those the user owns, whole or projected to their versions.
\<close>

locale remote_reader =
  fixes reader :: "'s RemoteReader" and ok :: "'s \<Rightarrow> bool" and rows :: "'s \<Rightarrow> string \<Rightarrow> obj list"
    and column :: string
  assumes fetch_records: "ok s \<Longrightarrow> rr_fetch_records reader table column user None token s = (Inr rs, s')
        \<Longrightarrow> rs = filter (owned_by column user) (rows s table)"
    and fetch_versions: "ok s \<Longrightarrow> rr_fetch_versions reader table column user token s = (Inr vs, s')
        \<Longrightarrow> vs = collect_map (List.map_filter (version_entry \<circ> JObject) (filter (owned_by column user) (rows s table)))"
    and fetch_frame: "ok s \<Longrightarrow> rr_fetch_records reader table column user flt token s = (r, s') \<Longrightarrow> ok s' \<and> rows s' = rows s"
begin

text \<open>What a version probe announces, a following fetch delivers, and nothing else.\<close>

lemma versions_of_records:
  assumes "ok s" and "rr_fetch_records reader table column user None token s = (Inr rs, s1)"
    and "rr_fetch_versions reader table column user token s1 = (Inr vs, s2)"
  shows "vs = collect_map (List.map_filter (version_entry \<circ> JObject) rs)"
  using fetch_records [OF assms(1,2)] fetch_frame [OF assms(1,2)] fetch_versions [OF _ assms(3)] by simp

lemma version_announces_row:
  assumes "ok s" and "rr_fetch_records reader table column user None token s = (Inr rs, s1)"
    and "rr_fetch_versions reader table column user token s1 = (Inr vs, s2)" and "vs i = Some (v, d)"
  shows "\<exists>row \<in> set rs. get_str row ''id'' = Some i \<and> get_i64 row ''version'' = Some v"
proof -
  have "(i, v, d) \<in> set (List.map_filter (version_entry \<circ> JObject) rs)"
    using versions_of_records [OF assms(1-3)] assms(4) by (auto simp: collect_map_def dest: map_of_SomeD)
  then show ?thesis by (auto simp: List.map_filter_def version_entry_def split: option.splits)
qed

end

interpretation memory_remote: remote_reader MemoryReader "\<lambda>_. True" "\<lambda>r table. unwrap_or [] (r table)" column
  for column
  by unfold_locales
    (auto simp: MemoryReader_def memory_fetch_records_def memory_fetch_versions_def filter_accepts_def Let_def)

section \<open>The service\<close>

text \<open>
  What PostgREST documents of a \<open>GET\<close>: the rows that pass every filter, projected to the selected
  columns. A comparison of the value of a column with a literal depends on the type of the column
  and is a parameter; on text \<open>eq\<close> is equality. A null or a missing column passes no filter.
\<close>

definition pg_filter :: "(json \<Rightarrow> string \<Rightarrow> bool) \<Rightarrow> (json \<Rightarrow> string \<Rightarrow> bool) \<Rightarrow> string \<times> string \<Rightarrow> obj \<Rightarrow> bool" where
  "pg_filter eqs gtes p row =
     (case obj_get row (fst p) of
        None \<Rightarrow> False
      | Some v \<Rightarrow>
          v \<noteq> JNull
          \<and> (case strip_prefix (snd p) ''eq.'' of
               Some x \<Rightarrow> eqs v x
             | None \<Rightarrow> (case strip_prefix (snd p) ''gte.'' of Some x \<Rightarrow> gtes v x | None \<Rightarrow> False)))"

definition pg_select :: "string \<Rightarrow> obj \<Rightarrow> obj" where
  "pg_select cols row =
     (if cols = ''*'' then row else filter (\<lambda>(k, _). list_ex (\<lambda>c. c = k) [''id'', ''version'', ''deleted'']) row)"

definition pg_answer ::
  "json_codec \<Rightarrow> (json \<Rightarrow> string \<Rightarrow> bool) \<Rightarrow> (json \<Rightarrow> string \<Rightarrow> bool) \<Rightarrow> string \<Rightarrow> (string \<times> string) list \<Rightarrow> obj list \<Rightarrow> http_response" where
  "pg_answer codec eqs gtes cols filters rows =
     \<lparr>resp_status = 200,
      resp_text = Inr (render codec (JArray (map (JObject \<circ> pg_select cols)
        (filter (\<lambda>row. list_all (\<lambda>p. pg_filter eqs gtes p row) filters) rows))))\<rparr>"

text \<open>
  A server that answers so from its tables, whatever it was asked before; the scoping column is a
  text column.
\<close>

definition pg_serves ::
  "net_env \<Rightarrow> (json \<Rightarrow> string \<Rightarrow> bool) \<Rightarrow> (json \<Rightarrow> string \<Rightarrow> bool) \<Rightarrow> (string \<Rightarrow> obj list) \<Rightarrow> string \<Rightarrow> bool" where
  "pg_serves env eqs gtes db column \<longleftrightarrow>
     codec_ok (ne_codec env)
     \<and> (\<forall>s x. eqs (JString s) x = (s = x))
     \<and> (\<forall>table. \<forall>row \<in> set (db table). json_storable 126 (JObject row))
     \<and> (\<forall>table. \<forall>row \<in> set (db table). \<forall>v. obj_get row column = Some v \<longrightarrow> v = JNull \<or> (\<exists>s. v = JString s))
     \<and> (\<forall>history table cols filters token. cols = ''*'' \<or> cols = ''id,version,deleted'' \<longrightarrow>
          ne_server env history (get_request env table ((''select'', cols) # filters) token)
          = Inr (pg_answer (ne_codec env) eqs gtes cols filters (db table)))"

lemma storable_select: "json_storable d (JObject row) \<Longrightarrow> json_storable d (JObject (pg_select cols row))"
proof -
  assume c: "json_storable d (JObject row)"
  have "sorted_wrt (<) (map fst (filter P row))" if "sorted_wrt (<) (map fst row)" for P :: "string \<times> json \<Rightarrow> bool"
    using that by (simp add: sorted_wrt_map sorted_wrt_filter)
  with c show ?thesis by (auto simp: pg_select_def obj_ok_def)
qed

lemma get_json_pg:
  assumes "pg_serves env eqs gtes db column" and "cols = ''*'' \<or> cols = ''id,version,deleted''"
  shows "fst (get_json env table ((''select'', cols) # filters) token n)
    = Inr (JArray (map (JObject \<circ> pg_select cols) (filter (\<lambda>row. list_all (\<lambda>p. pg_filter eqs gtes p row) filters) (db table))))"
proof -
  let ?v = "JArray (map (JObject \<circ> pg_select cols) (filter (\<lambda>row. list_all (\<lambda>p. pg_filter eqs gtes p row) filters) (db table)))"
  have "json_storable 127 ?v" using assms(1) storable_select by (auto simp: pg_serves_def simp del: json_storable_simps(7))
  then have "parse (ne_codec env) (render (ne_codec env) ?v) = Inr ?v"
    using assms(1) by (intro codec_roundtrip [of _ 127]) (simp_all add: pg_serves_def)
  moreover have "ne_server env (sent_requests (net_trace n)) (get_request env table ((''select'', cols) # filters) token)
      = Inr (pg_answer (ne_codec env) eqs gtes cols filters (db table))"
    using assms unfolding pg_serves_def by blast
  ultimately show ?thesis
    by (simp add: get_json_def net_send_def pg_answer_def status_success_def resp_json_def)
qed

lemma pg_filter_eq:
  assumes "pg_serves env eqs gtes db column" and "row \<in> set (db table)"
    and "\<And>v. obj_get row c = Some v \<Longrightarrow> v = JNull \<or> (\<exists>s. v = JString s)"
  shows "pg_filter eqs gtes (c, ''eq.'' @ x) row \<longleftrightarrow> get_str row c = Some x"
proof (cases "obj_get row c")
  case None
  then show ?thesis by (simp add: pg_filter_def get_str_def)
next
  case (Some v)
  have e: "strip_prefix (snd (c, ''eq.'' @ x)) ''eq.'' = Some x" by (simp only: snd_conv strip_prefix_append)
  have q: "\<And>s. eqs (JString s) x = (s = x)" using assms(1) unfolding pg_serves_def by blast
  have "pg_filter eqs gtes (c, ''eq.'' @ x) row \<longleftrightarrow> v \<noteq> JNull \<and> eqs v x"
    unfolding pg_filter_def e by (simp only: Some fst_conv option.case)
  also have "\<dots> \<longleftrightarrow> as_str v = Some x"
    using assms(3) [OF Some] by (elim disjE exE) (simp_all add: q)
  finally show ?thesis by (simp only: get_str_def Some bind.bind_lunit)
qed

lemma pg_scope:
  assumes "pg_serves env eqs gtes db column" and "row \<in> set (db table)"
  shows "list_all (\<lambda>p. pg_filter eqs gtes p row) (user_scope column user) \<longleftrightarrow> owned_by column user row"
proof -
  have "\<And>v. obj_get row column = Some v \<Longrightarrow> v = JNull \<or> (\<exists>s. v = JString s)"
    using assms unfolding pg_serves_def by blast
  from pg_filter_eq [OF assms this] show ?thesis
    by (auto simp: user_scope_def owned_by_def simp del: append.simps split: option.split)
qed

lemma version_entry_select [simp]: "version_entry (JObject (pg_select ''id,version,deleted'' row)) = version_entry (JObject row)"
proof -
  have "map_of (filter (\<lambda>(k, _). P k) row) k = (if P k then map_of row k else None)" for P k
    by (induction row) auto
  note g = this [of "\<lambda>k. list_ex (\<lambda>c. c = k) [''id'', ''version'', ''deleted'']"]
  have "obj_get (pg_select ''id,version,deleted'' row) k = obj_get row k" if "k \<in> {''id'', ''version'', ''deleted''}" for k
    using that g [of k] by (auto simp: pg_select_def)
  then have "get_str (pg_select ''id,version,deleted'' row) ''id'' = get_str row ''id''"
    "get_i64 (pg_select ''id,version,deleted'' row) ''version'' = get_i64 row ''version''"
    "get_bool (pg_select ''id,version,deleted'' row) ''deleted'' = get_bool row ''deleted''"
    by (simp_all add: get_str_def get_i64_def get_bool_def)
  then show ?thesis unfolding version_entry_def by (simp only: json.case)
qed

lemma live_fetch_records:
  assumes "pg_serves env eqs gtes db column"
    and "\<And>c x row v. \<lbrakk>flt = Some f; (c, x) \<in> set (rf_eq f); row \<in> set (db table); obj_get row c = Some v\<rbrakk>
      \<Longrightarrow> v = JNull \<or> (\<exists>s. v = JString s)"
    and "flt = None \<or> (flt = Some f \<and> rf_gte f = [])"
  shows "fst (reader_fetch_records env table column user flt token n)
    = Inr (filter (\<lambda>row. owned_by column user row \<and> filter_accepts flt row) (db table))"
proof -
  have "list_all (\<lambda>p. pg_filter eqs gtes p row) (filter_query flt) \<longleftrightarrow> filter_accepts flt row" if row: "row \<in> set (db table)" for row
  proof (cases flt)
    case (Some g)
    then have g: "flt = Some f" "rf_gte f = []" using assms(3) by auto
    have "pg_filter eqs gtes (c, ''eq.'' @ x) row \<longleftrightarrow> get_str row c = Some x" if "(c, x) \<in> set (rf_eq f)" for c x
      by (rule pg_filter_eq [OF assms(1) row assms(2) [OF g(1) that row]])
    then show ?thesis using g
      by (auto simp: filter_query_def filter_accepts_def list_all_iff simp del: append.simps)
  qed (simp add: filter_query_def filter_accepts_def)
  then have "filter (\<lambda>row. list_all (\<lambda>p. pg_filter eqs gtes p row) (user_scope column user @ filter_query flt)) (db table)
      = filter (\<lambda>row. owned_by column user row \<and> filter_accepts flt row) (db table)"
    using pg_scope [OF assms(1)] by (intro filter_cong refl) simp
  moreover have "List.map_filter as_object (map (JObject \<circ> pg_select ''*'') rs) = rs" for rs
    by (induction rs) (simp_all add: List.map_filter_simps pg_select_def)
  ultimately show ?thesis
    using get_json_pg [OF assms(1), of "''*''" table "user_scope column user @ filter_query flt" token n]
    by (auto simp: reader_fetch_records_def array_or_default_def split: prod.split)
qed

lemma live_fetch_versions:
  assumes "pg_serves env eqs gtes db column"
  shows "fst (reader_fetch_versions env table column user token n)
    = Inr (collect_map (List.map_filter (version_entry \<circ> JObject) (filter (owned_by column user) (db table))))"
proof -
  have "filter (\<lambda>row. list_all (\<lambda>p. pg_filter eqs gtes p row) (user_scope column user)) (db table)
      = filter (owned_by column user) (db table)"
    using pg_scope [OF assms] by (intro filter_cong refl) simp
  moreover have "List.map_filter version_entry (map (JObject \<circ> pg_select ''id,version,deleted'') rs)
      = List.map_filter (version_entry \<circ> JObject) rs" for rs
    by (induction rs) (auto simp: List.map_filter_simps split: option.split)
  ultimately show ?thesis
    using get_json_pg [OF assms, of "''id,version,deleted''" table "user_scope column user" token n]
    by (auto simp: reader_fetch_versions_def split: prod.split)
qed

interpretation live_remote: remote_reader "SupabaseRemoteReader env" "\<lambda>_. pg_serves env eqs gtes db column" "\<lambda>_. db" column
  for env eqs gtes db column
proof unfold_locales
  fix n table user token rs n'
  assume s: "pg_serves env eqs gtes db column"
    and "rr_fetch_records (SupabaseRemoteReader env) table column user None token n = (Inr rs, n')"
  then show "rs = filter (owned_by column user) (db table)"
    using live_fetch_records [OF s, of None undefined table user token n]
    by (simp add: SupabaseRemoteReader_def filter_accepts_def)
next
  fix n table user token vs n'
  assume s: "pg_serves env eqs gtes db column"
    and "rr_fetch_versions (SupabaseRemoteReader env) table column user token n = (Inr vs, n')"
  then show "vs = collect_map (List.map_filter (version_entry \<circ> JObject) (filter (owned_by column user) (db table)))"
    using live_fetch_versions [OF s, of table user token n] by (simp add: SupabaseRemoteReader_def)
qed simp_all

text \<open>
  The in-memory reader stands in for the service. Seeded with the rows of a table, it returns
  what the live reader returns against a PostgREST that holds the same rows: the same records in the
  same order, for the user and the equality filters asked for, and the same versions, as long as the
  columns compared are text; and the versions are those of the records returned without a filter.
\<close>

theorem memory_reader_stands_in:
  assumes "pg_serves env eqs gtes db column" and "rf_gte f = []"
    and "\<And>c x row v. \<lbrakk>(c, x) \<in> set (rf_eq f); row \<in> set (db table); obj_get row c = Some v\<rbrakk> \<Longrightarrow> v = JNull \<or> (\<exists>s. v = JString s)"
  shows "fst (reader_fetch_records env table column user (Some f) token n)
      = fst (memory_fetch_records table column user (Some f) token (memory_seed table (db table) r))
    \<and> fst (reader_fetch_records env table column user None token n)
      = fst (memory_fetch_records table column user None token (memory_seed table (db table) r))
    \<and> fst (reader_fetch_versions env table column user token n)
      = fst (memory_fetch_versions table column user token (memory_seed table (db table) r))
    \<and> (\<exists>rs. fst (reader_fetch_records env table column user None token n) = Inr rs
        \<and> fst (reader_fetch_versions env table column user token n)
          = Inr (collect_map (List.map_filter (version_entry \<circ> JObject) rs)))"
proof -
  have "fst (reader_fetch_records env table column user (Some f) token n)
      = Inr (filter (\<lambda>row. owned_by column user row \<and> filter_accepts (Some f) row) (db table))"
    by (rule live_fetch_records [OF assms(1)]) (use assms(2,3) in auto)
  moreover have "fst (reader_fetch_records env table column user None token n)
      = Inr (filter (\<lambda>row. owned_by column user row \<and> filter_accepts None row) (db table))"
    by (rule live_fetch_records [OF assms(1)]) auto
  ultimately show ?thesis
    using live_fetch_versions [OF assms(1), of table user token n]
    by (simp add: memory_fetch_records_def memory_fetch_versions_def memory_seed_def filter_accepts_def)
qed

definition pg_rows :: "obj list" where
  "pg_rows = [[(''deleted'', JBool True), (''id'', JString ''a''), (''user_id'', JString ''u1''), (''version'', JInt 3)],
              [(''id'', JString ''b''), (''user_id'', JString ''u2''), (''version'', JInt 1)]]"

text \<open>A service that reads the filters and the projection off the request.\<close>

definition pg_env :: "(json \<Rightarrow> string \<Rightarrow> bool) \<Rightarrow> (json \<Rightarrow> string \<Rightarrow> bool) \<Rightarrow> (string \<Rightarrow> obj list) \<Rightarrow> net_env" where
  "pg_env eqs gtes db =
     \<lparr>ne_config = sample_client,
      ne_server = (\<lambda>_ r. case req_query r of
          [] \<Rightarrow> Inl ''no select''
        | p # filters \<Rightarrow> Inr (pg_answer ref_codec eqs gtes (snd p) filters (db (drop (length (rest_url sample_client [])) (req_url r))))),
      ne_codec = ref_codec, ne_uuid_v7 = (\<lambda>k. ''id'' @ dec k)\<rparr>"

lemma pg_env_serves:
  assumes "\<And>s x. eqs (JString s) x = (s = x)" and "\<And>table row. row \<in> set (db table) \<Longrightarrow> json_storable 126 (JObject row)"
    and "\<And>table row v. row \<in> set (db table) \<Longrightarrow> obj_get row column = Some v \<Longrightarrow> v = JNull \<or> (\<exists>s. v = JString s)"
  shows "pg_serves (pg_env eqs gtes db) eqs gtes db column"
proof -
  have "drop (length (rest_url sample_client [])) (rest_url sample_client table) = table" for table
    by (simp add: rest_url_def)
  then show ?thesis using assms unfolding pg_serves_def
    by (auto simp: pg_env_def get_request_def ref_codec_ok simp del: json_storable_simps)
qed

theorem memory_reader_stands_in_witness:
  "fst (reader_fetch_versions (pg_env (\<lambda>v x. as_str v = Some x) (\<lambda>_ _. True) (\<lambda>_. pg_rows)) ''notes'' ''user_id'' (Some ''u1'') ''at'' fresh_network)
   = Inr [''a'' \<mapsto> (3, True)]"
proof -
  let ?env = "pg_env (\<lambda>v x. as_str v = Some x) (\<lambda>_ _. True) (\<lambda>_. pg_rows)"
  have "pg_serves ?env (\<lambda>v x. as_str v = Some x) (\<lambda>_ _. True) (\<lambda>_. pg_rows) ''user_id''"
    by (rule pg_env_serves) (auto simp: pg_rows_def obj_ok_def)
  then show ?thesis
    using memory_reader_stands_in [of ?env _ _ "\<lambda>_. pg_rows" "''user_id''" "filter_from_pairs []" "''notes''" "Some ''u1''" "''at''" fresh_network Map.empty]
    by (simp add: filter_from_pairs_def memory_fetch_versions_def memory_seed_def pg_rows_def owned_by_def get_str_def
        List.map_filter_simps version_entry_def get_i64_def get_bool_def collect_map_def)
qed

section \<open>Where the two differ\<close>

text \<open>Filters on booleans never match in memory, and text that looks like a number is compared as one.\<close>

lemma memory_filters_diverge:
  "\<not> filter_accepts (Some (filter_from_pairs [(''deleted'', ''true'')])) [(''deleted'', JBool True)]"
  "row_value_gte (Some (JString ''10'')) ''9''" "\<not> ''9'' \<le> ''10''"
proof -
  show "\<not> filter_accepts (Some (filter_from_pairs [(''deleted'', ''true'')])) [(''deleted'', JBool True)]"
    by (simp add: filter_accepts_def filter_from_pairs_def get_str_def)
  show "row_value_gte (Some (JString ''10'')) ''9''" by code_simp
  show "\<not> ''9'' \<le> ''10''" by code_simp
qed

text \<open>
  The live writer takes any failure whose text mentions \<open>ignored\<close> for the benign rejection; the
  pusher of the coordinator asks for a retry.
\<close>

lemma writer_ignored_swallowed:
  "fst (writer_upsert_record (const_env (Inr \<lparr>resp_status = 503, resp_text = Inr ''request ignored''\<rparr>)) table
      [(''id'', JString i)] token n) = Inl (Poly_Push (SameVersionMutationIgnored table))"
  "\<exists>m. fst (pusher_upsert (const_env (Inr \<lparr>resp_status = 503, resp_text = Inr ''request ignored''\<rparr>)) table
      [(''id'', JString i)] target token n) = Inl (Poly_Push (Push_Transient table m))"
proof -
  let ?r = "\<lparr>resp_status = 503, resp_text = Inr ''request ignored''\<rparr> :: http_response"
  have lower: "contains_sub (to_ascii_lowercase ''request ignored'') ''ignored''" by code_simp
  have other: "\<not> is_same_version_mutation_message ''request ignored''"
    "\<not> is_permanent_push_error_message (http_message 503 ''request ignored'')" by code_simp+
  have t: "text_or_default ?r = ''request ignored''" by (simp add: text_or_default_def)
  show "fst (writer_upsert_record (const_env (Inr ?r)) table [(''id'', JString i)] token n) = Inl (Poly_Push (SameVersionMutationIgnored table))"
    using lower unfolding writer_upsert_record_def net_send_def
    by (simp add: const_env_def t status_success_def Let_def)
  show "\<exists>m. fst (pusher_upsert (const_env (Inr ?r)) table [(''id'', JString i)] target token n) = Inl (Poly_Push (Push_Transient table m))"
    using other unfolding pusher_upsert_def net_send_def rejected_def classify_push_error_message_def
    by (simp add: const_env_def t status_success_def Let_def get_str_def)
qed

end
