(* ===== verification/Symbols.thy ===== *)
theory Symbols
  imports Floats "HOL-Library.AList" "HOL-Library.List_Lexorder" "HOL-Library.Char_ord"
begin

text \<open>
  \<open>crates/polysym-build/src/lib.rs\<close>, first part: the specification of a symbol, the committed
  cache with its manifest, and what a build reads from and writes to it. The build runs against
  two directories of plain files: the output directory (a map) and the committed assets (a list
  of entries in the order the directory lists them, or no directory). Files are their bytes;
  symbol names contain no path separator. Each file operation that can fail takes the next of
  \<open>sb_faults\<close>; what is printed for cargo goes to \<open>sb_log\<close>, and a panic is an \<open>Inl\<close>.
\<close>

section \<open>Specifications\<close>

record SymbolSpec =
  sy_name :: string
  sy_size :: u32
  sy_weight :: string
  sy_padding :: fl
  sy_lucide :: "string option"

definition spec_new :: "string \<Rightarrow> SymbolSpec" where
  "spec_new name =
     \<lparr>sy_name = name, sy_size = 20, sy_weight = ''regular'', sy_padding = fl_of_rat binary32 (12 / 100), sy_lucide = None\<rparr>"

definition spec_size :: "u32 \<Rightarrow> SymbolSpec \<Rightarrow> SymbolSpec" where
  "spec_size points spec = spec\<lparr>sy_size := points\<rparr>"

definition spec_weight :: "string \<Rightarrow> SymbolSpec \<Rightarrow> SymbolSpec" where
  "spec_weight weight spec = spec\<lparr>sy_weight := weight\<rparr>"

definition spec_padding :: "fl \<Rightarrow> SymbolSpec \<Rightarrow> SymbolSpec" where
  "spec_padding padding spec = spec\<lparr>sy_padding := fl_clamp (Num 0) (fl_of_rat binary32 (45 / 100)) padding\<rparr>"

definition spec_lucide :: "string \<Rightarrow> SymbolSpec \<Rightarrow> SymbolSpec" where
  "spec_lucide name spec = spec\<lparr>sy_lucide := Some name\<rparr>"

definition inner_size :: "SymbolSpec \<Rightarrow> u32" where
  "inner_size spec =
     (let fill = fl_sub binary32 (Num 1) (fl_mul binary32 (Num 2) (sy_padding spec))
      in fl_to_u32 (fl_max (fl_round (fl_mul binary32 (fl_of_u32 binary32 (sy_size spec)) fill)) (Num 1)))"

definition canvas_px :: "SymbolSpec \<Rightarrow> u32" where
  "canvas_px spec = sy_size spec * 2"

definition cache_format_version :: u32 where
  "cache_format_version = 2"

definition dec_u32 :: "u32 \<Rightarrow> string" where
  "dec_u32 n = dec (unat n)"

definition spec_signature :: "SymbolSpec \<Rightarrow> string" where
  "spec_signature spec =
     ''size='' @ dec_u32 (sy_size spec) @ '' weight='' @ sy_weight spec @ '' padding='' @ fl_format4 (sy_padding spec)"

section \<open>The build\<close>

record Build =
  sb_out :: "string \<Rightarrow> string option"
  sb_assets :: "(string \<times> string) list option"
  sb_log :: "string list"
  sb_faults :: "string option list"

type_synonym 'a build = "Build \<Rightarrow> (string + 'a) \<times> Build"

definition and_then :: "'a build \<Rightarrow> ('a \<Rightarrow> 'b build) \<Rightarrow> 'b build" where
  "and_then m f b = (case m b of (Inl p, b') \<Rightarrow> (Inl p, b') | (Inr a, b') \<Rightarrow> f a b')"

definition returning :: "'a \<Rightarrow> 'a build" where
  "returning a b = (Inr a, b)"

definition say :: "string \<Rightarrow> unit build" where
  "say line b = (Inr (), b\<lparr>sb_log := sb_log b @ [line]\<rparr>)"

definition warning :: "string \<Rightarrow> unit build" where
  "warning msg = say (''cargo::warning=polysym: '' @ msg)"

definition io_fault :: "Build \<Rightarrow> string option \<times> Build" where
  "io_fault b = (case take_fault (sb_faults b) of (f, fs) \<Rightarrow> (f, b\<lparr>sb_faults := fs\<rparr>))"

definition panic_unless :: "(string \<Rightarrow> string) \<Rightarrow> (string + 'a) \<Rightarrow> 'a build" where
  "panic_unless msg r b = (map_err msg r, b)"

definition asset :: "Build \<Rightarrow> string \<Rightarrow> string option" where
  "asset b file_name = Option.bind (sb_assets b) (\<lambda>fs. map_of fs file_name)"

definition put_asset :: "string \<Rightarrow> string \<Rightarrow> Build \<Rightarrow> Build" where
  "put_asset file_name content b = b\<lparr>sb_assets := map_option (AList.update file_name content) (sb_assets b)\<rparr>"

definition put_out :: "string \<Rightarrow> string \<Rightarrow> Build \<Rightarrow> Build" where
  "put_out file_name content b = b\<lparr>sb_out := (sb_out b)(file_name \<mapsto> content)\<rparr>"

definition delete_asset :: "string \<Rightarrow> Build \<Rightarrow> Build" where
  "delete_asset file_name b = b\<lparr>sb_assets := map_option (AList.delete file_name) (sb_assets b)\<rparr>"

text \<open>\<open>std::fs::write\<close> into one of the two directories.\<close>

definition write_out :: "string \<Rightarrow> (string \<Rightarrow> string) \<Rightarrow> string \<Rightarrow> unit build" where
  "write_out file_name msg content b =
     (case io_fault b of (Some e, b') \<Rightarrow> (Inl (msg e), b') | (None, b') \<Rightarrow> (Inr (), put_out file_name content b'))"

definition file_of :: "SymbolSpec \<Rightarrow> string \<Rightarrow> string" where
  "file_of spec ext = sy_name spec @ ''.'' @ ext"

definition parts :: "string list" where
  "parts = [''light.png'', ''dark.png'', ''svg'']"

definition path_in :: "string \<Rightarrow> string \<Rightarrow> string" where
  "path_in dir file_name = dir @ ''/'' @ file_name"

section \<open>The manifest\<close>

definition manifest_file :: string where
  "manifest_file = ''manifest.txt''"

datatype ManifestStatus =
    Manifest_ok "string \<Rightarrow> string option"
  | Manifest_missing
  | Manifest_outdated u32
  | Manifest_malformed string

text \<open>
  \<open>str::lines\<close>; a carriage return before the newline is left to \<open>trim\<close>, which every line is
  passed through.
\<close>

fun str_lines :: "string \<Rightarrow> string list" where
  "str_lines [] = []"
| "str_lines (c # s) =
     (if c = CHR 0x0A then [] # str_lines s
      else (case str_lines s of [] \<Rightarrow> [[c]] | l # ls \<Rightarrow> (c # l) # ls))"

fun read_lines :: "string list \<Rightarrow> u32 option \<Rightarrow> (string \<Rightarrow> string option)
    \<Rightarrow> string + u32 option \<times> (string \<Rightarrow> string option)" where
  "read_lines [] format entries = Inr (format, entries)"
| "read_lines (raw # lines) format entries =
     (let line = trim raw
      in if line = [] \<or> starts_with line ''#'' then read_lines lines format entries
         else
           (case strip_prefix line ''format='' of
              Some v \<Rightarrow>
                (case parse_u32 v of
                   Some n \<Rightarrow> read_lines lines (Some n) entries
                 | None \<Rightarrow> Inl (''invalid format= value: '' @ v))
            | None \<Rightarrow>
                (case split_once line '' '' of
                   None \<Rightarrow> Inl (''expected '' @ [CHR 0x27] @ ''<name> <key>=<value>...'' @ [CHR 0x27] @ '', got: '' @ line)
                 | Some (name, sig) \<Rightarrow> read_lines lines format (entries(name \<mapsto> trim sig)))))"

definition parse_manifest :: "string \<Rightarrow> ManifestStatus" where
  "parse_manifest content =
     (case read_lines (str_lines content) None Map.empty of
        Inl msg \<Rightarrow> Manifest_malformed msg
      | Inr (None, _) \<Rightarrow> Manifest_malformed (''missing '' @ [CHR 0x27] @ ''format='' @ [CHR 0x27] @ '' header'')
      | Inr (Some found, entries) \<Rightarrow>
          if found \<noteq> cache_format_version then Manifest_outdated found else Manifest_ok entries)"

definition read_manifest :: "Build \<Rightarrow> ManifestStatus \<times> Build" where
  "read_manifest b =
     (case io_fault b of
        (Some _, b') \<Rightarrow> (Manifest_missing, b')
      | (None, b') \<Rightarrow>
          (case asset b manifest_file of
             None \<Rightarrow> (Manifest_missing, b')
           | Some content \<Rightarrow> (parse_manifest content, b')))"

definition newline :: string where
  "newline = [CHR 0x0A]"

definition manifest_text :: "(string \<times> string) list \<Rightarrow> string" where
  "manifest_text entries =
     ''# polysym cache manifest - regenerated by POLYSYM_REFRESH=1'' @ newline
     @ ''# DO NOT EDIT BY HAND'' @ newline
     @ ''format='' @ dec_u32 cache_format_version @ newline
     @ concat (map (\<lambda>(name, sig). name @ '' '' @ sig @ newline) (sort_key fst entries))"

text \<open>\<open>dir\<close> is the path of the assets, for the messages.\<close>

definition write_manifest :: "string \<Rightarrow> (string \<times> string) list \<Rightarrow> unit build" where
  "write_manifest dir entries b =
     (let failed = (\<lambda>e. ''polysym: failed to write manifest '' @ path_in dir manifest_file @ '': '' @ e)
      in case io_fault b of
           (Some e, b') \<Rightarrow> (Inl (failed e), b')
         | (None, b') \<Rightarrow>
             (if sb_assets b' = None then (Inl (failed ''No such file or directory (os error 2)''), b')
              else (Inr (), put_asset manifest_file (manifest_text entries) b')))"

section \<open>Orphans\<close>

definition cache_stem :: "string \<Rightarrow> string option" where
  "cache_stem file_name =
     or_else (strip_suffix file_name ''.light.png'')
       (or_else (strip_suffix file_name ''.dark.png'') (strip_suffix file_name ''.svg''))"

definition orphan :: "SymbolSpec list \<Rightarrow> string \<Rightarrow> bool" where
  "orphan specs file_name \<longleftrightarrow>
     file_name \<noteq> manifest_file
     \<and> (case cache_stem file_name of None \<Rightarrow> False | Some stem \<Rightarrow> stem \<notin> sy_name ` set specs)"

fun prune_entries :: "string \<Rightarrow> SymbolSpec list \<Rightarrow> (string \<times> string) list \<Rightarrow> unit build" where
  "prune_entries dir specs [] b = (Inr (), b)"
| "prune_entries dir specs ((file_name, content) # entries) b =
     (if orphan specs file_name then
        (case io_fault b of
           (None, b') \<Rightarrow>
             and_then (warning (''pruned orphan cache file '' @ file_name)) (\<lambda>_. prune_entries dir specs entries)
               (delete_asset file_name b')
         | (Some e, b') \<Rightarrow>
             and_then (warning (''failed to prune orphan '' @ path_in dir file_name @ '': '' @ e))
               (\<lambda>_. prune_entries dir specs entries) b')
      else prune_entries dir specs entries b)"

definition prune_orphans :: "string \<Rightarrow> SymbolSpec list \<Rightarrow> unit build" where
  "prune_orphans dir specs b =
     (case io_fault b of
        (Some _, b') \<Rightarrow> (Inr (), b')
      | (None, b') \<Rightarrow>
          (case sb_assets b of None \<Rightarrow> (Inr (), b') | Some entries \<Rightarrow> prune_entries dir specs entries b'))"

section \<open>The committed cache\<close>

definition failed_copy :: "string \<Rightarrow> string \<Rightarrow> string \<Rightarrow> string \<Rightarrow> string" where
  "failed_copy what src dst e = ''failed to '' @ what @ src @ '' to '' @ dst @ '': '' @ e"

definition no_such_file :: string where
  "no_such_file = ''No such file or directory (os error 2)''"

fun mirror_parts :: "string \<Rightarrow> string \<Rightarrow> SymbolSpec \<Rightarrow> string list \<Rightarrow> unit build" where
  "mirror_parts out_dir dir spec [] b = (Inr (), b)"
| "mirror_parts out_dir dir spec (ext # exts) b =
     (let file_name = file_of spec ext;
          failed = (\<lambda>e. warning (failed_copy ''mirror '' (path_in out_dir file_name) (path_in dir file_name) e))
      in case (io_fault b, sb_out b file_name) of
           ((Some e, b'), _) \<Rightarrow> and_then (failed e) (\<lambda>_. mirror_parts out_dir dir spec exts) b'
         | ((None, b'), None) \<Rightarrow> and_then (failed no_such_file) (\<lambda>_. mirror_parts out_dir dir spec exts) b'
         | ((None, b'), Some content) \<Rightarrow> mirror_parts out_dir dir spec exts (put_asset file_name content b'))"

definition copy_to_assets_dir :: "string \<Rightarrow> string \<Rightarrow> SymbolSpec \<Rightarrow> unit build" where
  "copy_to_assets_dir out_dir dir spec b =
     (case io_fault b of
        (Some e, b') \<Rightarrow> warning (''could not create assets dir '' @ dir @ '': '' @ e) b'
      | (None, b') \<Rightarrow>
          mirror_parts out_dir dir spec parts (b'\<lparr>sb_assets := Some (unwrap_or [] (sb_assets b'))\<rparr>))"

fun restore_parts :: "string \<Rightarrow> string \<Rightarrow> SymbolSpec \<Rightarrow> string list \<Rightarrow> bool build" where
  "restore_parts out_dir dir spec [] b = (Inr True, b)"
| "restore_parts out_dir dir spec (ext # exts) b =
     (let file_name = file_of spec ext;
          failed = (\<lambda>e. warning (failed_copy ''copy cached '' (path_in dir file_name) (path_in out_dir file_name) e))
      in case (io_fault b, asset b file_name) of
           ((Some e, b'), _) \<Rightarrow> and_then (failed e) (\<lambda>_. returning False) b'
         | ((None, b'), None) \<Rightarrow> and_then (failed no_such_file) (\<lambda>_. returning False) b'
         | ((None, b'), Some content) \<Rightarrow> restore_parts out_dir dir spec exts (put_out file_name content b'))"

definition try_copy_from_assets :: "string \<Rightarrow> string \<Rightarrow> SymbolSpec \<Rightarrow> bool build" where
  "try_copy_from_assets out_dir dir spec b =
     (if \<not> list_all (\<lambda>ext. asset b (file_of spec ext) \<noteq> None) parts then (Inr False, b)
      else restore_parts out_dir dir spec parts b)"

definition quoted :: "string \<Rightarrow> string" where
  "quoted s = [CHR 0x27] @ s @ [CHR 0x27]"

definition before_commit :: string where
  "before_commit = '' - run scripts/polysym-refresh.sh before commit''"

definition check_committed_asset :: "SymbolSpec \<Rightarrow> (string \<Rightarrow> string option) option \<Rightarrow> bool \<Rightarrow> unit build" where
  "check_committed_asset spec manifest sfsym_available b =
     (if \<not> sfsym_available then (Inr (), b)
      else
        (let missing = filter (\<lambda>ext. asset b (file_of spec ext) = None) parts
         in if missing \<noteq> [] then
              warning (quoted (sy_name spec) @ '' is missing committed cache files ['' @ join '', '' missing @ '']'' @ before_commit) b
            else
              (case manifest of
                 None \<Rightarrow> (Inr (), b)
               | Some entries \<Rightarrow>
                   (case entries (sy_name spec) of
                      Some stored \<Rightarrow>
                        (if stored = spec_signature spec then (Inr (), b)
                         else warning (quoted (sy_name spec) @ '' cache built with ['' @ stored @ ''] but spec is now [''
                                @ spec_signature spec @ '']'' @ before_commit) b)
                    | None \<Rightarrow> warning (quoted (sy_name spec) @ '' is not listed in the cache manifest'' @ before_commit) b))))"

section \<open>Lemmas on the two directories\<close>

lemma asset_put_asset [simp]:
  "asset (put_asset n c b) m = (if sb_assets b = None then None else if n = m then Some c else asset b m)"
  by (cases "sb_assets b") (simp_all add: asset_def put_asset_def update_conv')

lemma asset_simps [simp]:
  "asset (put_out n c b) = asset b" "asset (b\<lparr>sb_log := l\<rparr>) = asset b" "asset (b\<lparr>sb_faults := fs\<rparr>) = asset b"
  by (simp_all add: asset_def put_out_def fun_eq_iff)

lemma asset_delete [simp]:
  "asset (delete_asset n b) m = (if m = n then None else asset b m)"
  by (cases "sb_assets b") (simp_all add: asset_def delete_asset_def delete_conv')

lemma put_simps [simp]:
  "sb_out (put_asset n c b) = sb_out b" "sb_faults (put_asset n c b) = sb_faults b" "sb_log (put_asset n c b) = sb_log b"
  "sb_assets (put_out n c b) = sb_assets b" "sb_faults (put_out n c b) = sb_faults b" "sb_log (put_out n c b) = sb_log b"
  "sb_out (put_out n c b) = (sb_out b)(n \<mapsto> c)"
  "sb_out (delete_asset n b) = sb_out b" "sb_faults (delete_asset n b) = sb_faults b"
  by (simp_all add: put_asset_def put_out_def delete_asset_def)

lemma asset_dir [simp]:
  "sb_assets (put_asset n c b) = None \<longleftrightarrow> sb_assets b = None" "sb_assets (delete_asset n b) = None \<longleftrightarrow> sb_assets b = None"
  by (simp_all add: put_asset_def delete_asset_def)

lemma say_simps [simp]:
  "fst (say l b) = Inr ()" "sb_out (snd (say l b)) = sb_out b" "sb_assets (snd (say l b)) = sb_assets b"
  "sb_faults (snd (say l b)) = sb_faults b" "asset (snd (say l b)) = asset b"
  by (simp_all add: say_def)

lemma warning_eq: "warning msg b = (Inr (), snd (say (''cargo::warning=polysym: '' @ msg) b))"
  by (simp add: warning_def say_def)

lemma io_fault_none [simp]: "sb_faults b = [] \<Longrightarrow> io_fault b = (None, b)"
  by (simp add: io_fault_def)

lemma io_fault_state:
  "io_fault b = (f, b') \<Longrightarrow> b' = b\<lparr>sb_faults := sb_faults b'\<rparr>"
  by (auto simp: io_fault_def split: prod.splits)

lemma io_fault_keeps:
  "io_fault b = (f, b') \<Longrightarrow> sb_out b' = sb_out b \<and> sb_assets b' = sb_assets b \<and> sb_log b' = sb_log b \<and> asset b' = asset b"
  by (auto simp: io_fault_def split: prod.splits)

lemma and_then_Inr: "m b = (Inr a, b') \<Longrightarrow> and_then m f b = f a b'"
  by (simp add: and_then_def)

section \<open>Orphans, exactly\<close>

lemma cache_stem_iff: "cache_stem n = Some stem \<longleftrightarrow> (\<exists>ext \<in> set parts. n = stem @ ''.'' @ ext)"
proof
  assume "cache_stem n = Some stem"
  then have "strip_suffix n ''.light.png'' = Some stem \<or> strip_suffix n ''.dark.png'' = Some stem \<or> strip_suffix n ''.svg'' = Some stem"
    by (auto simp: cache_stem_def or_else_def split: option.splits)
  then show "\<exists>ext \<in> set parts. n = stem @ ''.'' @ ext"
    by (simp add: parts_def strip_suffix_eq_Some)
next
  have a: "strip_suffix (t @ pat) pat = Some t" for t pat by (simp add: strip_suffix_eq_Some)
  have x: "strip_suffix (t @ ''.dark.png'') ''.light.png'' = None" "strip_suffix (t @ ''.svg'') ''.light.png'' = None"
    "strip_suffix (t @ ''.svg'') ''.dark.png'' = None" for t
    by (simp_all add: strip_suffix_def ends_with_def)
  assume "\<exists>ext \<in> set parts. n = stem @ ''.'' @ ext"
  then consider "n = stem @ ''.light.png''" | "n = stem @ ''.dark.png''" | "n = stem @ ''.svg''"
    by (auto simp: parts_def)
  then show "cache_stem n = Some stem"
    by cases (simp_all only: cache_stem_def a x or_else_simps)
qed

lemma orphan_iff:
  "orphan specs n \<longleftrightarrow> (\<exists>stem. (\<exists>ext \<in> set parts. n = stem @ ''.'' @ ext) \<and> stem \<notin> sy_name ` set specs)"
proof -
  have "cache_stem manifest_file = None"
    by (simp add: cache_stem_def manifest_file_def strip_suffix_def ends_with_def)
  then have "orphan specs n \<longleftrightarrow> (\<exists>stem. cache_stem n = Some stem \<and> stem \<notin> sy_name ` set specs)"
    by (auto simp: orphan_def split: option.splits)
  then show ?thesis by (simp only: cache_stem_iff)
qed

lemma spec_file_kept: "spec \<in> set specs \<Longrightarrow> ext \<in> set parts \<Longrightarrow> \<not> orphan specs (file_of spec ext)"
proof -
  assume *: "spec \<in> set specs" "ext \<in> set parts"
  then have "cache_stem (file_of spec ext) = Some (sy_name spec)"
    by (auto simp: cache_stem_iff file_of_def)
  with * show ?thesis by (simp add: orphan_def)
qed

lemma manifest_kept: "\<not> orphan specs manifest_file"
  by (simp add: orphan_def)

lemma prune_entries_spec:
  assumes "prune_entries dir specs entries b = (r, b')"
  shows "r = Inr () \<and> sb_out b' = sb_out b \<and> (sb_assets b' = None \<longleftrightarrow> sb_assets b = None)
    \<and> (\<forall>n. \<not> orphan specs n \<longrightarrow> asset b' n = asset b n)
    \<and> (\<forall>n. asset b n = None \<longrightarrow> asset b' n = None)
    \<and> (sb_faults b = [] \<longrightarrow> sb_faults b' = [] \<and> (\<forall>n \<in> fst ` set entries. orphan specs n \<longrightarrow> asset b' n = None))"
  using assms
proof (induction entries arbitrary: b)
  case Nil
  then show ?case by auto
next
  case (Cons e entries)
  obtain n c where e: "e = (n, c)" by (cases e)
  show ?case
  proof (cases "orphan specs n")
    case False
    then show ?thesis using Cons by (auto simp: e)
  next
    case True
    obtain f b1 where f: "io_fault b = (f, b1)" by (cases "io_fault b")
    note k = io_fault_keeps [OF f]
    show ?thesis
    proof (cases f)
      case None
      let ?b = "delete_asset n b1"
      let ?b2 = "snd (say (''cargo::warning=polysym: '' @ ''pruned orphan cache file '' @ n) ?b)"
      have "prune_entries dir specs entries ?b2 = (r, b')"
        using Cons.prems True f None by (simp add: e and_then_def warning_eq)
      from Cons.IH [OF this] show ?thesis
        using True k f None by (auto simp: e)
    next
      case (Some msg)
      have "sb_faults b \<noteq> []" using f Some by auto
      moreover have "prune_entries dir specs entries (snd (say (''cargo::warning=polysym: '' @ ''failed to prune orphan '' @ path_in dir n @ '': '' @ msg) b1)) = (r, b')"
        using Cons.prems True f Some by (simp add: e and_then_def warning_eq)
      from Cons.IH [OF this] show ?thesis
        using True k \<open>sb_faults b \<noteq> []\<close> by (auto simp: e)
    qed
  qed
qed

lemma asset_None: "asset b n = None" if "sb_assets b = None \<or> (\<exists>fs. sb_assets b = Some fs \<and> n \<notin> fst ` set fs)"
  using that by (auto simp: asset_def map_of_eq_None_iff)

lemma prune_orphans_eq:
  assumes "io_fault b = (f, b1)"
  shows "f \<noteq> None \<or> sb_assets b = None \<Longrightarrow> prune_orphans dir specs b = (Inr (), b1)"
    and "f = None \<Longrightarrow> sb_assets b = Some entries \<Longrightarrow> prune_orphans dir specs b = prune_entries dir specs entries b1"
  using assms by (cases f; simp add: prune_orphans_def split: option.split)+

lemma prune_orphans_keeps: "\<not> orphan specs n \<Longrightarrow> asset (snd (prune_orphans dir specs b)) n = asset b n"
proof -
  assume n: "\<not> orphan specs n"
  obtain f b1 where f: "io_fault b = (f, b1)" by (cases "io_fault b")
  have a: "asset b1 n = asset b n" using io_fault_keeps [OF f] by simp
  show ?thesis
  proof (cases "f \<noteq> None \<or> sb_assets b = None")
    case True
    then show ?thesis using a by (simp add: prune_orphans_eq(1) [OF f])
  next
    case False
    then obtain entries where e: "prune_orphans dir specs b = prune_entries dir specs entries b1"
      using prune_orphans_eq(2) [OF f] by blast
    obtain r b' where "prune_entries dir specs entries b1 = (r, b')" by fastforce
    from prune_entries_spec [OF this] n have "asset b' n = asset b1 n" by blast
    then show ?thesis using a \<open>prune_entries dir specs entries b1 = (r, b')\<close> by (simp add: e)
  qed
qed

lemma prune_orphans_removes:
  assumes "sb_faults b = []" and "orphan specs n"
  shows "asset (snd (prune_orphans dir specs b)) n = None"
proof (cases "sb_assets b")
  case None
  then show ?thesis using prune_orphans_eq(1) [OF io_fault_none [OF assms(1)]] by (simp add: asset_None)
next
  case (Some entries)
  obtain r b' where p: "prune_entries dir specs entries b = (r, b')" by fastforce
  have e: "snd (prune_orphans dir specs b) = b'"
    using prune_orphans_eq(2) [OF io_fault_none [OF assms(1)] refl Some] p by simp
  note ps = prune_entries_spec [OF p]
  show ?thesis
  proof (cases "n \<in> fst ` set entries")
    case True
    with ps assms show ?thesis by (metis e)
  next
    case False
    then have "asset b n = None" using Some by (blast intro: asset_None)
    with ps show ?thesis by (metis e)
  qed
qed

text \<open>
  Pruning removes exactly the orphans. A cache file is touched only if its stem is not the
  name of a specified symbol, so the files of every specified symbol and the manifest survive;
  when no removal fails, no such file is left.
\<close>

theorem prune_exact:
  "(\<forall>n. (\<exists>spec \<in> set specs. \<exists>ext \<in> set parts. n = file_of spec ext) \<or> n = manifest_file
        \<longrightarrow> asset (snd (prune_orphans dir specs b)) n = asset b n)
   \<and> (\<forall>n. asset (snd (prune_orphans dir specs b)) n \<noteq> asset b n
        \<longrightarrow> (\<exists>stem. (\<exists>ext \<in> set parts. n = stem @ ''.'' @ ext) \<and> stem \<notin> sy_name ` set specs))
   \<and> (sb_faults b = [] \<longrightarrow> (\<forall>stem. \<forall>ext \<in> set parts. stem \<notin> sy_name ` set specs
        \<longrightarrow> asset (snd (prune_orphans dir specs b)) (stem @ ''.'' @ ext) = None))"
  (is "?kept \<and> ?only \<and> ?all")
proof (intro conjI)
  show ?kept using prune_orphans_keeps spec_file_kept manifest_kept by blast
  show ?only unfolding orphan_iff [symmetric] using prune_orphans_keeps by blast
  have "orphan specs (stem @ ''.'' @ ext)" if "ext \<in> set parts" "stem \<notin> sy_name ` set specs" for stem ext
    unfolding orphan_iff using that by blast
  then show ?all using prune_orphans_removes by blast
qed

definition alpha_spec :: SymbolSpec where
  "alpha_spec = spec_new ''trash''"

theorem prune_exact_witness:
  "asset (snd (prune_orphans ''a'' [alpha_spec]
      \<lparr>sb_out = Map.empty, sb_assets = Some [(''bell.svg'', ''b''), (''trash.svg'', ''t'')], sb_log = [], sb_faults = []\<rparr>))
    ''bell.svg'' = None"
proof -
  let ?b = "\<lparr>sb_out = Map.empty, sb_assets = Some [(''bell.svg'', ''b''), (''trash.svg'', ''t'')], sb_log = [], sb_faults = []\<rparr>"
  have e: "sb_faults ?b = []" "''bell'' \<notin> sy_name ` set [alpha_spec]" "''svg'' \<in> set parts"
    by (simp_all add: alpha_spec_def spec_new_def parts_def)
  have "asset (snd (prune_orphans ''a'' [alpha_spec] ?b)) (''bell'' @ ''.'' @ ''svg'') = None"
    using prune_exact [of "[alpha_spec]" "''a''" ?b] e by blast
  then show ?thesis by simp
qed

section \<open>The manifest, read back\<close>

text \<open>The characters of names: visible ASCII.\<close>

definition graphic :: "char \<Rightarrow> bool" where
  "graphic c \<longleftrightarrow> (let n = (of_char c :: nat) in 33 \<le> n \<and> n \<le> 126)"

definition name_ok :: "string \<Rightarrow> bool" where
  "name_ok n \<longleftrightarrow> n \<noteq> [] \<and> list_all graphic n \<and> \<not> starts_with n ''#'' \<and> \<not> starts_with n ''format=''"

definition spec_ok :: "SymbolSpec \<Rightarrow> bool" where
  "spec_ok spec \<longleftrightarrow> name_ok (sy_name spec) \<and> CHR 0x0A \<notin> set (sy_weight spec)"

lemma not_ws2: "graphic a \<or> graphic b \<Longrightarrow> \<not> ws2 (of_char a) (of_char b)"
  by (auto simp: graphic_def ws2_def Let_def)

lemma not_ws3: "graphic a \<or> graphic c \<Longrightarrow> \<not> ws3 (of_char a) (of_char b) (of_char c)"
  by (auto simp: graphic_def ws3_def Let_def)

lemma not_ascii_ws: "graphic a \<Longrightarrow> \<not> ascii_ws a"
  by (auto simp: graphic_def ascii_ws_def Let_def)

lemma trim_start_graphic: "graphic c \<Longrightarrow> trim_start (c # s) = c # s"
  by (cases "(c # s)" rule: trim_start.cases) (auto simp: not_ws2 not_ws3 not_ascii_ws)

lemma trim_end_graphic: "graphic c \<Longrightarrow> trim_end_rev (c # s) = c # s"
  by (cases "(c # s)" rule: trim_end_rev.cases) (auto simp: not_ws2 not_ws3 not_ascii_ws)

lemma trim_graphic:
  assumes "s \<noteq> []" and "graphic (hd s)" and "graphic (last s)"
  shows "trim s = s"
proof -
  obtain c t where s: "s = c # t" using assms(1) by (cases s) auto
  obtain d u where r: "rev s = d # u" using assms(1) by (cases "rev s") auto
  then have "last s = d" by (metis last_rev list.sel(1) rev_rev_ident hd_rev)
  then have "trim_end_rev (rev s) = rev s" using assms(3) r by (simp add: trim_end_graphic)
  then show ?thesis using assms(2) s by (simp add: trim_def trim_start_graphic)
qed

lemma graphic_digit [simp]: "n < 10 \<Longrightarrow> graphic (digit n)"
  by (simp add: graphic_def digit_def Let_def of_char_of [where ?'a = nat])

lemma dec_graphic: "list_all graphic (dec n)"
proof (induction n rule: dec.induct)
  case (1 n)
  then show ?case by (subst dec.simps) simp
qed

lemma digits4_graphic: "list_all graphic (digits4 n)"
  by (simp add: digits4_def)

lemma format4_graphic: "list_all graphic (fl_format4 x) \<and> fl_format4 x \<noteq> []"
proof -
  have "list_all graphic ''-infNaN.''" by (simp add: graphic_def)
  then show ?thesis by (cases x) (auto simp: Let_def dec_graphic digits4_graphic)
qed

lemma graphic_no_newline: "list_all graphic s \<Longrightarrow> CHR 0x0A \<notin> set s" "list_all graphic s \<Longrightarrow> CHR '' '' \<notin> set s"
  by (auto simp: list_all_iff graphic_def Let_def)

lemma signature_shape:
  assumes "CHR 0x0A \<notin> set (sy_weight spec)"
  shows "CHR 0x0A \<notin> set (spec_signature spec)" and "trim (spec_signature spec) = spec_signature spec"
    and "spec_signature spec \<noteq> []" and "graphic (last (spec_signature spec))"
proof -
  note f = format4_graphic [of "sy_padding spec"]
  show "CHR 0x0A \<notin> set (spec_signature spec)"
    using assms f by (auto simp: spec_signature_def dec_u32_def graphic_no_newline dec_graphic)
  show l: "graphic (last (spec_signature spec))"
    using f by (simp add: spec_signature_def list_all_iff)
  show "spec_signature spec \<noteq> []" by (simp add: spec_signature_def)
  show "trim (spec_signature spec) = spec_signature spec"
    by (rule trim_graphic) (use l in \<open>simp_all add: spec_signature_def graphic_def\<close>)
qed

lemma str_lines_line: "CHR 0x0A \<notin> set l \<Longrightarrow> str_lines (l @ CHR 0x0A # s) = l # str_lines s"
  by (induction l) auto

lemma starts_with_space: "CHR '' '' \<notin> set pat \<Longrightarrow> starts_with (n @ CHR '' '' # s) pat \<longleftrightarrow> starts_with n pat"
proof (induction n arbitrary: pat)
  case Nil
  then show ?case by (cases pat) (auto simp: starts_with_def)
next
  case (Cons c n)
  then show ?case by (cases pat) (auto simp: starts_with_def)
qed

lemma split_once_space: "CHR '' '' \<notin> set n \<Longrightarrow> split_once (n @ CHR '' '' # s) '' '' = Some (n, s)"
  by (induction n) (auto simp: starts_with_def)

lemma strip_prefix_None: "\<not> starts_with s pat \<Longrightarrow> strip_prefix s pat = None"
  by (simp add: strip_prefix_def)

lemma read_entry:
  assumes "name_ok n" and "CHR 0x0A \<notin> set sig" and "sig \<noteq> []" and "trim sig = sig" and "graphic (last sig)"
  shows "read_lines ((n @ CHR '' '' # sig) # ls) fmt m = read_lines ls fmt (m(n \<mapsto> sig))"
proof -
  obtain c t where n: "n = c # t" "graphic c" "c \<noteq> CHR ''#''"
    using assms(1) by (cases n) (auto simp: name_ok_def)
  have t: "trim (n @ CHR '' '' # sig) = n @ CHR '' '' # sig"
    by (rule trim_graphic) (use n assms in auto)
  have "strip_prefix (n @ CHR '' '' # sig) ''format='' = None"
    by (rule strip_prefix_None) (use assms(1) starts_with_space [of "''format=''" n sig] in \<open>simp add: name_ok_def\<close>)
  moreover have "split_once (n @ CHR '' '' # sig) '' '' = Some (n, sig)"
    by (rule split_once_space) (use assms(1) in \<open>simp add: name_ok_def graphic_no_newline\<close>)
  moreover have "\<not> starts_with (n @ CHR '' '' # sig) ''#''" using n by (simp add: starts_with_def)
  ultimately show ?thesis by (simp add: t assms(4) Let_def)
qed

definition entries_of :: "SymbolSpec list \<Rightarrow> (string \<times> string) list" where
  "entries_of specs = map (\<lambda>spec. (sy_name spec, spec_signature spec)) specs"

definition entry_ok :: "string \<times> string \<Rightarrow> bool" where
  "entry_ok e \<longleftrightarrow> name_ok (fst e) \<and> CHR 0x0A \<notin> set (snd e) \<and> snd e \<noteq> [] \<and> trim (snd e) = snd e \<and> graphic (last (snd e))"

lemma entry_ok_spec: "spec_ok spec \<Longrightarrow> entry_ok (sy_name spec, spec_signature spec)"
  using signature_shape [of spec] by (simp add: entry_ok_def spec_ok_def)

lemma read_entries:
  assumes "\<forall>e \<in> set es. entry_ok e"
  shows "read_lines (str_lines (concat (map (\<lambda>(n, sig). n @ '' '' @ sig @ newline) es))) fmt m = Inr (fmt, m ++ map_of (rev es))"
  using assms
proof (induction es arbitrary: m)
  case (Cons e es)
  obtain n sig where e: "e = (n, sig)" by (cases e)
  have ok: "entry_ok (n, sig)" using Cons.prems e by simp
  have nl: "CHR 0x0A \<notin> set (n @ CHR '' '' # sig)"
    using ok graphic_no_newline(1) [of n] by (auto simp: entry_ok_def name_ok_def)
  have "read_lines (str_lines (concat (map (\<lambda>(n, sig). n @ '' '' @ sig @ newline) (e # es)))) fmt m
      = read_lines ((n @ CHR '' '' # sig) # str_lines (concat (map (\<lambda>(n, sig). n @ '' '' @ sig @ newline) es))) fmt m"
    using str_lines_line [OF nl] by (simp add: e newline_def)
  also have "\<dots> = read_lines (str_lines (concat (map (\<lambda>(n, sig). n @ '' '' @ sig @ newline) es))) fmt (m(n \<mapsto> sig))"
    by (rule read_entry) (use ok in \<open>simp_all add: entry_ok_def\<close>)
  finally show ?case using Cons by (simp add: e map_add_assoc [symmetric])
qed simp

lemma map_of_sorted: "distinct (map fst es) \<Longrightarrow> map_of (rev (sort_key fst es)) = map_of es"
proof -
  assume d: "distinct (map fst es)"
  have "distinct (map fst (sort_key fst es))"
    using d by (simp add: distinct_map)
  then have "distinct (map fst (rev (sort_key fst es)))" by (simp add: rev_map [symmetric])
  then show ?thesis using d by (subst map_of_inject_set) auto
qed

lemma read_manifest_text:
  assumes "\<forall>e \<in> set es. entry_ok e" and "distinct (map fst es)"
  shows "parse_manifest (manifest_text es) = Manifest_ok (map_of es)"
proof -
  let ?body = "concat (map (\<lambda>(n, sig). n @ '' '' @ sig @ newline) (sort_key fst es))"
  have two: "char_of (50 :: nat) = CHR ''2''" by code_simp
  have l: "str_lines (manifest_text es) =
      ''# polysym cache manifest - regenerated by POLYSYM_REFRESH=1'' # ''# DO NOT EDIT BY HAND'' # ''format=2'' # str_lines ?body"
    using str_lines_line [of "''# polysym cache manifest - regenerated by POLYSYM_REFRESH=1''"]
      str_lines_line [of "''# DO NOT EDIT BY HAND''"] str_lines_line [of "''format=2''"]
    by (simp add: manifest_text_def newline_def dec_u32_def cache_format_version_def dec.simps digit_def two)
  have t: "trim l = l" if "l \<in> {''# polysym cache manifest - regenerated by POLYSYM_REFRESH=1'', ''# DO NOT EDIT BY HAND'', ''format=2''}" for l
    by (rule trim_graphic) (use that in \<open>auto simp: graphic_def\<close>)
  have "read_lines (str_lines (manifest_text es)) None Map.empty = read_lines (str_lines ?body) (Some 2) Map.empty"
    by (simp add: l t Let_def strip_prefix_def starts_with_def parse_u32_def parse_nat_def digit_value_def)
  then show ?thesis
    using read_entries [of "sort_key fst es"] assms
    by (simp add: parse_manifest_def cache_format_version_def map_of_sorted)
qed

text \<open>
  C39: the manifest is read back. For specifications with distinct names of visible ASCII that do
  not look like a comment or the header, and weights without a newline, the manifest that was
  written is read as exactly the signatures of the specifications.
\<close>

theorem manifest_roundtrip:
  assumes "list_all spec_ok specs" and "distinct (map sy_name specs)"
    and "write_manifest dir (entries_of specs) b = (Inr (), b')" and "sb_faults b' = []"
  shows "fst (read_manifest b') = Manifest_ok (map_of (entries_of specs))"
proof -
  have "asset b' manifest_file = Some (manifest_text (entries_of specs))"
    using assms(3) by (auto simp: write_manifest_def Let_def split: prod.splits option.splits if_splits)
  moreover have "parse_manifest (manifest_text (entries_of specs)) = Manifest_ok (map_of (entries_of specs))"
    by (rule read_manifest_text)
       (use assms(1,2) in \<open>auto simp: entries_of_def list_all_iff entry_ok_spec comp_def\<close>)
  ultimately show ?thesis using assms(4) by (simp add: read_manifest_def)
qed

theorem manifest_roundtrip_witness:
  "fst (read_manifest (snd (write_manifest ''a'' (entries_of [spec_weight ''semi bold'' alpha_spec, spec_new ''bell.slash''])
      \<lparr>sb_out = Map.empty, sb_assets = Some [], sb_log = [], sb_faults = []\<rparr>)))
    = Manifest_ok (map_of (entries_of [spec_weight ''semi bold'' alpha_spec, spec_new ''bell.slash'']))"
proof -
  let ?specs = "[spec_weight ''semi bold'' alpha_spec, spec_new ''bell.slash'']"
  let ?b = "\<lparr>sb_out = Map.empty, sb_assets = Some [], sb_log = [], sb_faults = []\<rparr>"
  have "list_all spec_ok ?specs" "distinct (map sy_name ?specs)"
    by (simp_all add: spec_ok_def name_ok_def spec_weight_def alpha_spec_def spec_new_def graphic_def starts_with_def)
  moreover have "write_manifest ''a'' (entries_of ?specs) ?b = (Inr (), put_asset manifest_file (manifest_text (entries_of ?specs)) ?b)"
    by (simp add: write_manifest_def)
  ultimately show ?thesis using manifest_roundtrip by simp
qed

section \<open>Sizes\<close>

text \<open>What the builder methods maintain: the padding is a number from 0 to the \<open>f32\<close> 0.45.\<close>

definition spec_wf :: "SymbolSpec \<Rightarrow> bool" where
  "spec_wf spec \<longleftrightarrow> (\<exists>x. sy_padding spec = Num x \<and> 0 \<le> x \<and> x \<le> round_rat binary32 (45 / 100))"

lemma default_padding: "fl_of_rat binary32 (3 / 25) = Num (16106127 / 134217728)"
  by code_simp

lemma max_padding: "round_rat binary32 (9 / 20) = 7549747 / 16777216" "fl_of_rat binary32 (9 / 20) = Num (7549747 / 16777216)"
  by code_simp+

lemma clamp_between:
  "padding \<noteq> Not_a_number \<Longrightarrow> \<exists>x. fl_clamp (Num 0) (fl_of_rat binary32 (45 / 100)) padding = Num x
     \<and> 0 \<le> x \<and> x \<le> round_rat binary32 (45 / 100)"
  by (cases padding)
     (auto simp: fl_clamp_def max_padding intro: exI [of _ 0] exI [of _ "7549747 / 16777216"])

text \<open>The three operations of \<open>inner_size\<close>: each rounds by at most half a unit in its last place.\<close>

lemma inner_size_rounds:
  assumes "sy_padding spec = Num x" and "0 \<le> x" and "x \<le> 1 / 2" and "unat (sy_size spec) < 2 ^ 24"
  obtains g where "0 \<le> g" "g \<le> of_nat (unat (sy_size spec))"
    "unat (inner_size spec) = max 1 (nat \<lfloor>g + 1 / 2\<rfloor>)"
    "unat (sy_size spec) < 2 ^ 20 \<Longrightarrow> \<bar>g - of_nat (unat (sy_size spec)) * (1 - 2 * x)\<bar> \<le> 1 / 4"
proof -
  let ?n = "int (unat (sy_size spec))"
  obtain d where d: "fl_of_rat binary32 (2 * x) = Num d" "0 \<le> d" "d \<le> 1"
    using fl_of_rat_between [of 0 "2 * x" 1] assms(2,3) by auto
  obtain f where f: "fl_of_rat binary32 (1 - d) = Num f" "0 \<le> f" "f \<le> 1"
    using fl_of_rat_between [of 0 "1 - d" 1] d by auto
  have lt: "?n < 2 ^ 24" using assms(4) by (simp add: zless_nat_eq_int_zless [symmetric] del: of_nat_unat uint_nat)
  have n: "0 \<le> rat_of_int ?n" "\<bar>rat_of_int ?n\<bar> < 2 ^ 24"
  proof -
    have "\<bar>?n\<bar> < 2 ^ 24" using lt by simp
    then have "rat_of_int \<bar>?n\<bar> < of_int (2 ^ 24)" by (simp only: of_int_less_iff)
    then show "0 \<le> rat_of_int ?n" "\<bar>rat_of_int ?n\<bar> < 2 ^ 24" by (simp_all only: of_int_abs of_int_power of_int_numeral of_int_0_le_iff)
  qed
  obtain m where "fl_of_rat binary32 (of_int ?n) = Num m" "of_int ?n \<le> m" "m \<le> of_int ?n"
    using fl_of_rat_between [OF order_refl order_refl n(2)] by blast
  then have m: "fl_of_u32 binary32 (sy_size spec) = Num (of_int ?n)" by (simp add: fl_of_u32_def)
  have nf: "0 \<le> rat_of_int ?n * f" "rat_of_int ?n * f \<le> of_int ?n"
    by (rule mult_nonneg_nonneg [OF n(1) f(2)], rule mult_left_le [OF f(3) n(1)])
  have "\<bar>rat_of_int ?n * f\<bar> < 2 ^ 24" using n nf by linarith
  then obtain g where g: "fl_of_rat binary32 (of_int ?n * f) = Num g" "0 \<le> g" "g \<le> of_int ?n"
    using fl_of_rat_between [of 0 "of_int ?n * f" ?n] nf by (simp only: of_int_0) blast
  define k where "k = \<lfloor>g + 1 / 2\<rfloor>"
  have "g + 1 / 2 < of_int (?n + 1)" using g(3) by simp
  then have "k < ?n + 1" by (simp only: k_def floor_less_iff)
  moreover have "0 \<le> k" using g(2) by (simp add: k_def)
  ultimately have k: "0 \<le> k" "k \<le> ?n" by simp_all
  have small: "max k 1 < 2 ^ 32" using k(2) lt by simp
  have mx: "fl_max (Num (of_int i)) (Num 1) = Num (of_int (max i 1))" for i
    by (simp add: fl_max_def max_def)
  have "inner_size spec = fl_to_u32 (fl_max (fl_round (Num g)) (Num 1))"
    using assms(1) d(1) f(1) m g(1) by (simp add: inner_size_def fl_sub_def del: fl_round.simps fl_to_u32.simps)
  also have "fl_round (Num g) = Num (of_int k)" using g(2) by (simp add: k_def)
  also have "fl_max (Num (of_int k)) (Num 1) = Num (of_int (max k 1))" by (rule mx)
  also have "fl_to_u32 (Num (of_int (max k 1))) = word_of_int (max k 1)"
    by (rule fl_to_u32_int) (use small in simp_all)
  finally have "unat (inner_size spec) = nat (max k 1)"
    using small by (simp only: unsigned_of_int) (simp add: take_bit_int_eq_self)
  then have inner: "unat (inner_size spec) = max 1 (nat \<lfloor>g + 1 / 2\<rfloor>)" unfolding k_def by linarith
  have err: "\<bar>g - rat_of_int ?n * (1 - 2 * x)\<bar> \<le> 1 / 4" if "unat (sy_size spec) < 2 ^ 20"
  proof -
    have "?n < 2 ^ 20" using that by (simp add: zless_nat_eq_int_zless [symmetric] del: of_nat_unat uint_nat)
    then have "rat_of_int ?n < of_int (2 ^ 20)" by (simp only: of_int_less_iff)
    then have n20: "rat_of_int ?n < 2 ^ 20" by simp
    have e1: "\<bar>d - 2 * x\<bar> \<le> 1 / 16777216"
      using fl_of_rat_error [OF d(1), of 0] assms(2,3) by (simp add: pow2_def)
    have e2: "\<bar>f - (1 - d)\<bar> \<le> 1 / 16777216"
      using fl_of_rat_error [OF f(1), of 0] d(2,3) by (simp add: pow2_def)
    have e3: "\<bar>g - rat_of_int ?n * f\<bar> \<le> 1 / 32"
      using fl_of_rat_error [OF g(1), of 19] nf n20 by (simp add: pow2_def)
    have "\<bar>f - (1 - 2 * x)\<bar> \<le> 1 / 8388608" using e1 e2 by linarith
    then have "\<bar>rat_of_int ?n * (f - (1 - 2 * x))\<bar> \<le> 2 ^ 20 * (1 / 8388608)"
      unfolding abs_mult using n(1) n20 by (intro mult_mono) simp_all
    then have "\<bar>rat_of_int ?n * f - rat_of_int ?n * (1 - 2 * x)\<bar> \<le> 1 / 8" by (simp add: right_diff_distrib)
    then show ?thesis using e3 by linarith
  qed
  show ?thesis by (rule that [OF g(2) _ inner]) (use g(3) err in simp_all)
qed

lemma floor_half_error: "0 \<le> (g :: rat) \<Longrightarrow> \<bar>of_nat (nat \<lfloor>g + 1 / 2\<rfloor>) - g\<bar> \<le> 1 / 2"
proof -
  assume "0 \<le> g"
  then have "0 \<le> \<lfloor>g + 1 / 2\<rfloor>" by simp
  then have "rat_of_nat (nat \<lfloor>g + 1 / 2\<rfloor>) = of_int \<lfloor>g + 1 / 2\<rfloor>" by (metis of_int_of_nat_eq int_nat_eq)
  then show ?thesis by linarith
qed

lemma inner_size_exact:
  assumes "spec_wf spec" and "unat (sy_size spec) < 2 ^ 24"
  obtains x k where "sy_padding spec = Num x" "unat (inner_size spec) = max 1 k" "k \<le> unat (sy_size spec)"
    "unat (sy_size spec) < 2 ^ 20 \<Longrightarrow> \<bar>of_nat k - of_nat (unat (sy_size spec)) * (1 - 2 * x)\<bar> \<le> 3 / 4"
proof -
  obtain x where x: "sy_padding spec = Num x" "0 \<le> x" "x \<le> 1 / 2"
    using assms(1) by (auto simp: spec_wf_def max_padding)
  from inner_size_rounds [OF x assms(2)] obtain g where g: "0 \<le> g" "g \<le> of_nat (unat (sy_size spec))"
    "unat (inner_size spec) = max 1 (nat \<lfloor>g + 1 / 2\<rfloor>)"
    "unat (sy_size spec) < 2 ^ 20 \<Longrightarrow> \<bar>g - of_nat (unat (sy_size spec)) * (1 - 2 * x)\<bar> \<le> 1 / 4" by blast
  have "\<lfloor>g + 1 / 2\<rfloor> \<le> int (unat (sy_size spec))"
  proof -
    have "g + 1 / 2 < of_int (int (unat (sy_size spec)) + 1)" using g(2) by simp
    then show ?thesis by (simp only: floor_less_iff [symmetric])
  qed
  then have k: "nat \<lfloor>g + 1 / 2\<rfloor> \<le> unat (sy_size spec)" by (simp only: nat_le_iff)
  show ?thesis
  proof (rule that [OF x(1) g(3) k])
    assume "unat (sy_size spec) < 2 ^ 20"
    from g(4) [OF this] floor_half_error [OF g(1)]
    show "\<bar>of_nat (nat \<lfloor>g + 1 / 2\<rfloor>) - of_nat (unat (sy_size spec)) * (1 - 2 * x)\<bar> \<le> 3 / 4" by linarith
  qed
qed

text \<open>
  C40: the builder methods make well-formed specifications, and these render to size.
  Whatever is passed, short of NaN, the padding is from 0 to the \<open>f32\<close> nearest 0.45. For sizes
  below \<open>2 ^ 24\<close> the size handed to the renderer is a rounded \<open>k\<close> no larger than the size asked
  for, or 1 if that is 0 (so an empty canvas still renders one point); and for sizes below \<open>2 ^ 20\<close>
  \<open>k\<close> is within three quarters of a point of \<open>size * (1 - 2 * padding)\<close>, the \<open>f32\<close> arithmetic included.
\<close>

theorem specs_well_sized:
  assumes "spec_wf spec" and "padding \<noteq> Not_a_number"
  shows "spec_wf (spec_new name) \<and> spec_wf (spec_size points spec) \<and> spec_wf (spec_weight weight spec)
    \<and> spec_wf (spec_lucide icon spec) \<and> spec_wf (spec_padding padding spec)
    \<and> (unat (sy_size spec) < 2 ^ 24
        \<longrightarrow> (\<exists>x k. sy_padding spec = Num x \<and> unat (inner_size spec) = max 1 k \<and> k \<le> unat (sy_size spec)
           \<and> (unat (sy_size spec) < 2 ^ 20 \<longrightarrow> \<bar>of_nat k - of_nat (unat (sy_size spec)) * (1 - 2 * x)\<bar> \<le> 3 / 4)))"
proof -
  have "spec_wf (spec_new name)"
    by (simp add: spec_wf_def spec_new_def default_padding max_padding) (rule exI [of _ "16106127 / 134217728"], simp)
  moreover have "spec_wf (spec_padding padding spec)"
    using clamp_between [OF assms(2)] by (auto simp: spec_wf_def spec_padding_def)
  moreover have "\<exists>x k. sy_padding spec = Num x \<and> unat (inner_size spec) = max 1 k \<and> k \<le> unat (sy_size spec)
      \<and> (unat (sy_size spec) < 2 ^ 20 \<longrightarrow> \<bar>of_nat k - of_nat (unat (sy_size spec)) * (1 - 2 * x)\<bar> \<le> 3 / 4)"
    if "unat (sy_size spec) < 2 ^ 24"
    using inner_size_exact [OF assms(1) that] by metis
  ultimately show ?thesis
    using assms(1) by (auto simp: spec_wf_def spec_size_def spec_weight_def spec_lucide_def)
qed

theorem specs_well_sized_witness:
  "\<exists>k :: nat. unat (inner_size (spec_padding (Infinite False) (spec_size 20 (spec_new ''trash'')))) = max 1 k
     \<and> \<bar>of_nat k - 20 * (1 - 2 * (7549747 / 16777216 :: rat))\<bar> \<le> 3 / 4"
proof -
  let ?spec = "spec_padding (Infinite False) (spec_size 20 (spec_new ''trash''))"
  have w0: "spec_wf (spec_new ''trash'')"
    by (simp add: spec_wf_def spec_new_def default_padding max_padding) (rule exI [of _ "16106127 / 134217728"], simp)
  have w1: "spec_wf (spec_size 20 (spec_new ''trash''))"
    using specs_well_sized [OF w0, of "Infinite False"] by simp
  have w2: "spec_wf ?spec" using specs_well_sized [OF w1, of "Infinite False"] by simp
  have s: "unat (sy_size ?spec) = 20" "sy_padding ?spec = Num (7549747 / 16777216)"
    by (simp_all add: spec_padding_def spec_size_def fl_clamp_def max_padding)
  have "unat (sy_size ?spec) < 2 ^ 24 \<longrightarrow> (\<exists>x k. sy_padding ?spec = Num x \<and> unat (inner_size ?spec) = max 1 k \<and> k \<le> unat (sy_size ?spec)
      \<and> (unat (sy_size ?spec) < 2 ^ 20 \<longrightarrow> \<bar>of_nat k - of_nat (unat (sy_size ?spec)) * (1 - 2 * x)\<bar> \<le> 3 / 4))"
    using specs_well_sized [OF w2, of "Infinite False"] by simp
  then obtain x k where x: "sy_padding ?spec = Num x" and k: "unat (inner_size ?spec) = max 1 k"
    "\<bar>of_nat k - of_nat 20 * (1 - 2 * x)\<bar> \<le> 3 / 4"
    unfolding s(1) by auto
  have xv: "x = 7549747 / 16777216" using x unfolding s(2) fl.inject by (rule sym)
  have "\<bar>of_nat k - 20 * (1 - 2 * (7549747 / 16777216 :: rat))\<bar> \<le> 3 / 4" using k(2) unfolding xv by simp
  with k(1) show ?thesis by blast
qed

end
