(* ===== verification/SvgTag.thy ===== *)
theory SvgTag
  imports Symbols
begin

text \<open>
  \<open>crates/polysym-build/src/lib.rs\<close>, second part: what is done to the text of an SVG. The black of
  fills and strokes becomes \<open>currentColor\<close>, the fixed size is dropped from the opening tag and the
  view box is fitted to the glyph, whose geometry is read from the JSON that \<open>sfsym info\<close> prints.
\<close>

section \<open>Geometry\<close>

record SymbolInfo =
  natural_width :: fl
  natural_height :: fl
  align_x :: fl
  align_y :: fl
  align_w :: fl
  align_h :: fl

definition section_after :: "string \<Rightarrow> string \<Rightarrow> string option" where
  "section_after json key = map_option snd (split_once json key)"

definition number_char :: "char \<Rightarrow> bool" where
  "number_char c \<longleftrightarrow> is_digit c \<or> c = CHR ''.'' \<or> c = CHR ''-''"

text \<open>\<open>needle\<close> is searched \<open>occurrence + 1\<close> times; the number after it must be followed by something.\<close>

fun extract_number :: "string \<Rightarrow> nat \<Rightarrow> string \<Rightarrow> fl option" where
  "extract_number needle occurrence remaining =
     (case split_once remaining needle of
        None \<Rightarrow> None
      | Some (_, rest) \<Rightarrow>
          (case occurrence of
             0 \<Rightarrow>
               (let trimmed = trim_start rest
                in if dropWhile number_char trimmed = [] then None else parse_f64 (takeWhile number_char trimmed))
           | Suc n \<Rightarrow> extract_number needle n rest))"

definition extract_json_f64 :: "string \<Rightarrow> string \<Rightarrow> nat \<Rightarrow> fl option" where
  "extract_json_f64 json key occurrence = extract_number ([dquote] @ key @ [dquote] @ '' :'') occurrence json"

definition parse_symbol_info :: "string \<Rightarrow> SymbolInfo option" where
  "parse_symbol_info json =
     Option.bind (section_after json ([dquote] @ ''alignmentRect'' @ [dquote])) (\<lambda>ar.
     Option.bind (section_after json ([dquote] @ ''size'' @ [dquote])) (\<lambda>sz.
     Option.bind (extract_json_f64 ar ''width'' 0) (\<lambda>aw.
     Option.bind (extract_json_f64 ar ''height'' 0) (\<lambda>ah.
     Option.bind (extract_json_f64 ar ''x'' 0) (\<lambda>ax.
     Option.bind (extract_json_f64 ar ''y'' 0) (\<lambda>ay.
     Option.bind (extract_json_f64 sz ''width'' 0) (\<lambda>nw.
     Option.bind (extract_json_f64 sz ''height'' 0) (\<lambda>nh.
       Some \<lparr>natural_width = nw, natural_height = nh, align_x = ax, align_y = ay, align_w = aw, align_h = ah\<rparr>))))))))"

definition view_box :: "SymbolSpec \<Rightarrow> SymbolInfo \<Rightarrow> string" where
  "view_box spec info =
     (let add = fl_add binary64; sub = fl_sub binary64; mul = fl_mul binary64; quot = fl_div binary64;
          canvas = fl_of_u32 binary64 (sy_size spec);
          scale = fl_min (quot canvas (natural_width info)) (quot canvas (natural_height info));
          rendered_w = mul (natural_width info) scale; rendered_h = mul (natural_height info) scale;
          off_x = quot (sub canvas rendered_w) (Num 2); off_y = quot (sub canvas rendered_h) (Num 2);
          ar_x = add off_x (mul (align_x info) scale); ar_y = add off_y (mul (align_y info) scale);
          ar_w = mul (align_w info) scale; ar_h = mul (align_h info) scale;
          cx = add ar_x (quot ar_w (Num 2)); cy = add ar_y (quot ar_h (Num 2));
          pad = mul (sy_padding spec) canvas;
          half = fl_max (add (quot ar_h (Num 2)) pad) (quot ar_w (Num 2));
          vx = sub cx half; vy = sub cy half; vsize = mul half (Num 2)
      in fl_format4 vx @ '' '' @ fl_format4 vy @ '' '' @ fl_format4 vsize @ '' '' @ fl_format4 vsize)"

section \<open>Replacement\<close>

text \<open>\<open>str::replace\<close>: non-overlapping occurrences of a non-empty pattern, from the left.\<close>

function str_replace :: "string \<Rightarrow> string \<Rightarrow> string \<Rightarrow> string" where
  "str_replace pat new s =
     (if pat = [] then s
      else (case split_once s pat of None \<Rightarrow> s | Some (u, v) \<Rightarrow> u @ new @ str_replace pat new v))"
  by pat_completeness auto

termination str_replace
  by (relation "measure (\<lambda>(pat, new, s). length s)") (auto dest!: split_once_SomeD)

declare str_replace.simps [simp del]

definition black_attributes :: "(string \<times> string) list" where
  "black_attributes =
     (let d = [dquote]; q = [CHR 0x27]
      in [(''fill='' @ d @ ''#000000'' @ d, ''fill='' @ d @ ''currentColor'' @ d),
          (''fill='' @ d @ ''#000'' @ d, ''fill='' @ d @ ''currentColor'' @ d),
          (''fill='' @ q @ ''#000000'' @ q, ''fill='' @ q @ ''currentColor'' @ q),
          (''fill='' @ q @ ''#000'' @ q, ''fill='' @ q @ ''currentColor'' @ q),
          (''stroke='' @ d @ ''#000000'' @ d, ''stroke='' @ d @ ''currentColor'' @ d),
          (''stroke='' @ d @ ''#000'' @ d, ''stroke='' @ d @ ''currentColor'' @ d),
          (''stroke='' @ q @ ''#000000'' @ q, ''stroke='' @ q @ ''currentColor'' @ q),
          (''stroke='' @ q @ ''#000'' @ q, ''stroke='' @ q @ ''currentColor'' @ q)])"

definition recolor :: "string \<Rightarrow> string" where
  "recolor svg = fold (\<lambda>(pat, new) s. str_replace pat new s) black_attributes svg"

section \<open>The opening tag\<close>

definition find_str :: "string \<Rightarrow> string \<Rightarrow> nat option" where
  "find_str s pat = map_option (\<lambda>(u, v). length u) (split_once s pat)"

definition view_box_prefix :: string where
  "view_box_prefix = '' viewBox='' @ [dquote]"

definition sized_prefixes :: "string list" where
  "sized_prefixes = ['' width='' @ [dquote], '' height='' @ [dquote], view_box_prefix]"

text \<open>\<open>min_by_key\<close> on the positions: the first of the smallest.\<close>

fun min_by_pos :: "(nat \<times> string) list \<Rightarrow> (nat \<times> string) option" where
  "min_by_pos [] = None"
| "min_by_pos (x # xs) =
     (case min_by_pos xs of None \<Rightarrow> Some x | Some y \<Rightarrow> if fst x \<le> fst y then Some x else Some y)"

definition next_attribute :: "string \<Rightarrow> (nat \<times> string) option" where
  "next_attribute s =
     min_by_pos (List.map_filter (\<lambda>prefix. map_option (\<lambda>pos. (pos, prefix)) (find_str s prefix)) sized_prefixes)"

definition after_quote :: "string \<Rightarrow> string" where
  "after_quote s = (case find_str s [dquote] of Some close \<Rightarrow> drop (close + 1) s | None \<Rightarrow> s)"

lemma after_quote_length: "length (after_quote s) \<le> length s"
  by (simp add: after_quote_def split: option.split)

lemma min_by_pos_in: "min_by_pos xs = Some x \<Longrightarrow> x \<in> set xs"
  by (induction xs arbitrary: x) (auto split: option.splits if_splits)

lemma next_attribute_sound:
  assumes "next_attribute s = Some (pos, prefix)"
  shows "prefix \<in> set sized_prefixes \<and> find_str s prefix = Some pos"
  using min_by_pos_in [OF assms [unfolded next_attribute_def]] by (auto simp: map_filter_def)

lemma next_attribute_shorter:
  assumes "next_attribute s = Some (pos, prefix)"
  shows "pos + length prefix \<le> length s" and "0 < length prefix"
proof -
  note n = next_attribute_sound [OF assms]
  then obtain u v where "split_once s prefix = Some (u, v)" "length u = pos" by (auto simp: find_str_def)
  from split_once_SomeD [OF this(1)] this(2) show "pos + length prefix \<le> length s" by simp
  show "0 < length prefix" using n by (auto simp: sized_prefixes_def view_box_prefix_def)
qed

function rewrite_attributes :: "string option \<Rightarrow> string \<Rightarrow> string" where
  "rewrite_attributes viewbox remaining =
     (if remaining = [] then []
      else
        (case next_attribute remaining of
           None \<Rightarrow> remaining
         | Some (pos, prefix) \<Rightarrow>
             (let value_on = drop (pos + length prefix) remaining;
                  original = (if prefix = view_box_prefix then Some (takeWhile (\<lambda>c. c \<noteq> dquote) value_on) else None);
                  written = (if prefix = view_box_prefix
                             then view_box_prefix @ unwrap_or [] (or_else viewbox original) @ [dquote] else [])
              in take pos remaining @ written @ rewrite_attributes viewbox (after_quote value_on))))"
  by pat_completeness auto

termination rewrite_attributes
proof (relation "measure (\<lambda>(viewbox, s). length s)", goal_cases)
  case (2 viewbox remaining x pos prefix)
  have n: "next_attribute remaining = Some (pos, prefix)" using 2 by simp
  have "length (after_quote (drop (pos + length prefix) remaining)) < length remaining"
    using after_quote_length [of "drop (pos + length prefix) remaining"] next_attribute_shorter [OF n]
    by (simp only: length_drop)
  then show ?case using 2 by simp
qed simp

declare rewrite_attributes.simps [simp del]

definition rewrite_svg_tag :: "string \<Rightarrow> SymbolSpec \<Rightarrow> SymbolInfo option \<Rightarrow> string" where
  "rewrite_svg_tag svg spec info =
     (let svg_tag_start = unwrap_or 0 (find_str svg ''<svg'');
          tag_end = (case find_str (drop svg_tag_start svg) ''>'' of None \<Rightarrow> length svg | Some p \<Rightarrow> svg_tag_start + p)
      in rewrite_attributes (map_option (view_box spec) info) (take tag_end svg) @ drop tag_end svg)"

section \<open>One character at a time\<close>

definition match_at :: "string \<Rightarrow> string option" where
  "match_at s = List.find (\<lambda>p. starts_with s p) sized_prefixes"

lemma find_str_simps [simp]:
  "find_str [] pat = None"
  "find_str (c # s) pat = (if starts_with (c # s) pat then Some 0 else map_option Suc (find_str s pat))"
  by (auto simp: find_str_def option.map_comp comp_def split_beta)

lemma find_char: "x \<notin> set u \<Longrightarrow> find_str (u @ x # t) [x] = Some (length u)"
  by (induction u) (auto simp: starts_with_def)

lemma next_attribute_Nil [simp]: "next_attribute [] = None"
  by (simp add: next_attribute_def sized_prefixes_def List.map_filter_simps)

lemma next_attribute_Cons:
  "next_attribute (c # s) =
     (case match_at (c # s) of Some p \<Rightarrow> Some (0, p) | None \<Rightarrow> map_option (apfst Suc) (next_attribute s))"
proof -
  let ?w = "'' width='' @ [dquote]" and ?h = "'' height='' @ [dquote]" and ?v = view_box_prefix
  have excl: "starts_with (c # s) ?w \<Longrightarrow> \<not> starts_with (c # s) ?h \<and> \<not> starts_with (c # s) ?v"
    "starts_with (c # s) ?h \<Longrightarrow> \<not> starts_with (c # s) ?v"
    by (auto simp: starts_with_iff view_box_prefix_def)
  show ?thesis
    unfolding next_attribute_def match_at_def sized_prefixes_def
    by (cases "starts_with (c # s) ?w"; cases "starts_with (c # s) ?h"; cases "starts_with (c # s) ?v";
        cases "find_str s ?w"; cases "find_str s ?h"; cases "find_str s ?v")
       (use excl in \<open>simp_all add: List.map_filter_simps del: append.simps\<close>)
qed

lemma rewrite_Nil [simp]: "rewrite_attributes vb [] = []"
  by (subst rewrite_attributes.simps) simp

lemma rewrite_step:
  assumes "match_at (c # s) = None"
  shows "rewrite_attributes vb (c # s) = c # rewrite_attributes vb s"
proof (cases "s = []")
  case True
  then show ?thesis
    using assms by (subst rewrite_attributes.simps) (simp add: next_attribute_Cons)
next
  case False
  then show ?thesis
    using assms
    by (subst (1 2) rewrite_attributes.simps) (cases "next_attribute s"; auto simp: next_attribute_Cons Let_def)
qed

lemma rewrite_match:
  assumes "match_at (p @ s) = Some p" and "p \<noteq> []"
  shows "rewrite_attributes vb (p @ s) =
    (if p = view_box_prefix then view_box_prefix @ unwrap_or (takeWhile (\<lambda>c. c \<noteq> dquote) s) vb @ [dquote] else [])
    @ rewrite_attributes vb (after_quote s)"
proof -
  obtain c r where p: "p = c # r" using assms(2) by (cases p) auto
  have "next_attribute (p @ s) = Some (0, p)"
    using assms(1) by (simp add: p next_attribute_Cons)
  then show ?thesis
    by (subst rewrite_attributes.simps) (cases vb; simp add: assms(2) Let_def)
qed

text \<open>Text in which no prefix can begin, or none can end, is copied.\<close>

lemma match_at_None: "match_at s = None \<longleftrightarrow> (\<forall>p \<in> set sized_prefixes. \<not> starts_with s p)"
  by (auto simp: match_at_def find_None_iff)

lemma prefix_shape:
  "p \<in> set sized_prefixes \<Longrightarrow> \<exists>name \<in> {''width'', ''height'', ''viewBox''}. p = CHR '' '' # name @ CHR ''='' # [dquote]"
  by (auto simp: sized_prefixes_def view_box_prefix_def)

lemma no_space: "c \<noteq> CHR '' '' \<Longrightarrow> match_at (c # s) = None"
  by (auto simp: match_at_None starts_with_def dest!: prefix_shape)

lemma rewrite_no_space: "CHR '' '' \<notin> set u \<Longrightarrow> rewrite_attributes vb (u @ t) = u @ rewrite_attributes vb t"
  by (induction u) (auto simp: rewrite_step no_space)

lemma ends_with_iff: "ends_with s p \<longleftrightarrow> (\<exists>u. s = u @ p)"
  by (metis ends_with_def rev_append rev_rev_ident starts_with_iff)

lemma starts_with_in: "starts_with s p \<Longrightarrow> set p \<subseteq> set s"
  by (auto simp: starts_with_iff)

lemma rewrite_no_quote: "dquote \<notin> set s \<Longrightarrow> rewrite_attributes vb s = s"
proof (induction s)
  case (Cons c s)
  have "match_at (c # s) = None"
    using Cons.prems starts_with_in [of "c # s"] by (fastforce simp: match_at_None dest!: prefix_shape)
  then show ?case using Cons by (simp add: rewrite_step)
qed simp

lemma starts_with_sep: "x \<notin> set pat \<Longrightarrow> starts_with (n @ x # s) pat \<longleftrightarrow> starts_with n pat"
proof (induction n arbitrary: pat)
  case Nil
  then show ?case by (cases pat) (auto simp: starts_with_def)
next
  case (Cons c n)
  then show ?case by (cases pat) (auto simp: starts_with_def)
qed

definition free_of_sizes :: "string \<Rightarrow> bool" where
  "free_of_sizes s \<longleftrightarrow> (\<forall>p \<in> set sized_prefixes. \<not> contains_sub s p)"

lemma rewrite_lead:
  "free_of_sizes u \<Longrightarrow> rewrite_attributes vb (u @ CHR ''<'' # t) = u @ rewrite_attributes vb (CHR ''<'' # t)"
proof (induction u)
  case (Cons c u)
  have "CHR ''<'' \<notin> set p" if "p \<in> set sized_prefixes" for p using prefix_shape [OF that] by auto
  then have "match_at (c # u @ CHR ''<'' # t) = None"
    using Cons.prems starts_with_sep [of "CHR ''<''" _ "c # u" t] by (auto simp: match_at_None free_of_sizes_def)
  then show ?case using Cons by (simp add: rewrite_step free_of_sizes_def)
qed simp

section \<open>Attribute lists\<close>

type_synonym attribute = "string \<times> string"

definition show_attr :: "attribute \<Rightarrow> string" where
  "show_attr a = CHR '' '' # fst a @ CHR ''='' # dquote # snd a @ [dquote]"

definition show_attrs :: "attribute list \<Rightarrow> string" where
  "show_attrs as = concat (map show_attr as)"

text \<open>Names without blanks, quotes or equals signs; values without quotes that do not end like a size attribute begins.\<close>

definition attr_ok :: "attribute \<Rightarrow> bool" where
  "attr_ok a \<longleftrightarrow>
     set (fst a) \<inter> {CHR '' '', CHR ''='', CHR ''>'', dquote} = {} \<and> set (snd a) \<inter> {CHR ''>'', dquote} = {}
     \<and> (\<forall>p \<in> set sized_prefixes. \<not> ends_with (snd a) (butlast p))"

definition resize_attrs :: "string option \<Rightarrow> attribute list \<Rightarrow> attribute list" where
  "resize_attrs vb as =
     map (\<lambda>(k, v). if k = ''viewBox'' then (k, unwrap_or v vb) else (k, v))
       (filter (\<lambda>(k, v). k \<noteq> ''width'' \<and> k \<noteq> ''height'') as)"

lemma sep_split: "x \<notin> set u \<Longrightarrow> x \<notin> set q \<Longrightarrow> u @ x # t = q @ x # r \<Longrightarrow> u = q \<and> t = r"
proof (induction u arbitrary: q)
  case Nil
  then show ?case by (cases q) auto
next
  case (Cons c u)
  then show ?case by (cases q) auto
qed

lemma rewrite_value:
  assumes "dquote \<notin> set v" and "\<forall>p \<in> set sized_prefixes. \<not> ends_with v (butlast p)"
  shows "rewrite_attributes vb (v @ dquote # t) = v @ rewrite_attributes vb (dquote # t)"
  using assms
proof (induction v)
  case (Cons c v)
  have "match_at (c # v @ dquote # t) = None"
    unfolding match_at_None
  proof (intro ballI notI)
    fix p
    assume p: "p \<in> set sized_prefixes" and "starts_with (c # v @ dquote # t) p"
    then obtain r where r: "c # v @ dquote # t = p @ r" by (auto simp: starts_with_iff)
    obtain q where q: "p = q @ [dquote]" "dquote \<notin> set q" using prefix_shape [OF p] by auto
    have "c # v = q" using sep_split [of dquote "c # v" q t r] Cons.prems(1) q r by simp
    then show False using Cons.prems(2) p q by (auto simp: ends_with_iff)
  qed
  moreover have "\<forall>p \<in> set sized_prefixes. \<not> ends_with v (butlast p)"
  proof (intro ballI notI)
    fix p
    assume p: "p \<in> set sized_prefixes" and "ends_with v (butlast p)"
    then have "ends_with (c # v) (butlast p)"
      by (auto simp: ends_with_iff intro: exI [of _ "c # u" for u])
    then show False using Cons.prems(2) p by blast
  qed
  ultimately show ?case using Cons by (simp add: rewrite_step)
qed simp

lemma starts_with_attr:
  assumes "CHR ''='' \<notin> set k" and "CHR ''='' \<notin> set n"
  shows "starts_with (show_attr (k, v) @ t) (CHR '' '' # n @ CHR ''='' # [dquote]) \<longleftrightarrow> n = k"
proof
  assume "starts_with (show_attr (k, v) @ t) (CHR '' '' # n @ CHR ''='' # [dquote])"
  then obtain r where "k @ CHR ''='' # dquote # v @ dquote # t = n @ CHR ''='' # dquote # r"
    unfolding starts_with_iff show_attr_def by auto
  from sep_split [OF assms this] show "n = k" by simp
qed (simp add: starts_with_iff show_attr_def)

lemma match_attr:
  assumes "attr_ok (k, v)"
  shows "match_at (show_attr (k, v) @ t) =
    (if k \<in> {''width'', ''height'', ''viewBox''} then Some (CHR '' '' # k @ CHR ''='' # [dquote]) else None)"
proof -
  have k: "CHR ''='' \<notin> set k" using assms by (auto simp: attr_ok_def)
  show ?thesis
    using starts_with_attr [OF k, of "''width''" v t] starts_with_attr [OF k, of "''height''" v t]
      starts_with_attr [OF k, of "''viewBox''" v t]
    unfolding match_at_def sized_prefixes_def view_box_prefix_def
    by (cases "k = ''width''"; cases "k = ''height''"; cases "k = ''viewBox''"; simp)
qed

lemma after_value: "dquote \<notin> set v \<Longrightarrow> after_quote (v @ dquote # t) = t"
  by (simp add: after_quote_def find_char)

lemma take_value: "dquote \<notin> set v \<Longrightarrow> takeWhile (\<lambda>c. c \<noteq> dquote) (v @ dquote # t) = v"
  by (induction v) auto

lemma rewrite_size_attr:
  assumes "attr_ok (k, v)" and "k \<in> {''width'', ''height'', ''viewBox''}"
  shows "rewrite_attributes vb (show_attr (k, v) @ t) = show_attrs (resize_attrs vb [(k, v)]) @ rewrite_attributes vb t"
proof -
  let ?p = "CHR '' '' # k @ CHR ''='' # [dquote]"
  have v: "dquote \<notin> set v" using assms(1) by (auto simp: attr_ok_def)
  have "match_at (?p @ v @ dquote # t) = Some ?p"
    using match_attr [OF assms(1), of t] assms(2) by (simp add: show_attr_def)
  from rewrite_match [OF this, of vb]
  have "rewrite_attributes vb (show_attr (k, v) @ t)
      = (if ?p = view_box_prefix then view_box_prefix @ unwrap_or v vb @ [dquote] else []) @ rewrite_attributes vb t"
    by (simp add: show_attr_def after_value [OF v] take_value [OF v])
  moreover have "?p = view_box_prefix \<longleftrightarrow> k = ''viewBox''"
    using sep_split [of "CHR ''=''" k "''viewBox''" "[dquote]" "[dquote]"] assms(1)
    by (auto simp: view_box_prefix_def attr_ok_def)
  ultimately show ?thesis
    using assms(2) by (elim insertE emptyE) (simp_all add: show_attrs_def resize_attrs_def show_attr_def view_box_prefix_def)
qed

lemma rewrite_attr:
  assumes "attr_ok a"
  shows "rewrite_attributes vb (show_attr a @ t) = show_attrs (resize_attrs vb [a]) @ rewrite_attributes vb t"
proof -
  obtain k v where a: "a = (k, v)" by (cases a)
  note m = match_attr [OF assms [unfolded a], of t]
  have v: "dquote \<notin> set v" "\<forall>p \<in> set sized_prefixes. \<not> ends_with v (butlast p)" using assms a by (auto simp: attr_ok_def)
  show ?thesis
  proof (cases "k \<in> {''width'', ''height'', ''viewBox''}")
    case True
    then show ?thesis using rewrite_size_attr assms a by simp
  next
    case False
    have k: "CHR '' '' \<notin> set (k @ CHR ''='' # [dquote])" using assms a by (auto simp: attr_ok_def)
    have "match_at (CHR '' '' # k @ CHR ''='' # dquote # v @ dquote # t) = None"
      using m False by (simp only: if_False show_attr_def fst_conv snd_conv append_Cons append_assoc append_Nil)
    then have "rewrite_attributes vb (show_attr a @ t) = CHR '' '' # rewrite_attributes vb ((k @ CHR ''='' # [dquote]) @ v @ dquote # t)"
      using rewrite_step by (simp add: a show_attr_def)
    also have "\<dots> = CHR '' '' # (k @ CHR ''='' # [dquote]) @ v @ rewrite_attributes vb ([dquote] @ t)"
      by (simp only: rewrite_no_space [OF k] rewrite_value [OF v] append_Cons append_Nil)
    also have "\<dots> = show_attr a @ rewrite_attributes vb t"
      using rewrite_no_space [of "[dquote]" vb t] by (simp add: a show_attr_def)
    finally show ?thesis using False by (simp add: a show_attrs_def resize_attrs_def)
  qed
qed

lemma rewrite_attrs:
  assumes "list_all attr_ok as" and "dquote \<notin> set rest"
  shows "rewrite_attributes vb (show_attrs as @ rest) = show_attrs (resize_attrs vb as) @ rest"
  using assms(1)
proof (induction as)
  case Nil
  then show ?case using assms(2) by (simp add: show_attrs_def resize_attrs_def rewrite_no_quote)
next
  case (Cons a as)
  then show ?case
    using rewrite_attr [of a vb "show_attrs as @ rest"] by (auto simp: show_attrs_def resize_attrs_def)
qed

lemma no_gt_attrs: "list_all attr_ok as \<Longrightarrow> CHR ''>'' \<notin> set (show_attrs as)"
  by (induction as) (auto simp: show_attrs_def show_attr_def attr_ok_def)

lemma find_svg: "\<not> contains_sub u ''<svg'' \<Longrightarrow> find_str (u @ ''<svg'' @ t) ''<svg'' = Some (length u)"
proof (induction u)
  case (Cons c u)
  have "\<not> starts_with (c # u @ CHR ''<'' # ''svg'' @ t) ''<svg''"
    using Cons.prems starts_with_sep [of "CHR ''<''" "''svg''" u "''svg'' @ t"] by auto
  then show ?case using Cons by auto
qed auto

text \<open>
  C38: rewriting the opening tag is rewriting its attributes. On a tag with well-formed
  attributes, the scan over the text gives the tag whose attributes are those of the original, in
  their order, without \<open>width\<close> and \<open>height\<close> and with the fitted view box, when there is one, in
  place of the old; everything before and after the tag is unchanged, and rewriting again without
  a new view box changes nothing.
\<close>

theorem rewrite_svg_tag_attrs:
  assumes "free_of_sizes lead" and "\<not> contains_sub lead ''<svg''" and "list_all attr_ok as"
    and "set rest \<inter> {dquote, CHR ''>''} = {}"
  shows "rewrite_svg_tag (lead @ ''<svg'' @ show_attrs as @ rest @ ''>'' @ body) spec info
      = lead @ ''<svg'' @ show_attrs (resize_attrs (map_option (view_box spec) info) as) @ rest @ ''>'' @ body
    \<and> resize_attrs None (resize_attrs None as) = resize_attrs None as"
proof
  let ?tag = "''svg'' @ show_attrs as @ rest"
  let ?svg = "lead @ ''<svg'' @ show_attrs as @ rest @ ''>'' @ body"
  have s: "find_str ?svg ''<svg'' = Some (length lead)"
    using find_svg [OF assms(2), of "show_attrs as @ rest @ ''>'' @ body"] by simp
  have "CHR ''>'' \<notin> set (CHR ''<'' # ?tag)" using no_gt_attrs [OF assms(3)] assms(4) by auto
  from find_char [OF this, of body]
  have e: "find_str (drop (length lead) ?svg) ''>'' = Some (length (CHR ''<'' # ?tag))" by simp
  let ?L = "lead @ CHR ''<'' # ?tag"
  have svg: "?svg = ?L @ ''>'' @ body" and n: "length lead + length (CHR ''<'' # ?tag) = length ?L" by simp_all
  have cut: "take (length xs) (xs @ ys) = xs" "drop (length xs) (xs @ ys) = ys" for xs ys :: string by simp_all
  have "rewrite_svg_tag ?svg spec info = rewrite_attributes (map_option (view_box spec) info) ?L @ ''>'' @ body"
    by (simp only: rewrite_svg_tag_def Let_def s e unwrap_or_simps option.case n) (simp only: svg cut)
  also have "rewrite_attributes vb (lead @ CHR ''<'' # ?tag) = lead @ ''<svg'' @ show_attrs (resize_attrs vb as) @ rest" for vb
    using rewrite_no_space [of "''<svg''" vb "show_attrs as @ rest"] rewrite_attrs [OF assms(3), of rest vb] assms(4)
    by (simp add: rewrite_lead [OF assms(1)])
  finally show "rewrite_svg_tag ?svg spec info
      = lead @ ''<svg'' @ show_attrs (resize_attrs (map_option (view_box spec) info) as) @ rest @ ''>'' @ body" by simp
  show "resize_attrs None (resize_attrs None as) = resize_attrs None as"
    by (induction as) (auto simp: resize_attrs_def split: if_splits)
qed

theorem rewrite_svg_tag_attrs_witness:
  "rewrite_svg_tag (''<?x?>'' @ ''<svg'' @ show_attrs [(''width'', ''24''), (''fill'', ''none''), (''viewBox'', ''0 0 9 9'')] @ '' /'' @ ''>'' @ [])
      alpha_spec None
    = ''<?x?>'' @ ''<svg'' @ show_attrs [(''fill'', ''none''), (''viewBox'', ''0 0 9 9'')] @ '' /'' @ ''>''"
proof -
  have l: "free_of_sizes ''<?x?>''"
    by (simp add: free_of_sizes_def sized_prefixes_def view_box_prefix_def starts_with_def)
  have c: "\<not> contains_sub ''<?x?>'' ''<svg''" by (simp add: starts_with_def)
  have a: "list_all attr_ok [(''width'', ''24''), (''fill'', ''none''), (''viewBox'', ''0 0 9 9'')]"
    by (simp add: attr_ok_def sized_prefixes_def view_box_prefix_def ends_with_def starts_with_def)
  have r: "set '' /'' \<inter> {dquote, CHR ''>''} = {}" by simp
  show ?thesis using rewrite_svg_tag_attrs [OF l c a r, of "[]" alpha_spec None] by (simp add: resize_attrs_def)
qed

end
