(* ===== verification/SymbolBuild.thy ===== *)
theory SymbolBuild
  imports SvgTag
begin

text \<open>
  \<open>crates/polysym-build/src/lib.rs\<close>, third part: the three tiers. A build runs \<open>sfsym\<close> for every
  symbol, falls back to the committed cache and then to a Lucide icon, mirrors what it rendered
  into the cache when it refreshes, and generates the source that embeds the files. The last
  section is \<open>crates/polysym/src/lib.rs\<close>, the type that source uses. The programs and libraries
  the build calls (\<open>sfsym\<close>, the icon archive, the image codecs, the SVG renderer) are fields of
  the environment.
\<close>

section \<open>Images\<close>

type_synonym u8 = "8 word"

record Image =
  im_width :: u32
  im_height :: u32
  im_pixels :: "(u8 \<times> u8 \<times> u8 \<times> u8) list"

datatype batch_outcome =
    Spawn_failed string
  | Stdin_failed string
  | Stdin_missing
  | Wait_failed string
  | Exited bool string

record ('t, 'p) symbol_env =
  se_out_dir :: "string option"
  se_manifest_dir :: "string option"
  se_refresh :: "string option"
  se_no_sfsym :: bool
  se_home :: "string option"
  se_version_ok :: "string \<Rightarrow> bool"
  se_exists :: "string \<Rightarrow> bool"
  se_batch :: "string \<Rightarrow> string \<Rightarrow> (string \<Rightarrow> string option) \<Rightarrow> batch_outcome \<times> (string \<Rightarrow> string option)"
  se_info :: "string \<Rightarrow> string \<Rightarrow> (bool \<times> string option) option"
  se_icon_names :: "string + string list"
  se_icon :: "string \<Rightarrow> string + string"
  se_open :: "string \<Rightarrow> string + Image"
  se_overlay :: "Image \<Rightarrow> Image \<Rightarrow> u32 \<Rightarrow> u32 \<Rightarrow> Image"
  se_encode :: "Image \<Rightarrow> (string \<times> u8 list) list \<Rightarrow> string + string"
  se_parse_svg :: "string \<Rightarrow> string + 't"
  se_svg_dims :: "'t \<Rightarrow> fl \<times> fl"
  se_pixmap :: "u32 \<Rightarrow> 'p option"
  se_draw :: "'t \<Rightarrow> fl \<Rightarrow> 'p \<Rightarrow> 'p"
  se_encode_pixmap :: "'p \<Rightarrow> string + string"

text \<open>\<open>u32::to_be_bytes\<close>, and the resolution chunk: 5669 pixels per metre both ways.\<close>

definition be_bytes :: "u32 \<Rightarrow> u8 list" where
  "be_bytes w = [ucast (drop_bit 24 w), ucast (drop_bit 16 w), ucast (drop_bit 8 w), ucast w]"

definition phys_2x :: "u8 list" where
  "phys_2x = (let ppm = be_bytes 5669 in [ppm ! 0, ppm ! 1, ppm ! 2, ppm ! 3, ppm ! 0, ppm ! 1, ppm ! 2, ppm ! 3, 1])"

definition write_rgba_png_at_2x :: "('t, 'p) symbol_env \<Rightarrow> string \<Rightarrow> string \<Rightarrow> Image \<Rightarrow> unit build" where
  "write_rgba_png_at_2x env dir file_name img b =
     (case io_fault b of
        (Some e, b') \<Rightarrow> (Inl (''failed to open '' @ path_in dir file_name @ '' for writing: '' @ e), b')
      | (None, b') \<Rightarrow>
          (case se_encode env img [(''pHYs'', phys_2x)] of
             Inl e \<Rightarrow> (Inl (''PNG data for '' @ path_in dir file_name @ '': '' @ e), put_out file_name [] b')
           | Inr png \<Rightarrow> (Inr (), put_out file_name png b')))"

definition open_image :: "('t, 'p) symbol_env \<Rightarrow> string \<Rightarrow> string \<Rightarrow> string \<Rightarrow> Image build" where
  "open_image env dir file_name purpose b =
     (let failed = (\<lambda>e. ''failed to open '' @ path_in dir file_name @ purpose @ e)
      in case (io_fault b, sb_out b file_name) of
           ((Some e, b'), _) \<Rightarrow> (Inl (failed e), b')
         | ((None, b'), None) \<Rightarrow> (Inl (failed no_such_file), b')
         | ((None, b'), Some content) \<Rightarrow> (map_err failed (se_open env content), b'))"

definition blank_image :: "u32 \<Rightarrow> u32 \<Rightarrow> Image" where
  "blank_image w h = \<lparr>im_width = w, im_height = h, im_pixels = replicate (unat w * unat h) (0, 0, 0, 0)\<rparr>"

text \<open>The offsets wrap when the image is larger than the canvas.\<close>

definition apply_padding :: "('t, 'p) symbol_env \<Rightarrow> string \<Rightarrow> string \<Rightarrow> SymbolSpec \<Rightarrow> unit build" where
  "apply_padding env dir file_name spec =
     (let canvas = canvas_px spec; inner = inner_size spec * 2
      in if canvas \<le> inner then returning ()
         else
           and_then (open_image env dir file_name '' for padding: '') (\<lambda>src.
             write_rgba_png_at_2x env dir file_name
               (se_overlay env (blank_image canvas canvas) src ((canvas - im_width src) div 2) ((canvas - im_height src) div 2))))"

text \<open>Without padding the picture is left as the renderer wrote it, resolution chunk included.\<close>

lemma full_bleed_unpadded:
  assumes "sy_padding spec = Num 0" and "1 \<le> unat (sy_size spec)" and "unat (sy_size spec) < 2 ^ 24"
  shows "inner_size spec = sy_size spec" and "apply_padding env dir file_name spec b = (Inr (), b)"
proof -
  define n where "n = int (unat (sy_size spec))"
  have n: "1 \<le> n" "n < 2 ^ 24"
    using assms(2,3) by (simp_all add: n_def zless_nat_eq_int_zless [symmetric] del: of_nat_unat uint_nat)
  have s: "fl_of_u32 binary32 (sy_size spec) = Num (of_int n)"
    using fl_of_rat_int [of n] n by (simp add: fl_of_u32_def n_def)
  have z: "fl_of_rat binary32 0 = Num 0" "fl_of_rat binary32 1 = Num 1" "fl_of_rat binary32 (of_int n) = Num (of_int n)"
    using fl_of_rat_int [of 0] fl_of_rat_int [of 1] fl_of_rat_int [of n] n by simp_all
  have mx: "fl_max (Num (of_int n)) (Num 1) = Num (of_int n)"
    using n by (simp add: fl_max_def)
  have rd: "fl_round (Num (of_int n)) = Num (of_int n)"
  proof -
    have "\<lfloor>rat_of_int n + 1 / 2\<rfloor> = n" by linarith
    then show ?thesis using n by simp
  qed
  have "inner_size spec = fl_to_u32 (Num (of_int n))"
    using assms(1) s z mx rd by (simp add: inner_size_def fl_sub_def del: fl_round.simps fl_to_u32.simps)
  also have "\<dots> = word_of_int n" by (rule fl_to_u32_int) (use n in simp_all)
  also have "\<dots> = sy_size spec" by (simp add: n_def)
  finally show i: "inner_size spec = sy_size spec" .
  show "apply_padding env dir file_name spec b = (Inr (), b)"
    by (simp add: apply_padding_def canvas_px_def i returning_def)
qed

definition invert_pixel :: "u8 \<times> u8 \<times> u8 \<times> u8 \<Rightarrow> u8 \<times> u8 \<times> u8 \<times> u8" where
  "invert_pixel p = (case p of (red, green, blue, alpha) \<Rightarrow> (255 - red, 255 - green, 255 - blue, alpha))"

definition invert_image :: "Image \<Rightarrow> Image" where
  "invert_image img = img\<lparr>im_pixels := map invert_pixel (im_pixels img)\<rparr>"

definition invert_rgb_to :: "('t, 'p) symbol_env \<Rightarrow> string \<Rightarrow> string \<Rightarrow> string \<Rightarrow> unit build" where
  "invert_rgb_to env dir src dst =
     and_then (open_image env dir src '' for inversion: '') (\<lambda>img. write_rgba_png_at_2x env dir dst (invert_image img))"

section \<open>Tier 1: sfsym\<close>

definition find_sfsym :: "('t, 'p) symbol_env \<Rightarrow> string option" where
  "find_sfsym env =
     (if se_no_sfsym env then None
      else
        (case List.find (se_version_ok env) [''sfsym'', ''/usr/local/bin/sfsym'', ''/opt/homebrew/bin/sfsym'', ''/usr/bin/sfsym''] of
           Some candidate \<Rightarrow> Some candidate
         | None \<Rightarrow>
             (case se_home env of
                None \<Rightarrow> None
              | Some home \<Rightarrow>
                  (let local_bin = path_in home ''.local/bin/sfsym'' in if se_exists env local_bin then Some local_bin else None))))"

definition build_png_batch_input :: "SymbolSpec list \<Rightarrow> string \<Rightarrow> string \<Rightarrow> string \<Rightarrow> string \<Rightarrow> string" where
  "build_png_batch_input specs dir variant mode color =
     concat (map (\<lambda>spec.
       sy_name spec @ '' -f png --mode '' @ mode @ '' --size '' @ dec_u32 (inner_size spec) @ '' --weight '' @ sy_weight spec
         @ '' --color '' @ quoted color @ '' -o '' @ path_in dir (file_of spec (variant @ ''.png'')) @ newline) specs)"

definition build_svg_batch_input :: "SymbolSpec list \<Rightarrow> string \<Rightarrow> string" where
  "build_svg_batch_input specs dir =
     concat (map (\<lambda>spec.
       sy_name spec @ '' -f svg --mode monochrome --size '' @ dec_u32 (sy_size spec) @ '' --weight '' @ sy_weight spec
         @ '' --color '' @ quoted ''#000000'' @ '' -o '' @ path_in dir (file_of spec ''svg'') @ newline) specs)"

definition query_symbol_info :: "('t, 'p) symbol_env \<Rightarrow> string \<Rightarrow> string \<Rightarrow> SymbolInfo option" where
  "query_symbol_info env sfsym name =
     (case se_info env sfsym name of
        Some (True, Some json) \<Rightarrow> parse_symbol_info json
      | _ \<Rightarrow> None)"

definition run_batch :: "('t, 'p) symbol_env \<Rightarrow> string \<Rightarrow> string \<Rightarrow> string \<Rightarrow> bool build" where
  "run_batch env sfsym batch_input variant b =
     (case se_batch env sfsym batch_input (sb_out b) of (outcome, files) \<Rightarrow>
        (let b' = b\<lparr>sb_out := files\<rparr>; failed = (\<lambda>msg. and_then (warning msg) (\<lambda>_. returning False) b')
         in case outcome of
              Spawn_failed e \<Rightarrow> failed (''failed to spawn sfsym for '' @ variant @ '' variant: '' @ e)
            | Stdin_failed e \<Rightarrow> failed (''failed to write to sfsym stdin ('' @ variant @ ''): '' @ e)
            | Stdin_missing \<Rightarrow> failed (''could not capture sfsym stdin for '' @ variant)
            | Wait_failed e \<Rightarrow> failed (''sfsym batch ('' @ variant @ '') did not complete: '' @ e)
            | Exited success stderr \<Rightarrow>
                if success then (Inr True, b') else failed (''sfsym batch failed for '' @ variant @ '' variant: '' @ stderr)))"

definition run_sfsym_for_all :: "('t, 'p) symbol_env \<Rightarrow> string \<Rightarrow> SymbolSpec list \<Rightarrow> string \<Rightarrow> string list build" where
  "run_sfsym_for_all env sfsym specs dir =
     and_then (run_batch env sfsym (build_png_batch_input specs dir ''light'' ''monochrome'' ''#000000'') ''light PNG'') (\<lambda>light_ok.
     and_then (run_batch env sfsym (build_svg_batch_input specs dir) ''SVG'') (\<lambda>svg_ok b.
       if \<not> (light_ok \<and> svg_ok) then (Inr [], b)
       else
         (Inr (map sy_name (filter (\<lambda>spec. sb_out b (file_of spec ''light.png'') \<noteq> None \<and> sb_out b (file_of spec ''svg'') \<noteq> None) specs)),
          b)))"

definition apply_svg_postprocess :: "string \<Rightarrow> SymbolSpec \<Rightarrow> SymbolInfo option \<Rightarrow> unit build" where
  "apply_svg_postprocess dir spec info b =
     (let file_name = file_of spec ''svg''; unread = (\<lambda>e. ''failed to read SVG '' @ path_in dir file_name @ '': '' @ e)
      in case (io_fault b, sb_out b file_name) of
           ((Some e, b'), _) \<Rightarrow> (Inl (unread e), b')
         | ((None, b'), None) \<Rightarrow> (Inl (unread no_such_file), b')
         | ((None, b'), Some svg) \<Rightarrow>
             write_out file_name (\<lambda>e. ''failed to write SVG '' @ path_in dir file_name @ '': '' @ e)
               (rewrite_svg_tag (recolor svg) spec info) b')"

definition finalize_sfsym_assets :: "('t, 'p) symbol_env \<Rightarrow> string \<Rightarrow> SymbolSpec \<Rightarrow> string \<Rightarrow> unit build" where
  "finalize_sfsym_assets env dir spec sfsym =
     and_then (apply_padding env dir (file_of spec ''light.png'') spec) (\<lambda>_.
     and_then (invert_rgb_to env dir (file_of spec ''light.png'') (file_of spec ''dark.png'')) (\<lambda>_.
       apply_svg_postprocess dir spec (query_symbol_info env sfsym (sy_name spec))))"

section \<open>Tier 3: Lucide\<close>

definition rasterize_svg_to_png :: "('t, 'p) symbol_env \<Rightarrow> string \<Rightarrow> SymbolSpec \<Rightarrow> string + string" where
  "rasterize_svg_to_png env svg spec =
     (let named = (\<lambda>what. ''polysym: failed to '' @ what @ '' for '' @ quoted (sy_name spec))
      in case se_parse_svg env svg of
           Inl e \<Rightarrow> Inl (named ''parse Lucide SVG'' @ '': '' @ e)
         | Inr tree \<Rightarrow>
             (let inner_px = inner_size spec * 2
              in case se_pixmap env inner_px of
                   None \<Rightarrow> Inl (named ''allocate pixmap'')
                 | Some pixmap \<Rightarrow>
                     (case se_svg_dims env tree of (w, h) \<Rightarrow>
                        (let scale = fl_div binary32 (fl_of_u32 binary32 inner_px) (fl_max w h)
                         in map_err (\<lambda>e. named ''encode Lucide PNG'' @ '': '' @ e)
                              (se_encode_pixmap env (se_draw env tree scale pixmap))))))"

definition write_lucide_variant :: "('t, 'p) symbol_env \<Rightarrow> string \<Rightarrow> string \<Rightarrow> SymbolSpec \<Rightarrow> string \<times> string \<Rightarrow> unit build" where
  "write_lucide_variant env dir svg spec v =
     (case v of (variant, color) \<Rightarrow>
        (let file_name = file_of spec (variant @ ''.png'')
         in and_then (\<lambda>b. (rasterize_svg_to_png env (str_replace ''currentColor'' color svg) spec, b)) (\<lambda>png.
            and_then (write_out file_name (\<lambda>e. ''polysym: failed to write Lucide PNG '' @ path_in dir file_name @ '': '' @ e) png) (\<lambda>_.
              apply_padding env dir file_name spec))))"

definition write_lucide_assets :: "('t, 'p) symbol_env \<Rightarrow> string \<Rightarrow> string \<Rightarrow> SymbolSpec \<Rightarrow> unit build" where
  "write_lucide_assets env dir svg spec =
     and_then (write_out (file_of spec ''svg'')
       (\<lambda>e. ''polysym: failed to write Lucide SVG '' @ path_in dir (file_of spec ''svg'') @ '': '' @ e) (rewrite_svg_tag svg spec None)) (\<lambda>_.
     and_then (write_lucide_variant env dir svg spec (''light'', ''#000000'')) (\<lambda>_.
       write_lucide_variant env dir svg spec (''dark'', ''#ffffff'')))"

section \<open>The generated source\<close>

datatype SymbolResolution = Sf | Cached | Lucide | Missing

definition symbol_to_method_name :: "string \<Rightarrow> string" where
  "symbol_to_method_name name = map (\<lambda>c. if c = CHR ''.'' \<or> c = CHR ''-'' then CHR ''_'' else c) name"

text \<open>Different symbols can have one method name.\<close>

lemma method_names_collide: "symbol_to_method_name ''a.b'' = symbol_to_method_name ''a-b''"
  by (simp add: symbol_to_method_name_def)

text \<open>\<open>{:?}\<close> of a string; characters outside ASCII are taken to be printable.\<close>

definition hex_digit :: "nat \<Rightarrow> char" where
  "hex_digit n = (if n < 10 then digit n else char_of (87 + n))"

definition debug_char :: "char \<Rightarrow> string" where
  "debug_char c =
     (let n = (of_char c :: nat); esc = (\<lambda>d. [CHR 0x5C, d])
      in if c = dquote \<or> c = CHR 0x5C then esc c
         else if n = 9 then esc (CHR ''t'') else if n = 10 then esc (CHR ''n'')
         else if n = 13 then esc (CHR ''r'') else if n = 0 then esc (CHR ''0'')
         else if n < 32 \<or> n = 127 then
           esc (CHR ''u'') @ ''{'' @ (if n < 16 then [] else [hex_digit (n div 16)]) @ [hex_digit (n mod 16)] @ ''}''
         else [c])"

definition debug_str :: "string \<Rightarrow> string" where
  "debug_str s = [dquote] @ concat (map debug_char s) @ [dquote]"

definition line :: "string \<Rightarrow> string" where
  "line s = s @ newline"

definition symbol_methods :: "string \<Rightarrow> SymbolSpec \<Rightarrow> string" where
  "symbol_methods dir spec =
     (let method = symbol_to_method_name (sy_name spec); path = (\<lambda>ext. debug_str (path_in dir (file_of spec ext)))
      in line (''    pub fn '' @ method @ ''() -> ::polysym::SfImage {'')
         @ line ''        ::polysym::SfImage::new(''
         @ line (''            include_bytes!('' @ path ''light.png'' @ ''),'')
         @ line (''            include_bytes!('' @ path ''dark.png'' @ ''),'')
         @ line ''        )''
         @ line (''    }'' @ newline)
         @ line (''    /// SVG for `'' @ sy_name spec @ ''` with `currentColor` fill '' @ map char_of [226, 128, 148 :: nat]
                  @ '' style via CSS `color`.'')
         @ line (''    pub fn '' @ method @ ''_svg() -> &'' @ [CHR 0x27] @ ''static str {'')
         @ line (''        include_str!('' @ path ''svg'' @ '')'')
         @ line (''    }'' @ newline))"

definition lookup_arm :: "string \<Rightarrow> SymbolSpec \<Rightarrow> string" where
  "lookup_arm ending spec =
     line (''            '' @ debug_str (sy_name spec) @ '' => Some(Self::'' @ symbol_to_method_name (sy_name spec) @ ending @ ''()),'')"

definition no_arm :: string where
  "no_arm = line ''            _ => None,'' @ line ''        }'' @ line ''    }''"

definition resolved_specs :: "(SymbolSpec \<times> SymbolResolution) list \<Rightarrow> SymbolSpec list" where
  "resolved_specs resolutions = map fst (filter (\<lambda>(spec, res). res \<noteq> Missing) resolutions)"

definition build_generated_source :: "(SymbolSpec \<times> SymbolResolution) list \<Rightarrow> string \<Rightarrow> string" where
  "build_generated_source resolutions dir =
     (let resolved = resolved_specs resolutions; q = [dquote]
      in line ''// Auto-generated by polysym-build. Do not edit.'' @ line ''#[allow(dead_code)]'' @ line (''pub struct SfIcons;'' @ newline)
         @ line ''#[allow(dead_code)]'' @ line ''impl SfIcons {''
         @ concat (map (symbol_methods dir) resolved)
         @ line (''    /// Look up a symbol'' @ [CHR 0x27] @ ''s PNG pair by SF Symbol name (e.g. `'' @ q @ ''trash'' @ q @ ''`).'')
         @ line ''/// Returns `None` if the name was not included in the build manifest''
         @ line ''/// or had no available asset (sfsym, cache, or Lucide).''
         @ line ''pub fn get(name: &str) -> Option<::polysym::SfImage> {'' @ line ''match name {''
         @ concat (map (lookup_arm []) resolved) @ no_arm @ newline
         @ line (''    /// Look up a symbol'' @ [CHR 0x27] @ ''s SVG string by SF Symbol name (e.g. `'' @ q @ ''trash'' @ q @ ''`).'')
         @ line ''/// Returns `None` if the name was not included in the build manifest''
         @ line ''/// or had no available asset (sfsym, cache, or Lucide).''
         @ line (''/// The SVG uses `currentColor` fill '' @ map char_of [226, 128, 148 :: nat] @ '' set the CSS `color` property to tint it.'')
         @ line (''pub fn get_svg(name: &str) -> Option<&'' @ [CHR 0x27] @ ''static str> {'') @ line ''match name {''
         @ concat (map (lookup_arm ''_svg'') resolved) @ no_arm
         @ line ''}'')"

section \<open>The build\<close>

definition invalid_icons :: "string list \<Rightarrow> SymbolSpec list \<Rightarrow> (SymbolSpec \<times> string) list" where
  "invalid_icons valid specs =
     List.map_filter (\<lambda>spec. case sy_lucide spec of
       Some icon \<Rightarrow> if icon \<in> set valid then None else Some (spec, icon) | None \<Rightarrow> None) specs"

fun say_all :: "string list \<Rightarrow> unit build" where
  "say_all [] b = (Inr (), b)"
| "say_all (l # ls) b = and_then (say l) (\<lambda>_. say_all ls) b"

definition invalid_icon_error :: "SymbolSpec \<times> string \<Rightarrow> string" where
  "invalid_icon_error bad =
     (case bad of (spec, icon) \<Rightarrow>
        ''cargo::error=polysym: '' @ quoted icon @ '' is not a valid Lucide icon name (configured as fallback for SF symbol ''
          @ quoted (sy_name spec) @ ''). Run `lucide-svg-rs list` to see available names.'')"

definition manifest_warning :: "ManifestStatus \<Rightarrow> bool \<Rightarrow> string option" where
  "manifest_warning status populated =
     (case status of
        Manifest_outdated found \<Rightarrow>
          Some (''cache manifest format is v'' @ dec_u32 found @ '', polysym-build expects v'' @ dec_u32 cache_format_version @ before_commit)
      | Manifest_malformed msg \<Rightarrow> Some (''cache manifest is malformed ('' @ msg @ '')'' @ before_commit)
      | Manifest_missing \<Rightarrow>
          if populated then Some ''cache has no manifest yet - run scripts/polysym-refresh.sh once to track configuration'' else None
      | Manifest_ok _ \<Rightarrow> None)"

definition assets_populated :: "Build \<Rightarrow> bool \<times> Build" where
  "assets_populated b =
     (case sb_assets b of
        None \<Rightarrow> (False, b)
      | Some entries \<Rightarrow> (case io_fault b of (Some _, b') \<Rightarrow> (False, b') | (None, b') \<Rightarrow> (entries \<noteq> [], b')))"

text \<open>The second and third tier, and no tier at all.\<close>

type_synonym resolved = "SymbolResolution \<times> (string \<times> string) list"

definition use_cached :: "bool \<Rightarrow> (string \<Rightarrow> string option) option \<Rightarrow> SymbolSpec \<Rightarrow> resolved build" where
  "use_cached sfsym_available manifest spec =
     and_then (if sfsym_available then
                 warning (quoted (sy_name spec)
                   @ '' fell back to committed cache - sfsym was available but did not produce output for this symbol'')
               else returning ()) (\<lambda>_.
     and_then (check_committed_asset spec manifest sfsym_available) (\<lambda>_. returning (Cached, [])))"

definition use_lucide :: "('t, 'p) symbol_env \<Rightarrow> string \<Rightarrow> SymbolSpec \<Rightarrow> string \<Rightarrow> resolved build" where
  "use_lucide env out_dir spec icon =
     and_then (panic_unless (\<lambda>e. ''polysym: failed to load Lucide fallback '' @ quoted icon @ '' for symbol ''
                 @ quoted (sy_name spec) @ '': '' @ e) (se_icon env icon)) (\<lambda>svg.
     and_then (write_lucide_assets env out_dir svg spec) (\<lambda>_.
     and_then (warning (quoted (sy_name spec) @ '' using Lucide fallback '' @ quoted icon)) (\<lambda>_. returning (Lucide, []))))"

definition omit_symbol :: "SymbolSpec \<Rightarrow> resolved build" where
  "omit_symbol spec =
     and_then (warning (quoted (sy_name spec) @ '' has no committed asset and no .lucide() fallback - omitted from SfIcons''
         @ '' (will return None at runtime). Add .lucide('' @ [dquote] @ ''name'' @ [dquote]
         @ '') to its SymbolSpec for cross-platform graceful degradation.'')) (\<lambda>_. returning (Missing, []))"

definition resolve_fallback :: "('t, 'p) symbol_env \<Rightarrow> string \<Rightarrow> string \<Rightarrow> bool
    \<Rightarrow> (string \<Rightarrow> string option) option \<Rightarrow> SymbolSpec \<Rightarrow> resolved build" where
  "resolve_fallback env out_dir dir sfsym_available manifest spec =
     and_then (try_copy_from_assets out_dir dir spec) (\<lambda>copied.
       if copied then use_cached sfsym_available manifest spec
       else (case sy_lucide spec of Some icon \<Rightarrow> use_lucide env out_dir spec icon | None \<Rightarrow> omit_symbol spec))"

text \<open>One symbol: its tier, and its line of the new manifest when it was rendered during a refresh.\<close>

definition resolve_symbol :: "('t, 'p) symbol_env \<Rightarrow> string \<Rightarrow> string \<Rightarrow> bool \<Rightarrow> string option \<Rightarrow> string list
    \<Rightarrow> (string \<Rightarrow> string option) option \<Rightarrow> SymbolSpec \<Rightarrow> resolved build" where
  "resolve_symbol env out_dir dir refresh sfsym succeeded manifest spec b =
     (case sfsym of
        Some program \<Rightarrow>
          if sy_name spec \<in> set succeeded then
            and_then (finalize_sfsym_assets env out_dir spec program) (\<lambda>_.
              if refresh then
                and_then (copy_to_assets_dir out_dir dir spec) (\<lambda>_. returning (Sf, [(sy_name spec, spec_signature spec)]))
              else and_then (check_committed_asset spec manifest True) (\<lambda>_. returning (Sf, []))) b
          else resolve_fallback env out_dir dir True manifest spec b
      | None \<Rightarrow> resolve_fallback env out_dir dir False manifest spec b)"

fun resolve_all :: "('t, 'p) symbol_env \<Rightarrow> string \<Rightarrow> string \<Rightarrow> bool \<Rightarrow> string option \<Rightarrow> string list
    \<Rightarrow> (string \<Rightarrow> string option) option \<Rightarrow> SymbolSpec list
    \<Rightarrow> ((SymbolSpec \<times> SymbolResolution) list \<times> (string \<times> string) list) build" where
  "resolve_all env out_dir dir refresh sfsym succeeded manifest [] b = (Inr ([], []), b)"
| "resolve_all env out_dir dir refresh sfsym succeeded manifest (spec # specs) b =
     and_then (resolve_symbol env out_dir dir refresh sfsym succeeded manifest spec) (\<lambda>(res, entries).
     and_then (resolve_all env out_dir dir refresh sfsym succeeded manifest specs) (\<lambda>(rest, more_entries).
       returning ((spec, res) # rest, entries @ more_entries))) b"

definition finish_refresh :: "string \<Rightarrow> SymbolSpec list \<Rightarrow> bool \<Rightarrow> (string \<times> string) list \<Rightarrow> unit build" where
  "finish_refresh dir specs refresh entries =
     (if refresh then
        and_then (prune_orphans dir specs) (\<lambda>_. if entries \<noteq> [] then write_manifest dir entries else returning ())
      else returning ())"

definition refresh_requested :: "('t, 'p) symbol_env \<Rightarrow> bool" where
  "refresh_requested env =
     (case se_refresh env of None \<Rightarrow> False | Some v \<Rightarrow> v \<noteq> [] \<and> v \<noteq> ''0'')"

definition rerun_lines :: "string \<Rightarrow> string list" where
  "rerun_lines dir =
     [''cargo::rerun-if-changed=build.rs'', ''cargo::rerun-if-env-changed=POLYSYM_REFRESH'',
      ''cargo::rerun-if-env-changed=POLYSYM_NO_SFSYM'', ''cargo::rerun-if-changed='' @ dir]"

definition render_all :: "('t, 'p) symbol_env \<Rightarrow> string \<Rightarrow> SymbolSpec list \<Rightarrow> string list build" where
  "render_all env out_dir specs =
     (case find_sfsym env of Some program \<Rightarrow> run_sfsym_for_all env program specs out_dir | None \<Rightarrow> returning [])"

text \<open>The entries of a usable manifest; whatever else was found is warned of once.\<close>

definition cache_manifest :: "bool \<Rightarrow> bool \<Rightarrow> (string \<Rightarrow> string option) option build" where
  "cache_manifest refresh sfsym_available b =
     (case read_manifest b of (status, b1) \<Rightarrow>
      (case assets_populated b1 of (populated, b2) \<Rightarrow>
        and_then (case (if \<not> refresh \<and> sfsym_available then manifest_warning status populated else None) of
                    Some msg \<Rightarrow> warning msg | None \<Rightarrow> returning ())
          (\<lambda>_. returning (case status of Manifest_ok entries \<Rightarrow> Some entries | _ \<Rightarrow> None)) b2))"

definition generate_in :: "('t, 'p) symbol_env \<Rightarrow> string \<Rightarrow> string \<Rightarrow> string list \<Rightarrow> SymbolSpec list
    \<Rightarrow> (SymbolSpec \<times> SymbolResolution) list build" where
  "generate_in env out_dir dir valid specs =
     (let bad = invalid_icons valid specs; sfsym = find_sfsym env; refresh = refresh_requested env
      in and_then (say_all (map invalid_icon_error bad)) (\<lambda>_.
         if bad \<noteq> [] then
           (\<lambda>b. (Inl ''polysym: one or more .lucide() fallback names are invalid; see cargo errors above'', b))
         else
           and_then (render_all env out_dir specs) (\<lambda>succeeded.
           and_then (cache_manifest refresh (sfsym \<noteq> None)) (\<lambda>manifest.
           and_then (resolve_all env out_dir dir refresh sfsym succeeded manifest specs) (\<lambda>(resolutions, entries).
           and_then (finish_refresh dir specs refresh entries) (\<lambda>_. returning resolutions))))))"

text \<open>\<open>generate_with_opts\<close> returns the text of \<open>polysym_generated.rs\<close>, which it writes beside the output directory.\<close>

definition generate_with_opts :: "('t, 'p) symbol_env \<Rightarrow> SymbolSpec list \<Rightarrow> string build" where
  "generate_with_opts env specs b =
     (case se_out_dir env of
        None \<Rightarrow> (Inl ''OUT_DIR not set: NotPresent'', b)
      | Some cargo_out \<Rightarrow>
          (let out_dir = path_in cargo_out ''polysym''
           in case io_fault b of
                (Some e, b') \<Rightarrow> (Inl (''failed to create polysym output dir: '' @ e), b')
              | (None, b') \<Rightarrow>
                  (case se_manifest_dir env of
                     None \<Rightarrow> (Inl ''CARGO_MANIFEST_DIR not set: NotPresent'', b')
                   | Some manifest_dir \<Rightarrow>
                       (let dir = path_in manifest_dir ''polysym-assets''
                        in and_then (say_all (rerun_lines dir)) (\<lambda>_.
                           and_then (panic_unless (\<lambda>e. ''failed to list bundled Lucide icons: '' @ e) (se_icon_names env)) (\<lambda>valid.
                           and_then (generate_in env out_dir dir valid specs) (\<lambda>resolutions b''.
                             (case io_fault b'' of
                                (Some e, b3) \<Rightarrow> (Inl (''failed to write polysym_generated.rs: '' @ e), b3)
                              | (None, b3) \<Rightarrow> (Inr (build_generated_source resolutions out_dir), b3))))) b'))))"

definition generate :: "('t, 'p) symbol_env \<Rightarrow> string list \<Rightarrow> string build" where
  "generate env symbols = generate_with_opts env (map spec_new symbols)"

section \<open>The images at run time\<close>

record SfImage =
  sf_light :: string
  sf_dark :: string

definition bytes_for :: "bool \<Rightarrow> SfImage \<Rightarrow> string" where
  "bytes_for dark_mode img = (if dark_mode then sf_dark img else sf_light img)"

text \<open>\<open>defaults read\<close>: on macOS whether it could be run and succeeded.\<close>

definition is_dark_mode :: "bool \<Rightarrow> bool option \<Rightarrow> bool" where
  "is_dark_mode macos defaults = (macos \<and> unwrap_or False defaults)"

definition image_bytes :: "bool \<Rightarrow> bool option \<Rightarrow> SfImage \<Rightarrow> string" where
  "image_bytes macos defaults = bytes_for (is_dark_mode macos defaults)"

definition to_tauri_image_for :: "(string \<Rightarrow> 'e + 'i) \<Rightarrow> bool \<Rightarrow> SfImage \<Rightarrow> 'e + 'i" where
  "to_tauri_image_for from_bytes dark_mode img = from_bytes (bytes_for dark_mode img)"

text \<open>\<open>suppressed\<close>: on Windows without the feature \<open>windows_menu_icons\<close>.\<close>

definition menu_png_bytes_for :: "bool \<Rightarrow> bool \<Rightarrow> SfImage \<Rightarrow> string option" where
  "menu_png_bytes_for suppressed dark_mode img = (if suppressed then None else Some (bytes_for dark_mode img))"

definition to_tauri_menu_image_for :: "bool \<Rightarrow> (string \<Rightarrow> 'e + 'i) \<Rightarrow> bool \<Rightarrow> SfImage \<Rightarrow> 'e + 'i option" where
  "to_tauri_menu_image_for suppressed from_bytes dark_mode img =
     (if suppressed then Inr None else map_sum id Some (to_tauri_image_for from_bytes dark_mode img))"

definition to_tauri_image :: "bool \<Rightarrow> bool option \<Rightarrow> (string \<Rightarrow> 'e + 'i) \<Rightarrow> SfImage \<Rightarrow> 'e + 'i" where
  "to_tauri_image macos defaults from_bytes img = from_bytes (image_bytes macos defaults img)"

definition to_tauri_menu_image :: "bool \<Rightarrow> bool \<Rightarrow> bool option \<Rightarrow> (string \<Rightarrow> 'e + 'i) \<Rightarrow> SfImage \<Rightarrow> 'e + 'i option" where
  "to_tauri_menu_image suppressed macos defaults from_bytes img =
     to_tauri_menu_image_for suppressed from_bytes (is_dark_mode macos defaults) img"

end
