(* ===== verification/SymbolCache.thy ===== *)
theory SymbolCache
  imports SymbolBuild
begin

text \<open>
  What a build of \<open>polysym-build\<close> guarantees: the files the generated source embeds exist, a
  refreshed cache replaces the renderer on other machines, and what the build takes for the
  output of \<open>sfsym\<close>.
\<close>

section \<open>What the steps touch\<close>

lemma and_thenE:
  assumes "and_then m f b = (Inr c, b'')"
  obtains a b' where "m b = (Inr a, b')" "f a b' = (Inr c, b'')"
  using assms by (auto simp: and_then_def split: prod.splits sum.splits)

lemma returningE: "returning a b = (Inr c, b') \<Longrightarrow> c = a \<and> b' = b"
  by (simp add: returning_def)

definition files :: "SymbolSpec \<Rightarrow> string set" where
  "files spec = file_of spec ` set parts"

text \<open>Only the output files of \<open>N\<close> change, none disappears, the cache stays, and no fault appears.\<close>

definition only_out :: "string set \<Rightarrow> Build \<Rightarrow> Build \<Rightarrow> bool" where
  "only_out N b b' \<longleftrightarrow>
     (\<forall>n. n \<notin> N \<longrightarrow> sb_out b' n = sb_out b n) \<and> (\<forall>n. sb_out b n \<noteq> None \<longrightarrow> sb_out b' n \<noteq> None)
     \<and> sb_assets b' = sb_assets b \<and> (sb_faults b = [] \<longrightarrow> sb_faults b' = [])"

lemma only_out_refl [simp]: "only_out N b b"
  by (simp add: only_out_def)

lemma only_out_trans: "only_out N b b' \<Longrightarrow> only_out N b' b'' \<Longrightarrow> only_out N b b''"
  by (simp add: only_out_def)

lemma only_out_mono: "only_out M b b' \<Longrightarrow> M \<subseteq> N \<Longrightarrow> only_out N b b'"
  by (auto simp: only_out_def)

lemma only_out_grows: "only_out N b b' \<Longrightarrow> sb_out b n \<noteq> None \<Longrightarrow> sb_out b' n \<noteq> None"
  by (simp add: only_out_def)

lemma only_out_asset: "only_out N b b' \<Longrightarrow> asset b' = asset b"
  by (simp add: only_out_def asset_def fun_eq_iff)

lemma only_out_same: "only_out N b b' \<Longrightarrow> n \<notin> N \<Longrightarrow> sb_out b' n = sb_out b n"
  by (simp add: only_out_def)

lemma io_fault_only_out: "io_fault b = (f, b') \<Longrightarrow> only_out N b b'"
  by (auto simp: io_fault_def only_out_def split: prod.splits)

lemma put_out_only: "n \<in> N \<Longrightarrow> only_out N b b' \<Longrightarrow> only_out N b (put_out n c b')"
  by (auto simp: only_out_def)

lemma warning_only_out: "warning msg b = (r, b') \<Longrightarrow> r = Inr () \<and> only_out N b b'"
  by (auto simp: warning_def say_def only_out_def)

lemma file_of_files [simp]: "ext \<in> set parts \<Longrightarrow> file_of spec ext \<in> files spec"
  by (simp add: files_def)

lemma parts_in [simp]: "''light.png'' \<in> set parts" "''dark.png'' \<in> set parts" "''svg'' \<in> set parts"
  by (simp_all add: parts_def)

lemma file_of_inj: "ext \<in> set parts \<Longrightarrow> ext' \<in> set parts \<Longrightarrow> file_of s ext = file_of t ext' \<longleftrightarrow> sy_name s = sy_name t \<and> ext = ext'"
proof -
  assume e: "ext \<in> set parts" "ext' \<in> set parts"
  have "cache_stem (file_of s ext) = Some (sy_name s)" "cache_stem (file_of t ext') = Some (sy_name t)"
    using e by (auto simp: cache_stem_iff file_of_def)
  then show ?thesis by (auto simp: file_of_def)
qed

lemma files_disjoint: "sy_name s \<noteq> sy_name t \<Longrightarrow> files s \<inter> files t = {}"
  by (auto simp: files_def file_of_inj)

lemma manifest_not_file: "manifest_file \<notin> files s"
proof
  assume "manifest_file \<in> files s"
  then obtain ext where "ext \<in> set parts" "manifest_file = file_of s ext" by (auto simp: files_def)
  then have "cache_stem manifest_file = Some (sy_name s)" by (auto simp: cache_stem_iff file_of_def)
  then show False by (simp add: cache_stem_def manifest_file_def strip_suffix_def ends_with_def)
qed

section \<open>Tier 1\<close>

lemma open_image_Inr:
  "open_image env dir n purpose b = (Inr img, b') \<Longrightarrow> only_out N b b' \<and> sb_out b' = sb_out b \<and> sb_out b n \<noteq> None"
  by (auto simp: open_image_def Let_def io_fault_only_out map_err_def dest: io_fault_keeps split: prod.splits option.splits sum.splits)

lemma write_rgba_Inr:
  "write_rgba_png_at_2x env dir n img b = (Inr u, b') \<Longrightarrow> only_out {n} b b' \<and> sb_out b' n \<noteq> None"
  by (auto simp: write_rgba_png_at_2x_def io_fault_only_out put_out_only split: prod.splits option.splits sum.splits)

lemma apply_padding_Inr:
  assumes "apply_padding env dir n spec b = (Inr u, b')"
  shows "only_out {n} b b'"
proof (cases "canvas_px spec \<le> inner_size spec * 2")
  case True
  then show ?thesis using assms by (simp add: apply_padding_def returning_def)
next
  case False
  then show ?thesis
    using assms by (auto simp: apply_padding_def Let_def elim!: and_thenE dest!: open_image_Inr write_rgba_Inr intro: only_out_trans)
qed

lemma invert_Inr:
  assumes "invert_rgb_to env dir src dst b = (Inr u, b')"
  shows "only_out {dst} b b'" and "sb_out b src \<noteq> None" and "sb_out b' dst \<noteq> None"
proof -
  obtain img b1 where o: "open_image env dir src '' for inversion: '' b = (Inr img, b1)"
    and w: "write_rgba_png_at_2x env dir dst (invert_image img) b1 = (Inr u, b')"
    using assms unfolding invert_rgb_to_def by (rule and_thenE)
  show "only_out {dst} b b'" "sb_out b src \<noteq> None" "sb_out b' dst \<noteq> None"
    using open_image_Inr [OF o, of "{dst}"] write_rgba_Inr [OF w] by (auto intro: only_out_trans)
qed

lemma write_out_Inr:
  "write_out n msg content b = (Inr u, b') \<Longrightarrow> only_out {n} b b' \<and> sb_out b' n = Some content"
  by (auto simp: write_out_def io_fault_only_out put_out_only split: prod.splits option.splits)

lemma apply_svg_Inr:
  assumes "apply_svg_postprocess dir spec info b = (Inr u, b')"
  shows "\<exists>svg. sb_out b (file_of spec ''svg'') = Some svg \<and> only_out {file_of spec ''svg''} b b'
    \<and> sb_out b' (file_of spec ''svg'') = Some (rewrite_svg_tag (recolor svg) spec info)"
proof -
  obtain f b1 where f: "io_fault b = (f, b1)" by fastforce
  obtain svg where s: "f = None" "sb_out b (file_of spec ''svg'') = Some svg"
    using assms f by (cases f; cases "sb_out b (file_of spec ''svg'')") (auto simp: apply_svg_postprocess_def Let_def)
  then obtain msg where "write_out (file_of spec ''svg'') msg (rewrite_svg_tag (recolor svg) spec info) b1 = (Inr u, b')"
    using assms f by (auto simp: apply_svg_postprocess_def Let_def)
  from write_out_Inr [OF this] show ?thesis
    using s io_fault_only_out [OF f] by (blast intro: only_out_trans)
qed

lemma finalize_Inr:
  assumes "finalize_sfsym_assets env dir spec program b = (Inr u, b')"
  shows "only_out (files spec) b b'" and "\<forall>ext \<in> set parts. sb_out b' (file_of spec ext) \<noteq> None"
    and "\<exists>svg. sb_out b (file_of spec ''svg'') = Some svg
      \<and> sb_out b' (file_of spec ''svg'') = Some (rewrite_svg_tag (recolor svg) spec (query_symbol_info env program (sy_name spec)))"
proof -
  obtain u1 b1 u2 b2 where p: "apply_padding env dir (file_of spec ''light.png'') spec b = (Inr u1, b1)"
    and i: "invert_rgb_to env dir (file_of spec ''light.png'') (file_of spec ''dark.png'') b1 = (Inr u2, b2)"
    and s: "apply_svg_postprocess dir spec (query_symbol_info env program (sy_name spec)) b2 = (Inr u, b')"
    using assms unfolding finalize_sfsym_assets_def by (elim and_thenE) auto
  note p = apply_padding_Inr [OF p]
  note i = invert_Inr [OF i]
  obtain svg where s: "sb_out b2 (file_of spec ''svg'') = Some svg" "only_out {file_of spec ''svg''} b2 b'"
    "sb_out b' (file_of spec ''svg'') = Some (rewrite_svg_tag (recolor svg) spec (query_symbol_info env program (sy_name spec)))"
    using apply_svg_Inr [OF s] by blast
  show "only_out (files spec) b b'"
    by (rule only_out_trans [OF only_out_mono [OF p] only_out_trans [OF only_out_mono [OF i(1)] only_out_mono [OF s(2)]]]) auto
  have "sb_out b' (file_of spec ''light.png'') \<noteq> None"
    using i(2) only_out_grows [OF i(1)] only_out_grows [OF s(2)] by blast
  moreover have "sb_out b' (file_of spec ''dark.png'') \<noteq> None"
    using i(3) only_out_grows [OF s(2)] by blast
  ultimately show "\<forall>ext \<in> set parts. sb_out b' (file_of spec ext) \<noteq> None"
    using s(3) by (simp add: parts_def)
  have n: "file_of spec ''svg'' \<noteq> file_of spec ''light.png''" "file_of spec ''svg'' \<noteq> file_of spec ''dark.png''"
    by (simp_all add: file_of_def)
  have "sb_out b (file_of spec ''svg'') = Some svg"
    using s(1) only_out_same [OF p] only_out_same [OF i(1)] n by simp
  with s(3) show "\<exists>svg. sb_out b (file_of spec ''svg'') = Some svg
      \<and> sb_out b' (file_of spec ''svg'') = Some (rewrite_svg_tag (recolor svg) spec (query_symbol_info env program (sy_name spec)))"
    by blast
qed

section \<open>Tiers 2 and 3\<close>

lemma restore_parts_Inr:
  assumes "restore_parts out_dir dir spec exts b = (Inr ok, b')" and "set exts \<subseteq> set parts"
  shows "only_out (files spec) b b' \<and> (\<forall>n. sb_out b n = asset b n \<longrightarrow> sb_out b' n = asset b n)
    \<and> (ok \<longrightarrow> (\<forall>ext \<in> set exts. sb_out b' (file_of spec ext) = asset b (file_of spec ext) \<and> asset b (file_of spec ext) \<noteq> None))"
  using assms
proof (induction exts arbitrary: b)
  case (Cons ext exts)
  let ?f = "file_of spec ext"
  obtain f b1 where f: "io_fault b = (f, b1)" by fastforce
  note o = io_fault_only_out [OF f, of "files spec"]
  note k = io_fault_keeps [OF f]
  show ?case
  proof (cases "f = None \<and> asset b ?f \<noteq> None")
    case False
    then have "only_out (files spec) b1 b' \<and> \<not> ok \<and> sb_out b' = sb_out b1"
      using Cons.prems(1) f
      by (cases f; cases "asset b ?f")
         (auto simp: Let_def and_then_def returning_def warning_def say_def only_out_def)
    then show ?thesis using o k by (auto intro: only_out_trans)
  next
    case True
    then obtain c where c: "asset b ?f = Some c" by blast
    have r: "restore_parts out_dir dir spec exts (put_out ?f c b1) = (Inr ok, b')"
      using Cons.prems(1) f True c by (simp add: Let_def)
    have ext: "ext \<in> set parts" "set exts \<subseteq> set parts" using Cons.prems(2) by auto
    have p: "only_out (files spec) b (put_out ?f c b1)" using o ext by (simp add: put_out_only)
    note ih = Cons.IH [OF r ext(2)]
    have a: "asset (put_out ?f c b1) = asset b" using k by simp
    have agree: "sb_out b' n = asset b n" if "sb_out b n = asset b n \<or> n = ?f" for n
      using ih that c k by (cases "n = ?f") (auto simp: a)
    show ?thesis
    proof (intro conjI)
      show "only_out (files spec) b b'" using only_out_trans [OF p] ih by blast
      show "\<forall>n. sb_out b n = asset b n \<longrightarrow> sb_out b' n = asset b n" using agree by blast
      show "ok \<longrightarrow> (\<forall>e \<in> set (ext # exts). sb_out b' (file_of spec e) = asset b (file_of spec e) \<and> asset b (file_of spec e) \<noteq> None)"
        using ih agree c k by simp
    qed
  qed
qed simp

lemma try_copy_Inr:
  assumes "try_copy_from_assets out_dir dir spec b = (Inr ok, b')"
  shows "only_out (files spec) b b'"
    and "ok \<Longrightarrow> \<forall>ext \<in> set parts. sb_out b' (file_of spec ext) = asset b (file_of spec ext) \<and> asset b (file_of spec ext) \<noteq> None"
  using assms restore_parts_Inr [of out_dir dir spec parts b ok b']
  by (auto simp: try_copy_from_assets_def split: if_splits)

lemma check_committed_only_out:
  "check_committed_asset spec manifest available b = (r, b') \<Longrightarrow> r = Inr () \<and> only_out N b b'"
  by (auto simp: check_committed_asset_def Let_def dest!: warning_only_out split: if_splits option.splits)

lemma write_lucide_variant_Inr:
  assumes "write_lucide_variant env dir svg spec (variant, color) b = (Inr u, b')"
  shows "only_out {file_of spec (variant @ ''.png'')} b b' \<and> sb_out b' (file_of spec (variant @ ''.png'')) \<noteq> None"
proof -
  let ?f = "file_of spec (variant @ ''.png'')"
  obtain png b1 where r: "(rasterize_svg_to_png env (str_replace ''currentColor'' color svg) spec, b) = (Inr png, b1)"
    and m: "and_then (write_out ?f (\<lambda>e. ''polysym: failed to write Lucide PNG '' @ path_in dir ?f @ '': '' @ e) png)
        (\<lambda>_. apply_padding env dir ?f spec) b1 = (Inr u, b')"
    using assms unfolding write_lucide_variant_def prod.case Let_def by (rule and_thenE)
  from m obtain u2 b2 where w: "write_out ?f (\<lambda>e. ''polysym: failed to write Lucide PNG '' @ path_in dir ?f @ '': '' @ e) png b1 = (Inr u2, b2)"
    and p: "apply_padding env dir ?f spec b2 = (Inr u, b')"
    by (rule and_thenE)
  show ?thesis
    using r write_out_Inr [OF w] apply_padding_Inr [OF p] only_out_grows [OF apply_padding_Inr [OF p], of ?f]
    by (auto intro: only_out_trans)
qed

lemma write_lucide_Inr:
  assumes "write_lucide_assets env dir svg spec b = (Inr u, b')"
  shows "only_out (files spec) b b' \<and> (\<forall>ext \<in> set parts. sb_out b' (file_of spec ext) \<noteq> None)"
proof -
  obtain msg u1 b1 u2 b2 where w: "write_out (file_of spec ''svg'') msg (rewrite_svg_tag svg spec None) b = (Inr u1, b1)"
    and l: "write_lucide_variant env dir svg spec (''light'', ''#000000'') b1 = (Inr u2, b2)"
    and d: "write_lucide_variant env dir svg spec (''dark'', ''#ffffff'') b2 = (Inr u, b')"
    using assms unfolding write_lucide_assets_def by (elim and_thenE) auto
  note w = write_out_Inr [OF w]
  note l = write_lucide_variant_Inr [OF l, simplified]
  note d = write_lucide_variant_Inr [OF d, simplified]
  have o: "only_out (files spec) b b1" "only_out (files spec) b1 b2" "only_out (files spec) b2 b'"
    using w l d by (auto intro: only_out_mono)
  have "sb_out b' (file_of spec ''svg'') \<noteq> None" "sb_out b' (file_of spec ''light.png'') \<noteq> None"
    "sb_out b' (file_of spec ''dark.png'') \<noteq> None"
    using w l d only_out_grows [OF o(2)] only_out_grows [OF o(3)] by blast+
  then show ?thesis using o by (simp add: parts_def) (blast intro: only_out_trans)
qed

lemma use_cached_Inr: "use_cached available manifest spec b = (Inr r, b') \<Longrightarrow> only_out N b b' \<and> r = (Cached, [])"
  unfolding use_cached_def
  by (auto elim!: and_thenE dest!: returningE warning_only_out [where N = N] check_committed_only_out [where N = N]
      intro: only_out_trans split: if_splits)

lemma use_lucide_Inr:
  assumes "use_lucide env out_dir spec icon b = (Inr r, b')"
  shows "only_out (files spec) b b' \<and> r = (Lucide, []) \<and> (\<forall>ext \<in> set parts. sb_out b' (file_of spec ext) \<noteq> None)"
proof -
  obtain svg u b1 where w: "write_lucide_assets env out_dir svg spec b = (Inr u, b1)" and o: "only_out (files spec) b1 b'"
    and r: "r = (Lucide, [])"
    using assms unfolding use_lucide_def
    by (auto elim!: and_thenE dest!: returningE warning_only_out [where N = "files spec"] simp: panic_unless_def)
  show ?thesis using write_lucide_Inr [OF w] o r only_out_grows [OF o] by (blast intro: only_out_trans)
qed

lemma omit_symbol_Inr: "omit_symbol spec b = (Inr r, b') \<Longrightarrow> only_out N b b' \<and> r = (Missing, [])"
  unfolding omit_symbol_def by (auto elim!: and_thenE dest!: returningE warning_only_out [where N = N])

lemma resolve_fallback_Inr:
  assumes "resolve_fallback env out_dir dir available manifest spec b = (Inr (res, entries), b')"
  shows "only_out (files spec) b b' \<and> entries = [] \<and> (res \<noteq> Missing \<longrightarrow> (\<forall>ext \<in> set parts. sb_out b' (file_of spec ext) \<noteq> None))"
proof -
  obtain copied b1 where c: "try_copy_from_assets out_dir dir spec b = (Inr copied, b1)"
    and r: "(if copied then use_cached available manifest spec
       else (case sy_lucide spec of Some icon \<Rightarrow> use_lucide env out_dir spec icon | None \<Rightarrow> omit_symbol spec)) b1
      = (Inr (res, entries), b')"
    using assms unfolding resolve_fallback_def by (rule and_thenE)
  note c1 = try_copy_Inr(1) [OF c]
  consider "copied" | "\<not> copied" "sy_lucide spec = None" | icon where "\<not> copied" "sy_lucide spec = Some icon" by blast
  then show ?thesis
  proof cases
    case 1
    then have "only_out (files spec) b1 b' \<and> (res, entries) = (Cached, [])" using r use_cached_Inr by simp
    then show ?thesis
      using c1 try_copy_Inr(2) [OF c 1] only_out_grows [of "files spec" b1 b'] by (metis only_out_trans prod.inject)
  next
    case 2
    then have "only_out (files spec) b1 b' \<and> (res, entries) = (Missing, [])" using r omit_symbol_Inr by simp
    then show ?thesis using c1 by (auto intro: only_out_trans)
  next
    case 3
    then have "use_lucide env out_dir spec icon b1 = (Inr (res, entries), b')" using r by simp
    from use_lucide_Inr [OF this] show ?thesis using c1 by (auto intro: only_out_trans)
  qed
qed

section \<open>The cache\<close>

text \<open>Only the cache files of \<open>N\<close> change, and the output stays.\<close>

definition only_assets :: "string set \<Rightarrow> Build \<Rightarrow> Build \<Rightarrow> bool" where
  "only_assets N b b' \<longleftrightarrow>
     (\<forall>n. n \<notin> N \<longrightarrow> asset b' n = asset b n) \<and> sb_out b' = sb_out b \<and> (sb_faults b = [] \<longrightarrow> sb_faults b' = [])"

lemma only_assets_trans: "only_assets N b b' \<Longrightarrow> only_assets N b' b'' \<Longrightarrow> only_assets N b b''"
  by (simp add: only_assets_def)

lemma only_assets_same: "sb_out b' = sb_out b \<Longrightarrow> asset b' = asset b \<Longrightarrow> (sb_faults b = [] \<Longrightarrow> sb_faults b' = []) \<Longrightarrow> only_assets N b b'"
  by (simp add: only_assets_def)

lemma warning_only_assets: "only_assets N b (snd (warning msg b))" "fst (warning msg b) = Inr ()"
  by (simp_all add: only_assets_def warning_def)

lemma mirror_parts_spec:
  assumes "mirror_parts out_dir dir spec exts b = (r, b')" and "set exts \<subseteq> set parts"
  shows "r = Inr () \<and> only_assets (files spec) b b'
    \<and> (sb_faults b = [] \<and> sb_assets b \<noteq> None \<longrightarrow>
        (\<forall>n. asset b n = sb_out b n \<longrightarrow> asset b' n = sb_out b n)
        \<and> (\<forall>ext \<in> set exts. sb_out b (file_of spec ext) \<noteq> None \<longrightarrow> asset b' (file_of spec ext) = sb_out b (file_of spec ext)))"
  using assms
proof (induction exts arbitrary: b)
  case Nil
  then show ?case by (simp add: only_assets_def)
next
  case (Cons ext exts)
  let ?f = "file_of spec ext"
  obtain f b1 where f: "io_fault b = (f, b1)" by fastforce
  note k = io_fault_keeps [OF f]
  have nf: "sb_faults b = [] \<Longrightarrow> b1 = b \<and> f = None" using f by simp
  have b1: "only_assets (files spec) b b1" using k nf by (intro only_assets_same) auto
  have ext: "ext \<in> set parts" "set exts \<subseteq> set parts" using Cons.prems(2) by auto
  show ?case
  proof (cases "f = None \<and> sb_out b ?f \<noteq> None")
    case True
    then obtain c where c: "sb_out b ?f = Some c" by blast
    let ?b2 = "put_asset ?f c b1"
    have r: "mirror_parts out_dir dir spec exts ?b2 = (r, b')"
      using Cons.prems(1) f True c by (simp add: Let_def)
    note ih = Cons.IH [OF r ext(2)]
    have b2: "only_assets (files spec) b1 ?b2" using ext(1) by (auto simp: only_assets_def asset_None)
    show ?thesis
    proof (intro conjI impI)
      show "r = Inr ()" using ih by blast
      show "only_assets (files spec) b b'" using only_assets_trans [OF b1 only_assets_trans [OF b2]] ih by blast
      assume a: "sb_faults b = [] \<and> sb_assets b \<noteq> None"
      then have g: "sb_faults ?b2 = [] \<and> sb_assets ?b2 \<noteq> None" using nf by simp
      have agree: "asset b' n = sb_out b n" if "asset b n = sb_out b n \<or> n = ?f" for n
        using ih g that c k a by (cases "n = ?f") auto
      show "\<forall>n. asset b n = sb_out b n \<longrightarrow> asset b' n = sb_out b n" using agree by blast
      show "\<forall>e \<in> set (ext # exts). sb_out b (file_of spec e) \<noteq> None \<longrightarrow> asset b' (file_of spec e) = sb_out b (file_of spec e)"
        using ih g agree k by auto
    qed
  next
    case False
    obtain msg where r: "mirror_parts out_dir dir spec exts (snd (warning msg b1)) = (r, b')"
      using Cons.prems(1) f False by (cases f; cases "sb_out b ?f") (auto simp: Let_def and_then_def warning_eq)
    note ih = Cons.IH [OF r ext(2)]
    have b2: "only_assets (files spec) b1 (snd (warning msg b1))" by (rule warning_only_assets(1))
    have e: "sb_out (snd (warning msg b1)) = sb_out b" "asset (snd (warning msg b1)) = asset b"
      "sb_assets (snd (warning msg b1)) = sb_assets b" "sb_faults (snd (warning msg b1)) = sb_faults b1"
      using k by (simp_all add: warning_def)
    show ?thesis
    proof (intro conjI impI)
      show "r = Inr ()" using ih by blast
      show "only_assets (files spec) b b'" using only_assets_trans [OF b1 only_assets_trans [OF b2]] ih by blast
      assume a: "sb_faults b = [] \<and> sb_assets b \<noteq> None"
      then have n: "sb_out b ?f = None" and g: "sb_faults b1 = []" using False nf by auto
      show "\<forall>n. asset b n = sb_out b n \<longrightarrow> asset b' n = sb_out b n" using ih a g by (simp add: e)
      show "\<forall>x \<in> set (ext # exts). sb_out b (file_of spec x) \<noteq> None \<longrightarrow> asset b' (file_of spec x) = sb_out b (file_of spec x)"
        using ih a g n by (simp add: e)
    qed
  qed
qed

lemma copy_to_assets_spec:
  assumes "copy_to_assets_dir out_dir dir spec b = (r, b')"
  shows "r = Inr () \<and> only_assets (files spec) b b'
    \<and> (sb_faults b = [] \<and> (\<forall>ext \<in> set parts. sb_out b (file_of spec ext) \<noteq> None) \<longrightarrow>
        (\<forall>ext \<in> set parts. asset b' (file_of spec ext) = sb_out b (file_of spec ext)))"
proof -
  obtain f b1 where f: "io_fault b = (f, b1)" by fastforce
  note k = io_fault_keeps [OF f]
  have nf: "sb_faults b = [] \<Longrightarrow> b1 = b \<and> f = None" using f by simp
  let ?b2 = "b1\<lparr>sb_assets := Some (unwrap_or [] (sb_assets b1))\<rparr>"
  have a: "asset ?b2 = asset b"
  proof
    fix n
    have "sb_assets b1 = sb_assets b" using k by blast
    then show "asset ?b2 n = asset b n" by (cases "sb_assets b") (simp_all add: asset_def)
  qed
  show ?thesis
  proof (cases f)
    case (Some e)
    then have "r = Inr () \<and> only_assets (files spec) b b'"
      using assms f k nf
      by (auto simp: copy_to_assets_dir_def warning_def say_def only_assets_def)
    then show ?thesis using Some nf by auto
  next
    case None
    then have m: "mirror_parts out_dir dir spec parts ?b2 = (r, b')" using assms f by (simp add: copy_to_assets_dir_def)
    note s = mirror_parts_spec [OF m order_refl]
    have "only_assets (files spec) b ?b2" using k nf a by (auto simp: only_assets_def)
    then show ?thesis using s a k nf by (auto intro: only_assets_trans)
  qed
qed

section \<open>One symbol, all symbols\<close>

definition touches :: "string set \<Rightarrow> Build \<Rightarrow> Build \<Rightarrow> bool" where
  "touches N b b' \<longleftrightarrow>
     (\<forall>n. n \<notin> N \<longrightarrow> sb_out b' n = sb_out b n \<and> asset b' n = asset b n)
     \<and> (\<forall>n. sb_out b n \<noteq> None \<longrightarrow> sb_out b' n \<noteq> None) \<and> (sb_faults b = [] \<longrightarrow> sb_faults b' = [])"

lemma touches_refl [simp]: "touches N b b"
  by (simp add: touches_def)

lemma touches_trans: "touches N b b' \<Longrightarrow> touches N b' b'' \<Longrightarrow> touches N b b''"
  by (simp add: touches_def)

lemma touches_mono: "touches M b b' \<Longrightarrow> M \<subseteq> N \<Longrightarrow> touches N b b'"
  by (auto simp: touches_def)

lemma touches_grows: "touches N b b' \<Longrightarrow> sb_out b n \<noteq> None \<Longrightarrow> sb_out b' n \<noteq> None"
  by (simp add: touches_def)

lemma touches_same: "touches N b b' \<Longrightarrow> n \<notin> N \<Longrightarrow> sb_out b' n = sb_out b n \<and> asset b' n = asset b n"
  by (simp add: touches_def)

lemma touches_faults: "touches N b b' \<Longrightarrow> sb_faults b = [] \<Longrightarrow> sb_faults b' = []"
  by (simp add: touches_def)

lemma only_out_touches: "only_out N b b' \<Longrightarrow> touches N b b'"
  using only_out_asset [of N b b'] by (simp add: only_out_def touches_def)

lemma only_assets_touches: "only_assets N b b' \<Longrightarrow> touches N b b'"
  by (simp add: only_assets_def touches_def)

lemma resolve_sf:
  assumes "resolve_symbol env out_dir dir refresh (Some program) succeeded manifest spec b = (Inr (res, entries), b')"
    and "sy_name spec \<in> set succeeded"
  shows "touches (files spec) b b'" and "res = Sf" and "\<forall>ext \<in> set parts. sb_out b' (file_of spec ext) \<noteq> None"
    and "\<exists>svg. sb_out b (file_of spec ''svg'') = Some svg
      \<and> sb_out b' (file_of spec ''svg'') = Some (rewrite_svg_tag (recolor svg) spec (query_symbol_info env program (sy_name spec)))"
    and "entries = (if refresh then [(sy_name spec, spec_signature spec)] else [])"
    and "refresh \<Longrightarrow> sb_faults b = [] \<Longrightarrow> \<forall>ext \<in> set parts. asset b' (file_of spec ext) = sb_out b' (file_of spec ext)"
proof -
  obtain u b1 where f: "finalize_sfsym_assets env out_dir spec program b = (Inr u, b1)"
    and c: "(if refresh then
        and_then (copy_to_assets_dir out_dir dir spec) (\<lambda>_. returning (Sf, [(sy_name spec, spec_signature spec)]))
      else and_then (check_committed_asset spec manifest True) (\<lambda>_. returning (Sf, []))) b1 = (Inr (res, entries), b')"
    using assms by (auto simp: resolve_symbol_def elim!: and_thenE)
  note f = finalize_Inr [OF f]
  have c': "touches (files spec) b1 b' \<and> sb_out b' = sb_out b1 \<and> res = Sf
    \<and> entries = (if refresh then [(sy_name spec, spec_signature spec)] else [])
    \<and> (refresh \<and> sb_faults b1 = [] \<longrightarrow> (\<forall>ext \<in> set parts. asset b' (file_of spec ext) = sb_out b1 (file_of spec ext)))"
  proof (cases refresh)
    case True
    then obtain r where m: "copy_to_assets_dir out_dir dir spec b1 = (r, b')" and "res = Sf" "entries = [(sy_name spec, spec_signature spec)]"
      using c by (auto elim!: and_thenE dest!: returningE)
    then show ?thesis
      using copy_to_assets_spec [OF m] f(2) True by (simp add: only_assets_touches) (simp add: only_assets_def)
  next
    case False
    then obtain r where m: "check_committed_asset spec manifest True b1 = (r, b')" and "res = Sf" "entries = []"
      using c by (auto elim!: and_thenE dest!: returningE)
    then show ?thesis
      using check_committed_only_out [OF m, of "{}"] False only_out_touches only_out_mono [of "{}" b1 b' "files spec"]
      by (auto simp: only_out_def fun_eq_iff)
  qed
  show "touches (files spec) b b'" using only_out_touches [OF f(1)] c' by (blast intro: touches_trans)
  show "res = Sf" "entries = (if refresh then [(sy_name spec, spec_signature spec)] else [])" using c' by blast+
  show "\<forall>ext \<in> set parts. sb_out b' (file_of spec ext) \<noteq> None" using f(2) c' by simp
  show "\<exists>svg. sb_out b (file_of spec ''svg'') = Some svg
      \<and> sb_out b' (file_of spec ''svg'') = Some (rewrite_svg_tag (recolor svg) spec (query_symbol_info env program (sy_name spec)))"
    using f(3) c' by simp
  show "refresh \<Longrightarrow> sb_faults b = [] \<Longrightarrow> \<forall>ext \<in> set parts. asset b' (file_of spec ext) = sb_out b' (file_of spec ext)"
    using c' f(1) by (simp add: only_out_def)
qed

lemma resolve_symbol_Inr:
  assumes "resolve_symbol env out_dir dir refresh sfsym succeeded manifest spec b = (Inr (res, entries), b')"
  shows "touches (files spec) b b' \<and> (res \<noteq> Missing \<longrightarrow> (\<forall>ext \<in> set parts. sb_out b' (file_of spec ext) \<noteq> None))"
proof (cases "\<exists>program. sfsym = Some program \<and> sy_name spec \<in> set succeeded")
  case True
  then obtain program where "sfsym = Some program" and n: "sy_name spec \<in> set succeeded" by blast
  then have "resolve_symbol env out_dir dir refresh (Some program) succeeded manifest spec b = (Inr (res, entries), b')"
    using assms by simp
  from resolve_sf(1,3) [OF this n] show ?thesis by blast
next
  case False
  then obtain available where "resolve_fallback env out_dir dir available manifest spec b = (Inr (res, entries), b')"
    using assms by (auto simp: resolve_symbol_def split: option.splits if_splits)
  from resolve_fallback_Inr [OF this] show ?thesis by (simp add: only_out_touches)
qed

lemma resolve_all_Cons:
  assumes "resolve_all env out_dir dir refresh sfsym succeeded manifest (spec # specs) b = (Inr (results, entries), b')"
  obtains res es b1 results' entries' where
    "resolve_symbol env out_dir dir refresh sfsym succeeded manifest spec b = (Inr (res, es), b1)"
    "resolve_all env out_dir dir refresh sfsym succeeded manifest specs b1 = (Inr (results', entries'), b')"
    "results = (spec, res) # results'" "entries = es @ entries'"
  using assms by (auto elim!: and_thenE dest!: returningE)

lemma resolve_all_Inr:
  assumes "resolve_all env out_dir dir refresh sfsym succeeded manifest specs b = (Inr (results, entries), b')"
  shows "touches (\<Union>spec \<in> set specs. files spec) b b' \<and> map fst results = specs
    \<and> (\<forall>(spec, res) \<in> set results. res \<noteq> Missing \<longrightarrow> (\<forall>ext \<in> set parts. sb_out b' (file_of spec ext) \<noteq> None))"
  using assms
proof (induction specs arbitrary: b results entries)
  case (Cons spec specs)
  from Cons.prems obtain res es b1 results' entries' where
    r: "resolve_symbol env out_dir dir refresh sfsym succeeded manifest spec b = (Inr (res, es), b1)"
    and rs: "resolve_all env out_dir dir refresh sfsym succeeded manifest specs b1 = (Inr (results', entries'), b')"
    and e: "results = (spec, res) # results'"
    by (rule resolve_all_Cons)
  note ih = Cons.IH [OF rs] and r = resolve_symbol_Inr [OF r]
  have t: "touches (\<Union>s \<in> set (spec # specs). files s) b b1" "touches (\<Union>s \<in> set (spec # specs). files s) b1 b'"
    using r ih by (auto intro: touches_mono)
  show ?case
    using ih r e touches_trans [OF t] touches_grows [OF t(2)] by auto
qed simp

lemma resolve_all_refreshed:
  assumes "resolve_all env out_dir dir True (Some program) succeeded manifest specs b = (Inr (results, entries), b')"
    and "sy_name ` set specs \<subseteq> set succeeded" and "sb_faults b = []"
  shows "results = map (\<lambda>spec. (spec, Sf)) specs \<and> entries = entries_of specs
    \<and> (\<forall>n. asset b n = sb_out b n \<longrightarrow> asset b' n = sb_out b' n)
    \<and> (\<forall>spec \<in> set specs. \<forall>ext \<in> set parts. asset b' (file_of spec ext) = sb_out b' (file_of spec ext) \<and> sb_out b' (file_of spec ext) \<noteq> None)"
  using assms
proof (induction specs arbitrary: b results entries)
  case Nil
  then show ?case by (simp add: entries_of_def)
next
  case (Cons spec specs)
  from Cons.prems(1) obtain res es b1 results' entries' where
    r: "resolve_symbol env out_dir dir True (Some program) succeeded manifest spec b = (Inr (res, es), b1)"
    and rs: "resolve_all env out_dir dir True (Some program) succeeded manifest specs b1 = (Inr (results', entries'), b')"
    and e: "results = (spec, res) # results'" "entries = es @ entries'"
    by (rule resolve_all_Cons)
  have n: "sy_name spec \<in> set succeeded" "sy_name ` set specs \<subseteq> set succeeded" using Cons.prems(2) by auto
  note r = resolve_sf [OF r n(1)]
  have f1: "sb_faults b1 = []" using touches_faults [OF r(1) Cons.prems(3)] .
  note ih = Cons.IH [OF rs n(2) f1] and t = resolve_all_Inr [OF rs]
  have own: "asset b1 (file_of spec ext) = sb_out b1 (file_of spec ext)" if "ext \<in> set parts" for ext
    using r(6) [OF TrueI Cons.prems(3)] that by blast
  have "asset b1 n = sb_out b1 n" if "asset b n = sb_out b n" for n
    using own that touches_same [OF r(1), of n] by (cases "n \<in> files spec") (auto simp: files_def)
  then show ?case
    using ih own r(2,3,5) e touches_grows [of _ b1 b'] t by (auto simp: entries_of_def)
qed

lemma resolve_all_kept:
  assumes "resolve_all env out_dir dir True (Some program) succeeded manifest specs b = (Inr (results, entries), b')"
    and "spec \<in> set specs" and "sy_name spec \<in> set succeeded" and "distinct (map sy_name specs)" and "sb_faults b = []"
    and "sb_out b (file_of spec ''svg'') = Some svg"
  shows "asset b' (file_of spec ''svg'') = Some (rewrite_svg_tag (recolor svg) spec (query_symbol_info env program (sy_name spec)))"
  using assms
proof (induction specs arbitrary: b results entries)
  case (Cons s specs)
  from Cons.prems(1) obtain res es b1 results' entries' where
    r: "resolve_symbol env out_dir dir True (Some program) succeeded manifest s b = (Inr (res, es), b1)"
    and rs: "resolve_all env out_dir dir True (Some program) succeeded manifest specs b1 = (Inr (results', entries'), b')"
    by (rule resolve_all_Cons)
  have t: "touches (files s) b b1" "touches (\<Union>t \<in> set specs. files t) b1 b'"
    using resolve_symbol_Inr [OF r] resolve_all_Inr [OF rs] by blast+
  show ?case
  proof (cases "s = spec")
    case True
    note sf = resolve_sf [OF r [unfolded True] Cons.prems(3)]
    have "asset b1 (file_of spec ''svg'') = Some (rewrite_svg_tag (recolor svg) spec (query_symbol_info env program (sy_name spec)))"
      using sf(4) sf(6) [OF TrueI Cons.prems(5)] Cons.prems(6) parts_in(3) by auto
    moreover have "file_of spec ''svg'' \<notin> (\<Union>t \<in> set specs. files t)"
      using Cons.prems(4) True by (auto simp: files_def file_of_inj)
    ultimately show ?thesis using touches_same [OF t(2), of "file_of spec ''svg''"] by simp
  next
    case False
    then have spec: "spec \<in> set specs" "distinct (map sy_name specs)" using Cons.prems(2,4) by auto
    have "sy_name spec \<in> sy_name ` set specs" using spec(1) by (rule imageI)
    then have other: "sy_name spec \<noteq> sy_name s" using Cons.prems(4) by (metis distinct.simps(2) list.simps(9) set_map)
    have "file_of spec ''svg'' \<notin> files s" using other by (auto simp: files_def file_of_inj)
    then have "sb_out b1 (file_of spec ''svg'') = Some svg"
      using touches_same [OF t(1), of "file_of spec ''svg''"] Cons.prems(6) by simp
    then show ?thesis using Cons.IH [OF rs spec(1) Cons.prems(3) spec(2) touches_faults [OF t(1) Cons.prems(5)]] by blast
  qed
qed simp

section \<open>The whole build\<close>

lemma say_all_eq: "\<exists>b'. say_all ls b = (Inr (), b') \<and> only_out {} b b' \<and> sb_log b' = sb_log b @ ls \<and> sb_faults b' = sb_faults b"
proof (induction ls arbitrary: b)
  case (Cons l ls)
  obtain b' where "say_all ls (b\<lparr>sb_log := sb_log b @ [l]\<rparr>) = (Inr (), b')" "only_out {} (b\<lparr>sb_log := sb_log b @ [l]\<rparr>) b'"
    "sb_log b' = (sb_log b @ [l]) @ ls" "sb_faults b' = sb_faults b"
    using Cons.IH [of "b\<lparr>sb_log := sb_log b @ [l]\<rparr>"] by auto
  then show ?case by (simp add: and_then_def say_def only_out_def)
qed simp

lemma say_all_only_out: "say_all ls b = (r, b') \<Longrightarrow> r = Inr () \<and> only_out {} b b'"
  using say_all_eq [of ls b] by auto

lemma read_manifest_only_out: "read_manifest b = (status, b') \<Longrightarrow> only_out {} b b'"
  by (auto simp: read_manifest_def io_fault_only_out split: prod.splits option.splits)

lemma assets_populated_only_out: "assets_populated b = (p, b') \<Longrightarrow> only_out {} b b'"
  by (auto simp: assets_populated_def io_fault_only_out split: prod.splits option.splits)

lemma prune_orphans_out:
  assumes "prune_orphans dir specs b = (r, b')"
  shows "r = Inr () \<and> sb_out b' = sb_out b \<and> (sb_faults b = [] \<longrightarrow> sb_faults b' = [])
    \<and> (sb_assets b' = None \<longleftrightarrow> sb_assets b = None)"
proof -
  obtain f b1 where f: "io_fault b = (f, b1)" by fastforce
  note k = io_fault_keeps [OF f]
  have nf: "sb_faults b = [] \<Longrightarrow> b1 = b \<and> f = None" using f by simp
  show ?thesis
  proof (cases "f \<noteq> None \<or> sb_assets b = None")
    case True
    then show ?thesis using assms k nf by (auto simp: prune_orphans_eq(1) [OF f])
  next
    case False
    then obtain entries where "prune_entries dir specs entries b1 = (r, b')"
      using assms prune_orphans_eq(2) [OF f] by fastforce
    from prune_entries_spec [OF this] show ?thesis using k nf by auto
  qed
qed

lemma finish_refresh_Inr:
  assumes "finish_refresh dir specs refresh entries b = (Inr u, b')"
  shows "sb_out b' = sb_out b \<and> (\<forall>spec \<in> set specs. \<forall>ext \<in> set parts. asset b' (file_of spec ext) = asset b (file_of spec ext))
    \<and> (sb_faults b = [] \<longrightarrow> sb_faults b' = [])"
proof (cases refresh)
  case True
  then obtain r b1 where p: "prune_orphans dir specs b = (r, b1)"
    and w: "(if entries \<noteq> [] then write_manifest dir entries else returning ()) b1 = (Inr u, b')"
    using assms by (auto simp: finish_refresh_def elim!: and_thenE)
  have kept: "asset b1 (file_of spec ext) = asset b (file_of spec ext)" if "spec \<in> set specs" "ext \<in> set parts" for spec ext
    using prune_orphans_keeps [OF spec_file_kept [OF that], of dir b] p by simp
  have "sb_out b' = sb_out b1 \<and> (\<forall>n. n \<noteq> manifest_file \<longrightarrow> asset b' n = asset b1 n) \<and> (sb_faults b1 = [] \<longrightarrow> sb_faults b' = [])"
  proof (cases "entries = []")
    case True
    then show ?thesis using w by (simp add: returning_def)
  next
    case False
    obtain f b2 where f: "io_fault b1 = (f, b2)" by fastforce
    have b': "b' = put_asset manifest_file (manifest_text entries) b2" "sb_assets b2 \<noteq> None"
      using w False f by (cases f; simp add: write_manifest_def Let_def split: if_splits)+
    have "sb_faults b1 = [] \<longrightarrow> sb_faults b2 = []" using f by auto
    then show ?thesis using io_fault_keeps [OF f] b'(2) by (auto simp: b'(1))
  qed
  moreover have "file_of spec ext \<noteq> manifest_file" if "ext \<in> set parts" for spec ext
    using manifest_not_file [of spec] file_of_files [OF that, of spec] by metis
  ultimately show ?thesis using prune_orphans_out [OF p] kept by simp
next
  case False
  then show ?thesis using assms by (simp add: finish_refresh_def returning_def)
qed

lemma run_batch_Inr:
  assumes "run_batch env program batch_input variant b = (r, b')"
  shows "\<exists>ok. r = Inr ok \<and> sb_out b' = snd (se_batch env program batch_input (sb_out b))
    \<and> sb_assets b' = sb_assets b \<and> sb_faults b' = sb_faults b
    \<and> (ok \<longleftrightarrow> (\<exists>err. fst (se_batch env program batch_input (sb_out b)) = Exited True err))"
  using assms
  by (cases "se_batch env program batch_input (sb_out b)")
     (auto simp: run_batch_def Let_def and_then_def returning_def warning_def say_def split: batch_outcome.splits if_splits)

text \<open>The program leaves a picture and a drawing of every symbol, and says so.\<close>

definition sfsym_renders :: "('t, 'p) symbol_env \<Rightarrow> string \<Rightarrow> SymbolSpec list \<Rightarrow> string \<Rightarrow> (string \<Rightarrow> string option) \<Rightarrow> bool" where
  "sfsym_renders env program specs out_dir fs \<longleftrightarrow>
     (case se_batch env program (build_png_batch_input specs out_dir ''light'' ''monochrome'' ''#000000'') fs of (o1, fs1) \<Rightarrow>
      (case se_batch env program (build_svg_batch_input specs out_dir) fs1 of (o2, fs2) \<Rightarrow>
        (\<exists>err. o1 = Exited True err) \<and> (\<exists>err. o2 = Exited True err)
        \<and> (\<forall>spec \<in> set specs. fs2 (file_of spec ''light.png'') \<noteq> None \<and> fs2 (file_of spec ''svg'') \<noteq> None)))"

lemma run_sfsym_Inr:
  assumes "run_sfsym_for_all env program specs out_dir b = (r, b')"
  obtains succeeded where "r = Inr succeeded" "sb_assets b' = sb_assets b" "sb_faults b' = sb_faults b"
    "sb_out b' = snd (se_batch env program (build_svg_batch_input specs out_dir)
       (snd (se_batch env program (build_png_batch_input specs out_dir ''light'' ''monochrome'' ''#000000'') (sb_out b))))"
    "sfsym_renders env program specs out_dir (sb_out b) \<Longrightarrow> sy_name ` set specs \<subseteq> set succeeded"
    "\<And>spec. \<forall>batch fs. \<exists>err. fst (se_batch env program batch fs) = Exited True err \<Longrightarrow> spec \<in> set specs
      \<Longrightarrow> sb_out b' (file_of spec ''light.png'') \<noteq> None \<Longrightarrow> sb_out b' (file_of spec ''svg'') \<noteq> None \<Longrightarrow> sy_name spec \<in> set succeeded"
proof -
  let ?png = "build_png_batch_input specs out_dir ''light'' ''monochrome'' ''#000000''"
  obtain r1 b1 where p: "run_batch env program ?png ''light PNG'' b = (r1, b1)" by fastforce
  obtain r2 b2 where s: "run_batch env program (build_svg_batch_input specs out_dir) ''SVG'' b1 = (r2, b2)" by fastforce
  obtain ok1 where p: "run_batch env program ?png ''light PNG'' b = (Inr ok1, b1)" and p': "sb_out b1 = snd (se_batch env program ?png (sb_out b))"
    "sb_assets b1 = sb_assets b" "sb_faults b1 = sb_faults b"
    "ok1 \<longleftrightarrow> (\<exists>err. fst (se_batch env program ?png (sb_out b)) = Exited True err)"
    using run_batch_Inr [OF p] p by auto
  obtain ok2 where s: "run_batch env program (build_svg_batch_input specs out_dir) ''SVG'' b1 = (Inr ok2, b2)"
    and s': "sb_out b2 = snd (se_batch env program (build_svg_batch_input specs out_dir) (sb_out b1))"
    "sb_assets b2 = sb_assets b1" "sb_faults b2 = sb_faults b1"
    "ok2 \<longleftrightarrow> (\<exists>err. fst (se_batch env program (build_svg_batch_input specs out_dir) (sb_out b1)) = Exited True err)"
    using run_batch_Inr [OF s] s by auto
  let ?good = "map sy_name (filter (\<lambda>spec. sb_out b2 (file_of spec ''light.png'') \<noteq> None \<and> sb_out b2 (file_of spec ''svg'') \<noteq> None) specs)"
  have "run_sfsym_for_all env program specs out_dir b = (Inr (if ok1 \<and> ok2 then ?good else []), b2)"
    by (simp add: run_sfsym_for_all_def and_then_def p s)
  then have e: "r = Inr (if ok1 \<and> ok2 then ?good else [])" "b' = b2" using assms by simp_all
  show ?thesis
  proof (rule that [OF e(1)])
    show "sb_assets b' = sb_assets b" "sb_faults b' = sb_faults b" using e(2) p' s' by simp_all
    show "sb_out b' = snd (se_batch env program (build_svg_batch_input specs out_dir) (snd (se_batch env program ?png (sb_out b))))"
      using e(2) p'(1) s'(1) by simp
    assume renders: "sfsym_renders env program specs out_dir (sb_out b)"
    have "ok1" "ok2" "\<forall>spec \<in> set specs. sb_out b2 (file_of spec ''light.png'') \<noteq> None \<and> sb_out b2 (file_of spec ''svg'') \<noteq> None"
      using renders unfolding sfsym_renders_def p'(4) s'(4) s'(1) p'(1) by (simp_all add: split_beta)
    then show "sy_name ` set specs \<subseteq> set (if ok1 \<and> ok2 then ?good else [])" by auto
  next
    fix spec
    assume ok: "\<forall>batch fs. \<exists>err. fst (se_batch env program batch fs) = Exited True err"
      and spec: "spec \<in> set specs" "sb_out b' (file_of spec ''light.png'') \<noteq> None" "sb_out b' (file_of spec ''svg'') \<noteq> None"
    have "ok1 \<and> ok2" unfolding p'(4) s'(4) using ok by blast
    then show "sy_name spec \<in> set (if ok1 \<and> ok2 then ?good else [])" using spec e(2) by auto
  qed
qed

lemma cache_manifest_Inr:
  assumes "cache_manifest refresh available b = (r, b')"
  shows "only_out {} b b'"
proof -
  obtain status b1 where m: "read_manifest b = (status, b1)" by fastforce
  obtain populated b2 where p: "assets_populated b1 = (populated, b2)" by fastforce
  have "only_out {} b2 b'"
    using assms m p
    by (auto simp: cache_manifest_def and_then_def returning_def warning_def say_def only_out_def split: option.splits)
  then show ?thesis using read_manifest_only_out [OF m] assets_populated_only_out [OF p] by (blast intro: only_out_trans)
qed

lemma generate_in_Inr:
  assumes "generate_in env out_dir dir valid specs b = (Inr results, b')"
  obtains b0 succeeded b1 b2 manifest entries b3 where "only_out {} b b0"
    "render_all env out_dir specs b0 = (Inr succeeded, b1)" "only_out {} b1 b2"
    "resolve_all env out_dir dir (refresh_requested env) (find_sfsym env) succeeded manifest specs b2 = (Inr (results, entries), b3)"
    "finish_refresh dir specs (refresh_requested env) entries b3 = (Inr (), b')"
    "invalid_icons valid specs = []"
  using assms unfolding generate_in_def Let_def
  by (auto elim!: and_thenE dest!: returningE say_all_only_out cache_manifest_Inr split: if_splits)

lemma generate_Inr:
  assumes "generate_with_opts env specs b = (Inr source, b')"
  obtains cargo_out manifest_dir valid b0 results b1 where
    "se_out_dir env = Some cargo_out" "se_manifest_dir env = Some manifest_dir" "se_icon_names env = Inr valid"
    "only_out {} b b0" "only_out {} b1 b'"
    "generate_in env (path_in cargo_out ''polysym'') (path_in manifest_dir ''polysym-assets'') valid specs b0 = (Inr results, b1)"
    "source = build_generated_source results (path_in cargo_out ''polysym'')"
proof -
  obtain f c0 where f: "io_fault b = (f, c0)" by fastforce
  obtain cargo_out manifest_dir where o: "se_out_dir env = Some cargo_out" "se_manifest_dir env = Some manifest_dir" "f = None"
    using assms f by (cases "se_out_dir env"; cases "se_manifest_dir env"; cases f) (auto simp: generate_with_opts_def Let_def)
  from assms f o obtain u b0 valid results b1 where
    s: "say_all (rerun_lines (path_in manifest_dir ''polysym-assets'')) c0 = (Inr u, b0)" and v: "se_icon_names env = Inr valid"
    and g: "generate_in env (path_in cargo_out ''polysym'') (path_in manifest_dir ''polysym-assets'') valid specs b0 = (Inr results, b1)"
    and e: "(case io_fault b1 of
        (Some e, b3) \<Rightarrow> (Inl (''failed to write polysym_generated.rs: '' @ e), b3)
      | (None, b3) \<Rightarrow> (Inr (build_generated_source results (path_in cargo_out ''polysym'')), b3)) = (Inr source, b')"
    by (auto simp: generate_with_opts_def Let_def panic_unless_def map_err_def elim!: and_thenE split: sum.splits)
  have z: "only_out {} b b0" using io_fault_only_out [OF f] say_all_only_out [OF s] by (blast intro: only_out_trans)
  have e': "only_out {} b1 b'" "source = build_generated_source results (path_in cargo_out ''polysym'')"
    using e by (auto split: prod.splits option.splits intro: io_fault_only_out)
  show ?thesis by (rule that [OF o(1,2) v z e'(1) g e'(2)])
qed

text \<open>
  C37: the generated source never embeds a file that is not there. When a build returns, the
  source is generated from one resolution per symbol, in order, and for each symbol that was not
  resolved as missing the two pictures and the drawing are in the output directory.
\<close>

theorem generated_files_exist:
  assumes "generate_with_opts env specs b = (Inr source, b')"
  shows "\<exists>cargo_out results. se_out_dir env = Some cargo_out
    \<and> source = build_generated_source results (path_in cargo_out ''polysym'') \<and> map fst results = specs
    \<and> (\<forall>(spec, res) \<in> set results. res \<noteq> Missing \<longrightarrow> (\<forall>ext \<in> set parts. sb_out b' (file_of spec ext) \<noteq> None))"
proof -
  obtain cargo_out manifest_dir valid b0 results b1 where d: "se_out_dir env = Some cargo_out"
    and e: "only_out {} b1 b'" and src: "source = build_generated_source results (path_in cargo_out ''polysym'')"
    and g: "generate_in env (path_in cargo_out ''polysym'') (path_in manifest_dir ''polysym-assets'') valid specs b0 = (Inr results, b1)"
    using assms by (rule generate_Inr)
  obtain succeeded c manifest entries c' where
    a: "resolve_all env (path_in cargo_out ''polysym'') (path_in manifest_dir ''polysym-assets'') (refresh_requested env) (find_sfsym env)
        succeeded manifest specs c = (Inr (results, entries), c')"
    and f: "finish_refresh (path_in manifest_dir ''polysym-assets'') specs (refresh_requested env) entries c' = (Inr (), b1)"
    using g by (rule generate_in_Inr)
  have "sb_out b' n = sb_out c' n" for n
    using finish_refresh_Inr [OF f] only_out_same [OF e, of n] by simp
  then show ?thesis using d src resolve_all_Inr [OF a] by fastforce
qed

section \<open>A refresh, then another machine\<close>

lemma only_out_empty: "only_out {} b b' \<Longrightarrow> sb_out b' = sb_out b"
  by (auto simp: only_out_def)

lemma refreshed:
  assumes "generate_with_opts env specs b = (Inr source, b')" and "refresh_requested env"
    and "find_sfsym env = Some program" and "sb_faults b = []"
    and "se_out_dir env = Some cargo_out" and "sfsym_renders env program specs (path_in cargo_out ''polysym'') (sb_out b)"
  shows "source = build_generated_source (map (\<lambda>spec. (spec, Sf)) specs) (path_in cargo_out ''polysym'')
    \<and> (\<forall>spec \<in> set specs. \<forall>ext \<in> set parts. asset b' (file_of spec ext) = sb_out b' (file_of spec ext) \<and> sb_out b' (file_of spec ext) \<noteq> None)"
proof -
  let ?out = "path_in cargo_out ''polysym''"
  obtain cargo_out' manifest_dir valid b0 results b1 where d: "se_out_dir env = Some cargo_out'"
    and o: "only_out {} b b0" "only_out {} b1 b'"
    and g: "generate_in env (path_in cargo_out' ''polysym'') (path_in manifest_dir ''polysym-assets'') valid specs b0 = (Inr results, b1)"
    and src: "source = build_generated_source results (path_in cargo_out' ''polysym'')"
    using assms(1) by (rule generate_Inr)
  have d: "cargo_out' = cargo_out" using d assms(5) by simp
  obtain c0 succeeded c1 c2 manifest entries c3 where
    r: "only_out {} b0 c0" "render_all env ?out specs c0 = (Inr succeeded, c1)" "only_out {} c1 c2"
    and a: "resolve_all env ?out (path_in manifest_dir ''polysym-assets'') (refresh_requested env) (find_sfsym env) succeeded manifest specs c2
      = (Inr (results, entries), c3)"
    and f: "finish_refresh (path_in manifest_dir ''polysym-assets'') specs (refresh_requested env) entries c3 = (Inr (), b1)"
    using g unfolding d by (rule generate_in_Inr)
  have a: "resolve_all env ?out (path_in manifest_dir ''polysym-assets'') True (Some program) succeeded manifest specs c2
      = (Inr (results, entries), c3)"
    using a assms(2,3) by simp
  have out: "sb_out c0 = sb_out b" using only_out_empty [OF o(1)] only_out_empty [OF r(1)] by simp
  have flt: "sb_faults c0 = []" using assms(4) o(1) r(1) by (simp add: only_out_def)
  have run: "run_sfsym_for_all env program specs ?out c0 = (Inr succeeded, c1)"
    using r(2) assms(3) by (simp add: render_all_def)
  have s: "sy_name ` set specs \<subseteq> set succeeded" "sb_faults c1 = []"
    by (rule run_sfsym_Inr [OF run]; use assms(6) out flt in simp)+
  have "sb_faults c2 = []" using s(2) r(3) by (simp add: only_out_def)
  note a = resolve_all_refreshed [OF a s(1) this]
  have "sb_out b' = sb_out c3" using finish_refresh_Inr [OF f] only_out_empty [OF o(2)] by simp
  moreover have "asset b' n = asset b1 n" for n using only_out_asset [OF o(2)] by simp
  ultimately show ?thesis using a src finish_refresh_Inr [OF f] by (simp add: d)
qed

lemma restore_parts_ok:
  assumes "sb_faults b = []" and "\<forall>ext \<in> set exts. asset b (file_of spec ext) \<noteq> None"
  shows "\<exists>b'. restore_parts out_dir dir spec exts b = (Inr True, b') \<and> sb_log b' = sb_log b"
  using assms
proof (induction exts arbitrary: b)
  case (Cons ext exts)
  then obtain c where c: "asset b (file_of spec ext) = Some c" by auto
  obtain b' where "restore_parts out_dir dir spec exts (put_out (file_of spec ext) c b) = (Inr True, b')" "sb_log b' = sb_log b"
    using Cons.IH [of "put_out (file_of spec ext) c b"] Cons.prems by auto
  then show ?case using Cons.prems(1) c by (simp add: Let_def)
qed simp

lemma resolve_offline:
  assumes "sb_faults b = []" and "\<forall>ext \<in> set parts. asset b (file_of spec ext) \<noteq> None"
  shows "\<exists>b'. resolve_symbol env out_dir dir refresh None succeeded manifest spec b = (Inr (Cached, []), b')
    \<and> only_out (files spec) b b' \<and> sb_log b' = sb_log b \<and> (\<forall>n. sb_out b n = asset b n \<longrightarrow> sb_out b' n = asset b n)
    \<and> (\<forall>ext \<in> set parts. sb_out b' (file_of spec ext) = asset b (file_of spec ext))"
proof -
  obtain b' where r: "restore_parts out_dir dir spec parts b = (Inr True, b')" "sb_log b' = sb_log b"
    using restore_parts_ok [OF assms] by blast
  have "try_copy_from_assets out_dir dir spec b = (Inr True, b')"
    using r(1) assms(2) by (simp add: try_copy_from_assets_def list_all_iff)
  then have "resolve_symbol env out_dir dir refresh None succeeded manifest spec b = (Inr (Cached, []), b')"
    by (simp add: resolve_symbol_def resolve_fallback_def use_cached_def and_then_def returning_def check_committed_asset_def)
  then show ?thesis using restore_parts_Inr [OF r(1)] r(2) by blast
qed

lemma resolve_all_offline:
  assumes "sb_faults b = []" and "\<forall>spec \<in> set specs. \<forall>ext \<in> set parts. asset b (file_of spec ext) \<noteq> None"
  shows "\<exists>b'. resolve_all env out_dir dir refresh None succeeded manifest specs b = (Inr (map (\<lambda>spec. (spec, Cached)) specs, []), b')
    \<and> asset b' = asset b \<and> sb_log b' = sb_log b \<and> sb_faults b' = [] \<and> (\<forall>n. sb_out b n = asset b n \<longrightarrow> sb_out b' n = asset b n)
    \<and> (\<forall>spec \<in> set specs. \<forall>ext \<in> set parts. sb_out b' (file_of spec ext) = asset b (file_of spec ext))"
  using assms
proof (induction specs arbitrary: b)
  case (Cons spec specs)
  have own: "\<forall>ext \<in> set parts. asset b (file_of spec ext) \<noteq> None" using Cons.prems(2) by simp
  obtain b1 where r: "resolve_symbol env out_dir dir refresh None succeeded manifest spec b = (Inr (Cached, []), b1)"
    and o: "only_out (files spec) b b1" and l: "sb_log b1 = sb_log b" and k: "\<forall>n. sb_out b n = asset b n \<longrightarrow> sb_out b1 n = asset b n"
    and e: "\<forall>ext \<in> set parts. sb_out b1 (file_of spec ext) = asset b (file_of spec ext)"
    using resolve_offline [OF Cons.prems(1) own] by blast
  have a: "asset b1 = asset b" and f: "sb_faults b1 = []"
    using only_out_asset [OF o] o Cons.prems(1) by (simp_all add: only_out_def)
  obtain b' where rs: "resolve_all env out_dir dir refresh None succeeded manifest specs b1 = (Inr (map (\<lambda>spec. (spec, Cached)) specs, []), b')"
    and ih: "asset b' = asset b1" "sb_log b' = sb_log b1" "sb_faults b' = []" "\<forall>n. sb_out b1 n = asset b1 n \<longrightarrow> sb_out b' n = asset b1 n"
    "\<forall>spec \<in> set specs. \<forall>ext \<in> set parts. sb_out b' (file_of spec ext) = asset b1 (file_of spec ext)"
    using Cons.IH [OF f] Cons.prems(2) a by auto
  have "resolve_all env out_dir dir refresh None succeeded manifest (spec # specs) b
      = (Inr (map (\<lambda>spec. (spec, Cached)) (spec # specs), []), b')"
    by (simp add: and_then_def r rs returning_def)
  then show ?case using ih a l k e by simp
qed simp

lemma generate_offline:
  assumes "se_out_dir env = Some cargo_out" and "se_manifest_dir env = Some manifest_dir" and "se_icon_names env = Inr valid"
    and "invalid_icons valid specs = []" and "find_sfsym env = None" and "\<not> refresh_requested env" and "sb_faults b = []"
    and "\<forall>spec \<in> set specs. \<forall>ext \<in> set parts. asset b (file_of spec ext) \<noteq> None"
  shows "\<exists>b'. generate_with_opts env specs b
      = (Inr (build_generated_source (map (\<lambda>spec. (spec, Cached)) specs) (path_in cargo_out ''polysym'')), b')
    \<and> sb_log b' = sb_log b @ rerun_lines (path_in manifest_dir ''polysym-assets'')
    \<and> (\<forall>spec \<in> set specs. \<forall>ext \<in> set parts. sb_out b' (file_of spec ext) = asset b (file_of spec ext))"
proof -
  let ?out = "path_in cargo_out ''polysym''" and ?dir = "path_in manifest_dir ''polysym-assets''"
  obtain b0 where s: "say_all (rerun_lines ?dir) b = (Inr (), b0)" "only_out {} b b0"
    "sb_log b0 = sb_log b @ rerun_lines ?dir" "sb_faults b0 = sb_faults b"
    using say_all_eq by blast
  have a0: "asset b0 = asset b" "sb_faults b0 = []" using only_out_asset [OF s(2)] s(4) assms(7) by simp_all
  define entries where "entries = (case fst (read_manifest b0) of Manifest_ok es \<Rightarrow> Some es | _ \<Rightarrow> None)"
  have m: "cache_manifest False False b0 = (Inr entries, b0)"
    using a0(2)
    by (cases "sb_assets b0"; cases "asset b0 manifest_file")
       (simp_all add: cache_manifest_def read_manifest_def assets_populated_def and_then_def returning_def entries_def)
  obtain b' where r: "resolve_all env ?out ?dir False None [] entries specs b0 = (Inr (map (\<lambda>spec. (spec, Cached)) specs, []), b')"
    and l: "sb_log b' = sb_log b0" "sb_faults b' = []"
    "\<forall>spec \<in> set specs. \<forall>ext \<in> set parts. sb_out b' (file_of spec ext) = asset b0 (file_of spec ext)"
    using resolve_all_offline [OF a0(2), of specs env ?out ?dir False "[]" entries] assms(8) a0(1) by auto
  have "generate_in env ?out ?dir valid specs b0 = (Inr (map (\<lambda>spec. (spec, Cached)) specs), b')"
    using assms(4,5,6)
    by (simp add: generate_in_def and_then_def render_all_def returning_def m r finish_refresh_def)
  then have "generate_with_opts env specs b = (Inr (build_generated_source (map (\<lambda>spec. (spec, Cached)) specs) ?out), b')"
    using assms(1,2,3,7) l(2) by (simp add: generate_with_opts_def Let_def and_then_def panic_unless_def s(1))
  then show ?thesis using l s(3) a0(1) by simp
qed

lemma same_source:
  assumes "\<forall>x \<in> set specs. f x \<noteq> Missing \<and> g x \<noteq> Missing"
  shows "build_generated_source (map (\<lambda>spec. (spec, f spec)) specs) dir = build_generated_source (map (\<lambda>spec. (spec, g spec)) specs) dir"
proof -
  have "resolved_specs (map (\<lambda>spec. (spec, h spec)) specs) = specs" if "\<forall>x \<in> set specs. h x \<noteq> Missing" for h
    using that by (induction specs) (auto simp: resolved_specs_def)
  then have "resolved_specs (map (\<lambda>spec. (spec, f spec)) specs) = resolved_specs (map (\<lambda>spec. (spec, g spec)) specs)"
    using assms by simp
  then show ?thesis by (simp add: build_generated_source_def)
qed

text \<open>
  C36: a committed cache stands in for the renderer. After a refresh on a machine where \<open>sfsym\<close>
  rendered every symbol and no file operation failed, a build of the same symbols on a machine
  without \<open>sfsym\<close>, from the committed assets and whatever its output directory holds, generates
  the same source over the same files, and prints nothing but the rerun conditions.
\<close>

theorem refresh_then_offline:
  assumes "generate_with_opts env specs b = (Inr source, b1)" and "refresh_requested env"
    and "find_sfsym env = Some program" and "sb_faults b = []"
    and "se_out_dir env = Some cargo_out" and "sfsym_renders env program specs (path_in cargo_out ''polysym'') (sb_out b)"
    and "se_manifest_dir env = Some manifest_dir" and "sb_assets b2 = sb_assets b1" and "sb_faults b2 = []"
  shows "\<exists>b3. generate_with_opts (env\<lparr>se_no_sfsym := True, se_refresh := None\<rparr>) specs b2 = (Inr source, b3)
    \<and> (\<forall>spec \<in> set specs. \<forall>ext \<in> set parts. sb_out b3 (file_of spec ext) = sb_out b1 (file_of spec ext))
    \<and> sb_log b3 = sb_log b2 @ rerun_lines (path_in manifest_dir ''polysym-assets'')"
proof -
  let ?env = "env\<lparr>se_no_sfsym := True, se_refresh := None\<rparr>"
  note r = refreshed [OF assms(1-6)]
  obtain valid where v: "se_icon_names env = Inr valid" "invalid_icons valid specs = []"
  proof -
    obtain cargo_out' manifest_dir' valid b0 results c1 where "se_icon_names env = Inr valid"
      and g: "generate_in env (path_in cargo_out' ''polysym'') (path_in manifest_dir' ''polysym-assets'') valid specs b0 = (Inr results, c1)"
      using assms(1) by (rule generate_Inr)
    moreover have "invalid_icons valid specs = []" using g by (rule generate_in_Inr)
    ultimately show ?thesis using that by blast
  qed
  have a: "asset b2 = asset b1" using assms(8) by (simp add: asset_def fun_eq_iff)
  obtain b3 where g: "generate_with_opts ?env specs b2
      = (Inr (build_generated_source (map (\<lambda>spec. (spec, Cached)) specs) (path_in cargo_out ''polysym'')), b3)"
    and l: "sb_log b3 = sb_log b2 @ rerun_lines (path_in manifest_dir ''polysym-assets'')"
    "\<forall>spec \<in> set specs. \<forall>ext \<in> set parts. sb_out b3 (file_of spec ext) = asset b2 (file_of spec ext)"
    using generate_offline [of ?env cargo_out manifest_dir valid specs b2] assms(5,7,9) v r a
    by (auto simp: find_sfsym_def refresh_requested_def)
  have "source = build_generated_source (map (\<lambda>spec. (spec, Cached)) specs) (path_in cargo_out ''polysym'')"
    using r same_source [of specs "\<lambda>_. Sf" "\<lambda>_. Cached"] by simp
  then show ?thesis using g l r a by simp
qed

text \<open>
  What is left over from earlier builds passes for the output of \<open>sfsym\<close>. When the program
  exits successfully without rendering a symbol, and a picture and a drawing of it are still in
  the output directory, say from a Lucide fallback, a refresh resolves the symbol as rendered and
  commits the old drawing to the cache.
\<close>

theorem stale_output_committed:
  assumes "generate_with_opts env specs b = (Inr source, b')" and "refresh_requested env"
    and "find_sfsym env = Some program" and "sb_faults b = []" and "distinct (map sy_name specs)"
    and "\<forall>batch fs. se_batch env program batch fs = (Exited True [], fs)"
    and "spec \<in> set specs" and "sb_out b (file_of spec ''light.png'') \<noteq> None" and "sb_out b (file_of spec ''svg'') = Some stale"
  shows "asset b' (file_of spec ''svg'')
    = Some (rewrite_svg_tag (recolor stale) spec (query_symbol_info env program (sy_name spec)))"
proof -
  obtain cargo_out manifest_dir valid b0 results b1 where o: "only_out {} b b0" "only_out {} b1 b'"
    and g: "generate_in env (path_in cargo_out ''polysym'') (path_in manifest_dir ''polysym-assets'') valid specs b0 = (Inr results, b1)"
    using assms(1) by (rule generate_Inr)
  let ?out = "path_in cargo_out ''polysym''" and ?dir = "path_in manifest_dir ''polysym-assets''"
  obtain c0 succeeded c1 c2 manifest entries c3 where
    r: "only_out {} b0 c0" "render_all env ?out specs c0 = (Inr succeeded, c1)" "only_out {} c1 c2"
    and a: "resolve_all env ?out ?dir (refresh_requested env) (find_sfsym env) succeeded manifest specs c2 = (Inr (results, entries), c3)"
    and f: "finish_refresh ?dir specs (refresh_requested env) entries c3 = (Inr (), b1)"
    using g by (rule generate_in_Inr)
  have a: "resolve_all env ?out ?dir True (Some program) succeeded manifest specs c2 = (Inr (results, entries), c3)"
    using a assms(2,3) by simp
  have out: "sb_out c0 = sb_out b" using only_out_empty [OF o(1)] only_out_empty [OF r(1)] by simp
  have flt: "sb_faults c0 = []" using assms(4) o(1) r(1) by (simp add: only_out_def)
  have run: "run_sfsym_for_all env program specs ?out c0 = (Inr succeeded, c1)"
    using r(2) assms(3) by (simp add: render_all_def)
  have s: "sy_name spec \<in> set succeeded" "sb_faults c1 = []" "sb_out c1 = sb_out b"
    by (rule run_sfsym_Inr [OF run]; use assms(6-9) out flt in simp)+
  have "sb_faults c2 = []" using s(2) r(3) by (simp add: only_out_def)
  moreover have "sb_out c2 (file_of spec ''svg'') = Some stale" using s(3) assms(9) only_out_empty [OF r(3)] by simp
  ultimately have "asset c3 (file_of spec ''svg'')
      = Some (rewrite_svg_tag (recolor stale) spec (query_symbol_info env program (sy_name spec)))"
    using resolve_all_kept [OF a assms(7) s(1) assms(5)] by blast
  then show ?thesis
    using finish_refresh_Inr [OF f] only_out_asset [OF o(2)] assms(7) parts_in(3) by simp
qed

section \<open>A small build\<close>

definition demo_env :: "(unit, unit) symbol_env" where
  "demo_env =
     \<lparr>se_out_dir = Some ''out'', se_manifest_dir = Some ''app'', se_refresh = Some ''1'', se_no_sfsym = False, se_home = None,
      se_version_ok = (\<lambda>p. True), se_exists = (\<lambda>p. False),
      se_batch = (\<lambda>p batch fs. (Exited True [], fs(''trash.light.png'' \<mapsto> ''png'', ''trash.svg'' \<mapsto> ''<svg>''))),
      se_info = (\<lambda>p name. None), se_icon_names = Inr [''trash-2''], se_icon = (\<lambda>name. Inr ''<svg>''),
      se_open = (\<lambda>content. Inr (blank_image 30 30)), se_overlay = (\<lambda>canvas src x y. canvas), se_encode = (\<lambda>img chunks. Inr ''png''),
      se_parse_svg = (\<lambda>svg. Inr ()), se_svg_dims = (\<lambda>t. (Num 24, Num 24)), se_pixmap = (\<lambda>n. Some ()), se_draw = (\<lambda>t s p. ()),
      se_encode_pixmap = (\<lambda>p. Inr ''png'')\<rparr>"

definition demo_build :: "(string \<Rightarrow> string option) \<Rightarrow> Build" where
  "demo_build fs = \<lparr>sb_out = fs, sb_assets = None, sb_log = [], sb_faults = []\<rparr>"

lemma alpha_size: "inner_size alpha_spec = 15"
  unfolding alpha_spec_def spec_new_def inner_size_def by code_simp

lemma alpha_files: "file_of alpha_spec ext = ''trash.'' @ ext"
  by (simp add: file_of_def alpha_spec_def spec_new_def)

lemma alpha_simps [simp]: "canvas_px alpha_spec = 40" "sy_name alpha_spec = ''trash''" "sy_lucide alpha_spec = None"
  by (simp_all add: canvas_px_def alpha_spec_def spec_new_def)

lemmas demo_simps =
  generate_with_opts_def generate_in_def and_then_def returning_def panic_unless_def say_def warning_def render_all_def
  run_sfsym_for_all_def run_batch_def cache_manifest_def read_manifest_def assets_populated_def resolve_symbol_def
  finalize_sfsym_assets_def apply_padding_def open_image_def write_rgba_png_at_2x_def invert_rgb_to_def apply_svg_postprocess_def
  write_out_def copy_to_assets_dir_def parts_def finish_refresh_def prune_orphans_def write_manifest_def find_sfsym_def
  refresh_requested_def rerun_lines_def invalid_icons_def Let_def alpha_size alpha_files asset_def

lemma demo_returns:
  assumes "se_batch env = (\<lambda>p batch fs. (Exited True [], upd fs))" and "env = demo_env\<lparr>se_batch := se_batch env\<rparr>"
    and "upd (upd fs) ''trash.light.png'' = Some l" and "upd (upd fs) ''trash.svg'' = Some s"
  shows "\<exists>source b'. generate_with_opts env [alpha_spec] (demo_build fs) = (Inr source, b')"
proof -
  have e: "se_out_dir env = Some ''out''" "se_manifest_dir env = Some ''app''" "se_refresh env = Some ''1''" "\<not> se_no_sfsym env"
    "se_version_ok env = (\<lambda>p. True)" "se_icon_names env = Inr [''trash-2'']" "\<And>c. se_open env c = Inr (blank_image 30 30)"
    "\<And>a c x y. se_overlay env a c x y = a" "\<And>a c. se_encode env a c = Inr ''png''"
    by (subst assms(2), simp add: demo_env_def)+
  show ?thesis
    by (simp add: demo_simps e assms(1,3,4) demo_build_def put_out_def put_asset_def List.map_filter_simps)
qed

definition rendered :: "(string \<Rightarrow> string option) \<Rightarrow> (string \<Rightarrow> string option)" where
  "rendered fs = fs(''trash.light.png'' \<mapsto> ''png'', ''trash.svg'' \<mapsto> ''<svg>'')"

lemma demo_returns_rendered: "\<exists>source b'. generate_with_opts demo_env [alpha_spec] (demo_build Map.empty) = (Inr source, b')"
  by (rule demo_returns [where upd = rendered and l = "''png''" and s = "''<svg>''"])
     (simp_all add: demo_env_def rendered_def)

theorem generated_files_exist_witness:
  "\<exists>results b'. generate_with_opts demo_env [alpha_spec] (demo_build Map.empty)
      = (Inr (build_generated_source results ''out/polysym''), b') \<and> map fst results = [alpha_spec]"
proof -
  obtain source b' where g: "generate_with_opts demo_env [alpha_spec] (demo_build Map.empty) = (Inr source, b')"
    using demo_returns_rendered by blast
  show ?thesis using generated_files_exist [OF g] g by (auto simp: demo_env_def path_in_def)
qed

theorem refresh_then_offline_witness:
  "\<exists>source b1 b3. generate_with_opts demo_env [alpha_spec] (demo_build Map.empty) = (Inr source, b1)
    \<and> generate_with_opts (demo_env\<lparr>se_no_sfsym := True, se_refresh := None\<rparr>) [alpha_spec]
        ((demo_build Map.empty)\<lparr>sb_assets := sb_assets b1\<rparr>) = (Inr source, b3)"
proof -
  obtain source b1 where g: "generate_with_opts demo_env [alpha_spec] (demo_build Map.empty) = (Inr source, b1)"
    using demo_returns_rendered by blast
  have "refresh_requested demo_env" "find_sfsym demo_env = Some ''sfsym''" "sb_faults (demo_build Map.empty) = []"
    "se_out_dir demo_env = Some ''out''" "se_manifest_dir demo_env = Some ''app''"
    by (simp_all add: refresh_requested_def demo_env_def find_sfsym_def demo_build_def)
  moreover have "sfsym_renders demo_env ''sfsym'' [alpha_spec] (path_in ''out'' ''polysym'') (sb_out (demo_build Map.empty))"
    by (simp add: sfsym_renders_def demo_env_def alpha_files)
  moreover have "sb_assets ((demo_build Map.empty)\<lparr>sb_assets := sb_assets b1\<rparr>) = sb_assets b1"
    "sb_faults ((demo_build Map.empty)\<lparr>sb_assets := sb_assets b1\<rparr>) = []" by (simp_all add: demo_build_def)
  ultimately show ?thesis using refresh_then_offline [OF g] g by blast
qed

theorem stale_output_committed_witness:
  "\<exists>source b' drawing. generate_with_opts (demo_env\<lparr>se_batch := \<lambda>p batch fs. (Exited True [], fs)\<rparr>) [alpha_spec]
      (demo_build [''trash.light.png'' \<mapsto> ''old'', ''trash.svg'' \<mapsto> ''<svg old>'']) = (Inr source, b')
    \<and> asset b' ''trash.svg'' = Some drawing \<and> drawing = rewrite_svg_tag (recolor ''<svg old>'') alpha_spec None"
proof -
  let ?env = "demo_env\<lparr>se_batch := \<lambda>p batch fs. (Exited True [], fs)\<rparr>"
  let ?fs = "[''trash.light.png'' \<mapsto> ''old'', ''trash.svg'' \<mapsto> ''<svg old>'']"
  have "\<exists>source b'. generate_with_opts ?env [alpha_spec] (demo_build ?fs) = (Inr source, b')"
    by (rule demo_returns [where upd = id and l = "''old''" and s = "''<svg old>''"]) (simp_all add: fun_eq_iff)
  then obtain source b' where g: "generate_with_opts ?env [alpha_spec] (demo_build ?fs) = (Inr source, b')" by blast
  have h: "refresh_requested ?env" "find_sfsym ?env = Some ''sfsym''" "sb_faults (demo_build ?fs) = []"
    "distinct (map sy_name [alpha_spec])" "\<forall>batch fs. se_batch ?env ''sfsym'' batch fs = (Exited True [], fs)"
    "alpha_spec \<in> set [alpha_spec]" "sb_out (demo_build ?fs) (file_of alpha_spec ''light.png'') \<noteq> None"
    "sb_out (demo_build ?fs) (file_of alpha_spec ''svg'') = Some ''<svg old>''"
    by (simp_all add: refresh_requested_def demo_env_def find_sfsym_def demo_build_def alpha_files)
  have "query_symbol_info ?env ''sfsym'' (sy_name alpha_spec) = None" by (simp add: query_symbol_info_def demo_env_def)
  then show ?thesis using stale_output_committed [OF g h] g by (simp add: alpha_files)
qed

end
