(* ===== verification/Spec2Isabelle.thy ===== *)
theory Spec2Isabelle
  imports Reducer Reconcile Echo MemoryQueue SqliteQueue FileQueue Registry Edge Push DbManager Refresh Kvs Realtime Storage Polylog Accounts Replicas Interleave MemoryRemote SymbolCache
begin

text \<open>
  A verification development for the polykit workspace, its sync engine first
  (\<open>crates/polybase\<close>, \<open>crates/polybase-sqlite\<close>, \<open>crates/tauri-plugin-polybase\<close>), then its logger
  (\<open>crates/polylog\<close>) and its symbol generator (\<open>crates/polysym-build\<close>, \<open>crates/polysym\<close>).

  The program. An application writes records through a coordinator. The coordinator encrypts the
  flagged columns and adds the owner (\<open>registry\<close>, \<open>encryption\<close>), stores the row in a local mirror
  (\<open>persistence\<close>, \<open>store\<close>, one database per user: \<open>manager\<close>), marks the echo tracker (\<open>echo\<close>)
  and sends the row to the server by PostgREST (\<open>push\<close>) or by an Edge function (\<open>edge\<close>). A write
  that fails for a passing reason goes to an offline queue (in memory, in SQLite or in a file); a
  reducer says when to replay it. A reconcile plan compares the versions of both sides. Sessions
  (\<open>auth\<close>) carry the tokens and refresh them. A realtime subscription (\<open>realtime\<close>) delivers the
  changes of other devices, and blobs go to a bucket (\<open>storage\<close>). The key-value store (\<open>kvs\<close>) is a client of the
  coordinator. Everything is announced on a bus (\<open>events\<close>). The symbol generator is a build script of
  its own: it renders the symbols an application names with \<open>sfsym\<close> where that is installed, keeps the
  pictures in a cache that is committed, falls back to that cache and then to Lucide icons where it is
  not, and writes a module with one method per symbol.

  Theories, in the order of their imports.
  \<^item> \<open>Prelude\<close>, \<open>Strings\<close>, \<open>Json\<close>: machine integers, results, strings as UTF-8 bytes, the JSON
    values of \<open>serde_json\<close> with the codec as a parameter whose law is \<open>codec_ok\<close>: what was printed is
    parsed back, for values without floats that nest at most 127 levels (the parser stops at 128 and
    rounds floats); and a concrete codec that satisfies it.
  \<^item> \<open>Contract\<close> (\<open>contract.rs\<close>): versions, keys, reconcile decisions, queue finalisation.
  \<^item> \<open>Reducer\<close>, \<open>Reconcile\<close>, \<open>Echo\<close> (\<open>sync/reducer.rs\<close>, \<open>sync/reconcile.rs\<close>, \<open>sync/echo.rs\<close>): each a
    state with its operations; the reducer also as a protocol with its host.
  \<^item> \<open>Errors\<close>, \<open>Events\<close>: the error types with their texts and classes; the events.
  \<^item> \<open>OfflineQueue\<close> states the queue trait as a locale (\<open>offline_queue\<close>, extended by
    \<open>retrying_queue\<close>) with the theorems every queue has; \<open>MemoryQueue\<close>, \<open>SqliteQueue\<close>, \<open>FileQueue\<close>
    model the three implementations and interpret it.
  \<^item> \<open>Encryption\<close>, \<open>Registry\<close>: ciphertext formats and keys over abstract ciphers; entity
    configurations, the mapping and serialisation of records, schema validation.
  \<^item> \<open>Http\<close>, \<open>Edge\<close>, \<open>Push\<close>: requests, URLs, the network as a server function with a trace of
    marks and requests; Edge calls; upserts, tombstones, reads, the remote reader and writer. \<open>MemoryRemote\<close> holds the traits of
    \<open>sync/remote.rs\<close> and their in-memory doubles; the locale \<open>remote_reader\<close> is interpreted on the
    memory reader and on the live one.
  \<^item> \<open>DbManager\<close>: the per-user databases.
  \<^item> \<open>LocalStore\<close> states the mirror trait as a locale; \<open>SqliteStore\<close> models the SQLite mirror,
    statement by statement, and interprets it.
  \<^item> \<open>Auth\<close>, \<open>Refresh\<close>: the session store, and its calls as interleaved tasks with the two locks
    they hold across awaits.
  \<^item> \<open>Coordinator\<close> proves what a write or deletion guarantees over any mirror and any queue (locale
    \<open>coordinator_queue\<close>, extended by \<open>coordinator\<close> with what a queue that retries adds); \<open>Sync\<close>
    interprets it on the SQLite mirror and queue. \<open>Replicas\<close> composes two of them: what another device
    keeps of a row, what an echo does, and two contents of one version. \<open>Interleave\<close> cuts the write calls
    at their awaits and runs any number of them over one coordinator (a step relation and schedules); its
    locale \<open>coordinator_rows\<close> asks of the queue only that an enqueue leaves other rows alone, which every
    \<open>coordinator\<close> gives (a sublocale) and the file-backed queue too. \<open>Accounts\<close> is the installation the README describes, the
    SQLite mirror with the file-backed queue, across sign-outs and changes of user.
  \<^item> \<open>Kvs\<close>: the key-value store over that installation.
  \<^item> \<open>Realtime\<close> (\<open>realtime/mod.rs\<close>): the supervisor as a function of what each round of its loop is
    answered, a connection as the state its read, write, heartbeat and liveness tasks share.
  \<^item> \<open>Storage\<close> (\<open>storage.rs\<close>): the requests of one bucket, with encryption on the way.
  \<^item> \<open>Commands\<close> (\<open>tauri-plugin-polybase\<close>: \<open>commands.rs\<close>, \<open>events.rs\<close>, \<open>session_store.rs\<close>): the runtime
    handle with the objects it shares, every command, the tasks spawned to switch the mirror (a
    step relation: they run in any order) and the forwarding of events.
  \<^item> \<open>Clean\<close>, \<open>Polylog\<close> (\<open>crates/polylog\<close>): the parser that cleans debug-formatted fields, with its
    termination; levels, target overrides, the two layers, the installation, what an installed logger
    writes for an event, and \<open>catch\<close>.
  \<^item> \<open>Floats\<close>: \<open>f32\<close> and \<open>f64\<close>. \<open>Symbols\<close> (\<open>crates/polysym-build/src/lib.rs\<close>): specifications, the
    manifest and the cache; \<open>SvgTag\<close>: the rewriting of the \<open>svg\<close> tag; \<open>SymbolBuild\<close>: pictures, the
    three tiers, the generated source, the whole build, the runtime type of \<open>crates/polysym\<close>;
    \<open>SymbolCache\<close>: what a build leaves behind.

  What is shown. For the pure parts: exact characterisations (when a reducer step schedules, which bucket of a
  reconcile plan an id is in, what finalisation keeps, how a response is classified). For the stores:
  an abstract view (a map from keys to operations or rows) that every operation refines, on
  success and on every failure. For the composition: an acknowledged write is in the mirror, and the
  server answered it with a success, or turned it down as a mutation of the version it has (it is then neither at
  the server nor queued), or it is queued with the payload that was sent; an acknowledged deletion
  marks the row, if the mirror has it, and was answered with a success or is queued, but a deletion made online leaves
  the write of the row that is still queued; the network is reached only after the mirror and the echo tracker; a
  deleted key reads as absent; the previous user's directory is wiped, while a pending write outlives
  its user; a row has one form in the mirror of the device that wrote it and another in that of the
  next; a late echo of an own write is applied over a newer one. A replay keeps what other tasks enqueue meanwhile, unless it
  has the very time of the entry it replaced. The echo tracker answers for the last mark since the last clear. What a
  download gives is stated for every answer of the service. Under any interleaving, calls for
  different rows keep their guarantees, while of two overlapping writes of one row the newer can be lost. A
  write of the queue file that is cut short loses what was pending. For the sessions: single
  flight, and the states in which the store hangs. For the subscriber: the sessions it announces,
  what it delivers, when a heartbeat times out. For the plugin: what configuring again keeps, what
  no command does without a session, and the order in which mirrors may be switched. For the logger: that cleaning inverts the debug
  form of every JSON value, which override decides, and that it is installed once. For the symbol
  generator: that the committed cache stands in for the renderer, that every file the generated
  module includes exists, that the manifest round trips, that rewriting the text of the tag is
  rewriting its attributes, and that sizes follow the padding and stay
  inside the canvas. Each property with a hypothesis has a witness
  on a small installation.

  Conventions. A \<open>Result\<close> is \<open>'e + 'a\<close>; \<open>i64\<close> and \<open>u32\<close> are words, compared as signed or unsigned and
  wrapping as the release profile does; mutable state is passed explicitly; a \<open>dyn\<close> trait is a record
  of functions; the answers of a server, a clock, a cipher or a file system are arguments, and
  everything that can fail has a list of faults to come. Instants and durations are numbers. Floats
  are rationals rounded after each operation (to the nearest even, in the format's range), with
  infinities and NaN; the sign of a zero is not kept. Whatever
  is stored as JSON text and read back is bounded: \<open>record_ok\<close> asks of a record that it holds no float and
  nests at most 124 levels, three below the parser's limit, as the queue file wraps it in a list, an
  operation and a kind; a value of the key-value store has one level less. The directories of a build are flat maps from
  file names to contents, and their text files hold UTF-8. There is no
  fuel: every loop is structural or proved to end by the length of what remains, and calls that
  can wait for ever are step relations.

  Not modelled. Atomicity: every operation except those of \<open>Refresh\<close> (cut at its awaits; the tail of
  \<open>perform_refresh\<close> after the new session is stored is one step), the writes and deletions of
  \<open>Interleave\<close> (a request with its answer is one step) and the SQLite finalisation (split
  between its read and its transaction) is one step. SQL is modelled as SQLite documents the
  statements used, for tables without triggers, foreign keys and generated columns, with names
  compared exactly; the capacity of the broadcast channels is not. The socket
  library is the frames it hands over. The plugin builder only registers the commands. The renderers,
  the image codec and the SVG parser are functions of the environment, and a build is taken to be
  alone in its directories.
\<close>

end
